(* ===== verification/JsBase.thy ===== *)
theory JsBase
  imports
    Complex_Main
    "HOL-Library.AList"
    "HOL-Library.Char_ord"
    "HOL-Library.List_Lexorder"
begin

text \<open>
  Shared vocabulary of the development: the pieces of the TypeScript language and of its
  standard library that the modelled files use.

  \<^item> Numbers. A JavaScript number is \<open>NaN\<close>, one of the two infinities, or a finite value; the
    finite values are exact rationals here (no rounding), which is the one idealisation the
    development makes about arithmetic. Fields whose finiteness the code tests
    (\<open>Number.isFinite\<close>) have type \<open>jsnum\<close>; clock values and counters the code never
    tests are plain \<open>rat\<close> or \<open>int\<close>.
  \<^item> Strings are lists of Latin-1 code units; \<open>trim\<close> and \<open>split(/\\s+/)\<close> use the white
    space characters of that range.
  \<^item> Objects used as dictionaries and \<open>Map\<close>s are association lists with distinct keys, in
    insertion order; \<open>Set\<close>s are duplicate-free lists in insertion order.
  \<^item> Dynamic values (\<open>unknown\<close>) are the type \<open>jsval\<close>.

  The last section states the contract every reducer of the program has (a step function that
  keeps an invariant, possibly moving a measure upwards) as two locales; the components
  interpret them.
\<close>

named_theorems js_unfold \<open>definitions of small helpers, unfolded by the component proofs\<close>
named_theorems js_mono \<open>monotonicity facts of state components\<close>

section \<open>Numbers\<close>

datatype jsnum = NaN | PInf | NInf | Fin rat

fun is_finite :: "jsnum \<Rightarrow> bool" where
  "is_finite (Fin _) = True"
| "is_finite _ = False"

text \<open>\<open>a <= b\<close>: every comparison with \<open>NaN\<close> is false.\<close>

fun jn_le :: "jsnum \<Rightarrow> jsnum \<Rightarrow> bool" where
  "jn_le NaN _ = False"
| "jn_le _ NaN = False"
| "jn_le NInf _ = True"
| "jn_le _ PInf = True"
| "jn_le PInf _ = False"
| "jn_le _ NInf = False"
| "jn_le (Fin a) (Fin b) = (a \<le> b)"

text \<open>\<open>Math.max\<close>: \<open>NaN\<close> is contagious.\<close>

fun jn_max :: "jsnum \<Rightarrow> jsnum \<Rightarrow> jsnum" where
  "jn_max NaN _ = NaN"
| "jn_max _ NaN = NaN"
| "jn_max a b = (if jn_le a b then b else a)"

text \<open>\<open>typeof v === 'number' && Number.isFinite(v) ? v : null\<close>, for an optional field.\<close>

fun finite_num :: "jsnum option \<Rightarrow> rat option" where
  "finite_num (Some (Fin r)) = Some r"
| "finite_num _ = None"

definition math_trunc :: "rat \<Rightarrow> int" where
  "math_trunc r = (if r < 0 then - floor (- r) else floor r)"

lemma math_trunc_of_int [simp]: "math_trunc (of_int i) = i"
  by (simp add: math_trunc_def flip: of_int_minus)

lemma math_trunc_nonneg: "0 \<le> r \<Longrightarrow> 0 \<le> math_trunc r"
  by (simp add: math_trunc_def)

lemma math_trunc_le: "0 \<le> r \<Longrightarrow> of_int (math_trunc r) \<le> r"
  by (simp add: math_trunc_def)

lemma math_trunc_ge: "of_int n \<le> r \<Longrightarrow> n \<le> math_trunc r"
proof (cases "r < 0")
  case True
  assume "of_int n \<le> r"
  with True have "of_int n < (0::rat)" and "- r \<le> of_int (- n)" by simp_all
  then have "floor (- r) \<le> - n" by (metis floor_mono floor_of_int)
  with True show ?thesis by (simp add: math_trunc_def)
next
  case False
  assume "of_int n \<le> r"
  with False show ?thesis by (simp add: math_trunc_def le_floor_iff)
qed

lemma finite_num_eq_Some: "finite_num x = Some r \<longleftrightarrow> x = Some (Fin r)"
  by (cases x rule: finite_num.cases) auto

lemma jn_le_Fin_max [simp]: "jn_max (Fin a) (Fin b) = Fin (max a b)"
  by (simp add: max_def)

section \<open>Strings\<close>

definition js_ws :: "char \<Rightarrow> bool" where
  "js_ws c \<longleftrightarrow> of_char c \<in> {9, 10, 11, 12, 13, 32, 160 :: nat}"

definition trim :: "string \<Rightarrow> string" where
  "trim s = rev (dropWhile js_ws (rev (dropWhile js_ws s)))"

fun starts_with :: "string \<Rightarrow> string \<Rightarrow> bool" where
  "starts_with s [] = True"
| "starts_with [] (_ # _) = False"
| "starts_with (c # s) (p # ps) = (c = p \<and> starts_with s ps)"

text \<open>\<open>s.split(/\\s+/)\<close>.\<close>

function split_ws :: "string \<Rightarrow> string list" where
  "split_ws s =
     (let w = takeWhile (\<lambda>c. \<not> js_ws c) s; r = dropWhile (\<lambda>c. \<not> js_ws c) s
      in if r = [] then [w] else w # split_ws (dropWhile js_ws r))"
  by pat_completeness auto
termination
proof (relation "measure length", goal_cases)
  case 1
  show ?case by simp
next
  case (2 s w r)
  then obtain c r' where r: "r = c # r'" and c: "js_ws c"
    by (metis dropWhile_eq_Cons_conv list.exhaust)
  have "length (dropWhile js_ws r) < length r"
    using c r by (simp add: le_imp_less_Suc length_dropWhile_le)
  moreover have "length r \<le> length s"
    using 2(2) by (simp add: length_dropWhile_le)
  ultimately show ?case by simp
qed

declare split_ws.simps [simp del]

fun join :: "string \<Rightarrow> string list \<Rightarrow> string" where
  "join sep [] = []"
| "join sep [x] = x"
| "join sep (x # y # ys) = x @ sep @ join sep (y # ys)"

fun digits_of :: "nat \<Rightarrow> nat list" where
  "digits_of n = (if n < 10 then [n] else digits_of (n div 10) @ [n mod 10])"

declare digits_of.simps [simp del]

definition string_of_nat :: "nat \<Rightarrow> string" where
  "string_of_nat n = map (\<lambda>d. char_of (48 + d)) (digits_of n)"

definition string_of_int :: "int \<Rightarrow> string" where
  "string_of_int i = (if i < 0 then ''-'' @ string_of_nat (nat (- i)) else string_of_nat (nat i))"

text \<open>\<open>typeof s === 'string' && s.trim() ? s.trim() : null\<close>.\<close>

definition trim_or_none :: "string \<Rightarrow> string option" where
  "trim_or_none s = (if trim s = [] then None else Some (trim s))"

lemma starts_with_iff: "starts_with s p \<longleftrightarrow> (\<exists>r. s = p @ r)"
  by (induction s p rule: starts_with.induct) auto

lemma trim_Nil [simp]: "trim [] = []"
  by (simp add: trim_def)

lemma dropWhile_idem [simp]: "dropWhile P (dropWhile P xs) = dropWhile P xs"
  by (induction xs) auto

lemma dropWhile_rev_dropWhile:
  assumes "dropWhile P xs = xs"
  shows "dropWhile P (rev (dropWhile P (rev xs))) = rev (dropWhile P (rev xs))"
proof (cases "rev (dropWhile P (rev xs))")
  case Nil
  then show ?thesis by (simp only: rev_is_Nil_conv dropWhile.simps rev.simps)
next
  case (Cons a as)
  have "rev xs = takeWhile P (rev xs) @ dropWhile P (rev xs)" by simp
  then have "xs = rev (dropWhile P (rev xs)) @ rev (takeWhile P (rev xs))"
    by (metis rev_append rev_rev_ident)
  with Cons have "xs = a # (as @ rev (takeWhile P (rev xs)))" by simp
  with assms have "\<not> P a"
    by (metis dropWhile_eq_Cons_conv)
  with Cons show ?thesis by simp
qed

lemma trim_trim [simp]: "trim (trim s) = trim s"
  by (simp add: trim_def dropWhile_rev_dropWhile)

lemma trim_or_none_Some: "trim_or_none s = Some t \<Longrightarrow> t = trim s \<and> t \<noteq> [] \<and> trim t = t"
  by (auto simp: trim_or_none_def split: if_splits)

lemma find_SomeD: "List.find P xs = Some x \<Longrightarrow> x \<in> set xs \<and> P x"
  by (induction xs) (auto split: if_splits)

section \<open>Optional values\<close>

text \<open>\<open>a ?? b ?? c\<close> with a nullable and with a definite last operand.\<close>

fun first_some :: "'a option list \<Rightarrow> 'a option" where
  "first_some [] = None"
| "first_some (None # xs) = first_some xs"
| "first_some (Some a # xs) = Some a"

definition some_or :: "'a \<Rightarrow> 'a option \<Rightarrow> 'a" where
  "some_or d x = (case x of None \<Rightarrow> d | Some v \<Rightarrow> v)"

lemma some_or_simps [simp]: "some_or d None = d" "some_or d (Some v) = v"
  by (simp_all add: some_or_def)

lemma first_some_append: "first_some (xs @ ys) = (case first_some xs of None \<Rightarrow> first_some ys | Some a \<Rightarrow> Some a)"
  by (induction xs rule: first_some.induct) auto

section \<open>Numbers as text\<close>

text \<open>
  \<open>String(x)\<close> for a finite number: the decimal digits of the value, with up to 17 fractional
  ones. (Magnitudes that JavaScript prints with an exponent are not distinguished.)
\<close>

fun fraction_digits :: "nat \<Rightarrow> rat \<Rightarrow> string" where
  "fraction_digits 0 f = []"
| "fraction_digits (Suc n) f =
     (if f = 0 then []
      else char_of (48 + nat (floor (10 * f))) # fraction_digits n (10 * f - of_int (floor (10 * f))))"

definition number_text :: "rat \<Rightarrow> string" where
  "number_text r =
     (let a = abs r; i = floor a; f = a - of_int i
      in (if r < 0 then ''-'' else []) @ string_of_nat (nat i)
         @ (if f = 0 then [] else ''.'' @ fraction_digits 17 f))"

text \<open>
  \<open>Number(s)\<close>: white space around a decimal literal with optional sign, fraction and exponent;
  the empty text is 0, \<open>Infinity\<close> is a number and anything else is \<open>NaN\<close>. (The
  \<open>0x\<close>, \<open>0o\<close> and \<open>0b\<close> literals are not distinguished from other words.)
\<close>

definition is_digit :: "char \<Rightarrow> bool" where
  "is_digit c \<longleftrightarrow> CHR ''0'' \<le> c \<and> c \<le> CHR ''9''"

definition digits_value :: "string \<Rightarrow> int" where
  "digits_value ds = foldl (\<lambda>n c. 10 * n + (of_char c - 48)) 0 ds"

fun parse_sign :: "string \<Rightarrow> int \<times> string" where
  "parse_sign (c # cs) = (if c = CHR ''-'' then (-1, cs) else if c = CHR ''+'' then (1, cs) else (1, c # cs))"
| "parse_sign [] = (1, [])"

definition parse_exponent :: "string \<Rightarrow> int option" where
  "parse_exponent s =
     (case s of [] \<Rightarrow> Some 0
      | c # cs \<Rightarrow>
          if c \<noteq> CHR ''e'' \<and> c \<noteq> CHR ''E'' then None
          else case parse_sign cs of
              (sg, ds) \<Rightarrow> if ds \<noteq> [] \<and> list_all is_digit ds then Some (sg * digits_value ds) else None)"

definition ten_to :: "int \<Rightarrow> rat" where
  "ten_to e = (if 0 \<le> e then 10 ^ nat e else 1 / 10 ^ nat (- e))"

definition parse_decimal :: "string \<Rightarrow> rat option" where
  "parse_decimal s =
     (let whole = takeWhile is_digit s; r = dropWhile is_digit s;
          dot = starts_with r ''.'';
          frac = (if dot then takeWhile is_digit (tl r) else []);
          rest = (if dot then dropWhile is_digit (tl r) else r)
      in if whole = [] \<and> frac = [] then None
         else case parse_exponent rest of
             None \<Rightarrow> None
           | Some e \<Rightarrow> Some (of_int (digits_value (whole @ frac)) * ten_to (e - int (length frac))))"

definition js_number :: "string \<Rightarrow> jsnum" where
  "js_number s =
     (if trim s = [] then Fin 0
      else case parse_sign (trim s) of
        (sg, t) \<Rightarrow>
          if t = ''Infinity'' then (if sg = 1 then PInf else NInf)
          else (case parse_decimal t of None \<Rightarrow> NaN | Some r \<Rightarrow> Fin (of_int sg * r)))"

lemma digits_range: "d \<in> set (digits_of n) \<Longrightarrow> d < 10"
  by (induction n rule: digits_of.induct) (subst (asm) digits_of.simps, auto split: if_splits)

lemma digit_not_ws: "d < (10::nat) \<Longrightarrow> \<not> js_ws (char_of (48 + d))"
proof -
  assume "d < 10"
  then have "d \<in> set [0..<10]" by simp
  moreover have "list_all (\<lambda>d. \<not> js_ws (char_of (48 + d :: nat))) [0..<10]" by code_simp
  ultimately show ?thesis by (simp add: list_all_iff)
qed

lemma string_of_nat_nonempty [simp]: "string_of_nat n \<noteq> []"
  by (simp add: string_of_nat_def) (subst digits_of.simps, simp)

lemma string_of_nat_not_ws: "\<forall>c \<in> set (string_of_nat n). \<not> js_ws c"
  using digits_range digit_not_ws by (fastforce simp: string_of_nat_def)

lemma trim_string_of_nat [simp]: "trim (string_of_nat n) = string_of_nat n"
proof -
  have id: "dropWhile js_ws xs = xs" if "\<forall>c \<in> set xs. \<not> js_ws c" for xs using that by (cases xs) auto
  show ?thesis using id [of "string_of_nat n"] id [of "rev (string_of_nat n)"] string_of_nat_not_ws [of n]
    by (simp add: trim_def)
qed

lemma is_digit_digit: "d < (10::nat) \<Longrightarrow> is_digit (char_of (48 + d)) \<and> of_char (char_of (48 + d) :: char) = (48 + int d)"
proof -
  assume "d < 10"
  then have "d \<in> set [0..<10]" by simp
  moreover have "list_all (\<lambda>d. is_digit (char_of (48 + d :: nat)) \<and> of_char (char_of (48 + d) :: char) = (48 + int d)) [0..<10]"
    by code_simp
  ultimately show ?thesis by (simp add: list_all_iff)
qed

lemma string_of_nat_digits: "\<forall>c \<in> set (string_of_nat n). is_digit c"
  using digits_range is_digit_digit by (fastforce simp: string_of_nat_def)

lemma digits_value_snoc: "digits_value (ds @ [c]) = 10 * digits_value ds + (of_char c - 48)"
  by (simp add: digits_value_def)

lemma digits_value_string_of_nat [simp]: "digits_value (string_of_nat n) = int n"
proof (induction n rule: digits_of.induct)
  case (1 n)
  show ?case
  proof (cases "n < 10")
    case True
    then show ?thesis using is_digit_digit [of n]
      by (simp add: string_of_nat_def digits_of.simps [of n] digits_value_def)
  next
    case False
    then have "string_of_nat n = string_of_nat (n div 10) @ [char_of (48 + n mod 10)]"
      by (simp add: string_of_nat_def digits_of.simps [of n])
    then show ?thesis using 1 [OF False] is_digit_digit [of "n mod 10"]
      by (simp add: digits_value_snoc) presburger?
  qed
qed

lemma js_number_string_of_nat [simp]: "js_number (string_of_nat n) = Fin (of_nat n)"
proof -
  obtain c cs where c: "string_of_nat n = c # cs" by (cases "string_of_nat n") simp_all
  then have dig: "is_digit c" "\<forall>d \<in> set cs. is_digit d" using string_of_nat_digits [of n] by simp_all
  have no: "\<not> is_digit CHR ''-''" "\<not> is_digit CHR ''+''" "\<not> is_digit CHR ''I''" by code_simp+
  have sign: "parse_sign (string_of_nat n) = (1, string_of_nat n)" using c dig(1) no by auto
  have inf: "string_of_nat n \<noteq> ''Infinity''" using c dig(1) no(3) by auto
  have all: "takeWhile is_digit (string_of_nat n) = string_of_nat n" "dropWhile is_digit (string_of_nat n) = []"
    using string_of_nat_digits [of n] by (simp_all add: takeWhile_eq_all_conv)
  have "parse_decimal (string_of_nat n) = Some (of_nat n)"
    by (simp add: parse_decimal_def parse_exponent_def ten_to_def Let_def all)
  then show ?thesis using sign inf by (simp add: js_number_def)
qed

text \<open>\<open>toLowerCase\<close> on the letters the code compares with.\<close>

definition lower_char :: "char \<Rightarrow> char" where
  "lower_char c = (if CHR ''A'' \<le> c \<and> c \<le> CHR ''Z'' then char_of (of_char c + (32::nat)) else c)"

definition to_lower :: "string \<Rightarrow> string" where
  "to_lower s = map lower_char s"

section \<open>Sets and objects in insertion order\<close>

definition oset_add :: "'a \<Rightarrow> 'a list \<Rightarrow> 'a list" where
  "oset_add x xs = (if x \<in> set xs then xs else xs @ [x])"

text \<open>\<open>new Set([...])\<close>: the first occurrence of each element, in order.\<close>

definition oset_adds :: "'a list \<Rightarrow> 'a list \<Rightarrow> 'a list" where
  "oset_adds xs ys = foldl (\<lambda>acc y. oset_add y acc) xs ys"

abbreviation oset_of :: "'a list \<Rightarrow> 'a list" where
  "oset_of ys \<equiv> oset_adds [] ys"

abbreviation obj_keys :: "('k \<times> 'v) list \<Rightarrow> 'k list" where
  "obj_keys m \<equiv> map fst m"

text \<open>A well-formed object has each key once.\<close>

definition obj_wf :: "('k \<times> 'v) list \<Rightarrow> bool" where
  "obj_wf m \<longleftrightarrow> distinct (obj_keys m)"

lemma set_oset_add [simp]: "set (oset_add x xs) = insert x (set xs)"
  by (auto simp: oset_add_def)

lemma distinct_oset_add [simp]: "distinct (oset_add x xs) \<longleftrightarrow> distinct xs"
  by (auto simp: oset_add_def)

lemma set_oset_adds [simp]: "set (oset_adds xs ys) = set xs \<union> set ys"
  by (induction ys arbitrary: xs) (auto simp: oset_adds_def)

lemma distinct_oset_adds [simp]: "distinct (oset_adds xs ys) \<longleftrightarrow> distinct xs"
  by (induction ys arbitrary: xs) (auto simp: oset_adds_def)

lemma oset_adds_prefix: "\<exists>zs. oset_adds xs ys = xs @ zs"
proof (induction ys arbitrary: xs)
  case Nil
  then show ?case by (simp add: oset_adds_def)
next
  case (Cons y ys)
  obtain zs where "oset_adds (oset_add y xs) ys = oset_add y xs @ zs"
    using Cons.IH by blast
  then show ?case
    by (auto simp: oset_adds_def oset_add_def split: if_splits)
qed

lemma obj_wf_Nil [simp]: "obj_wf []"
  by (simp add: obj_wf_def)

lemma obj_wf_update [simp]: "obj_wf m \<Longrightarrow> obj_wf (AList.update k v m)"
  by (simp add: obj_wf_def distinct_update)

lemma obj_wf_delete [simp]: "obj_wf m \<Longrightarrow> obj_wf (AList.delete k m)"
  by (simp add: obj_wf_def distinct_delete)

lemma obj_wf_filter [simp]: "obj_wf m \<Longrightarrow> obj_wf (filter P m)"
  by (simp add: obj_wf_def distinct_map_filter)

lemma obj_keys_update: "obj_keys (AList.update k v m) = (if k \<in> set (obj_keys m) then obj_keys m else obj_keys m @ [k])"
  by (simp add: update_keys)

section \<open>Sorting by a comparator\<close>

text \<open>
  \<open>xs.sort(cmp)\<close>: JavaScript's sort is stable, so for a consistent comparator its result is
  the one of insertion. For an inconsistent comparator the language leaves the order to the host; the
  properties hold for consistent ones or for the elements a result has, whatever their order. The comparators of the program rest on \<open>localeCompare\<close>, which depends on
  the host and is a parameter \<open>lc\<close> of the definitions that use it.
\<close>

fun js_insert :: "('a \<Rightarrow> 'a \<Rightarrow> rat) \<Rightarrow> 'a \<Rightarrow> 'a list \<Rightarrow> 'a list" where
  "js_insert cmp x [] = [x]"
| "js_insert cmp x (y # ys) = (if cmp x y \<le> 0 then x # y # ys else y # js_insert cmp x ys)"

primrec js_sort :: "('a \<Rightarrow> 'a \<Rightarrow> rat) \<Rightarrow> 'a list \<Rightarrow> 'a list" where
  "js_sort cmp [] = []"
| "js_sort cmp (x # xs) = js_insert cmp x (js_sort cmp xs)"

text \<open>\<open>a || b\<close> on two comparison results.\<close>

definition cmp_or :: "rat \<Rightarrow> rat \<Rightarrow> rat" where
  "cmp_or a b = (if a \<noteq> 0 then a else b)"

definition code_unit_compare :: "string \<Rightarrow> string \<Rightarrow> rat" where
  "code_unit_compare a b = (if a < b then -1 else if a = b then 0 else 1)"

lemma set_js_insert [simp]: "set (js_insert cmp x ys) = insert x (set ys)"
  by (induction ys) auto

lemma set_js_sort [simp]: "set (js_sort cmp xs) = set xs"
  by (induction xs) auto

lemma length_js_insert [simp]: "length (js_insert cmp x ys) = Suc (length ys)"
  by (induction ys) auto

lemma length_js_sort [simp]: "length (js_sort cmp xs) = length xs"
  by (induction xs) auto

lemma distinct_map_js_insert [simp]:
  "distinct (map f (js_insert cmp x ys)) \<longleftrightarrow> f x \<notin> f ` set ys \<and> distinct (map f ys)"
  by (induction ys) auto

lemma distinct_map_js_sort [simp]: "distinct (map f (js_sort cmp xs)) \<longleftrightarrow> distinct (map f xs)"
  by (induction xs) auto

text \<open>What a comparator promises: a total preorder.\<close>

locale comparator =
  fixes cmp :: "'a \<Rightarrow> 'a \<Rightarrow> rat"
  assumes cmp_anti: "0 < cmp x y \<longleftrightarrow> cmp y x < 0"
    and cmp_trans: "cmp x y \<le> 0 \<Longrightarrow> cmp y z \<le> 0 \<Longrightarrow> cmp x z \<le> 0"
begin

lemma cmp_refl: "cmp x x = 0"
  using cmp_anti [of x x] by linarith

lemma cmp_zero_sym: "cmp x y = 0 \<longleftrightarrow> cmp y x = 0"
  using cmp_anti [of x y] cmp_anti [of y x] by linarith

lemma cmp_total: "\<not> cmp x y \<le> 0 \<Longrightarrow> cmp y x \<le> 0"
  using cmp_anti [of x y] by linarith

lemma cmp_less_trans:
  assumes "cmp x y \<le> 0" and "cmp y z \<le> 0" and "cmp x y < 0 \<or> cmp y z < 0"
  shows "cmp x z < 0"
proof (rule ccontr)
  assume "\<not> cmp x z < 0"
  with cmp_trans [OF assms(1,2)] have "cmp x z = 0" by simp
  then have "cmp z x \<le> 0" using cmp_zero_sym [of x z] by simp
  then have "cmp y x \<le> 0" "cmp z y \<le> 0"
    using assms(1,2) cmp_trans [of y z x] cmp_trans [of z x y] by blast+
  with assms(3) cmp_anti [of y x] cmp_anti [of z y] show False by linarith
qed

lemma sorted_js_insert:
  "sorted_wrt (\<lambda>a b. cmp a b \<le> 0) ys \<Longrightarrow> sorted_wrt (\<lambda>a b. cmp a b \<le> 0) (js_insert cmp x ys)"
  by (induction ys) (auto intro: cmp_trans cmp_total)

lemma sorted_js_sort: "sorted_wrt (\<lambda>a b. cmp a b \<le> 0) (js_sort cmp xs)"
  by (induction xs) (auto intro: sorted_js_insert)

lemma hd_js_sort_least: "x \<in> set xs \<Longrightarrow> cmp (hd (js_sort cmp xs)) x \<le> 0"
proof -
  assume "x \<in> set xs"
  then have "x \<in> set (js_sort cmp xs)" by simp
  then obtain y ys where "js_sort cmp xs = y # ys" by (cases "js_sort cmp xs") auto
  then show ?thesis
    using sorted_js_sort [of xs] \<open>x \<in> set (js_sort cmp xs)\<close> by (auto simp: cmp_refl)
qed

text \<open>The first element a test accepts is a least one among those it accepts.\<close>

lemma find_js_sort_least:
  assumes "List.find P (js_sort cmp xs) = Some y" and "x \<in> set xs" and "P x"
  shows "cmp y x \<le> 0"
proof -
  obtain i where i: "i < length (js_sort cmp xs)" "P y" "y = js_sort cmp xs ! i"
    "\<forall>j<i. \<not> P (js_sort cmp xs ! j)"
    using assms(1) by (auto simp: find_Some_iff)
  obtain k where k: "k < length (js_sort cmp xs)" "x = js_sort cmp xs ! k"
    using assms(2) set_js_sort in_set_conv_nth by metis
  have "i \<le> k" using i(4) k(2) assms(3) by (meson not_less)
  then show ?thesis
    using sorted_js_sort [of xs] i k by (cases "i = k") (auto simp: cmp_refl sorted_wrt_iff_nth_less)
qed

end

interpretation code_units: comparator code_unit_compare
  by unfold_locales (auto simp: code_unit_compare_def split: if_splits)

lemma comparator_or:
  assumes "comparator c" and "comparator d"
  shows "comparator (\<lambda>x y. cmp_or (c x y) (d x y))"
proof
  fix x y z
  show "0 < cmp_or (c x y) (d x y) \<longleftrightarrow> cmp_or (c y x) (d y x) < 0"
    using comparator.cmp_anti [OF assms(1), of x y] comparator.cmp_anti [OF assms(2), of x y]
      comparator.cmp_zero_sym [OF assms(1), of x y]
    by (auto simp: cmp_or_def)
  assume "cmp_or (c x y) (d x y) \<le> 0" and "cmp_or (c y z) (d y z) \<le> 0"
  then have le: "c x y \<le> 0" "c y z \<le> 0"
    and tie: "c x y = 0 \<Longrightarrow> d x y \<le> 0" "c y z = 0 \<Longrightarrow> d y z \<le> 0"
    by (auto simp: cmp_or_def split: if_splits)
  have "c x z < 0 \<or> (c x y = 0 \<and> c y z = 0)"
    using comparator.cmp_less_trans [OF assms(1) le] le by linarith
  then show "cmp_or (c x z) (d x z) \<le> 0"
    using comparator.cmp_trans [OF assms(1) le] comparator.cmp_trans [OF assms(2) tie]
    by (auto simp: cmp_or_def)
qed

lemma comparator_key: "comparator c \<Longrightarrow> comparator (\<lambda>x y. c (f x) (f y))"
  by (auto simp: comparator_def)

lemma comparator_minus: "comparator (\<lambda>x y. f x - f y)"
  by unfold_locales auto

section \<open>Dynamic values\<close>

datatype jsval =
    JUndef
  | JNull
  | JBool bool
  | JNum jsnum
  | JStr string
  | JArr "jsval list"
  | JObj "(string \<times> jsval) list"

text \<open>\<open>!!v && typeof v === 'object' && !Array.isArray(v)\<close>.\<close>

fun is_record :: "jsval \<Rightarrow> bool" where
  "is_record (JObj _) = True"
| "is_record _ = False"

text \<open>\<open>v == null\<close>.\<close>

fun nullish :: "jsval \<Rightarrow> bool" where
  "nullish JUndef = True"
| "nullish JNull = True"
| "nullish _ = False"

text \<open>Reading a property: a missing one is \<open>undefined\<close>.\<close>

definition fields_get :: "(string \<times> jsval) list \<Rightarrow> string \<Rightarrow> jsval" where
  "fields_get m k = (case map_of m k of None \<Rightarrow> JUndef | Some v \<Rightarrow> v)"

fun prop_get :: "jsval \<Rightarrow> string \<Rightarrow> jsval" where
  "prop_get (JObj m) k = fields_get m k"
| "prop_get _ _ = JUndef"

section \<open>Reducers\<close>

text \<open>
  The contract of a reducer: a total step function that keeps an invariant of the state. The
  client of a reducer folds it over a list of events.
\<close>

locale reducer =
  fixes step :: "'s \<Rightarrow> 'e \<Rightarrow> 's"
    and inv :: "'s \<Rightarrow> bool"
  assumes step_inv: "inv s \<Longrightarrow> inv (step s e)"
begin

lemma run_inv: "inv s \<Longrightarrow> inv (foldl step s es)"
  by (induction es arbitrary: s) (auto intro: step_inv)

lemma run_prefix_inv: "inv s \<Longrightarrow> inv (foldl step s (take n es))"
  by (rule run_inv)

end

text \<open>
  A monotone reducer moreover never moves a measure of the state downwards (a version, a set of
  recorded facts, a high-water mark).
\<close>

locale monotone_reducer = reducer step inv
  for step :: "'s \<Rightarrow> 'e \<Rightarrow> 's" and inv :: "'s \<Rightarrow> bool" +
  fixes mark :: "'s \<Rightarrow> 'm :: preorder"
  assumes step_mono: "inv s \<Longrightarrow> mark s \<le> mark (step s e)"
begin

lemma run_mono: "inv s \<Longrightarrow> mark s \<le> mark (foldl step s es)"
proof (induction es arbitrary: s)
  case Nil
  then show ?case by simp
next
  case (Cons e es)
  have "mark s \<le> mark (step s e)" using Cons.prems by (rule step_mono)
  also have "\<dots> \<le> mark (foldl step (step s e) es)"
    using Cons.IH [OF step_inv [OF Cons.prems]] .
  finally show ?case by simp
qed

lemma run_append_mono: "inv s \<Longrightarrow> mark (foldl step s es) \<le> mark (foldl step s (es @ fs))"
  using run_mono [OF run_inv] by simp

end

end
