(* ===== verification/ManagedConnection.thy ===== *)
theory ManagedConnection
  imports JsBase
begin

text \<open>
  The vocabulary the two connection supervisors of \<open>packages/connection-supervisor\<close> share:
  the connection state (\<open>managedConnectionTypes.ts\<close>), the reason derivation
  (\<open>managedConnectionEvents.ts\<close>), the default policy
  (\<open>defaultManagedConnectionPolicy.ts\<close>) and the exponential backoff with jitter
  (\<open>reconnectBackoff.ts\<close>). The locale \<open>retry_delays\<close> is the contract the supervisors rely
  on when they schedule a retry; it is interpreted on the backoff of any policy.
\<close>

section \<open>States, probes and policies\<close>

datatype conn_phase = Idle | Connecting | Online | Offline | AuthFailed | ShuttingDown

datatype conn_reason =
    InitialConnect | TransportDisconnect | ServerUnreachable | ServerRestarting | AuthInvalid
  | IntentionalShutdown | RuntimeMissing | ProbeFailed | ManualDisconnect

record conn_state =
  phase :: conn_phase
  reason :: "conn_reason option"
  attempt :: int
  nextRetryAt :: "rat option"
  lastConnectedAt :: "rat option"
  lastDisconnectedAt :: "rat option"
  lastErrorMessage :: "string option"

text \<open>
  A thrown or emitted value: an \<open>Error\<close> with its message, or another value with its truthiness
  and its \<open>String(...)\<close>.
\<close>

datatype thrown = ErrorObj string | OtherValue bool string

fun thrown_message :: "thrown \<Rightarrow> string" where
  "thrown_message (ErrorObj m) = m"
| "thrown_message (OtherValue _ s) = s"

record disconnect_event =
  intentional :: bool
  dis_reason :: "string option"
  dis_error :: "thrown option"

datatype probe_result =
    Ready
  | Unreachable "string option"
  | ProbeAuthFailed "int option" "string option"
  | RetryLater "jsnum option" "string option"

record timing_policy =
  initialFastRetryDelayMs :: rat
  maxFastRetries :: jsnum
  backoffMinMs :: rat
  backoffMaxMs :: rat
  jitterRatio :: rat

definition DEFAULT_MANAGED_CONNECTION_POLICY :: timing_policy where
  "DEFAULT_MANAGED_CONNECTION_POLICY =
     \<lparr>initialFastRetryDelayMs = 250, maxFastRetries = Fin 1, backoffMinMs = 1000,
      backoffMaxMs = 60000, jitterRatio = 1 / 5\<rparr>"

definition initialState :: conn_state where
  "initialState =
     \<lparr>phase = Idle, reason = None, attempt = 0, nextRetryAt = None, lastConnectedAt = None,
      lastDisconnectedAt = None, lastErrorMessage = None\<rparr>"

fun readProbeErrorMessage :: "probe_result option \<Rightarrow> string option \<Rightarrow> string option" where
  "readProbeErrorMessage (Some (Unreachable (Some m))) _ = Some m"
| "readProbeErrorMessage (Some (ProbeAuthFailed _ (Some m))) _ = Some m"
| "readProbeErrorMessage (Some (RetryLater _ (Some m))) _ = Some m"
| "readProbeErrorMessage _ fallback = fallback"

fun is_auth_failed :: "probe_result \<Rightarrow> bool" where
  "is_auth_failed (ProbeAuthFailed _ _) = True"
| "is_auth_failed _ = False"

definition deriveManagedConnectionReason ::
    "disconnect_event option \<Rightarrow> probe_result option \<Rightarrow> bool \<Rightarrow> conn_reason" where
  "deriveManagedConnectionReason ev probe initial =
     (if initial then InitialConnect
      else if (case ev of Some e \<Rightarrow> intentional e | None \<Rightarrow> False) then ManualDisconnect
      else (case probe of
          Some (ProbeAuthFailed _ _) \<Rightarrow> AuthInvalid
        | Some (Unreachable _) \<Rightarrow> ServerUnreachable
        | Some (RetryLater _ _) \<Rightarrow> ProbeFailed
        | _ \<Rightarrow> TransportDisconnect))"

text \<open>
  \<open>probe.status === 'retry_later' && typeof probe.retryAfterMs === 'number' &&
  Number.isFinite(probe.retryAfterMs) ? Math.max(1, probe.retryAfterMs)\<close>, the first alternative
  of every delay computed from a probe.
\<close>

fun probe_retry_after :: "probe_result \<Rightarrow> rat option" where
  "probe_retry_after (RetryLater ms _) = map_option (max 1) (finite_num ms)"
| "probe_retry_after _ = None"

definition probe_delay :: "probe_result \<Rightarrow> rat \<Rightarrow> rat" where
  "probe_delay p otherwise =
     (case probe_retry_after p of Some q \<Rightarrow> q | None \<Rightarrow> otherwise)"

section \<open>Backoff\<close>

text \<open>The undisturbed delay: the clamped minimum doubled per attempt, saturating at the maximum.\<close>

definition backoff_base :: "rat \<Rightarrow> rat \<Rightarrow> rat \<Rightarrow> int" where
  "backoff_base attempt0 min0 max0 =
     (let attempt = max 1 (math_trunc attempt0);
          minMs = max 1 (math_trunc min0);
          maxMs = max minMs (math_trunc max0)
      in min maxMs (minMs * 2 ^ nat (max 0 (attempt - 1))))"

definition jitter_factor :: "rat \<Rightarrow> rat \<Rightarrow> rat" where
  "jitter_factor jitter random =
     (let normalized = min 1 (max 0 random) in (1 - jitter) + normalized * (2 * jitter))"

definition computeManagedConnectionBackoffMs :: "rat \<Rightarrow> rat \<Rightarrow> rat \<Rightarrow> rat \<Rightarrow> rat \<Rightarrow> int" where
  "computeManagedConnectionBackoffMs attempt0 min0 max0 jitter0 random =
     (let jitter = min 1 (max 0 jitter0);
          baseMs = backoff_base attempt0 min0 max0
      in if jitter = 0 then baseMs
         else max 1 (math_trunc (of_int baseMs * jitter_factor jitter random)))"

text \<open>The largest delay a policy can produce: the clamped maximum, stretched by the jitter.\<close>

definition backoff_cap :: "rat \<Rightarrow> rat \<Rightarrow> rat \<Rightarrow> rat" where
  "backoff_cap min0 max0 jitter0 =
     of_int (max (max 1 (math_trunc min0)) (math_trunc max0)) * (1 + min 1 (max 0 jitter0))"

definition policy_backoff :: "timing_policy \<Rightarrow> int \<Rightarrow> rat \<Rightarrow> rat" where
  "policy_backoff p a random =
     of_int (computeManagedConnectionBackoffMs (of_int a) (backoffMinMs p) (backoffMaxMs p)
               (jitterRatio p) random)"

definition policy_cap :: "timing_policy \<Rightarrow> rat" where
  "policy_cap p = backoff_cap (backoffMinMs p) (backoffMaxMs p) (jitterRatio p)"

lemma backoff_base_bounds:
  "max 1 (math_trunc mn) \<le> backoff_base a mn mx"
  "backoff_base a mn mx \<le> max (max 1 (math_trunc mn)) (math_trunc mx)"
proof -
  define m where "m = max 1 (math_trunc mn)"
  define k where "k = nat (max 0 (max 1 (math_trunc a) - 1))"
  have "m * 1 \<le> m * 2 ^ k" by (intro mult_left_mono) (simp_all add: m_def)
  then have "m \<le> min (max m (math_trunc mx)) (m * 2 ^ k)" by simp
  then show "max 1 (math_trunc mn) \<le> backoff_base a mn mx"
    unfolding backoff_base_def Let_def m_def k_def .
qed (simp add: backoff_base_def Let_def)

lemma backoff_base_ge_1: "1 \<le> backoff_base a mn mx"
  using backoff_base_bounds(1) [of mn a mx] by linarith

lemma backoff_base_mono:
  assumes "a \<le> b"
  shows "backoff_base (of_int a) mn mx \<le> backoff_base (of_int b) mn mx"
proof -
  define m where "m = max 1 (math_trunc mn)"
  have "(2::int) ^ nat (max 0 (max 1 a - 1)) \<le> 2 ^ nat (max 0 (max 1 b - 1))"
    using assms by (intro power_increasing) auto
  then have "m * 2 ^ nat (max 0 (max 1 a - 1)) \<le> m * 2 ^ nat (max 0 (max 1 b - 1))"
    by (intro mult_left_mono) (simp_all add: m_def)
  then show ?thesis
    unfolding backoff_base_def Let_def math_trunc_of_int m_def [symmetric] by linarith
qed

lemma jitter_factor_bounds:
  assumes "0 \<le> j" and "j \<le> 1"
  shows "0 \<le> jitter_factor j r" and "jitter_factor j r \<le> 1 + j"
proof -
  define n where "n = min 1 (max 0 r)"
  have n: "0 \<le> n" "n \<le> 1" by (simp_all add: n_def)
  have "0 \<le> n * (2 * j)" using n assms by simp
  then show "0 \<le> jitter_factor j r" using assms by (simp add: jitter_factor_def Let_def n_def)
  have "n * (2 * j) \<le> 1 * (2 * j)" using n assms by (intro mult_right_mono) auto
  then show "jitter_factor j r \<le> 1 + j" by (simp add: jitter_factor_def Let_def n_def)
qed

lemma backoff_ge_1: "1 \<le> computeManagedConnectionBackoffMs a mn mx j r"
  by (simp add: computeManagedConnectionBackoffMs_def Let_def backoff_base_ge_1)

lemma backoff_le_cap:
  "of_int (computeManagedConnectionBackoffMs a mn mx j r) \<le> backoff_cap mn mx j"
proof -
  define top where "top = max (max 1 (math_trunc mn)) (math_trunc mx)"
  define jj where "jj = min 1 (max 0 j)"
  define base where "base = backoff_base a mn mx"
  have base: "1 \<le> base" "base \<le> top"
    using backoff_base_ge_1 backoff_base_bounds(2) by (simp_all add: base_def top_def)
  have jj: "0 \<le> jj" "jj \<le> 1" by (simp_all add: jj_def)
  have f: "0 \<le> jitter_factor jj r" "jitter_factor jj r \<le> 1 + jj"
    using jitter_factor_bounds [OF jj] by simp_all
  have one: "1 * 1 \<le> of_int top * (1 + jj)" using base jj by (intro mult_mono) auto
  have prod: "of_int base * jitter_factor jj r \<le> of_int top * (1 + jj)"
    using base f by (intro mult_mono) auto
  have "of_int (math_trunc (of_int base * jitter_factor jj r)) \<le> of_int base * jitter_factor jj r"
    using base f by (intro math_trunc_le) simp
  then have "of_int (max 1 (math_trunc (of_int base * jitter_factor jj r))) \<le> of_int top * (1 + jj)"
    using prod one by (simp add: max_def)
  moreover have "of_int base \<le> of_int top * (1 + 0 :: rat)" using base by simp
  ultimately show ?thesis
    unfolding computeManagedConnectionBackoffMs_def backoff_cap_def Let_def
      jj_def [symmetric] base_def [symmetric] top_def [symmetric]
    by (cases "jj = 0") (simp_all only: if_True if_False simp_thms refl)
qed

section \<open>The interface of the schedulers\<close>

text \<open>
  What a supervisor needs from a backoff function: the delay of every attempt is at least one
  millisecond and never exceeds the cap of the policy, whatever the random source returns.
\<close>

locale retry_delays =
  fixes delay :: "int \<Rightarrow> rat \<Rightarrow> rat"
    and cap :: rat
  assumes delay_ge_1: "1 \<le> delay a r"
    and delay_le_cap: "delay a r \<le> cap"
begin

lemma cap_ge_1: "1 \<le> cap"
  using delay_ge_1 [of 0 0] delay_le_cap [of 0 0] by simp

lemma retry_window: "now + 1 \<le> now + delay a r \<and> now + delay a r \<le> now + cap"
  using delay_ge_1 [of a r] delay_le_cap [of a r] by simp

text \<open>The delay every scheduler chooses: an explicit request, the fast retry, or the backoff.\<close>

lemma chosen_delay_window:
  assumes "d = (case req of Some q \<Rightarrow> q | None \<Rightarrow> if fast then max 0 f else delay a r)"
    and "\<And>q. req = Some q \<Longrightarrow> 1 \<le> q"
  shows "0 \<le> d \<and> (req = None \<longrightarrow> d \<le> max f cap)"
  using assms cap_ge_1 delay_ge_1 [of a r] delay_le_cap [of a r]
  by (auto split: option.splits simp: max_def)

end

interpretation backoff: retry_delays "policy_backoff p" "policy_cap p" for p
  by unfold_locales (auto simp: policy_backoff_def policy_cap_def backoff_ge_1 backoff_le_cap)

lemma probe_retry_after_ge_1: "probe_retry_after p = Some q \<Longrightarrow> 1 \<le> q"
  by (cases p) auto

lemma probe_delay_nonneg: "0 \<le> d \<Longrightarrow> 0 \<le> probe_delay p d"
  using probe_retry_after_ge_1 [of p]
  by (auto simp: probe_delay_def split: option.split intro: order_trans [of _ 1])

lemma policy_backoff_nonneg: "0 \<le> policy_backoff p a rnd"
  using backoff.delay_ge_1 [of p a rnd] by simp

section \<open>Properties of the backoff\<close>

text \<open>C32: For every attempt, policy and value of the random source, the reconnect delay is at
  least 1 ms and at most the clamped maximum delay stretched by the clamped jitter ratio; and
  with the jitter switched off it lies between the clamped minimum and the clamped maximum.\<close>

theorem backoff_bounds:
  "1 \<le> computeManagedConnectionBackoffMs a mn mx j r
   \<and> of_int (computeManagedConnectionBackoffMs a mn mx j r) \<le> backoff_cap mn mx j
   \<and> (max 1 (math_trunc mn) \<le> computeManagedConnectionBackoffMs a mn mx 0 r
      \<and> computeManagedConnectionBackoffMs a mn mx 0 r
          \<le> max (max 1 (math_trunc mn)) (math_trunc mx))"
proof (intro conjI)
  have "computeManagedConnectionBackoffMs a mn mx 0 r = backoff_base a mn mx"
    by (simp add: computeManagedConnectionBackoffMs_def)
  then show "max 1 (math_trunc mn) \<le> computeManagedConnectionBackoffMs a mn mx 0 r"
    and "computeManagedConnectionBackoffMs a mn mx 0 r
          \<le> max (max 1 (math_trunc mn)) (math_trunc mx)"
    using backoff_base_bounds by simp_all
qed (rule backoff_ge_1 backoff_le_cap)+

text \<open>For a fixed policy and a fixed draw of the random source, a later attempt never waits
  less than an earlier one.\<close>

theorem backoff_monotone:
  assumes "a \<le> b"
  shows "computeManagedConnectionBackoffMs (of_int a) mn mx j r
       \<le> computeManagedConnectionBackoffMs (of_int b) mn mx j r"
proof -
  define jj where "jj = min 1 (max 0 j)"
  have jj: "0 \<le> jj" "jj \<le> 1" by (simp_all add: jj_def)
  note le = backoff_base_mono [OF assms, of mn mx]
  have f: "0 \<le> jitter_factor jj r" by (rule jitter_factor_bounds(1) [OF jj])
  have "of_int (backoff_base (of_int a) mn mx) * jitter_factor jj r
      \<le> of_int (backoff_base (of_int b) mn mx) * jitter_factor jj r"
    using le f by (intro mult_right_mono) auto
  moreover have "0 \<le> of_int (backoff_base (of_int a) mn mx) * jitter_factor jj r"
    using backoff_base_ge_1 [of "of_int a" mn mx] f by simp
  ultimately have "math_trunc (of_int (backoff_base (of_int a) mn mx) * jitter_factor jj r)
      \<le> math_trunc (of_int (backoff_base (of_int b) mn mx) * jitter_factor jj r)"
    by (simp add: math_trunc_def floor_mono)
  then show ?thesis
    using le unfolding computeManagedConnectionBackoffMs_def Let_def jj_def [symmetric]
    by (cases "jj = 0") auto
qed

theorem backoff_monotone_witness:
  "computeManagedConnectionBackoffMs 2 1000 60000 (1 / 5) (1 / 2) = 2000
   \<and> computeManagedConnectionBackoffMs 2 1000 60000 (1 / 5) (1 / 2)
       \<le> computeManagedConnectionBackoffMs 4 1000 60000 (1 / 5) (1 / 2)"
proof
  show "computeManagedConnectionBackoffMs 2 1000 60000 (1 / 5) (1 / 2) = 2000" by code_simp
  show "computeManagedConnectionBackoffMs 2 1000 60000 (1 / 5) (1 / 2)
      \<le> computeManagedConnectionBackoffMs 4 1000 60000 (1 / 5) (1 / 2)"
    using backoff_monotone [of 2 4 1000 60000 "1 / 5" "1 / 2"] by simp
qed

end
