(* ===== verification/ConnSupervisor.thy ===== *)
theory ConnSupervisor
  imports ManagedConnection "HOL-Library.Multiset"
begin

text \<open>
  The transport supervisor of
  \<open>packages/connection-supervisor/src/createManagedConnectionSupervisor.ts\<close>.

  The closure's variables are the record \<open>sup\<close>. Every \<open>async\<close> function is cut at its
  \<open>await\<close>s: the code before an \<open>await\<close> runs as one step, the code after it is a pending
  continuation (\<open>cont\<close>), and a step \<open>EvResume\<close> resumes any pending continuation with
  the answer of what it waits for. Promises may therefore settle in any order. The other events
  are the calls of the public interface, the retry timer and the callbacks of the transports.
  The clock and \<open>Math.random()\<close> are arguments of the events that read them. The transport, the
  probe and the callbacks of the configuration are not in the repository's package: their
  results are arguments of the events, and what the supervisor tells them is the list
  \<open>calls\<close>. The callbacks are taken to return without calling the supervisor again.
\<close>

section \<open>State\<close>

record conn_config = timing_policy +
  probeBeforeInitialConnect :: bool
  classifyTransportErrorToProbeResult :: "thrown \<Rightarrow> probe_result option"

text \<open>The three listeners one call of \<open>establishConnection\<close> attaches to its transport.\<close>

record listener =
  transport_id :: nat
  localGeneration :: nat
  initial :: bool
  params_attempt :: int

text \<open>
  What an \<open>async\<close> call still has to do. The optional number is the \<open>start()\<close> promise the
  call belongs to.
\<close>

datatype cont =
    EstAfterCleanup nat bool int "nat option"
  | EstAfterProbe nat bool int "nat option"
  | EstAfterConnect nat "nat option"
  | EstAfterAuthFailed "nat option"
  | ExtAfterCleanup nat probe_result "nat option"
  | ProbeReturned nat int
  | BeforeReconnectReturned nat int
  | AfterOnDisconnected nat int bool
  | StartSettled nat

text \<open>What the awaited promise delivers: the probe rejects into \<open>Threw\<close>.\<close>

datatype answer = Done | Probed probe_result | Threw thrown

datatype conn_call =
    StateChange conn_state
  | OnConnected
  | OnDisconnected disconnect_event
  | OnAuthFailed probe_result
  | OnBeforeReconnect int

record sup =
  state :: conn_state
  currentTransport :: "nat option"
  retryTimer :: "(int \<times> rat) option"
  isStarted :: bool
  isStopped :: bool
  reconnectAttempt :: int
  generation :: nat
  detachCurrentListeners :: "nat list"
  startInFlight :: "nat option"
  attached :: "listener list"
  released :: "(nat \<times> bool) list"
  pending :: "cont list"
  nextTransport :: nat
  nextPromise :: nat
  calls :: "conn_call list"

definition createManagedConnectionSupervisor :: sup where
  "createManagedConnectionSupervisor =
     \<lparr>state = initialState, currentTransport = None, retryTimer = None, isStarted = False,
      isStopped = False, reconnectAttempt = 0, generation = 0, detachCurrentListeners = [],
      startInFlight = None, attached = [], released = [], pending = [], nextTransport = 0,
      nextPromise = 0, calls = []\<rparr>"

section \<open>Operations\<close>

definition maxFastRetries_of :: "conn_config \<Rightarrow> int" where
  "maxFastRetries_of cfg =
     (case maxFastRetries cfg of Fin r \<Rightarrow> max 0 (floor r) | _ \<Rightarrow> 0)"

definition publish :: "conn_state \<Rightarrow> sup \<Rightarrow> sup" where
  "publish next s = s\<lparr>state := next, calls := calls s @ [StateChange next]\<rparr>"

definition clearRetryTimer :: "sup \<Rightarrow> sup" where
  "clearRetryTimer s = s\<lparr>retryTimer := None\<rparr>"

definition await_cont :: "cont \<Rightarrow> sup \<Rightarrow> sup" where
  "await_cont c s = s\<lparr>pending := pending s @ [c]\<rparr>"

definition notify :: "conn_call \<Rightarrow> sup \<Rightarrow> sup" where
  "notify c s = s\<lparr>calls := calls s @ [c]\<rparr>"

text \<open>An \<open>async\<close> call that belongs to a \<open>start()\<close> promise settles it.\<close>

definition settle :: "nat option \<Rightarrow> sup \<Rightarrow> sup" where
  "settle owner s = (case owner of None \<Rightarrow> s | Some p \<Rightarrow> await_cont (StartSettled p) s)"

text \<open>The synchronous part of \<open>cleanupTransport\<close>; nothing follows its awaits.\<close>

definition cleanupTransport :: "bool \<Rightarrow> sup \<Rightarrow> sup" where
  "cleanupTransport intended s =
     (let transport = currentTransport s;
          s1 = s\<lparr>currentTransport := None,
                 attached := filter (\<lambda>l. transport_id l \<notin> set (detachCurrentListeners s)) (attached s),
                 detachCurrentListeners := []\<rparr>
      in case transport of
           None \<Rightarrow> s1
         | Some t \<Rightarrow> s1\<lparr>released := released s1 @ [(t, intended)]\<rparr>)"

definition scheduleReconnect :: "rat \<Rightarrow> int \<Rightarrow> rat \<Rightarrow> probe_result option \<Rightarrow> sup \<Rightarrow> sup" where
  "scheduleReconnect now a delayMs probe s =
     (if isStopped s then s
      else let s1 = clearRetryTimer s;
               s2 = publish \<lparr>phase = Offline,
                             reason = Some (deriveManagedConnectionReason None probe False),
                             attempt = a,
                             nextRetryAt = Some (now + delayMs),
                             lastConnectedAt = lastConnectedAt (state s1),
                             lastDisconnectedAt = lastDisconnectedAt (state s1),
                             lastErrorMessage = readProbeErrorMessage probe (lastErrorMessage (state s1))\<rparr> s1
           in s2\<lparr>retryTimer := Some (a, max 0 delayMs)\<rparr>)"

definition fast_or_backoff :: "conn_config \<Rightarrow> int \<Rightarrow> rat \<Rightarrow> rat" where
  "fast_or_backoff cfg a rnd =
     (if a \<le> maxFastRetries_of cfg then max 0 (initialFastRetryDelayMs cfg)
      else policy_backoff (timing_policy.truncate cfg) a rnd)"

text \<open>The transport part of \<open>establishConnection\<close>: create, attach the listeners, connect.\<close>

definition establish_open :: "nat \<Rightarrow> bool \<Rightarrow> int \<Rightarrow> nat option \<Rightarrow> sup \<Rightarrow> sup" where
  "establish_open g ini a owner s =
     (let t = nextTransport s;
          s1 = s\<lparr>nextTransport := Suc t, currentTransport := Some t,
                 attached := attached s @ [\<lparr>transport_id = t, localGeneration = g, initial = ini, params_attempt = a\<rparr>],
                 detachCurrentListeners := [t]\<rparr>;
          s2 = publish ((state s1)\<lparr>phase := Connecting,
                                    reason := (if ini then Some InitialConnect else reason (state s1)),
                                    attempt := a, nextRetryAt := None, lastErrorMessage := None\<rparr>) s1
      in await_cont (EstAfterConnect g owner) s2)"

definition establish_probe :: "conn_config \<Rightarrow> nat \<Rightarrow> bool \<Rightarrow> int \<Rightarrow> nat option \<Rightarrow> sup \<Rightarrow> sup" where
  "establish_probe cfg g ini a owner s =
     (if isStopped s then settle owner s
      else if ini \<and> probeBeforeInitialConnect cfg then await_cont (EstAfterProbe g ini a owner) s
      else establish_open g ini a owner s)"

definition establishConnection :: "conn_config \<Rightarrow> bool \<Rightarrow> int \<Rightarrow> nat option \<Rightarrow> sup \<Rightarrow> sup" where
  "establishConnection cfg ini a owner s =
     (let g = Suc (generation s);
          s1 = clearRetryTimer (s\<lparr>generation := g\<rparr>)
      in if currentTransport s1 \<noteq> None
         then await_cont (EstAfterCleanup g ini a owner) (cleanupTransport False s1)
         else establish_probe cfg g ini a owner s1)"

text \<open>\<open>establishConnection\<close> after \<open>await config.probeReadiness()\<close>.\<close>

definition establish_probed ::
    "conn_config \<Rightarrow> nat \<Rightarrow> bool \<Rightarrow> int \<Rightarrow> nat option \<Rightarrow> probe_result \<Rightarrow> rat \<Rightarrow> rat \<Rightarrow> sup \<Rightarrow> sup" where
  "establish_probed cfg g ini a owner probe now rnd s =
     (if g \<noteq> generation s \<or> isStopped s then settle owner s
      else let initialProbeAttempt = max 1 (a + 1)
           in case probe of
                ProbeAuthFailed _ _ \<Rightarrow>
                  await_cont (EstAfterAuthFailed owner)
                    (notify (OnAuthFailed probe)
                      (publish ((state s)\<lparr>phase := AuthFailed,
                                reason := Some (deriveManagedConnectionReason None (Some probe) False),
                                attempt := initialProbeAttempt, nextRetryAt := None,
                                lastErrorMessage := readProbeErrorMessage (Some probe) (lastErrorMessage (state s))\<rparr>) s))
              | Ready \<Rightarrow> establish_open g ini a owner s
              | _ \<Rightarrow>
                  settle owner
                    (scheduleReconnect now initialProbeAttempt
                      (probe_delay probe (policy_backoff (timing_policy.truncate cfg) initialProbeAttempt rnd))
                      (Some probe) s))"

definition classifyTransportError :: "conn_config \<Rightarrow> thrown \<Rightarrow> probe_result" where
  "classifyTransportError cfg e =
     (case classifyTransportErrorToProbeResult cfg e of
        Some p \<Rightarrow> p | None \<Rightarrow> Unreachable (Some (thrown_message e)))"

definition applyExternallyReportedProbeResult :: "probe_result \<Rightarrow> nat option \<Rightarrow> sup \<Rightarrow> sup" where
  "applyExternallyReportedProbeResult probe owner s =
     (if isStopped s then settle owner s
      else if phase (state s) \<notin> {Online, Connecting, Offline} then settle owner s
      else let g = Suc (generation s)
           in await_cont (ExtAfterCleanup g probe owner)
                (cleanupTransport True (clearRetryTimer (s\<lparr>generation := g\<rparr>))))"

definition reportProbeResult :: "probe_result \<Rightarrow> sup \<Rightarrow> sup" where
  "reportProbeResult probe s = applyExternallyReportedProbeResult probe None s"

text \<open>\<open>applyExternallyReportedProbeResult\<close> after \<open>await cleanupTransport(...)\<close>.\<close>

definition externally_reported ::
    "conn_config \<Rightarrow> nat \<Rightarrow> probe_result \<Rightarrow> nat option \<Rightarrow> rat \<Rightarrow> rat \<Rightarrow> sup \<Rightarrow> sup" where
  "externally_reported cfg g probe owner now rnd s =
     (if isStopped s \<or> g \<noteq> generation s then settle owner s
      else if is_auth_failed probe then
        settle owner
          (notify (OnAuthFailed probe)
            (publish ((state s)\<lparr>phase := AuthFailed,
                      reason := Some (deriveManagedConnectionReason None (Some probe) False),
                      nextRetryAt := None,
                      lastErrorMessage := readProbeErrorMessage (Some probe) (lastErrorMessage (state s))\<rparr>) s))
      else let nextAttempt = max 1 (attempt (state s) + 1)
           in settle owner
                (scheduleReconnect now nextAttempt
                  (probe_delay probe (fast_or_backoff cfg nextAttempt rnd))
                  (Some probe) s))"

definition runProbeAndReconnect :: "int \<Rightarrow> sup \<Rightarrow> sup" where
  "runProbeAndReconnect a s =
     (if isStopped s then s else await_cont (ProbeReturned (generation s) a) s)"

text \<open>\<open>runProbeAndReconnect\<close> after \<open>await config.probeReadiness()\<close>.\<close>

definition probe_returned ::
    "conn_config \<Rightarrow> nat \<Rightarrow> int \<Rightarrow> probe_result \<Rightarrow> rat \<Rightarrow> rat \<Rightarrow> sup \<Rightarrow> sup" where
  "probe_returned cfg g a probe now rnd s =
     (if isStopped s \<or> g \<noteq> generation s then s
      else case probe of
          ProbeAuthFailed _ _ \<Rightarrow>
            notify (OnAuthFailed probe)
              (publish ((state s)\<lparr>phase := AuthFailed,
                        reason := Some (deriveManagedConnectionReason None (Some probe) False),
                        attempt := a, nextRetryAt := None,
                        lastErrorMessage := readProbeErrorMessage (Some probe) (lastErrorMessage (state s))\<rparr>) s)
        | Ready \<Rightarrow>
            await_cont (BeforeReconnectReturned g a) (notify (OnBeforeReconnect a) s)
        | _ \<Rightarrow>
            scheduleReconnect now (a + 1)
              (probe_delay probe (policy_backoff (timing_policy.truncate cfg) (a + 1) rnd))
              (Some probe) s)"

text \<open>\<open>runProbeAndReconnect\<close> after \<open>await config.onBeforeReconnect?.(...)\<close>.\<close>

definition before_reconnect_returned :: "conn_config \<Rightarrow> nat \<Rightarrow> int \<Rightarrow> sup \<Rightarrow> sup" where
  "before_reconnect_returned cfg g a s =
     (if isStopped s \<or> g \<noteq> generation s then s else establishConnection cfg False a None s)"

definition handleDisconnect :: "disconnect_event \<Rightarrow> rat \<Rightarrow> sup \<Rightarrow> sup" where
  "handleDisconnect ev now s =
     (let a = reconnectAttempt s + 1;
          s1 = s\<lparr>reconnectAttempt := a\<rparr>;
          s2 = publish \<lparr>phase = Offline,
                        reason = Some (deriveManagedConnectionReason (Some ev) None False),
                        attempt = a, nextRetryAt = None,
                        lastConnectedAt = lastConnectedAt (state s1),
                        lastDisconnectedAt = Some now,
                        lastErrorMessage = (case dis_error ev of
                            Some (ErrorObj m) \<Rightarrow> Some m
                          | Some (OtherValue True m) \<Rightarrow> Some m
                          | _ \<Rightarrow> None)\<rparr> s1
      in await_cont (AfterOnDisconnected (generation s) a (intentional ev))
           (notify (OnDisconnected ev) s2))"

text \<open>\<open>handleDisconnect\<close> after \<open>await config.onDisconnected?.(...)\<close>.\<close>

definition after_on_disconnected ::
    "conn_config \<Rightarrow> nat \<Rightarrow> int \<Rightarrow> bool \<Rightarrow> rat \<Rightarrow> rat \<Rightarrow> sup \<Rightarrow> sup" where
  "after_on_disconnected cfg g a intended now rnd s =
     (if intended \<or> isStopped s \<or> g \<noteq> generation s \<or> phase (state s) = AuthFailed then s
      else scheduleReconnect now a (fast_or_backoff cfg a rnd) None s)"

text \<open>The listeners; \<open>still_connected\<close> is \<open>transport.isConnected()\<close>.\<close>

definition transport_connected :: "listener \<Rightarrow> rat \<Rightarrow> sup \<Rightarrow> sup" where
  "transport_connected l now s =
     (if localGeneration l \<noteq> generation s \<or> isStopped s then s
      else let s1 = (clearRetryTimer s)\<lparr>reconnectAttempt := params_attempt l\<rparr>
           in notify OnConnected
                (publish \<lparr>phase = Online,
                          reason = (if initial l then Some InitialConnect else reason (state s1)),
                          attempt = params_attempt l, nextRetryAt = None,
                          lastConnectedAt = Some now,
                          lastDisconnectedAt = lastDisconnectedAt (state s1),
                          lastErrorMessage = None\<rparr> s1))"

definition transport_disconnected :: "listener \<Rightarrow> disconnect_event \<Rightarrow> rat \<Rightarrow> sup \<Rightarrow> sup" where
  "transport_disconnected l ev now s =
     (if localGeneration l \<noteq> generation s \<or> isStopped s then s else handleDisconnect ev now s)"

definition transport_error ::
    "conn_config \<Rightarrow> listener \<Rightarrow> thrown \<Rightarrow> bool \<Rightarrow> rat \<Rightarrow> rat \<Rightarrow> sup \<Rightarrow> sup" where
  "transport_error cfg l e still_connected now rnd s =
     (if localGeneration l \<noteq> generation s \<or> isStopped s then s
      else if phase (state s) = Connecting \<and> currentTransport s = Some (transport_id l)
              \<and> \<not> still_connected then
        (case classifyTransportErrorToProbeResult cfg e of
           Some p \<Rightarrow> reportProbeResult p s
         | None \<Rightarrow>
             let nextAttempt = max 1 (attempt (state s) + 1)
             in scheduleReconnect now nextAttempt (fast_or_backoff cfg nextAttempt rnd)
                  (Some (Unreachable (Some (thrown_message e)))) s)
      else publish ((state s)\<lparr>lastErrorMessage := Some (thrown_message e)\<rparr>) s)"

definition start :: "conn_config \<Rightarrow> sup \<Rightarrow> sup" where
  "start cfg s =
     (if startInFlight s \<noteq> None \<and> \<not> isStopped s then s
      else let p = nextPromise s;
               s0 = s\<lparr>nextPromise := Suc p\<rparr>;
               s1 = (if isStarted s0 \<and> \<not> isStopped s0 then
                       (if phase (state s0) = Online \<or> phase (state s0) = Connecting
                        then settle (Some p) s0
                        else establishConnection cfg (probeBeforeInitialConnect cfg) 0 (Some p)
                               (s0\<lparr>reconnectAttempt := 0\<rparr>))
                     else establishConnection cfg True 0 (Some p)
                            (s0\<lparr>isStarted := True, isStopped := False, reconnectAttempt := 0\<rparr>))
           in s1\<lparr>startInFlight := Some p\<rparr>)"

definition stop :: "sup \<Rightarrow> sup" where
  "stop s =
     (if isStopped s then s
      else let s1 = clearRetryTimer (s\<lparr>isStopped := True, startInFlight := None\<rparr>);
               s2 = publish ((state s1)\<lparr>phase := ShuttingDown,
                                         reason := Some IntentionalShutdown,
                                         nextRetryAt := None\<rparr>) s1
           in cleanupTransport True s2)"

section \<open>Steps\<close>

text \<open>
  Resuming a continuation. The probe's rejection is turned into \<open>server_unreachable\<close> by the
  \<open>catch\<close>; a rejected \<open>disconnect()\<close> or \<open>destroy()\<close> is swallowed.
\<close>

fun answer_probe :: "answer \<Rightarrow> probe_result" where
  "answer_probe (Probed p) = p"
| "answer_probe (Threw e) = Unreachable (Some (thrown_message e))"
| "answer_probe Done = Ready"

fun resume :: "conn_config \<Rightarrow> cont \<Rightarrow> answer \<Rightarrow> rat \<Rightarrow> rat \<Rightarrow> sup \<Rightarrow> sup" where
  "resume cfg (EstAfterCleanup g ini a owner) _ now rnd s = establish_probe cfg g ini a owner s"
| "resume cfg (EstAfterProbe g ini a owner) ans now rnd s =
     establish_probed cfg g ini a owner (answer_probe ans) now rnd s"
| "resume cfg (EstAfterConnect g owner) ans now rnd s =
     (case ans of
        Threw e \<Rightarrow>
          if g \<noteq> generation s \<or> isStopped s then settle owner s
          else applyExternallyReportedProbeResult (classifyTransportError cfg e) owner s
      | _ \<Rightarrow> settle owner s)"
| "resume cfg (EstAfterAuthFailed owner) _ now rnd s = settle owner s"
| "resume cfg (ExtAfterCleanup g probe owner) _ now rnd s =
     externally_reported cfg g probe owner now rnd s"
| "resume cfg (ProbeReturned g a) ans now rnd s =
     probe_returned cfg g a (answer_probe ans) now rnd s"
| "resume cfg (BeforeReconnectReturned g a) _ now rnd s = before_reconnect_returned cfg g a s"
| "resume cfg (AfterOnDisconnected g a intended) _ now rnd s =
     after_on_disconnected cfg g a intended now rnd s"
| "resume cfg (StartSettled p) _ now rnd s =
     (if startInFlight s = Some p then s\<lparr>startInFlight := None\<rparr> else s)"

datatype conn_event =
    EvStart
  | EvStop
  | EvReport probe_result
  | EvTimer
  | EvConnected listener rat
  | EvDisconnected listener disconnect_event rat
  | EvError listener thrown bool rat rat
  | EvResume cont answer rat rat

text \<open>
  One step of the machine. The timer fires only while it is armed, a listener is called only
  while it is attached, a continuation resumes only while it is pending.
\<close>

fun conn_step :: "conn_config \<Rightarrow> sup \<Rightarrow> conn_event \<Rightarrow> sup" where
  "conn_step cfg s EvStart = start cfg s"
| "conn_step cfg s EvStop = stop s"
| "conn_step cfg s (EvReport p) = reportProbeResult p s"
| "conn_step cfg s EvTimer =
     (case retryTimer s of
        None \<Rightarrow> s
      | Some (a, _) \<Rightarrow> runProbeAndReconnect a (s\<lparr>retryTimer := None\<rparr>))"
| "conn_step cfg s (EvConnected l now) =
     (if l \<in> set (attached s) then transport_connected l now s else s)"
| "conn_step cfg s (EvDisconnected l ev now) =
     (if l \<in> set (attached s) then transport_disconnected l ev now s else s)"
| "conn_step cfg s (EvError l e still now rnd) =
     (if l \<in> set (attached s) then transport_error cfg l e still now rnd s else s)"
| "conn_step cfg s (EvResume c ans now rnd) =
     (if c \<in> set (pending s)
      then resume cfg c ans now rnd (s\<lparr>pending := remove1 c (pending s)\<rparr>) else s)"

inductive conn_reachable :: "conn_config \<Rightarrow> sup \<Rightarrow> bool" for cfg where
  created: "conn_reachable cfg createManagedConnectionSupervisor"
| stepped: "conn_reachable cfg s \<Longrightarrow> conn_reachable cfg (conn_step cfg s ev)"

lemma conn_reachable_run:
  "conn_reachable cfg s \<Longrightarrow> conn_reachable cfg (foldl (conn_step cfg) s evs)"
  by (induction evs arbitrary: s) (auto intro: conn_reachable.stepped)

section \<open>The shape of the state\<close>

text \<open>
  What the closure's variables keep among them: a stopped supervisor is quiet, an online one
  has no retry timer, and the listeners to detach are those of the current transport.
\<close>

definition conn_shape :: "sup \<Rightarrow> bool" where
  "conn_shape s \<longleftrightarrow>
     (isStopped s \<longrightarrow> phase (state s) = ShuttingDown \<and> retryTimer s = None \<and> currentTransport s = None)
     \<and> (phase (state s) = Online \<longrightarrow> retryTimer s = None)
     \<and> detachCurrentListeners s = (case currentTransport s of None \<Rightarrow> [] | Some t \<Rightarrow> [t])"

lemmas conn_ops =
  publish_def clearRetryTimer_def await_cont_def notify_def settle_def cleanupTransport_def
  scheduleReconnect_def Let_def

lemma shape_simple [simp]:
  "conn_shape (await_cont c s) = conn_shape s"
  "conn_shape (notify k s) = conn_shape s"
  "conn_shape (settle ow s) = conn_shape s"
  "conn_shape (s\<lparr>pending := cs\<rparr>) = conn_shape s"
  "conn_shape (s\<lparr>generation := g\<rparr>) = conn_shape s"
  "conn_shape (s\<lparr>startInFlight := f\<rparr>) = conn_shape s"
  "conn_shape (s\<lparr>nextPromise := n\<rparr>) = conn_shape s"
  "conn_shape (s\<lparr>reconnectAttempt := a\<rparr>) = conn_shape s"
  by (auto simp: conn_shape_def conn_ops split: option.splits)

lemma shape_clear: "conn_shape s \<Longrightarrow> conn_shape (clearRetryTimer s)"
  by (simp add: conn_shape_def clearRetryTimer_def)

lemma shape_timer_None: "conn_shape s \<Longrightarrow> conn_shape (s\<lparr>retryTimer := None\<rparr>)"
  by (simp add: conn_shape_def)

lemma shape_cleanup: "conn_shape s \<Longrightarrow> conn_shape (cleanupTransport b s)"
  by (simp add: conn_shape_def cleanupTransport_def Let_def split: option.splits)

lemma shape_publish:
  "conn_shape s \<Longrightarrow> \<not> isStopped s \<Longrightarrow> phase n \<noteq> Online \<or> retryTimer s = None
   \<Longrightarrow> conn_shape (publish n s)"
  by (auto simp: conn_shape_def publish_def)

lemma shape_schedule: "conn_shape s \<Longrightarrow> conn_shape (scheduleReconnect now a d p s)"
  by (simp add: conn_shape_def conn_ops)

lemma shape_open:
  "conn_shape s \<Longrightarrow> \<not> isStopped s \<Longrightarrow> conn_shape (establish_open g ini a ow s)"
  by (simp add: conn_shape_def establish_open_def conn_ops)

lemma shape_probe: "conn_shape s \<Longrightarrow> conn_shape (establish_probe cfg g ini a ow s)"
  by (simp add: establish_probe_def shape_open)

lemma shape_establish: "conn_shape s \<Longrightarrow> conn_shape (establishConnection cfg ini a ow s)"
  by (simp add: establishConnection_def Let_def shape_cleanup shape_clear shape_probe)

lemma shape_external: "conn_shape s \<Longrightarrow> conn_shape (applyExternallyReportedProbeResult p ow s)"
  by (simp add: applyExternallyReportedProbeResult_def Let_def shape_cleanup shape_clear)

lemmas shape_intros = shape_clear shape_timer_None shape_cleanup shape_schedule shape_open
  shape_probe shape_establish shape_external shape_publish

lemma shape_established: "conn_shape s \<Longrightarrow> conn_shape (establish_probed cfg g ini a ow p now rnd s)"
  by (auto simp: establish_probed_def Let_def intro!: shape_intros split: probe_result.split)

lemma shape_reported: "conn_shape s \<Longrightarrow> conn_shape (externally_reported cfg g p ow now rnd s)"
  by (auto simp: externally_reported_def Let_def intro!: shape_intros)

lemma shape_probe_returned: "conn_shape s \<Longrightarrow> conn_shape (probe_returned cfg g a p now rnd s)"
  by (auto simp: probe_returned_def intro!: shape_intros split: probe_result.split)

lemma shape_resume: "conn_shape s \<Longrightarrow> conn_shape (resume cfg c ans now rnd s)"
  by (cases c; cases ans)
    (auto simp: before_reconnect_returned_def after_on_disconnected_def
      intro!: shape_intros shape_established shape_reported shape_probe_returned)

lemma shape_connected: "conn_shape s \<Longrightarrow> conn_shape (transport_connected l now s)"
  by (auto simp: transport_connected_def Let_def conn_shape_def conn_ops)

lemma shape_disconnected: "conn_shape s \<Longrightarrow> conn_shape (transport_disconnected l ev now s)"
  by (auto simp: transport_disconnected_def handleDisconnect_def Let_def intro!: shape_intros)

lemma shape_error: "conn_shape s \<Longrightarrow> conn_shape (transport_error cfg l e b now rnd s)"
proof -
  assume shape: "conn_shape s"
  have "conn_shape (publish ((state s)\<lparr>lastErrorMessage := m\<rparr>) s)" for m
    using shape by (simp add: conn_shape_def publish_def)
  with shape show ?thesis
    by (auto simp: transport_error_def reportProbeResult_def Let_def intro!: shape_intros
        split: option.split)
qed

lemma shape_start: "conn_shape s \<Longrightarrow> conn_shape (start cfg s)"
proof -
  assume shape: "conn_shape s"
  then have "conn_shape (s\<lparr>nextPromise := n, isStarted := True, isStopped := False, reconnectAttempt := 0\<rparr>)" for n
    by (simp add: conn_shape_def)
  with shape show ?thesis
    by (simp add: start_def Let_def shape_establish)
qed

lemma shape_stop: "conn_shape s \<Longrightarrow> conn_shape (stop s)"
  by (simp add: stop_def Let_def conn_shape_def conn_ops split: option.splits)

lemma shape_run_probe: "conn_shape s \<Longrightarrow> conn_shape (runProbeAndReconnect a s)"
  by (simp add: runProbeAndReconnect_def)

lemma conn_step_shape: "conn_shape s \<Longrightarrow> conn_shape (conn_step cfg s ev)"
  by (cases ev)
    (auto simp: reportProbeResult_def intro!: shape_start shape_stop shape_external
      shape_run_probe shape_connected shape_disconnected shape_error shape_resume
      shape_timer_None split: option.split)

section \<open>Generations\<close>

text \<open>
  Every call of \<open>establishConnection\<close> takes a fresh generation and may open one transport
  with it. The tokens of a state are the generations of the attached listeners together with
  those a pending continuation may still open; no generation occurs twice.
\<close>

fun open_token :: "cont \<Rightarrow> nat multiset" where
  "open_token (EstAfterCleanup g _ _ _) = {#g#}"
| "open_token (EstAfterProbe g _ _ _) = {#g#}"
| "open_token _ = {#}"

definition tokens :: "sup \<Rightarrow> nat multiset" where
  "tokens s = image_mset localGeneration (mset (attached s))
              + (\<Sum>c\<in>#mset (pending s). open_token c)"

definition fresh_tokens :: "sup \<Rightarrow> bool" where
  "fresh_tokens s \<longleftrightarrow> (\<forall>g. count (tokens s) g \<le> (if g \<le> generation s then 1 else 0))"

lemma tokens_cong:
  "attached s' = attached s \<Longrightarrow> pending s' = pending s \<Longrightarrow> tokens s' = tokens s"
  by (simp add: tokens_def)

lemma tokens_await [simp]: "tokens (await_cont c s) = tokens s + open_token c"
  by (simp add: tokens_def await_cont_def)

lemma tokens_simple [simp]:
  "tokens (publish n s) = tokens s"
  "tokens (clearRetryTimer s) = tokens s"
  "tokens (notify k s) = tokens s"
  "tokens (scheduleReconnect now a d p s) = tokens s"
  "tokens (s\<lparr>generation := g\<rparr>) = tokens s"
  "tokens (s\<lparr>retryTimer := r\<rparr>) = tokens s"
  "tokens (s\<lparr>reconnectAttempt := a\<rparr>) = tokens s"
  "tokens (s\<lparr>startInFlight := f\<rparr>) = tokens s"
  "tokens (s\<lparr>nextPromise := n'\<rparr>) = tokens s"
  "tokens (s\<lparr>isStarted := b\<rparr>) = tokens s"
  "tokens (s\<lparr>isStopped := b\<rparr>) = tokens s"
  by (auto intro: tokens_cong simp: conn_ops)

lemma tokens_settle [simp]: "tokens (settle ow s) = tokens s"
  by (simp add: settle_def split: option.split)

lemma generation_simple [simp]:
  "generation (publish n s) = generation s"
  "generation (clearRetryTimer s) = generation s"
  "generation (notify k s) = generation s"
  "generation (await_cont c s) = generation s"
  "generation (settle ow s) = generation s"
  "generation (cleanupTransport b s) = generation s"
  "generation (scheduleReconnect now a d p s) = generation s"
  "generation (establish_open g ini a ow s) = generation s"
  "generation (establish_probe cfg g ini a ow s) = generation s"
  by (auto simp: conn_ops establish_open_def establish_probe_def split: option.split)

lemma tokens_cleanup: "tokens (cleanupTransport b s) \<subseteq># tokens s"
proof -
  have "pending (cleanupTransport b s) = pending s"
    and "mset (attached (cleanupTransport b s)) \<subseteq># mset (attached s)"
    by (auto simp: cleanupTransport_def Let_def multiset_filter_subset split: option.split)
  then show ?thesis
    by (simp add: tokens_def image_mset_subseteq_mono)
qed

lemma tokens_cleanup_le: "tokens s = t \<Longrightarrow> tokens (cleanupTransport b s) \<subseteq># t"
  using tokens_cleanup by blast

lemma tokens_open [simp]: "tokens (establish_open g ini a ow s) = add_mset g (tokens s)"
  by (simp add: tokens_def establish_open_def conn_ops)

lemma tokens_probe: "tokens (establish_probe cfg g ini a ow s) \<subseteq># add_mset g (tokens s)"
  by (auto simp: establish_probe_def)

lemma tokens_establish:
  "tokens (establishConnection cfg ini a ow s) \<subseteq># add_mset (Suc (generation s)) (tokens s)"
  using tokens_cleanup [of False "clearRetryTimer (s\<lparr>generation := Suc (generation s)\<rparr>)"]
    tokens_probe [of cfg "Suc (generation s)" ini a ow
      "clearRetryTimer (s\<lparr>generation := Suc (generation s)\<rparr>)"]
  by (auto simp: establishConnection_def Let_def)

lemma generation_establish [simp]:
  "generation (establishConnection cfg ini a ow s) = Suc (generation s)"
  by (simp add: establishConnection_def Let_def)

lemma tokens_external: "tokens (applyExternallyReportedProbeResult p ow s) \<subseteq># tokens s"
  using tokens_cleanup [of True "clearRetryTimer (s\<lparr>generation := Suc (generation s)\<rparr>)"]
  by (auto simp: applyExternallyReportedProbeResult_def Let_def)

lemma generation_external:
  "generation s \<le> generation (applyExternallyReportedProbeResult p ow s)"
  by (simp add: applyExternallyReportedProbeResult_def Let_def)

text \<open>A step adds at most one token, and only a generation it has just allocated.\<close>

definition token_step :: "sup \<Rightarrow> sup \<Rightarrow> bool" where
  "token_step s s' \<longleftrightarrow>
     (tokens s' \<subseteq># tokens s \<and> generation s \<le> generation s')
     \<or> (tokens s' \<subseteq># add_mset (Suc (generation s)) (tokens s) \<and> generation s' = Suc (generation s))"

lemma token_step_refl [simp]: "token_step s s"
  by (simp add: token_step_def)

lemma token_step_same:
  "tokens s' \<subseteq># tokens s \<Longrightarrow> generation s' = generation s \<Longrightarrow> token_step s s'"
  by (simp add: token_step_def)

lemma token_step_establish: "token_step s (establishConnection cfg ini a ow s)"
  using tokens_establish by (simp add: token_step_def)

lemma token_step_external: "token_step s (applyExternallyReportedProbeResult p ow s)"
  using tokens_external generation_external by (simp add: token_step_def)

lemma token_step_fresh: "token_step s s' \<Longrightarrow> fresh_tokens s \<Longrightarrow> fresh_tokens s'"
proof (unfold fresh_tokens_def, intro allI)
  fix g
  assume step: "token_step s s'"
    and fresh: "\<forall>g. count (tokens s) g \<le> (if g \<le> generation s then 1 else 0)"
  have old: "count (tokens s) g \<le> (if g \<le> generation s then 1 else 0)" using fresh by blast
  have cnt: "M \<subseteq># N \<Longrightarrow> count M g \<le> count N g" for M N :: "nat multiset"
    by (rule mset_subset_eq_count)
  from step show "count (tokens s') g \<le> (if g \<le> generation s' then 1 else 0)"
    unfolding token_step_def
  proof
    assume "tokens s' \<subseteq># tokens s \<and> generation s \<le> generation s'"
    with old cnt [of "tokens s'" "tokens s"] show ?thesis by (auto split: if_splits)
  next
    assume "tokens s' \<subseteq># add_mset (Suc (generation s)) (tokens s)
      \<and> generation s' = Suc (generation s)"
    with old cnt [of "tokens s'" "add_mset (Suc (generation s)) (tokens s)"]
    show ?thesis by (auto split: if_splits)
  qed
qed

text \<open>Resuming a continuation turns its token into an open transport, or drops it.\<close>

lemma tokens_resumed:
  assumes "c \<in> set (pending s)"
  shows "tokens s = tokens (s\<lparr>pending := remove1 c (pending s)\<rparr>) + open_token c"
proof -
  have "mset (pending s) = add_mset c (mset (remove1 c (pending s)))"
    using assms by simp
  then have "image_mset open_token (mset (pending s))
      = add_mset (open_token c) (image_mset open_token (mset (remove1 c (pending s))))"
    by (metis image_mset_add_mset)
  then show ?thesis by (simp add: tokens_def add.commute add.left_commute del: mset_remove1)
qed

lemma token_step_weaken:
  "token_step s s' \<Longrightarrow> tokens s \<subseteq># tokens t \<Longrightarrow> generation s = generation t \<Longrightarrow> token_step t s'"
  unfolding token_step_def by (auto intro: subset_mset.order_trans)

lemma token_step_established:
  "tokens (establish_probed cfg g ini a ow p now rnd s) \<subseteq># add_mset g (tokens s)
   \<and> generation (establish_probed cfg g ini a ow p now rnd s) = generation s"
  by (auto simp: establish_probed_def Let_def split: probe_result.split)

lemma token_step_reported: "token_step s (externally_reported cfg g p ow now rnd s)"
  by (rule token_step_same) (auto simp: externally_reported_def Let_def)

lemma token_step_probe_returned: "token_step s (probe_returned cfg g a p now rnd s)"
  by (rule token_step_same) (auto simp: probe_returned_def split: probe_result.split)

lemma token_step_resume:
  assumes c: "c \<in> set (pending s)"
  shows "token_step s (resume cfg c ans now rnd (s\<lparr>pending := remove1 c (pending s)\<rparr>))"
proof -
  let ?t = "s\<lparr>pending := remove1 c (pending s)\<rparr>"
  have tok: "tokens s = tokens ?t + open_token c" using c by (rule tokens_resumed)
  have gen: "generation ?t = generation s" by simp
  have weaken: "token_step ?t s' \<Longrightarrow> token_step s s'" for s'
    by (erule token_step_weaken) (simp_all add: tok)
  show ?thesis
  proof (cases c)
    case (EstAfterCleanup g ini a ow)
    then show ?thesis
      using tok tokens_probe [of cfg g ini a ow ?t] by (intro token_step_same) simp_all
  next
    case (EstAfterProbe g ini a ow)
    then show ?thesis
      using tok token_step_established [of cfg g ini a ow "answer_probe ans" now rnd ?t]
      by (intro token_step_same) simp_all
  next
    case (EstAfterConnect g ow)
    have "token_step ?t (settle ow ?t)" by (rule token_step_same) simp_all
    with EstAfterConnect show ?thesis
      by (intro weaken) (auto simp: token_step_external split: answer.split)
  next
    case (EstAfterAuthFailed ow)
    then show ?thesis by (intro weaken token_step_same) simp_all
  next
    case (BeforeReconnectReturned g a)
    then show ?thesis
      by (intro weaken) (simp add: before_reconnect_returned_def token_step_establish)
  next
    case (AfterOnDisconnected g a i)
    then show ?thesis
      by (intro weaken token_step_same) (simp_all add: after_on_disconnected_def)
  next
    case (StartSettled p)
    then show ?thesis by (intro weaken token_step_same) simp_all
  qed (auto intro!: weaken token_step_reported token_step_probe_returned)
qed

lemma token_step_start: "token_step s (start cfg s)"
proof -
  have est: "token_step s ((establishConnection cfg ini a ow t)\<lparr>startInFlight := f\<rparr>)"
    if "tokens t = tokens s" and "generation t = generation s" for ini a ow t f
    using tokens_establish [of cfg ini a ow t] that by (simp add: token_step_def)
  have set: "token_step s ((settle ow t)\<lparr>startInFlight := f\<rparr>)"
    if "tokens t = tokens s" and "generation t = generation s" for ow t f
    using that by (simp add: token_step_def)
  show ?thesis
    unfolding start_def Let_def by (auto intro!: est set)
qed

lemma token_step_stop: "token_step s (stop s)"
  by (auto simp: stop_def Let_def intro!: token_step_same tokens_cleanup_le)

lemma token_step_conn: "token_step s (conn_step cfg s ev)"
proof (cases ev)
  case EvTimer
  then show ?thesis
    by (auto simp: runProbeAndReconnect_def intro!: token_step_same split: option.split)
next
  case (EvConnected l now)
  then show ?thesis
    by (auto simp: transport_connected_def Let_def intro!: token_step_same)
next
  case (EvDisconnected l dev now)
  then show ?thesis
    by (auto simp: transport_disconnected_def handleDisconnect_def Let_def
        intro!: token_step_same)
next
  case (EvError l e b now rnd)
  then show ?thesis
    by (auto simp: transport_error_def reportProbeResult_def Let_def token_step_external
        intro: token_step_same split: option.split)
qed (auto simp: reportProbeResult_def token_step_start token_step_stop token_step_external
    token_step_resume)

lemma generation_step: "generation s \<le> generation (conn_step cfg s ev)"
  using token_step_conn [of s cfg ev] by (auto simp: token_step_def)

section \<open>The supervisor as a monotone reducer\<close>

definition conn_inv :: "sup \<Rightarrow> bool" where
  "conn_inv s \<longleftrightarrow> conn_shape s \<and> fresh_tokens s"

interpretation conn: monotone_reducer "conn_step cfg" conn_inv generation for cfg
proof unfold_locales
  show "conn_inv (conn_step cfg s e)" if "conn_inv s" for s e
    using that token_step_fresh [OF token_step_conn]
    by (simp add: conn_inv_def conn_step_shape)
  show "generation s \<le> generation (conn_step cfg s e)" for s e
    by (rule generation_step)
qed

lemma conn_inv_created: "conn_inv createManagedConnectionSupervisor"
  by (simp add: conn_inv_def conn_shape_def fresh_tokens_def tokens_def
      createManagedConnectionSupervisor_def initialState_def)

lemma conn_reachable_inv: "conn_reachable cfg s \<Longrightarrow> conn_inv s"
  by (induction rule: conn_reachable.induct) (auto intro: conn_inv_created conn.step_inv)

section \<open>Retries\<close>

text \<open>A retry is armed for the time the published state announces.\<close>

definition announced :: "rat \<Rightarrow> sup \<Rightarrow> bool" where
  "announced now s \<longleftrightarrow>
     (\<exists>a d. retryTimer s = Some (a, d) \<and> 0 \<le> d \<and> phase (state s) = Offline
            \<and> attempt (state s) = a \<and> nextRetryAt (state s) = Some (now + d))"

definition timer_kept :: "sup \<Rightarrow> sup \<Rightarrow> bool" where
  "timer_kept s s' \<longleftrightarrow> retryTimer s' = None \<or> retryTimer s' = retryTimer s"

lemma announced_schedule:
  "0 \<le> d \<Longrightarrow> \<not> isStopped s \<Longrightarrow> announced now (scheduleReconnect now a d p s)"
  by (simp add: announced_def conn_ops)

lemma announced_settle [simp]: "announced now (settle ow s) = announced now s"
  by (simp add: announced_def settle_def await_cont_def split: option.split)

lemma fast_or_backoff_window:
  "0 \<le> fast_or_backoff cfg a rnd
   \<and> fast_or_backoff cfg a rnd \<le> max (initialFastRetryDelayMs cfg) (policy_cap (timing_policy.truncate cfg))"
  using backoff.chosen_delay_window
      [where req = None and fast = "a \<le> maxFastRetries_of cfg" and f = "initialFastRetryDelayMs cfg"
        and p = "timing_policy.truncate cfg" and a = a and r = rnd]
  by (simp add: fast_or_backoff_def)

lemmas delay_nonneg = probe_delay_nonneg policy_backoff_nonneg
  fast_or_backoff_window [THEN conjunct1]

lemma timer_kept_refl [simp]: "timer_kept s s"
  by (simp add: timer_kept_def)

lemma timer_simple [simp]:
  "retryTimer (publish n s) = retryTimer s"
  "retryTimer (notify k s) = retryTimer s"
  "retryTimer (await_cont c s) = retryTimer s"
  "retryTimer (settle ow s) = retryTimer s"
  "retryTimer (cleanupTransport b s) = retryTimer s"
  "retryTimer (clearRetryTimer s) = None"
  "retryTimer (establish_open g ini a ow s) = retryTimer s"
  "retryTimer (establish_probe cfg g ini a ow s) = retryTimer s"
  "retryTimer (establishConnection cfg ini a ow s) = None"
  by (auto simp: conn_ops establish_open_def establish_probe_def establishConnection_def
      split: option.split)

lemma timer_external: "timer_kept s (applyExternallyReportedProbeResult p ow s)"
  by (simp add: timer_kept_def applyExternallyReportedProbeResult_def Let_def)

lemma retry_resume:
  "timer_kept s (resume cfg c ans now rnd s) \<or> announced now (resume cfg c ans now rnd s)"
proof (cases c)
  case (EstAfterProbe g ini a ow)
  then show ?thesis
    by (auto simp: establish_probed_def timer_kept_def Let_def delay_nonneg
        intro!: announced_schedule split: probe_result.split)
next
  case (EstAfterConnect g ow)
  then show ?thesis
    by (auto simp: timer_external split: answer.split) (auto simp: timer_kept_def)
next
  case (ExtAfterCleanup g p ow)
  then show ?thesis
    by (auto simp: externally_reported_def timer_kept_def Let_def delay_nonneg
        intro!: announced_schedule)
next
  case (ProbeReturned g a)
  then show ?thesis
    by (auto simp: probe_returned_def timer_kept_def delay_nonneg
        intro!: announced_schedule split: probe_result.split)
next
  case (AfterOnDisconnected g a i)
  then show ?thesis
    by (auto simp: after_on_disconnected_def delay_nonneg intro!: announced_schedule)
qed (auto simp: timer_kept_def before_reconnect_returned_def)

definition same_connection :: "sup \<Rightarrow> sup \<Rightarrow> bool" where
  "same_connection s s' \<longleftrightarrow>
     state s' = state s \<and> retryTimer s' = retryTimer s \<and> currentTransport s' = currentTransport s
     \<and> attached s' = attached s \<and> generation s' = generation s \<and> calls s' = calls s"

lemma same_connection_settle [simp]: "same_connection s s" "same_connection s (settle ow s)"
  by (simp_all add: same_connection_def settle_def await_cont_def split: option.split)

lemma stale_resume:
  assumes "g \<noteq> generation s"
    and "c \<in> {EstAfterProbe g ini a ow, EstAfterConnect g ow, ExtAfterCleanup g p ow,
               ProbeReturned g a, BeforeReconnectReturned g a, AfterOnDisconnected g a i}"
  shows "same_connection s (resume cfg c ans now rnd s)"
  using assms(2,1)
  by (elim insertE emptyE) (simp_all add: establish_probed_def externally_reported_def
      probe_returned_def before_reconnect_returned_def after_on_disconnected_def split: answer.split)

section \<open>Properties of the transport supervisor\<close>

text \<open>C29: A stopped supervisor is quiet: in every reachable state after \<open>stop()\<close> the phase is
  \<open>shutting_down\<close>, no retry timer is armed and no transport is current; and no event other than a
  new \<open>start()\<close> (a late probe, a late connect, a transport callback, a report) changes the
  published state or calls back.\<close>

theorem stopped_supervisor_is_quiet:
  assumes "conn_reachable cfg s" and "isStopped s" and "ev \<noteq> EvStart"
  shows "phase (state s) = ShuttingDown \<and> retryTimer s = None \<and> currentTransport s = None
    \<and> isStopped (conn_step cfg s ev) \<and> state (conn_step cfg s ev) = state s
    \<and> calls (conn_step cfg s ev) = calls s"
proof -
  have shape: "phase (state s) = ShuttingDown" "retryTimer s = None" "currentTransport s = None"
    using conn_reachable_inv [OF assms(1)] assms(2) by (simp_all add: conn_inv_def conn_shape_def)
  have settle: "isStopped (settle ow t) = isStopped t \<and> state (settle ow t) = state t
      \<and> calls (settle ow t) = calls t" for ow t
    by (simp add: settle_def await_cont_def split: option.split)
  have "isStopped (resume cfg c ans now rnd t) \<and> state (resume cfg c ans now rnd t) = state t
      \<and> calls (resume cfg c ans now rnd t) = calls t" if "isStopped t" for c ans now rnd t
    using that settle
    by (cases c; cases ans) (simp_all add: establish_probe_def establish_probed_def
        externally_reported_def probe_returned_def before_reconnect_returned_def
        after_on_disconnected_def)
  then show ?thesis
    using assms(2,3) shape settle
    by (cases ev) (simp_all add: stop_def reportProbeResult_def transport_connected_def
        transport_disconnected_def transport_error_def applyExternallyReportedProbeResult_def)
qed

text \<open>C11: At most one transport drives the state: in every reachable state no two attached sets of
  listeners belong to the current generation, however the connection attempts interleave.\<close>

theorem one_honoured_transport:
  assumes "conn_reachable cfg s" and "l \<in> set (attached s)" and "l' \<in> set (attached s)"
    and "localGeneration l = generation s" and "localGeneration l' = generation s"
  shows "l = l'"
proof (rule ccontr)
  assume "l \<noteq> l'"
  have "fresh_tokens s" using conn_reachable_inv [OF assms(1)] by (simp add: conn_inv_def)
  then have "count (tokens s) (generation s) \<le> (if generation s \<le> generation s then 1 else 0)"
    unfolding fresh_tokens_def by blast
  then have le: "count (image_mset localGeneration (mset (attached s))) (generation s) \<le> 1"
    by (simp add: tokens_def)
  have "{#l, l'#} \<subseteq># mset (attached s)"
    using assms(2,3) \<open>l \<noteq> l'\<close> by (simp add: insert_subset_eq_iff in_diff_count)
  then have "image_mset localGeneration {#l, l'#} \<subseteq># image_mset localGeneration (mset (attached s))"
    by (rule image_mset_subseteq_mono)
  from mset_subset_eq_count [OF this, of "generation s"] le assms(4,5) show False by simp
qed

text \<open>The generation an answer or a callback belongs to, if the code kept one for it.\<close>

fun awaited_under :: "cont \<Rightarrow> nat option" where
  "awaited_under (EstAfterCleanup g _ _ _) = Some g"
| "awaited_under (EstAfterProbe g _ _ _) = Some g"
| "awaited_under (EstAfterConnect g _) = Some g"
| "awaited_under (EstAfterAuthFailed _) = None"
| "awaited_under (ExtAfterCleanup g _ _) = Some g"
| "awaited_under (ProbeReturned g _) = Some g"
| "awaited_under (BeforeReconnectReturned g _) = Some g"
| "awaited_under (AfterOnDisconnected g _ _) = Some g"
| "awaited_under (StartSettled _) = None"

fun event_generation :: "conn_event \<Rightarrow> nat option" where
  "event_generation (EvConnected l _) = Some (localGeneration l)"
| "event_generation (EvDisconnected l _ _) = Some (localGeneration l)"
| "event_generation (EvError l _ _ _ _) = Some (localGeneration l)"
| "event_generation (EvResume c _ _ _) = awaited_under c"
| "event_generation _ = None"

fun closes_old_transport :: "conn_event \<Rightarrow> bool" where
  "closes_old_transport (EvResume (EstAfterCleanup _ _ _ _) _ _ _) = True"
| "closes_old_transport _ = False"

lemma stale_awaited:
  assumes "awaited_under c = Some g" and "g \<noteq> generation s" and "\<not> closes_old_transport (EvResume c ans now rnd)"
  shows "same_connection s (resume cfg c ans now rnd s)"
  using assms stale_resume [of g s c _ _ _ _ _ cfg ans now rnd] by (cases c) auto

text \<open>C7: Stale results are ignored, with one exception: whatever answer was awaited and whatever transport
  was opened under another generation than the current one, its arrival leaves the state, the timer, the transports, the
  generation and the calls made as they are, unless it is the end of \<open>cleanupTransport\<close> in
  \<open>establishConnection\<close>, the one await after which the code does not compare generations.\<close>

theorem stale_results_are_ignored:
  assumes "event_generation ev = Some g" and "g \<noteq> generation s" and "\<not> closes_old_transport ev"
  shows "state (conn_step cfg s ev) = state s \<and> retryTimer (conn_step cfg s ev) = retryTimer s
    \<and> currentTransport (conn_step cfg s ev) = currentTransport s
    \<and> attached (conn_step cfg s ev) = attached s
    \<and> generation (conn_step cfg s ev) = generation s \<and> calls (conn_step cfg s ev) = calls s"
proof (cases ev)
  case (EvResume c ans now rnd)
  let ?t = "s\<lparr>pending := remove1 c (pending s)\<rparr>"
  have "same_connection ?t (resume cfg c ans now rnd ?t)"
    using stale_awaited [of c g ?t ans now rnd cfg] assms EvResume by simp
  then show ?thesis using EvResume by (simp add: same_connection_def)
qed (use assms in \<open>auto simp: transport_connected_def transport_disconnected_def transport_error_def\<close>)

text \<open>When a step arms a new retry, the supervisor is offline, the published attempt is the one
  the timer carries and \<open>nextRetryAt\<close> is exactly the time the timer fires, a non-negative delay
  from now; with no \<open>retryAfterMs\<close> in play that delay is capped by the policy.\<close>

theorem armed_retry_is_announced:
  assumes "retryTimer (conn_step cfg s (EvResume c ans now rnd)) = Some (a, d)"
    and "retryTimer s \<noteq> Some (a, d)"
  shows "0 \<le> d
    \<and> phase (state (conn_step cfg s (EvResume c ans now rnd))) = Offline
    \<and> attempt (state (conn_step cfg s (EvResume c ans now rnd))) = a
    \<and> nextRetryAt (state (conn_step cfg s (EvResume c ans now rnd))) = Some (now + d)
    \<and> fast_or_backoff cfg a rnd
        \<le> max (initialFastRetryDelayMs cfg) (policy_cap (timing_policy.truncate cfg))"
proof (cases "c \<in> set (pending s)")
  case True
  let ?t = "s\<lparr>pending := remove1 c (pending s)\<rparr>"
  have "announced now (resume cfg c ans now rnd ?t)"
    using retry_resume [of ?t cfg c ans now rnd] assms True by (auto simp: timer_kept_def)
  then show ?thesis
    using assms True fast_or_backoff_window by (auto simp: announced_def)
next
  case False
  with assms show ?thesis by simp
qed

section \<open>Runs\<close>

text \<open>The default policy with no initial probe and no error classifier.\<close>

definition plain_config :: conn_config where
  "plain_config = timing_policy.extend DEFAULT_MANAGED_CONNECTION_POLICY
     \<lparr>probeBeforeInitialConnect = False, classifyTransportErrorToProbeResult = (\<lambda>_. None)\<rparr>"

definition first_listener :: listener where
  "first_listener = \<lparr>transport_id = 0, localGeneration = 1, initial = True, params_attempt = 0\<rparr>"

definition second_listener :: listener where
  "second_listener = \<lparr>transport_id = 1, localGeneration = 2, initial = False, params_attempt = 1\<rparr>"

definition link_lost :: disconnect_event where
  "link_lost = \<lparr>intentional = False, dis_reason = None, dis_error = None\<rparr>"

text \<open>Connect, lose the link, and wait for the first retry.\<close>

definition run_until_retry :: "conn_event list" where
  "run_until_retry =
     [EvStart, EvConnected first_listener 0, EvResume (EstAfterConnect 1 (Some 0)) Done 0 0,
      EvResume (StartSettled 0) Done 0 0, EvDisconnected first_listener link_lost 10]"

text \<open>
  The retry fires and reconnects; while the old transport is being closed an HTTP caller
  reports that the token was rejected; then the old transport is closed.
\<close>

definition run_stale_reconnect :: "conn_event list" where
  "run_stale_reconnect = run_until_retry @
     [EvResume (AfterOnDisconnected 1 1 False) Done 20 0, EvTimer,
      EvResume (ProbeReturned 1 1) (Probed Ready) 270 0,
      EvResume (BeforeReconnectReturned 1 1) Done 270 0,
      EvReport (ProbeAuthFailed (Some 401) None),
      EvResume (ExtAfterCleanup 3 (ProbeAuthFailed (Some 401) None) None) Done 280 0,
      EvResume (EstAfterCleanup 2 False 1 None) Done 290 0,
      EvResume (EstAfterConnect 2 None) Done 300 0]"

definition conn_run :: "conn_event list \<Rightarrow> sup" where
  "conn_run evs = foldl (conn_step plain_config) createManagedConnectionSupervisor evs"

lemma conn_run_reachable: "conn_reachable plain_config (conn_run evs)"
  unfolding conn_run_def by (rule conn_reachable_run [OF conn_reachable.created])

lemmas run_simps =
  conn_run_def run_until_retry_def run_stale_reconnect_def first_listener_def
  second_listener_def link_lost_def plain_config_def createManagedConnectionSupervisor_def
  initialState_def DEFAULT_MANAGED_CONNECTION_POLICY_def timing_policy.defs start_def stop_def
  establishConnection_def establish_probe_def establish_open_def probe_returned_def
  before_reconnect_returned_def after_on_disconnected_def transport_connected_def
  transport_disconnected_def handleDisconnect_def runProbeAndReconnect_def
  reportProbeResult_def applyExternallyReportedProbeResult_def externally_reported_def
  fast_or_backoff_def maxFastRetries_of_def deriveManagedConnectionReason_def conn_ops

theorem stopped_supervisor_is_quiet_witness:
  "isStopped (conn_run [EvStart, EvStop])
   \<and> state (conn_step plain_config (conn_run [EvStart, EvStop]) (EvConnected first_listener 5))
     = state (conn_run [EvStart, EvStop])"
proof -
  have stopped: "isStopped (conn_run [EvStart, EvStop])" by (simp add: run_simps)
  then show ?thesis
    using stopped_supervisor_is_quiet
        [OF conn_run_reachable stopped, of "EvConnected first_listener 5"]
    by simp
qed

theorem one_honoured_transport_witness:
  "\<exists>l \<in> set (attached (conn_run [EvStart])). localGeneration l = generation (conn_run [EvStart])
     \<and> l = first_listener"
proof -
  have mem: "first_listener \<in> set (attached (conn_run [EvStart]))"
    and gen: "localGeneration first_listener = generation (conn_run [EvStart])"
    by (simp_all add: run_simps)
  from one_honoured_transport [OF conn_run_reachable mem mem gen gen] mem gen
  show ?thesis by blast
qed

theorem stale_results_are_ignored_witness:
  "generation (conn_run run_stale_reconnect) = 3
   \<and> state (conn_step plain_config (conn_run run_stale_reconnect) (EvConnected second_listener 310))
     = state (conn_run run_stale_reconnect)"
proof -
  have gen: "generation (conn_run run_stale_reconnect) = 3" by (simp add: run_simps)
  then show ?thesis
    using stale_results_are_ignored [of "EvConnected second_listener 310" 2 "conn_run run_stale_reconnect" plain_config]
    by (simp add: second_listener_def)
qed

theorem armed_retry_is_announced_witness:
  "retryTimer (conn_step plain_config (conn_run run_until_retry)
      (EvResume (AfterOnDisconnected 1 1 False) Done 20 0)) = Some (1, 250)
   \<and> nextRetryAt (state (conn_step plain_config (conn_run run_until_retry)
      (EvResume (AfterOnDisconnected 1 1 False) Done 20 0))) = Some 270"
proof -
  have armed: "retryTimer (conn_step plain_config (conn_run run_until_retry)
      (EvResume (AfterOnDisconnected 1 1 False) Done 20 0)) = Some (1, 250)"
    by (simp add: run_simps)
  have "retryTimer (conn_run run_until_retry) \<noteq> Some (1, 250)" by (simp add: run_simps)
  from armed_retry_is_announced [OF armed this] armed show ?thesis by simp
qed

text \<open>\<open>establishConnection\<close> does not compare its generation after \<open>await cleanupTransport()\<close>.
  In the run below an \<open>auth_failed\<close> report that arrives while the old transport is being closed
  is overwritten: the abandoned attempt opens a transport, the phase goes back to \<open>connecting\<close>,
  and since the transport's generation is stale none of its callbacks is honoured. No timer is
  armed, nothing is pending, no transport event, timer or continuation changes anything, and a
  second \<open>start()\<close> does not reconnect either.\<close>

theorem stale_reconnect_wedges_the_supervisor:
  "attached (conn_run run_stale_reconnect) = [second_listener]
   \<and> currentTransport (conn_run run_stale_reconnect) = Some 1
   \<and> phase (state (conn_run run_stale_reconnect)) = Connecting
   \<and> StateChange (state (conn_run (take 11 run_stale_reconnect))) \<in> set (calls (conn_run run_stale_reconnect))
   \<and> phase (state (conn_run (take 11 run_stale_reconnect))) = AuthFailed
   \<and> (\<forall>c ans now rnd. conn_step plain_config (conn_run run_stale_reconnect) (EvResume c ans now rnd)
          = conn_run run_stale_reconnect)
   \<and> (\<forall>l now. conn_step plain_config (conn_run run_stale_reconnect) (EvConnected l now)
          = conn_run run_stale_reconnect)
   \<and> (\<forall>l d now. conn_step plain_config (conn_run run_stale_reconnect) (EvDisconnected l d now)
          = conn_run run_stale_reconnect)
   \<and> (\<forall>l e b now rnd. conn_step plain_config (conn_run run_stale_reconnect) (EvError l e b now rnd)
          = conn_run run_stale_reconnect)
   \<and> conn_step plain_config (conn_run run_stale_reconnect) EvTimer = conn_run run_stale_reconnect
   \<and> state (conn_step plain_config (conn_run run_stale_reconnect) EvStart)
       = state (conn_run run_stale_reconnect)"
proof -
  let ?s = "conn_run run_stale_reconnect"
  have att: "attached ?s = [second_listener]" and cur: "currentTransport ?s = Some 1"
    and ph: "phase (state ?s) = Connecting" and gen: "generation ?s = 3"
    and tim: "retryTimer ?s = None" and pen: "pending ?s = []"
    and stp: "\<not> isStopped ?s" "isStarted ?s" and inf: "startInFlight ?s = None"
    by (simp_all add: run_simps)
  have auth: "phase (state (conn_run (take 11 run_stale_reconnect))) = AuthFailed"
    and logged: "StateChange (state (conn_run (take 11 run_stale_reconnect))) \<in> set (calls ?s)"
    by (simp_all add: run_simps)
  have "conn_step plain_config ?s (EvResume c ans now rnd) = ?s"
    "conn_step plain_config ?s (EvConnected l now) = ?s"
    "conn_step plain_config ?s (EvDisconnected l d now) = ?s"
    "conn_step plain_config ?s (EvError l e b now rnd) = ?s"
    "conn_step plain_config ?s EvTimer = ?s" for c ans now rnd l d e b
    using att gen tim pen
    by (simp_all add: second_listener_def transport_connected_def
        transport_disconnected_def transport_error_def)
  moreover have "state (conn_step plain_config ?s EvStart) = state ?s"
    using ph stp inf by (simp add: start_def settle_def await_cont_def Let_def)
  ultimately show ?thesis using att cur ph auth logged by blast
qed

end
