(* ===== verification/EndpointSupervisor.thy ===== *)
theory EndpointSupervisor
  imports ManagedConnection
begin

text \<open>
  The endpoint supervisor of
  \<open>packages/connection-supervisor/src/createManagedEndpointSupervisor.ts\<close> (types in
  \<open>managedEndpointSupervisorTypes.ts\<close>): the variables of its closure are the record
  \<open>endpoint\<close>, an awaited probe or \<open>start()\<close> promise is a pending continuation, and a step
  resumes one, fires the timer or calls the public interface. The probe function is not part of
  the package: its answers are arguments of the steps. Promises of \<open>waitUntilOnline\<close> are
  numbered; \<open>waiters\<close> are the unsettled ones and \<open>outcomes\<close> records how the others ended.

  The component's abstract specification is the phase graph \<open>phase_step\<close>; the last section
  shows that every step of the supervisor is a path of that graph.
\<close>

section \<open>State\<close>

record endpoint_state = conn_state +
  lastProbe :: "probe_result option"

datatype ep_cont =
    ProbeAwaited nat int bool "nat option"
  | EpStartSettled nat

datatype wait_outcome = Resolved | RejectedAuth | RejectedTimeout

record endpoint =
  ep_state :: endpoint_state
  ep_timer :: "(int \<times> rat) option"
  ep_isStarted :: bool
  ep_isStopped :: bool
  ep_generation :: nat
  pendingInvalidate :: bool
  ep_startInFlight :: "nat option"
  listeners :: "nat list"
  waiters :: "nat list"
  outcomes :: "(nat \<times> wait_outcome) list"
  ep_pending :: "ep_cont list"
  ep_nextPromise :: nat
  heard :: "(nat \<times> endpoint_state) list"
  published :: "endpoint_state list"

definition ep_initialState :: endpoint_state where
  "ep_initialState = conn_state.extend initialState \<lparr>lastProbe = None\<rparr>"

definition createManagedEndpointSupervisor :: endpoint where
  "createManagedEndpointSupervisor =
     \<lparr>ep_state = ep_initialState, ep_timer = None, ep_isStarted = False, ep_isStopped = False,
      ep_generation = 0, pendingInvalidate = False, ep_startInFlight = None, listeners = [],
      waiters = [], outcomes = [], ep_pending = [], ep_nextPromise = 0, heard = [], published = []\<rparr>"

section \<open>Operations\<close>

fun toProbeResultFromError :: "thrown \<Rightarrow> probe_result" where
  "toProbeResultFromError e = Unreachable (Some (thrown_message e))"

text \<open>
  \<open>publish\<close> tells the configuration, then every subscriber; the subscribers of
  \<open>waitUntilOnline\<close> settle their promise on \<open>online\<close> and on \<open>auth_failed\<close>.
\<close>

fun settles :: "conn_phase \<Rightarrow> wait_outcome option" where
  "settles Online = Some Resolved"
| "settles AuthFailed = Some RejectedAuth"
| "settles _ = None"

definition ep_publish :: "endpoint_state \<Rightarrow> endpoint \<Rightarrow> endpoint" where
  "ep_publish next s =
     (let s1 = s\<lparr>ep_state := next, published := published s @ [next],
                 heard := heard s @ map (\<lambda>l. (l, next)) (listeners s)\<rparr>
      in case settles (phase next) of
           None \<Rightarrow> s1
         | Some oc \<Rightarrow> s1\<lparr>outcomes := outcomes s1 @ map (\<lambda>w. (w, oc)) (waiters s1), waiters := []\<rparr>)"

definition ep_clearRetryTimer :: "endpoint \<Rightarrow> endpoint" where
  "ep_clearRetryTimer s = s\<lparr>ep_timer := None\<rparr>"

definition ep_settle :: "nat option \<Rightarrow> endpoint \<Rightarrow> endpoint" where
  "ep_settle owner s =
     (case owner of None \<Rightarrow> s | Some p \<Rightarrow> s\<lparr>ep_pending := ep_pending s @ [EpStartSettled p]\<rparr>)"

definition scheduleProbe :: "rat \<Rightarrow> int \<Rightarrow> rat \<Rightarrow> probe_result option \<Rightarrow> endpoint \<Rightarrow> endpoint" where
  "scheduleProbe now a delayMs probe s =
     (if ep_isStopped s then s
      else let s1 = ep_clearRetryTimer s;
               s2 = ep_publish \<lparr>phase = Offline,
                      reason = Some (deriveManagedConnectionReason None probe False),
                      attempt = a, nextRetryAt = Some (now + delayMs),
                      lastConnectedAt = lastConnectedAt (ep_state s1),
                      lastDisconnectedAt = Some now,
                      lastErrorMessage = readProbeErrorMessage probe (lastErrorMessage (ep_state s1)),
                      lastProbe = (case probe of None \<Rightarrow> lastProbe (ep_state s1) | Some p \<Rightarrow> Some p)\<rparr> s1
           in s2\<lparr>ep_timer := Some (a, max 0 delayMs)\<rparr>)"

text \<open>\<open>nextAttempt <= Math.max(0, config.maxFastRetries)\<close>: the bound is not made finite here.\<close>

definition ep_fast_or_backoff :: "timing_policy \<Rightarrow> int \<Rightarrow> rat \<Rightarrow> rat" where
  "ep_fast_or_backoff cfg a rnd =
     (if jn_le (Fin (of_int a)) (jn_max (Fin 0) (maxFastRetries cfg))
      then max 0 (initialFastRetryDelayMs cfg) else policy_backoff cfg a rnd)"

definition runProbe :: "int \<Rightarrow> bool \<Rightarrow> nat option \<Rightarrow> endpoint \<Rightarrow> endpoint" where
  "runProbe a ini owner s =
     (let g = Suc (ep_generation s);
          s1 = ep_clearRetryTimer (s\<lparr>ep_generation := g\<rparr>)
      in if ep_isStopped s1 then ep_settle owner s1
         else let s2 = ep_publish ((ep_state s1)\<lparr>phase := Connecting,
                          reason := (if ini then Some InitialConnect else reason (ep_state s1)),
                          attempt := a, nextRetryAt := None, lastErrorMessage := None\<rparr>) s1
              in s2\<lparr>ep_pending := ep_pending s2 @ [ProbeAwaited g a ini owner]\<rparr>)"

text \<open>\<open>runProbe\<close> after \<open>await config.probeReadiness()\<close>.\<close>

definition runProbe_online :: "int \<Rightarrow> bool \<Rightarrow> nat option \<Rightarrow> probe_result \<Rightarrow> rat \<Rightarrow> endpoint \<Rightarrow> endpoint" where
  "runProbe_online a ini owner probe now s =
     (let s1 = ep_publish \<lparr>phase = Online,
                  reason = (if ini then Some InitialConnect else reason (ep_state s)),
                  attempt = a, nextRetryAt = None, lastConnectedAt = Some now,
                  lastDisconnectedAt = lastDisconnectedAt (ep_state s), lastErrorMessage = None,
                  lastProbe = Some probe\<rparr> s
      in if pendingInvalidate s1
         then ep_settle owner (runProbe (attempt (ep_state s1)) False None (s1\<lparr>pendingInvalidate := False\<rparr>))
         else ep_settle owner s1)"

definition runProbe_returned ::
    "timing_policy \<Rightarrow> nat \<Rightarrow> int \<Rightarrow> bool \<Rightarrow> nat option \<Rightarrow> probe_result \<Rightarrow> rat \<Rightarrow> rat \<Rightarrow> endpoint \<Rightarrow> endpoint" where
  "runProbe_returned cfg g a ini owner probe now rnd s =
     (if ep_isStopped s \<or> g \<noteq> ep_generation s then ep_settle owner s
      else case probe of
          ProbeAuthFailed _ _ \<Rightarrow>
            ep_settle owner (ep_publish ((ep_state s)\<lparr>phase := AuthFailed,
                reason := Some (deriveManagedConnectionReason None (Some probe) False),
                attempt := a, nextRetryAt := None,
                lastErrorMessage := readProbeErrorMessage (Some probe) (lastErrorMessage (ep_state s)),
                lastProbe := Some probe\<rparr>) s)
        | Ready \<Rightarrow> runProbe_online a ini owner probe now s
        | _ \<Rightarrow>
            ep_settle owner (scheduleProbe now (a + 1)
              (probe_delay probe (ep_fast_or_backoff cfg (a + 1) rnd)) (Some probe) s))"

definition invalidate :: "endpoint \<Rightarrow> endpoint" where
  "invalidate s =
     (if ep_isStopped s then s
      else if phase (ep_state s) = Connecting then s\<lparr>pendingInvalidate := True\<rparr>
      else runProbe (attempt (ep_state s)) False None (s\<lparr>pendingInvalidate := False\<rparr>))"

definition reportFailure :: "timing_policy \<Rightarrow> string option \<Rightarrow> rat \<Rightarrow> rat \<Rightarrow> endpoint \<Rightarrow> endpoint" where
  "reportFailure cfg errorMessage now rnd s =
     (if ep_isStopped s then s
      else if phase (ep_state s) \<noteq> Online \<and> phase (ep_state s) \<noteq> Connecting then s
      else let s1 = s\<lparr>ep_generation := Suc (ep_generation s)\<rparr>;
               nextAttempt = max 1 (attempt (ep_state s1) + 1)
           in scheduleProbe now nextAttempt (ep_fast_or_backoff cfg nextAttempt rnd)
                (Some (Unreachable errorMessage)) s1)"

definition ep_reportProbeResult :: "timing_policy \<Rightarrow> probe_result \<Rightarrow> rat \<Rightarrow> rat \<Rightarrow> endpoint \<Rightarrow> endpoint" where
  "ep_reportProbeResult cfg probe now rnd s =
     (if ep_isStopped s then s
      else if phase (ep_state s) \<notin> {Online, Connecting, Offline} then s
      else let s1 = (ep_clearRetryTimer (s\<lparr>ep_generation := Suc (ep_generation s)\<rparr>))\<lparr>pendingInvalidate := False\<rparr>
           in if is_auth_failed probe then
                ep_publish ((ep_state s1)\<lparr>phase := AuthFailed,
                  reason := Some (deriveManagedConnectionReason None (Some probe) False),
                  nextRetryAt := None,
                  lastErrorMessage := readProbeErrorMessage (Some probe) (lastErrorMessage (ep_state s1)),
                  lastProbe := Some probe\<rparr>) s1
              else let nextAttempt = max 1 (attempt (ep_state s1) + 1)
                   in scheduleProbe now nextAttempt
                        (probe_delay probe (ep_fast_or_backoff cfg nextAttempt rnd)) (Some probe) s1)"

text \<open>
  \<open>waitUntilOnline\<close> under the number \<open>w\<close>. Its timer is the step \<open>EpWaitTimeout\<close>;
  subscribing calls the subscriber with the current state, which is neither \<open>online\<close> nor
  \<open>auth_failed\<close> at that point.
\<close>

definition waitUntilOnline :: "nat \<Rightarrow> endpoint \<Rightarrow> endpoint" where
  "waitUntilOnline w s =
     (case settles (phase (ep_state s)) of
        Some oc \<Rightarrow> s\<lparr>outcomes := outcomes s @ [(w, oc)]\<rparr>
      | None \<Rightarrow> s\<lparr>waiters := waiters s @ [w]\<rparr>)"

definition wait_timeout :: "nat \<Rightarrow> endpoint \<Rightarrow> endpoint" where
  "wait_timeout w s =
     (if w \<in> set (waiters s)
      then s\<lparr>waiters := filter (\<lambda>v. v \<noteq> w) (waiters s), outcomes := outcomes s @ [(w, RejectedTimeout)]\<rparr>
      else s)"

definition subscribe :: "nat \<Rightarrow> endpoint \<Rightarrow> endpoint" where
  "subscribe l s = s\<lparr>listeners := oset_add l (listeners s), heard := heard s @ [(l, ep_state s)]\<rparr>"

definition unsubscribe :: "nat \<Rightarrow> endpoint \<Rightarrow> endpoint" where
  "unsubscribe l s = s\<lparr>listeners := filter (\<lambda>k. k \<noteq> l) (listeners s)\<rparr>"

definition ep_start :: "endpoint \<Rightarrow> endpoint" where
  "ep_start s =
     (if ep_startInFlight s \<noteq> None \<and> \<not> ep_isStopped s then s
      else let p = ep_nextPromise s;
               s0 = s\<lparr>ep_nextPromise := Suc p\<rparr>;
               s1 = (if ep_isStarted s0 \<and> \<not> ep_isStopped s0 then
                       (if phase (ep_state s0) = Online \<or> phase (ep_state s0) = Connecting
                        then ep_settle (Some p) s0
                        else runProbe 0 False (Some p) (s0\<lparr>pendingInvalidate := False\<rparr>))
                     else runProbe 0 True (Some p)
                            (s0\<lparr>ep_isStarted := True, ep_isStopped := False, pendingInvalidate := False\<rparr>))
           in s1\<lparr>ep_startInFlight := Some p\<rparr>)"

definition ep_stop :: "endpoint \<Rightarrow> endpoint" where
  "ep_stop s =
     (if ep_isStopped s then s
      else let s1 = ep_clearRetryTimer
                      (s\<lparr>ep_isStopped := True, ep_startInFlight := None, pendingInvalidate := False\<rparr>)
           in ep_publish ((ep_state s1)\<lparr>phase := ShuttingDown,
                reason := Some IntentionalShutdown, nextRetryAt := None\<rparr>) s1)"

section \<open>Steps\<close>

datatype ep_event =
    EpStart
  | EpStop
  | EpInvalidate
  | EpReportFailure "string option" rat rat
  | EpReportProbe probe_result rat rat
  | EpTimer
  | EpWait nat
  | EpWaitTimeout nat
  | EpSubscribe nat
  | EpUnsubscribe nat
  | EpProbeAnswer ep_cont "thrown + probe_result" rat rat

fun ep_resume :: "timing_policy \<Rightarrow> ep_cont \<Rightarrow> thrown + probe_result \<Rightarrow> rat \<Rightarrow> rat \<Rightarrow> endpoint \<Rightarrow> endpoint" where
  "ep_resume cfg (ProbeAwaited g a ini owner) ans now rnd s =
     runProbe_returned cfg g a ini owner
       (case ans of Inl e \<Rightarrow> toProbeResultFromError e | Inr p \<Rightarrow> p) now rnd s"
| "ep_resume cfg (EpStartSettled p) ans now rnd s =
     (if ep_startInFlight s = Some p then s\<lparr>ep_startInFlight := None\<rparr> else s)"

fun ep_step :: "timing_policy \<Rightarrow> endpoint \<Rightarrow> ep_event \<Rightarrow> endpoint" where
  "ep_step cfg s EpStart = ep_start s"
| "ep_step cfg s EpStop = ep_stop s"
| "ep_step cfg s EpInvalidate = invalidate s"
| "ep_step cfg s (EpReportFailure m now rnd) = reportFailure cfg m now rnd s"
| "ep_step cfg s (EpReportProbe p now rnd) = ep_reportProbeResult cfg p now rnd s"
| "ep_step cfg s EpTimer =
     (case ep_timer s of None \<Rightarrow> s
      | Some (a, _) \<Rightarrow> runProbe a False None (s\<lparr>ep_timer := None\<rparr>))"
| "ep_step cfg s (EpWait w) = waitUntilOnline w s"
| "ep_step cfg s (EpWaitTimeout w) = wait_timeout w s"
| "ep_step cfg s (EpSubscribe l) = subscribe l s"
| "ep_step cfg s (EpUnsubscribe l) = unsubscribe l s"
| "ep_step cfg s (EpProbeAnswer c ans now rnd) =
     (if c \<in> set (ep_pending s)
      then ep_resume cfg c ans now rnd (s\<lparr>ep_pending := remove1 c (ep_pending s)\<rparr>) else s)"

inductive ep_reachable :: "timing_policy \<Rightarrow> endpoint \<Rightarrow> bool" for cfg where
  ep_created: "ep_reachable cfg createManagedEndpointSupervisor"
| ep_stepped: "ep_reachable cfg s \<Longrightarrow> ep_reachable cfg (ep_step cfg s ev)"

lemma ep_reachable_run:
  "ep_reachable cfg s \<Longrightarrow> ep_reachable cfg (foldl (ep_step cfg) s evs)"
  by (induction evs arbitrary: s) (auto intro: ep_reachable.ep_stepped)

section \<open>The invariant\<close>

text \<open>
  \<open>Offline\<close> is exactly "a retry is armed", \<open>Connecting\<close> is exactly "a probe of the current
  generation is in flight" (until the supervisor is stopped), nobody waits once the endpoint is
  online or its credentials are rejected, and a stopped supervisor has nothing left to do. Every
  awaited probe has a generation of its own, none ahead of the current one.
\<close>

fun probe_gens :: "ep_cont list \<Rightarrow> nat list" where
  "probe_gens [] = []"
| "probe_gens (ProbeAwaited g _ _ _ # cs) = g # probe_gens cs"
| "probe_gens (EpStartSettled _ # cs) = probe_gens cs"

definition probe_in_flight :: "endpoint \<Rightarrow> bool" where
  "probe_in_flight s \<longleftrightarrow> ep_generation s \<in> set (probe_gens (ep_pending s))"

definition gens_wf :: "endpoint \<Rightarrow> bool" where
  "gens_wf s \<longleftrightarrow> distinct (probe_gens (ep_pending s))
     \<and> (\<forall>g \<in> set (probe_gens (ep_pending s)). g \<le> ep_generation s)"

definition phase_wf :: "endpoint \<Rightarrow> bool" where
  "phase_wf s \<longleftrightarrow>
     (ep_timer s = None \<longleftrightarrow> phase (ep_state s) \<noteq> Offline)
     \<and> (\<not> ep_isStopped s \<longrightarrow> (phase (ep_state s) = Connecting \<longleftrightarrow> probe_in_flight s))
     \<and> (settles (phase (ep_state s)) \<noteq> None \<longrightarrow> waiters s = [])
     \<and> (ep_isStopped s \<longleftrightarrow> phase (ep_state s) = ShuttingDown)
     \<and> (phase (ep_state s) = Idle \<longrightarrow> \<not> ep_isStarted s)"

definition ep_inv :: "endpoint \<Rightarrow> bool" where
  "ep_inv s \<longleftrightarrow> gens_wf s \<and> phase_wf s"

lemma probe_gens_append [simp]: "probe_gens (xs @ ys) = probe_gens xs @ probe_gens ys"
  by (induction xs rule: probe_gens.induct) auto

lemma probe_gens_in: "ProbeAwaited g a ini ow \<in> set cs \<Longrightarrow> g \<in> set (probe_gens cs)"
  by (induction cs rule: probe_gens.induct) auto

lemma probe_gens_iff: "g \<in> set (probe_gens cs) \<longleftrightarrow> (\<exists>a ini ow. ProbeAwaited g a ini ow \<in> set cs)"
  by (induction cs rule: probe_gens.induct) auto

lemma probe_gens_remove:
  "ProbeAwaited g a ini ow \<in> set cs \<Longrightarrow> distinct (probe_gens cs) \<Longrightarrow>
   probe_gens (remove1 (ProbeAwaited g a ini ow) cs) = remove1 g (probe_gens cs)"
  by (induction cs rule: probe_gens.induct) (auto dest: probe_gens_in)

lemma probe_gens_remove_settled [simp]:
  "probe_gens (remove1 (EpStartSettled p) cs) = probe_gens cs"
  by (induction cs rule: probe_gens.induct) auto

lemma ep_publish_fields [simp]:
  "ep_isStopped (ep_publish n s) = ep_isStopped s" "ep_timer (ep_publish n s) = ep_timer s"
  "pendingInvalidate (ep_publish n s) = pendingInvalidate s"
  "ep_state (ep_publish n s) = n" "ep_generation (ep_publish n s) = ep_generation s"
  "ep_pending (ep_publish n s) = ep_pending s" "ep_isStarted (ep_publish n s) = ep_isStarted s"
  "waiters (ep_publish n s) = (if settles (phase n) = None then waiters s else [])"
  by (auto simp: ep_publish_def Let_def split: option.split)

lemma ep_settle_fields [simp]:
  "ep_isStopped (ep_settle ow s) = ep_isStopped s" "ep_timer (ep_settle ow s) = ep_timer s"
  "ep_state (ep_settle ow s) = ep_state s" "ep_generation (ep_settle ow s) = ep_generation s"
  "waiters (ep_settle ow s) = waiters s" "outcomes (ep_settle ow s) = outcomes s"
  "published (ep_settle ow s) = published s" "ep_isStarted (ep_settle ow s) = ep_isStarted s"
  "pendingInvalidate (ep_settle ow s) = pendingInvalidate s"
  "probe_gens (ep_pending (ep_settle ow s)) = probe_gens (ep_pending s)"
  by (auto simp: ep_settle_def split: option.split)

lemmas ep_invs = ep_inv_def gens_wf_def phase_wf_def probe_in_flight_def
lemmas ep_ops = ep_clearRetryTimer_def scheduleProbe_def runProbe_def Let_def

lemma ep_inv_settle [simp]: "ep_inv (ep_settle ow s) = ep_inv s"
  by (simp add: ep_invs)

lemma ep_inv_runProbe:
  assumes "gens_wf s" and "\<not> ep_isStopped s"
  shows "ep_inv (runProbe a ini ow s)"
  using assms by (force simp: ep_invs ep_ops)

lemma ep_inv_schedule:
  assumes "gens_wf s" and "\<not> ep_isStopped s" and "\<not> probe_in_flight s"
  shows "ep_inv (scheduleProbe now a d p s)"
  using assms by (auto simp: ep_invs ep_ops)

lemma ep_inv_quiet:
  assumes "gens_wf s" and "\<not> ep_isStopped s" and "\<not> probe_in_flight s"
    and "ep_timer s = None" and "phase n = Online \<or> phase n = AuthFailed"
  shows "ep_inv (ep_publish n s)"
  using assms by (auto simp: ep_invs)

lemma gens_wf_cong [simp]:
  "gens_wf (ep_publish n s) = gens_wf s" "gens_wf (ep_settle ow s) = gens_wf s"
  "gens_wf (s\<lparr>pendingInvalidate := b\<rparr>) = gens_wf s" "gens_wf (s\<lparr>ep_timer := t\<rparr>) = gens_wf s"
  by (auto simp: gens_wf_def)

lemma ep_inv_online:
  assumes "gens_wf s" and "\<not> ep_isStopped s" and "\<not> probe_in_flight s" and "ep_timer s = None"
  shows "ep_inv (runProbe_online a ini ow p now s)"
  using assms by (auto simp: runProbe_online_def Let_def intro!: ep_inv_runProbe ep_inv_quiet)

text \<open>
  A stale answer changes nothing; the answer of the current probe finds a supervisor whose only
  obligation it was.
\<close>

lemma ep_inv_returned:
  assumes "gens_wf s" and "\<not> probe_in_flight s" and "ep_timer s = None"
    and "g \<noteq> ep_generation s \<or> ep_isStopped s \<Longrightarrow> ep_inv s"
  shows "ep_inv (runProbe_returned cfg g a ini ow p now rnd s)"
  using assms
  by (auto simp: runProbe_returned_def intro!: ep_inv_online ep_inv_quiet ep_inv_schedule
      split: probe_result.split)

lemma ep_inv_stale:
  assumes "ep_inv s" and "ep_isStopped s \<or> g \<noteq> ep_generation s"
    and "ProbeAwaited g a ini ow \<in> set (ep_pending s)"
  shows "ep_inv (s\<lparr>ep_pending := remove1 (ProbeAwaited g a ini ow) (ep_pending s)\<rparr>)"
  using assms by (auto simp: ep_invs probe_gens_remove)

lemma ep_inv_answer:
  assumes "ep_inv s" and "c \<in> set (ep_pending s)"
  shows "ep_inv (ep_resume cfg c ans now rnd (s\<lparr>ep_pending := remove1 c (ep_pending s)\<rparr>))"
proof (cases c)
  case (EpStartSettled p)
  then show ?thesis using assms by (auto simp: ep_invs)
next
  case (ProbeAwaited g a ini ow)
  show ?thesis
  proof (cases "ep_isStopped s \<or> g \<noteq> ep_generation s")
    case True
    then show ?thesis
      using ep_inv_stale [OF assms(1) True] assms(2) ProbeAwaited
      by (auto simp: runProbe_returned_def)
  next
    case False
    then have "phase (ep_state s) = Connecting"
      using assms ProbeAwaited probe_gens_in by (auto simp: ep_invs)
    let ?s = "s\<lparr>ep_pending := remove1 (ProbeAwaited g a ini ow) (ep_pending s)\<rparr>"
    have "gens_wf ?s \<and> \<not> probe_in_flight ?s \<and> ep_timer ?s = None"
      using assms ProbeAwaited False \<open>phase (ep_state s) = Connecting\<close>
      by (auto simp: ep_invs probe_gens_remove dest: in_set_remove1)
    then have "ep_inv (runProbe_returned cfg g a ini ow
        (case ans of Inl e \<Rightarrow> toProbeResultFromError e | Inr p \<Rightarrow> p) now rnd ?s)"
      using False by (intro ep_inv_returned) auto
    then show ?thesis using ProbeAwaited by simp
  qed
qed

lemma ep_inv_init: "ep_inv createManagedEndpointSupervisor"
  by (simp add: ep_invs createManagedEndpointSupervisor_def ep_initialState_def initialState_def
      conn_state.defs)

lemma ep_inv_invalidate: "ep_inv s \<Longrightarrow> ep_inv (invalidate s)"
proof -
  assume inv: "ep_inv s"
  then have "ep_inv (s\<lparr>pendingInvalidate := b\<rparr>)" for b by (simp add: ep_invs)
  with inv show ?thesis
    by (simp add: invalidate_def ep_inv_runProbe ep_inv_def [of s])
qed

lemma ep_inv_bump:
  "gens_wf s \<Longrightarrow> gens_wf (s\<lparr>ep_generation := Suc (ep_generation s)\<rparr>)
     \<and> \<not> probe_in_flight (s\<lparr>ep_generation := Suc (ep_generation s)\<rparr>)"
  by (force simp: gens_wf_def probe_in_flight_def)

lemma ep_inv_failure: "ep_inv s \<Longrightarrow> ep_inv (reportFailure cfg m now rnd s)"
  using ep_inv_bump [of s]
  by (auto simp: reportFailure_def Let_def ep_inv_def [of s] intro!: ep_inv_schedule)

lemma ep_inv_reported: "ep_inv s \<Longrightarrow> ep_inv (ep_reportProbeResult cfg p now rnd s)"
proof -
  assume "ep_inv s"
  then have "gens_wf s" by (simp add: ep_inv_def)
  let ?s = "s\<lparr>ep_generation := Suc (ep_generation s), ep_timer := None, pendingInvalidate := False\<rparr>"
  have "gens_wf ?s" "\<not> probe_in_flight ?s"
    using \<open>gens_wf s\<close> by (force simp: gens_wf_def probe_in_flight_def)+
  then show ?thesis using \<open>ep_inv s\<close>
    by (auto simp: ep_reportProbeResult_def ep_clearRetryTimer_def Let_def
        intro!: ep_inv_schedule ep_inv_quiet)
qed

lemma ep_inv_start: "ep_inv s \<Longrightarrow> ep_inv (ep_start s)"
proof -
  have upd: "ep_inv (t\<lparr>ep_startInFlight := x\<rparr>) = ep_inv t" "ep_inv (t\<lparr>ep_nextPromise := y\<rparr>) = ep_inv t"
    for t x y by (simp_all add: ep_invs)
  assume "ep_inv s"
  then show ?thesis
    by (auto simp: ep_start_def Let_def upd gens_wf_def ep_inv_def [of s] intro!: ep_inv_runProbe)
qed

lemma ep_inv_stop: "ep_inv s \<Longrightarrow> ep_inv (ep_stop s)"
  by (auto simp: ep_stop_def ep_clearRetryTimer_def Let_def ep_invs)

lemma ep_inv_wait: "ep_inv s \<Longrightarrow> ep_inv (waitUntilOnline w s)"
  by (auto simp: waitUntilOnline_def ep_invs split: option.split)

lemma ep_inv_rest:
  "ep_inv s \<Longrightarrow> ep_inv (wait_timeout w s)" "ep_inv s \<Longrightarrow> ep_inv (subscribe l s)"
  "ep_inv s \<Longrightarrow> ep_inv (unsubscribe l s)"
  by (auto simp: wait_timeout_def subscribe_def unsubscribe_def ep_invs)

lemma ep_inv_timer: "ep_inv s \<Longrightarrow> ep_inv (ep_step cfg s EpTimer)"
  by (auto simp: ep_inv_def [of s] phase_wf_def split: option.split intro!: ep_inv_runProbe)

lemma ep_inv_step: "ep_inv s \<Longrightarrow> ep_inv (ep_step cfg s ev)"
  by (cases ev)
    (use ep_inv_timer in \<open>auto intro: ep_inv_start ep_inv_stop ep_inv_invalidate ep_inv_failure
      ep_inv_reported ep_inv_wait ep_inv_rest ep_inv_answer\<close>)

interpretation endpoint: reducer "ep_step cfg" ep_inv for cfg
  by unfold_locales (rule ep_inv_step)

lemma ep_reachable_inv: "ep_reachable cfg s \<Longrightarrow> ep_inv s"
  by (induction rule: ep_reachable.induct) (auto intro: ep_inv_init ep_inv_step)

section \<open>The phase graph\<close>

text \<open>
  What the package promises about the phases a subscriber sees, independently of timers,
  generations and promises. Any phase may go to \<open>connecting\<close>: the first \<open>start()\<close> supersedes a
  probe that \<open>invalidate()\<close> sent before it.
\<close>

inductive phase_step :: "conn_phase \<Rightarrow> conn_phase \<Rightarrow> bool" where
  probe_sent: "phase_step p Connecting"
| probe_ready: "phase_step Connecting Online"
| went_offline: "p \<in> {Online, Connecting, Offline} \<Longrightarrow> phase_step p Offline"
| rejected: "p \<in> {Online, Connecting, Offline} \<Longrightarrow> phase_step p AuthFailed"
| stopped: "p \<noteq> ShuttingDown \<Longrightarrow> phase_step p ShuttingDown"

inductive_simps phase_step_simps:
  "phase_step p Connecting" "phase_step p Online" "phase_step p Offline"
  "phase_step p AuthFailed" "phase_step p ShuttingDown"

inductive_cases phase_step_to_idle: "phase_step p Idle"

definition phases :: "endpoint \<Rightarrow> conn_phase list" where
  "phases s = Idle # map phase (published s)"

definition path_ok :: "endpoint \<Rightarrow> bool" where
  "path_ok s \<longleftrightarrow> successively phase_step (phases s) \<and> last (phases s) = phase (ep_state s)"

lemma phases_publish: "phases (ep_publish n s) = phases s @ [phase n]"
  by (auto simp: phases_def ep_publish_def Let_def split: option.split)

lemma path_ok_publish:
  "path_ok s \<Longrightarrow> phase_step (phase (ep_state s)) (phase n) \<Longrightarrow> path_ok (ep_publish n s)"
  by (auto simp: path_ok_def phases_publish successively_append_iff)

lemma path_ok_cong [simp]:
  "path_ok (ep_settle ow s) = path_ok s" "path_ok (s\<lparr>ep_timer := t\<rparr>) = path_ok s"
  "path_ok (s\<lparr>ep_generation := g\<rparr>) = path_ok s" "path_ok (s\<lparr>pendingInvalidate := b\<rparr>) = path_ok s"
  "path_ok (s\<lparr>ep_pending := cs\<rparr>) = path_ok s" "path_ok (s\<lparr>ep_startInFlight := o1\<rparr>) = path_ok s"
  "path_ok (s\<lparr>ep_isStarted := b\<rparr>) = path_ok s" "path_ok (s\<lparr>ep_isStopped := b\<rparr>) = path_ok s"
  "path_ok (s\<lparr>ep_nextPromise := n\<rparr>) = path_ok s" "path_ok (s\<lparr>waiters := ws\<rparr>) = path_ok s"
  "path_ok (s\<lparr>outcomes := os\<rparr>) = path_ok s" "path_ok (s\<lparr>listeners := ls\<rparr>) = path_ok s"
  "path_ok (s\<lparr>heard := hs\<rparr>) = path_ok s"
  by (auto simp: path_ok_def phases_def)

lemma path_ok_runProbe: "path_ok s \<Longrightarrow> path_ok (runProbe a ini ow s)"
  by (auto simp: runProbe_def ep_clearRetryTimer_def Let_def phase_step_simps intro!: path_ok_publish)

lemma path_ok_schedule:
  "path_ok s \<Longrightarrow> phase (ep_state s) \<in> {Online, Connecting, Offline} \<Longrightarrow>
   path_ok (scheduleProbe now a d p s)"
  by (auto simp: scheduleProbe_def ep_clearRetryTimer_def Let_def phase_step_simps intro!: path_ok_publish)

lemma path_ok_returned:
  assumes "path_ok s" and "phase (ep_state s) = Connecting"
  shows "path_ok (runProbe_returned cfg g a ini ow p now rnd s)"
  using assms
  by (auto simp: runProbe_returned_def runProbe_online_def Let_def phase_step_simps
      intro!: path_ok_publish path_ok_schedule path_ok_runProbe split: probe_result.split)

lemma path_ok_answer:
  assumes "path_ok s" and "ep_inv s" and "c \<in> set (ep_pending s)"
  shows "path_ok (ep_resume cfg c ans now rnd (s\<lparr>ep_pending := remove1 c (ep_pending s)\<rparr>))"
proof (cases c)
  case (EpStartSettled p)
  then show ?thesis using assms by simp
next
  case (ProbeAwaited g a ini ow)
  show ?thesis
  proof (cases "ep_isStopped s \<or> g \<noteq> ep_generation s")
    case True
    then show ?thesis using assms ProbeAwaited by (auto simp: runProbe_returned_def)
  next
    case False
    then have "phase (ep_state s) = Connecting"
      using assms ProbeAwaited probe_gens_in by (auto simp: ep_invs)
    then show ?thesis using assms ProbeAwaited by (auto intro!: path_ok_returned)
  qed
qed

lemma path_ok_start: "path_ok s \<Longrightarrow> path_ok (ep_start s)"
  by (simp add: ep_start_def Let_def path_ok_runProbe)

lemma path_ok_stop: "path_ok s \<Longrightarrow> ep_inv s \<Longrightarrow> path_ok (ep_stop s)"
  by (auto simp: ep_stop_def ep_clearRetryTimer_def Let_def ep_invs phase_step_simps
      intro!: path_ok_publish)

lemma path_ok_invalidate: "path_ok s \<Longrightarrow> path_ok (invalidate s)"
  by (simp add: invalidate_def path_ok_runProbe)

lemma path_ok_failure: "path_ok s \<Longrightarrow> path_ok (reportFailure cfg m now rnd s)"
  by (auto simp: reportFailure_def Let_def intro!: path_ok_schedule)

lemma path_ok_reported:
  assumes "path_ok s"
  shows "path_ok (ep_reportProbeResult cfg p now rnd s)"
proof (cases "ep_isStopped s \<or> phase (ep_state s) \<notin> {Online, Connecting, Offline}")
  case True
  then show ?thesis using assms by (auto simp: ep_reportProbeResult_def)
next
  case False
  let ?s = "s\<lparr>ep_generation := Suc (ep_generation s), ep_timer := None, pendingInvalidate := False\<rparr>"
  have ok: "path_ok ?s" "phase (ep_state ?s) \<in> {Online, Connecting, Offline}"
    using assms False by simp_all
  then have "path_ok (scheduleProbe now a d q ?s)" for a d q by (rule path_ok_schedule)
  moreover have "path_ok (ep_publish n ?s)" if "phase n = AuthFailed" for n
    using ok that by (intro path_ok_publish) (simp_all add: phase_step_simps)
  ultimately show ?thesis
    using False unfolding ep_reportProbeResult_def ep_clearRetryTimer_def Let_def by simp
qed

lemma path_ok_timer: "path_ok s \<Longrightarrow> path_ok (ep_step cfg s EpTimer)"
  by (simp add: path_ok_runProbe split: option.split)

lemma path_ok_rest:
  "path_ok s \<Longrightarrow> path_ok (waitUntilOnline w s)" "path_ok s \<Longrightarrow> path_ok (wait_timeout w s)"
  "path_ok s \<Longrightarrow> path_ok (subscribe l s)" "path_ok s \<Longrightarrow> path_ok (unsubscribe l s)"
  by (simp_all add: waitUntilOnline_def wait_timeout_def subscribe_def unsubscribe_def
      split: option.split)

lemma path_ok_step: "path_ok s \<Longrightarrow> ep_inv s \<Longrightarrow> path_ok (ep_step cfg s ev)"
  using path_ok_timer [of s cfg]
  by (cases ev) (simp_all add: path_ok_start path_ok_stop path_ok_invalidate path_ok_failure
      path_ok_reported path_ok_rest path_ok_answer)

lemma path_ok_init: "path_ok createManagedEndpointSupervisor"
  by (simp add: path_ok_def phases_def createManagedEndpointSupervisor_def ep_initialState_def
      initialState_def conn_state.defs)

lemma ep_reachable_path: "ep_reachable cfg s \<Longrightarrow> path_ok s"
  by (induction rule: ep_reachable.induct) (auto intro: path_ok_init path_ok_step ep_reachable_inv)

section \<open>Properties\<close>

text \<open>
  A concrete run for the witnesses: started, a first probe that finds no server, a caller that
  waits, the retry that finds one.
\<close>

definition ep_demo :: "ep_event list \<Rightarrow> endpoint" where
  "ep_demo evs = foldl (ep_step DEFAULT_MANAGED_CONNECTION_POLICY) createManagedEndpointSupervisor evs"

lemma ep_demo_reachable: "ep_reachable DEFAULT_MANAGED_CONNECTION_POLICY (ep_demo evs)"
  unfolding ep_demo_def by (rule ep_reachable_run) (rule ep_created)

lemmas ep_run_simps = ep_demo_def createManagedEndpointSupervisor_def ep_initialState_def
  initialState_def conn_state.defs ep_start_def runProbe_def ep_clearRetryTimer_def ep_publish_def
  ep_settle_def runProbe_returned_def runProbe_online_def scheduleProbe_def ep_stop_def
  reportFailure_def waitUntilOnline_def ep_fast_or_backoff_def Let_def
  DEFAULT_MANAGED_CONNECTION_POLICY_def

definition ep_down :: "ep_event list" where
  "ep_down = [EpStart, EpProbeAnswer (ProbeAwaited 1 0 True (Some 0)) (Inr (Unreachable None)) 5 0,
              EpProbeAnswer (EpStartSettled 0) (Inr Ready) 5 0, EpWait 7]"

text \<open>C30: The endpoint supervisor is never stuck: once started and until stopped it is online, or
  its credentials are rejected, or a retry timer is armed, or a probe of the current generation is
  in flight, exactly according to the phase it publishes.\<close>

theorem endpoint_never_stuck:
  assumes "ep_reachable cfg s" and "ep_isStarted s" and "\<not> ep_isStopped s"
  shows "(phase (ep_state s) = Offline \<longleftrightarrow> ep_timer s \<noteq> None)
    \<and> (phase (ep_state s) = Connecting
         \<longleftrightarrow> (\<exists>a ini ow. ProbeAwaited (ep_generation s) a ini ow \<in> set (ep_pending s)))
    \<and> phase (ep_state s) \<in> {Online, AuthFailed, Offline, Connecting}"
  using ep_reachable_inv [OF assms(1)] assms(2,3) probe_gens_in
  by (cases "phase (ep_state s)") (auto simp: ep_invs probe_gens_iff)

theorem endpoint_never_stuck_witness:
  "phase (ep_state (ep_demo ep_down)) = Offline \<and> ep_timer (ep_demo ep_down) \<noteq> None"
proof -
  have "phase (ep_state (ep_demo ep_down)) = Offline" "ep_isStarted (ep_demo ep_down)"
    "\<not> ep_isStopped (ep_demo ep_down)"
    by (simp_all add: ep_run_simps ep_down_def)
  then show ?thesis using endpoint_never_stuck [OF ep_demo_reachable] by blast
qed

text \<open>C24: Every sequence of phases a subscriber of the configuration sees is a path of the phase
  graph from \<open>idle\<close>: the supervisor refines its abstract specification, whatever the order in
  which probes answer, timers fire and callers report.\<close>

theorem endpoint_refines_phase_graph:
  assumes "ep_reachable cfg s"
  shows "successively phase_step (Idle # map phase (published s))
    \<and> last (Idle # map phase (published s)) = phase (ep_state s)"
  using ep_reachable_path [OF assms] by (simp add: path_ok_def phases_def)

theorem endpoint_refines_phase_graph_witness:
  "map phase (published (ep_demo ep_down)) = [Connecting, Offline]
   \<and> successively phase_step [Idle, Connecting, Offline]"
proof -
  have "map phase (published (ep_demo ep_down)) = [Connecting, Offline]"
    by (simp add: ep_run_simps ep_down_def)
  then show ?thesis
    using endpoint_refines_phase_graph [OF ep_demo_reachable, of ep_down] by simp
qed

text \<open>C8: A failure reported while a probe is in flight is final: the supervisor goes offline with
  a retry armed, and whatever the superseded probe answers afterwards changes neither the state, nor
  the timer, nor what was published.\<close>

theorem reported_failure_survives_stale_probe:
  assumes "ep_reachable cfg s" and "ProbeAwaited g a ini ow \<in> set (ep_pending s)"
    and "phase (ep_state s) \<in> {Online, Connecting}"
  shows "phase (ep_state (reportFailure cfg m now rnd s)) = Offline
    \<and> ep_timer (reportFailure cfg m now rnd s) \<noteq> None
    \<and> ep_state (ep_step cfg (reportFailure cfg m now rnd s) (EpProbeAnswer (ProbeAwaited g a ini ow) ans now' rnd'))
        = ep_state (reportFailure cfg m now rnd s)
    \<and> ep_timer (ep_step cfg (reportFailure cfg m now rnd s) (EpProbeAnswer (ProbeAwaited g a ini ow) ans now' rnd'))
        = ep_timer (reportFailure cfg m now rnd s)
    \<and> published (ep_step cfg (reportFailure cfg m now rnd s) (EpProbeAnswer (ProbeAwaited g a ini ow) ans now' rnd'))
        = published (reportFailure cfg m now rnd s)"
proof -
  have inv: "ep_inv s" using assms(1) by (rule ep_reachable_inv)
  have live: "\<not> ep_isStopped s" using inv assms(3) by (auto simp: ep_invs)
  have "g \<in> set (probe_gens (ep_pending s))" using assms(2) by (rule probe_gens_in)
  then have "g \<noteq> Suc (ep_generation s)" using inv by (auto simp: ep_invs)
  then show ?thesis
    using live assms(3)
    by (auto simp: reportFailure_def scheduleProbe_def ep_clearRetryTimer_def
        runProbe_returned_def Let_def)
qed

theorem reported_failure_survives_stale_probe_witness:
  "phase (ep_state (ep_step DEFAULT_MANAGED_CONNECTION_POLICY
      (reportFailure DEFAULT_MANAGED_CONNECTION_POLICY None 3 0 (ep_demo [EpStart]))
      (EpProbeAnswer (ProbeAwaited 1 0 True (Some 0)) (Inr Ready) 5 0))) = Offline"
proof -
  have "ProbeAwaited 1 0 True (Some 0) \<in> set (ep_pending (ep_demo [EpStart]))"
    "phase (ep_state (ep_demo [EpStart])) \<in> {Online, Connecting}"
    by (simp_all add: ep_run_simps)
  from reported_failure_survives_stale_probe [OF ep_demo_reachable this,
      where m = None and now = 3 and rnd = 0 and ans = "Inr Ready" and now' = 5 and rnd' = 0]
  show ?thesis by simp
qed

section \<open>Waiters\<close>

text \<open>
  How a step treats a caller of \<open>waitUntilOnline\<close>: outcomes are only appended, and a waiter
  that leaves the list has one.
\<close>

definition waiters_kept :: "endpoint \<Rightarrow> endpoint \<Rightarrow> bool" where
  "waiters_kept s t \<longleftrightarrow>
     (\<exists>os. outcomes t = outcomes s @ os \<and> set (waiters s) \<subseteq> set (waiters t) \<union> fst ` set os)"

lemma waiters_kept_refl: "waiters t = waiters s \<Longrightarrow> outcomes t = outcomes s \<Longrightarrow> waiters_kept s t"
  by (simp add: waiters_kept_def)

lemma waiters_kept_trans: "waiters_kept s t \<Longrightarrow> waiters_kept t u \<Longrightarrow> waiters_kept s u"
proof -
  assume "waiters_kept s t" "waiters_kept t u"
  then obtain os os' where "outcomes t = outcomes s @ os" "outcomes u = outcomes t @ os'"
    and sub: "set (waiters s) \<subseteq> set (waiters t) \<union> fst ` set os"
      "set (waiters t) \<subseteq> set (waiters u) \<union> fst ` set os'"
    unfolding waiters_kept_def by blast
  then have "outcomes u = outcomes s @ (os @ os')" by simp
  moreover have "set (waiters s) \<subseteq> set (waiters u) \<union> fst ` set (os @ os')"
    using sub unfolding set_append image_Un by blast
  ultimately show ?thesis unfolding waiters_kept_def by blast
qed

lemma waiters_kept_publish:
  "waiters t = waiters s \<Longrightarrow> outcomes t = outcomes s \<Longrightarrow> waiters_kept s (ep_publish n t)"
  by (auto simp: waiters_kept_def ep_publish_def Let_def image_image split: option.split)

lemma waiters_kept_settle [simp]: "waiters_kept s (ep_settle ow t) = waiters_kept s t"
  by (simp add: waiters_kept_def)

lemma waiters_kept_upd [simp]:
  "waiters_kept s (t\<lparr>ep_timer := x1\<rparr>) = waiters_kept s t"
  "waiters_kept s (t\<lparr>ep_pending := x2\<rparr>) = waiters_kept s t"
  "waiters_kept s (t\<lparr>ep_startInFlight := x3\<rparr>) = waiters_kept s t"
  "waiters_kept s (t\<lparr>pendingInvalidate := x4\<rparr>) = waiters_kept s t"
  "waiters_kept s (t\<lparr>ep_generation := x5\<rparr>) = waiters_kept s t"
  by (simp_all add: waiters_kept_def)

lemma waiters_kept_schedule:
  "waiters t = waiters s \<Longrightarrow> outcomes t = outcomes s \<Longrightarrow> waiters_kept s (scheduleProbe now a d p t)"
  by (simp add: scheduleProbe_def ep_clearRetryTimer_def Let_def waiters_kept_publish waiters_kept_refl)

lemma waiters_kept_runProbe: "waiters_kept s t \<Longrightarrow> waiters_kept s (runProbe a ini ow t)"
  by (rule waiters_kept_trans, assumption)
    (simp add: runProbe_def ep_clearRetryTimer_def Let_def waiters_kept_publish waiters_kept_refl)

lemma waiters_kept_returned:
  "waiters t = waiters s \<Longrightarrow> outcomes t = outcomes s \<Longrightarrow>
   waiters_kept s (runProbe_returned cfg g a ini ow p now rnd t)"
  by (simp add: runProbe_returned_def runProbe_online_def Let_def waiters_kept_publish
      waiters_kept_schedule waiters_kept_runProbe waiters_kept_refl split: probe_result.split)

lemma waiters_kept_step: "waiters_kept s (ep_step cfg s ev)"
proof (cases ev)
  case (EpWaitTimeout w)
  then show ?thesis by (auto simp: wait_timeout_def waiters_kept_def)
next
  case (EpWait w)
  then show ?thesis by (auto simp: waitUntilOnline_def waiters_kept_def split: option.split)
next
  case (EpProbeAnswer c ans now rnd)
  then show ?thesis by (cases c) (simp_all add: waiters_kept_returned waiters_kept_refl)
next
  case EpStart
  then show ?thesis
    by (simp add: ep_start_def Let_def waiters_kept_runProbe waiters_kept_refl)
qed (simp_all add: ep_stop_def invalidate_def reportFailure_def ep_reportProbeResult_def
    subscribe_def unsubscribe_def ep_clearRetryTimer_def Let_def waiters_kept_publish
    waiters_kept_schedule waiters_kept_runProbe waiters_kept_refl split: option.split)

text \<open>C31: A caller of \<open>waitUntilOnline\<close> is never forgotten: a step that takes it off the waiting
  list records how its promise ended, and once the endpoint is online or its credentials are
  rejected nobody is left waiting. Stopping the supervisor, however, settles nobody: a caller that
  waits without a timeout keeps waiting.\<close>

theorem waiters_are_settled:
  assumes "ep_reachable cfg s" and "w \<in> set (waiters s)"
  shows "(w \<in> set (waiters (ep_step cfg s ev))
           \<or> (\<exists>oc. (w, oc) \<in> set (drop (length (outcomes s)) (outcomes (ep_step cfg s ev)))))
    \<and> (phase (ep_state (ep_step cfg s ev)) \<in> {Online, AuthFailed} \<longrightarrow> waiters (ep_step cfg s ev) = [])
    \<and> w \<in> set (waiters (ep_step cfg s EpStop))"
proof -
  obtain os where "outcomes (ep_step cfg s ev) = outcomes s @ os"
    and "set (waiters s) \<subseteq> set (waiters (ep_step cfg s ev)) \<union> fst ` set os"
    using waiters_kept_step [of s cfg ev] unfolding waiters_kept_def by blast
  moreover have "ep_inv (ep_step cfg s ev)"
    using assms(1) by (intro ep_inv_step ep_reachable_inv)
  then have "phase (ep_state (ep_step cfg s ev)) \<in> {Online, AuthFailed} \<longrightarrow> waiters (ep_step cfg s ev) = []"
    by (auto simp: ep_invs)
  moreover have "waiters (ep_step cfg s EpStop) = waiters s"
    by (simp add: ep_stop_def ep_clearRetryTimer_def Let_def)
  ultimately show ?thesis using assms(2) by fastforce
qed

theorem waiters_are_settled_witness:
  "waiters (ep_demo ep_down) = [7]
   \<and> outcomes (ep_step DEFAULT_MANAGED_CONNECTION_POLICY
        (ep_step DEFAULT_MANAGED_CONNECTION_POLICY (ep_demo ep_down) EpTimer)
        (EpProbeAnswer (ProbeAwaited 2 1 False None) (Inr Ready) 9 0)) = [(7, Resolved)]"
proof -
  let ?t = "ep_step DEFAULT_MANAGED_CONNECTION_POLICY (ep_demo ep_down) EpTimer"
  have "w \<in> set (waiters (ep_demo ep_down))" if "w = 7" for w
    using that by (simp add: ep_run_simps ep_down_def)
  from waiters_are_settled [OF ep_demo_reachable this [OF refl], of EpTimer]
  show ?thesis by (simp add: ep_run_simps ep_down_def)
qed

text \<open>A stopped endpoint supervisor is quiet: until the next \<open>start()\<close> no answer, timer or
  report publishes a state, arms a timer or sends a probe.\<close>

theorem stopped_endpoint_is_quiet:
  assumes "ep_reachable cfg s" and "ep_isStopped s" and "ev \<noteq> EpStart"
  shows "ep_isStopped (ep_step cfg s ev) \<and> published (ep_step cfg s ev) = published s
    \<and> ep_timer (ep_step cfg s ev) = None \<and> phase (ep_state (ep_step cfg s ev)) = ShuttingDown
    \<and> set (probe_gens (ep_pending (ep_step cfg s ev))) \<subseteq> set (probe_gens (ep_pending s))"
proof -
  have idle: "ep_timer s = None" "phase (ep_state s) = ShuttingDown"
    using ep_reachable_inv [OF assms(1)] assms(2) by (auto simp: ep_invs)
  have "set (probe_gens (remove1 c (ep_pending s))) \<subseteq> set (probe_gens (ep_pending s))" for c
    using set_remove1_subset by (fastforce simp: probe_gens_iff)
  then show ?thesis
    using idle assms(2,3)
    by (cases ev rule: ep_event.exhaust; simp add: ep_stop_def invalidate_def reportFailure_def
        ep_reportProbeResult_def waitUntilOnline_def wait_timeout_def subscribe_def unsubscribe_def)
      (rename_tac c ans now rnd; case_tac c; auto simp: runProbe_returned_def)
qed

theorem stopped_endpoint_is_quiet_witness:
  "ep_isStopped (ep_demo [EpStart, EpStop])
   \<and> published (ep_step DEFAULT_MANAGED_CONNECTION_POLICY (ep_demo [EpStart, EpStop])
        (EpProbeAnswer (ProbeAwaited 1 0 True (Some 0)) (Inr Ready) 5 0))
     = published (ep_demo [EpStart, EpStop])"
proof -
  have "ep_isStopped (ep_demo [EpStart, EpStop])" by (simp add: ep_run_simps)
  from stopped_endpoint_is_quiet [OF ep_demo_reachable this, of
      "EpProbeAnswer (ProbeAwaited 1 0 True (Some 0)) (Inr Ready) 5 0"] this
  show ?thesis by simp
qed

end
