(* ===== verification/AuthGroup.thy ===== *)
theory AuthGroup
  imports JsBase
begin

text \<open>
  Choice of the account of a connected-service auth group, from
  \<open>apps/cli/src/daemon/connectedServices/accountGroups/selection/\<close>
  \<open>selectConnectedServiceAuthGroupCandidate.ts\<close>. An optional number field has type
  \<open>jsnum option\<close>: \<open>None\<close> stands for a missing or null one, and the code's
  \<open>numberOrNull\<close> is \<open>finite_num\<close>. The map from profile ids to runtime states is an
  association list, and \<open>localeCompare\<close> is the parameter \<open>lc\<close>.
\<close>

section \<open>Data\<close>

datatype strategy = Priority | LeastLimited | Manual

record switch_on =
  usageLimit :: bool
  authExpired :: bool
  accountChanged :: bool
  refreshFailure :: bool

datatype probe_mode = ProbeNever | ProbeWhenStale | ProbeAlwaysForGroup
datatype probe_order = CurrentFirstThenCandidates | CandidatesFirstThenCurrent
datatype recovery_mode = RecoveryOff | WaitUntilReset | SwitchThenResume | SwitchOrWait
datatype prompt_mode = PromptStandard | PromptOff | PromptCustom
datatype meter_strategy =
    MostConstrained | PrimaryMeter | SecondaryMeter | DailyMeter | WeeklyMeter | SessionMeter

record auth_policy =
  strategy :: strategy
  autoSwitch :: bool
  switchOn :: switch_on
  cooldownMs :: rat
  honorProviderResetsAt :: bool
  autoRestorePrimaryWhenReset :: bool
  maxSwitchesPerTurn :: int
  maxSwitchesPerSessionHour :: int
  softSwitchRemainingPercent :: "jsnum option"
  probeIfSnapshotOlderThanMs :: rat
  preTurnProbeMode :: probe_mode
  preTurnProbeOrder :: probe_order
  recoveryMode :: recovery_mode
  resumePromptMode :: prompt_mode
  effectiveMeterStrategy :: meter_strategy

definition DEFAULT_AUTH_GROUP_POLICY :: auth_policy where
  "DEFAULT_AUTH_GROUP_POLICY =
     \<lparr>strategy = Priority, autoSwitch = False,
      switchOn = \<lparr>usageLimit = True, authExpired = True, accountChanged = True, refreshFailure = False\<rparr>,
      cooldownMs = 30000, honorProviderResetsAt = True, autoRestorePrimaryWhenReset = False,
      maxSwitchesPerTurn = 1, maxSwitchesPerSessionHour = 3, softSwitchRemainingPercent = Some (Fin 15),
      probeIfSnapshotOlderThanMs = 300000, preTurnProbeMode = ProbeWhenStale,
      preTurnProbeOrder = CurrentFirstThenCandidates, recoveryMode = SwitchOrWait,
      resumePromptMode = PromptStandard, effectiveMeterStrategy = MostConstrained\<rparr>"

record auth_member =
  profileId :: string
  priority :: rat
  createdAtMs :: rat
  enabled :: bool

datatype limit_category =
    CatUsageLimit | CatRateLimit | CatCapacity | CatTemporaryThrottle | CatAuthInvalid
  | CatPlanInvalid | CatValidationFailed | CatDisabled | CatUnknown

record quota_meter =
  meterId :: string
  limitCategory :: limit_category
  remainingPct :: "jsnum option"
  resetAtMs :: "jsnum option"
  providerLimitId :: "string option"

record quota_snapshot =
  capturedAtMs :: rat
  effectiveMeterId :: "string option"
  effectiveRemainingPercent :: "jsnum option"
  meters :: "quota_meter list"
  exhausted :: bool
  planUnavailable :: bool

datatype health = Connected | Refreshing | NeedsReauth | RefreshFailedRetryable

record member_state =
  credentialHealthStatus :: "health option"
  cooldownStartedAtMs :: "jsnum option"
  cooldownUntilMs :: "jsnum option"
  exhaustedUntilMs :: "jsnum option"
  quotaExhaustedUntilMs :: "jsnum option"
  rateLimitedUntilMs :: "jsnum option"
  capacityLimitedUntilMs :: "jsnum option"
  authInvalidUntilMs :: "jsnum option"
  planUnavailableUntilMs :: "jsnum option"
  validationBlockedUntilMs :: "jsnum option"
  providerResetsAtMs :: "jsnum option"
  lastFailureKind :: "string option"
  lastObservedAtMs :: "jsnum option"
  quotaSnapshot :: "quota_snapshot option"

record auth_candidate = auth_member +
  leastLimitedScore :: "rat option"

datatype exclusion_reason =
    CurrentActive | Disabled | Cooldown | QuotaExhausted | CapacityLimited | AuthInvalid
  | PlanUnavailable | ValidationBlocked

record exclusion =
  ex_profileId :: string
  ex_reason :: exclusion_reason
  ex_retryAtMs :: "rat option"

datatype selection_reason = Selected | ManualStrategy | NoEligibleMembers

record selection =
  selected :: "auth_candidate option"
  sel_reason :: selection_reason
  excluded :: "exclusion list"

section \<open>Order and retry times\<close>

text \<open>\<open>numberOrNull(state?.field)\<close>.\<close>

definition state_num :: "(member_state \<Rightarrow> jsnum option) \<Rightarrow> member_state option \<Rightarrow> rat option" where
  "state_num f st = (case st of None \<Rightarrow> None | Some s \<Rightarrow> finite_num (f s))"

definition comparePriority ::
    "(string \<Rightarrow> string \<Rightarrow> rat) \<Rightarrow> ('a auth_member_scheme) \<Rightarrow> ('a auth_member_scheme) \<Rightarrow> rat" where
  "comparePriority lc l r =
     cmp_or (priority l - priority r)
       (cmp_or (createdAtMs l - createdAtMs r) (lc (profileId l) (profileId r)))"

text \<open>\<open>Math.max(a ?? -Infinity, ...)\<close>: \<open>None\<close> is \<open>-Infinity\<close>.\<close>

fun max_known :: "rat option list \<Rightarrow> rat option" where
  "max_known [] = None"
| "max_known (None # xs) = max_known xs"
| "max_known (Some a # xs) = (case max_known xs of None \<Rightarrow> Some a | Some b \<Rightarrow> Some (max a b))"

definition future :: "rat \<Rightarrow> rat option \<Rightarrow> rat option" where
  "future now x = (case x of None \<Rightarrow> None | Some r \<Rightarrow> if now < r then Some r else None)"

definition resolveCooldownRetryAtMs :: "auth_policy \<Rightarrow> member_state option \<Rightarrow> rat \<Rightarrow> rat option" where
  "resolveCooldownRetryAtMs pol st now =
     (let started = state_num cooldownStartedAtMs st;
          policyRetry = map_option (\<lambda>t. t + cooldownMs pol) started;
          til = state_num cooldownUntilMs st;
          exh = state_num exhaustedUntilMs st;
          blocking = started \<noteq> None \<or> til \<noteq> None \<or> exh \<noteq> None;
          resets = (if honorProviderResetsAt pol \<and> blocking then state_num providerResetsAtMs st else None)
      in future now (max_known [policyRetry, til, exh, resets]))"

definition resolveStateBlocker :: "member_state option \<Rightarrow> rat \<Rightarrow> (exclusion_reason \<times> rat) option" where
  "resolveStateBlocker st now =
     (let blockers =
        [(CapacityLimited, state_num capacityLimitedUntilMs st),
         (AuthInvalid, state_num authInvalidUntilMs st),
         (PlanUnavailable, state_num planUnavailableUntilMs st),
         (ValidationBlocked, state_num validationBlockedUntilMs st)]
      in case List.find (\<lambda>(r, t). future now t \<noteq> None) blockers of
           Some (r, Some t) \<Rightarrow> Some (r, t)
         | _ \<Rightarrow> None)"

definition resolveQuotaRuntimeExhaustion :: "member_state option \<Rightarrow> rat \<Rightarrow> rat option" where
  "resolveQuotaRuntimeExhaustion st now =
     future now (max_known [state_num quotaExhaustedUntilMs st, state_num rateLimitedUntilMs st])"

definition resolveRecentLimiterRetry ::
    "member_state option \<Rightarrow> auth_policy \<Rightarrow> rat \<Rightarrow> (exclusion_reason \<times> rat) option" where
  "resolveRecentLimiterRetry st pol now =
     (case st of None \<Rightarrow> None
      | Some s \<Rightarrow>
          if lastFailureKind s \<notin> {Some ''usage_limit'', Some ''rate_limit'', Some ''capacity''} then None
          else case finite_num (lastObservedAtMs s) of None \<Rightarrow> None
            | Some t \<Rightarrow>
                if t + cooldownMs pol \<le> now then None
                else Some (if lastFailureKind s = Some ''capacity'' then CapacityLimited else QuotaExhausted,
                           t + cooldownMs pol))"

section \<open>Quota snapshots\<close>

text \<open>\<open>xs.filter(x > now).sort((a, b) => a - b)[0] ?? null\<close> over the reset times of meters.\<close>

definition earliest_reset :: "quota_meter list \<Rightarrow> rat \<Rightarrow> rat option" where
  "earliest_reset ms now =
     (case sort (filter (\<lambda>t. now < t) (List.map_filter (\<lambda>m. finite_num (resetAtMs m)) ms)) of
        [] \<Rightarrow> None | t # _ \<Rightarrow> Some t)"

definition resolveSnapshotEligibilityBlocker ::
    "quota_snapshot option \<Rightarrow> rat \<Rightarrow> (exclusion_reason \<times> rat option) option" where
  "resolveSnapshotEligibilityBlocker snap now =
     (let ms = (case snap of None \<Rightarrow> [] | Some q \<Rightarrow> meters q);
          cats = set (map limitCategory ms);
          retryAt = earliest_reset ms now
      in if ms = [] then None
         else if list_ex (\<lambda>m. limitCategory m \<in> {CatUsageLimit, CatRateLimit, CatUnknown}) ms then None
         else if CatAuthInvalid \<in> cats \<or> CatDisabled \<in> cats then Some (AuthInvalid, retryAt)
         else if CatPlanInvalid \<in> cats then Some (PlanUnavailable, retryAt)
         else if CatValidationFailed \<in> cats then Some (ValidationBlocked, retryAt)
         else if CatCapacity \<in> cats then Some (CapacityLimited, retryAt)
         else None)"

definition isFreshQuotaSnapshot :: "quota_snapshot option \<Rightarrow> rat \<Rightarrow> rat \<Rightarrow> bool" where
  "isFreshQuotaSnapshot snap now freshMs =
     (case snap of None \<Rightarrow> False | Some q \<Rightarrow> now - capturedAtMs q \<le> freshMs)"

text \<open>\<open>isFreshQuotaSnapshot(state?.quotaSnapshot, ...) ? state?.quotaSnapshot ?? null : null\<close>.\<close>

definition fresh_snapshot :: "member_state option \<Rightarrow> rat \<Rightarrow> rat \<Rightarrow> quota_snapshot option" where
  "fresh_snapshot st now freshMs =
     (let snap = (case st of None \<Rightarrow> None | Some s \<Rightarrow> quotaSnapshot s)
      in if isFreshQuotaSnapshot snap now freshMs then snap else None)"

definition isSnapshotNewerThanFailure :: "quota_snapshot \<Rightarrow> member_state option \<Rightarrow> bool" where
  "isSnapshotNewerThanFailure q st =
     (case state_num lastObservedAtMs st of None \<Rightarrow> True | Some t \<Rightarrow> t < capturedAtMs q)"

definition meterHasRemainingQuota :: "quota_meter \<Rightarrow> bool" where
  "meterHasRemainingQuota m = (case finite_num (remainingPct m) of None \<Rightarrow> False | Some r \<Rightarrow> 0 < r)"

definition meterIsExhausted :: "quota_meter \<Rightarrow> bool" where
  "meterIsExhausted m = (case finite_num (remainingPct m) of None \<Rightarrow> False | Some r \<Rightarrow> r \<le> 0)"

definition isQuotaMeter :: "quota_meter \<Rightarrow> bool" where
  "isQuotaMeter m \<longleftrightarrow> limitCategory m = CatUsageLimit"

definition isRateLimitMeter :: "quota_meter \<Rightarrow> bool" where
  "isRateLimitMeter m \<longleftrightarrow> limitCategory m = CatRateLimit"

definition snapshotProvesQuotaUsable :: "quota_snapshot \<Rightarrow> bool" where
  "snapshotProvesQuotaUsable q =
     (if exhausted q then False
      else let qs = filter isQuotaMeter (meters q)
           in if qs \<noteq> [] then list_all meterHasRemainingQuota qs
              else case finite_num (effectiveRemainingPercent q) of None \<Rightarrow> False | Some r \<Rightarrow> 0 < r)"

definition snapshotProvesRateLimitUsable :: "quota_snapshot \<Rightarrow> bool" where
  "snapshotProvesRateLimitUsable q =
     (let rs = filter isRateLimitMeter (meters q)
      in rs \<noteq> [] \<and> list_all meterHasRemainingQuota rs)"

section \<open>Reconciliation\<close>

text \<open>The three conditional blocks of the function, each on the original state.\<close>

definition clear_cooldown :: "bool \<Rightarrow> member_state \<Rightarrow> member_state \<Rightarrow> member_state" where
  "clear_cooldown usable s next =
     (if usable \<and> (finite_num (cooldownStartedAtMs s) \<noteq> None \<or> finite_num (cooldownUntilMs s) \<noteq> None
                   \<or> finite_num (exhaustedUntilMs s) \<noteq> None)
      then next\<lparr>cooldownStartedAtMs := None, cooldownUntilMs := None, exhaustedUntilMs := None\<rparr>
      else next)"

definition clear_quota :: "bool \<Rightarrow> member_state \<Rightarrow> member_state \<Rightarrow> member_state" where
  "clear_quota usable s next =
     (if usable \<and> (finite_num (quotaExhaustedUntilMs s) \<noteq> None \<or> lastFailureKind s = Some ''usage_limit'')
      then next\<lparr>quotaExhaustedUntilMs := None, providerResetsAtMs := None,
                lastFailureKind := (if lastFailureKind s = Some ''usage_limit'' then None else lastFailureKind next)\<rparr>
      else next)"

definition clear_rate :: "bool \<Rightarrow> member_state \<Rightarrow> member_state \<Rightarrow> member_state" where
  "clear_rate usable s next =
     (if usable \<and> (finite_num (rateLimitedUntilMs s) \<noteq> None \<or> lastFailureKind s = Some ''rate_limit'')
      then next\<lparr>rateLimitedUntilMs := None, providerResetsAtMs := None,
                lastFailureKind := (if lastFailureKind s = Some ''rate_limit'' then None else lastFailureKind next)\<rparr>
      else next)"

definition reconcileMemberRuntimeState ::
    "member_state option \<Rightarrow> quota_snapshot option \<Rightarrow> member_state option" where
  "reconcileMemberRuntimeState st snap =
     (case (st, snap) of
        (Some s, Some q) \<Rightarrow>
          if \<not> isSnapshotNewerThanFailure q st then st
          else Some (clear_rate (snapshotProvesRateLimitUsable q) s
                 (clear_quota (snapshotProvesQuotaUsable q) s
                   (clear_cooldown (snapshotProvesQuotaUsable q) s s)))
      | _ \<Rightarrow> st)"

definition limiter_exhausted :: "quota_meter \<Rightarrow> bool" where
  "limiter_exhausted m \<longleftrightarrow> (isQuotaMeter m \<or> isRateLimitMeter m) \<and> meterIsExhausted m"

definition isQuotaExhausted :: "quota_snapshot \<Rightarrow> bool" where
  "isQuotaExhausted q =
     (if exhausted q then True
      else if list_ex limiter_exhausted (meters q) then True
      else case finite_num (effectiveRemainingPercent q) of None \<Rightarrow> False | Some r \<Rightarrow> r \<le> 0)"

definition resolveQuotaSnapshotExhaustionRetryAtMs ::
    "quota_snapshot \<Rightarrow> member_state option \<Rightarrow> rat \<Rightarrow> rat option" where
  "resolveQuotaSnapshotExhaustionRetryAtMs q st now =
     (case earliest_reset (filter limiter_exhausted (meters q)) now of
        Some t \<Rightarrow> Some t
      | None \<Rightarrow> state_num providerResetsAtMs st)"

definition resolveLeastLimitedScore :: "quota_snapshot option \<Rightarrow> rat option" where
  "resolveLeastLimitedScore snap =
     (case snap of None \<Rightarrow> None | Some q \<Rightarrow> finite_num (effectiveRemainingPercent q))"

section \<open>Switch reasons and soft switching\<close>

definition requiresFreshQuotaEvidence :: "string \<Rightarrow> bool" where
  "requiresFreshQuotaEvidence r \<longleftrightarrow>
     r \<in> {''usage_limit'', ''rate_limit'', ''soft_threshold'', ''same_provider_account_exhausted''}"

definition hasCandidateEvidenceForSwitchReason ::
    "string \<Rightarrow> string \<Rightarrow> rat \<Rightarrow> rat \<Rightarrow> (string \<times> member_state) list \<Rightarrow> bool" where
  "hasCandidateEvidenceForSwitchReason reason pid now freshMs states =
     (if \<not> requiresFreshQuotaEvidence reason then True
      else case fresh_snapshot (map_of states pid) now freshMs of
             None \<Rightarrow> False
           | Some q \<Rightarrow>
               if planUnavailable q then False
               else if resolveSnapshotEligibilityBlocker (Some q) now \<noteq> None then False
               else \<not> isQuotaExhausted q)"

definition resolveSoftSwitchRemainingPercent :: "auth_policy \<Rightarrow> rat option" where
  "resolveSoftSwitchRemainingPercent pol =
     map_option (\<lambda>v. max 0 (min 100 v)) (finite_num (softSwitchRemainingPercent pol))"

definition isSoftSwitchCandidateMeaningfullyBetter ::
    "string option \<Rightarrow> auth_candidate \<Rightarrow> auth_policy \<Rightarrow> bool" where
  "isSoftSwitchCandidateMeaningfullyBetter active c pol =
     (if active \<noteq> None \<and> active \<noteq> Some [] \<and> active = Some (profileId c) then False
      else case (resolveSoftSwitchRemainingPercent pol, leastLimitedScore c) of
             (Some th, Some sc) \<Rightarrow> th < sc
           | _ \<Rightarrow> False)"

datatype source_evidence =
    AtOrBelowThreshold rat rat
  | AboveThreshold rat rat
  | MissingActiveProfile
  | MissingFreshQuotaSnapshot
  | MissingRemainingPercent
  | MissingSoftSwitchThreshold

definition resolveSoftSwitchSourceEvidence ::
    "string option \<Rightarrow> auth_policy \<Rightarrow> (string \<times> member_state) list \<Rightarrow> rat \<Rightarrow> rat \<Rightarrow> source_evidence" where
  "resolveSoftSwitchSourceEvidence active pol states now freshMs =
     (let pid = (case active of None \<Rightarrow> [] | Some a \<Rightarrow> trim a)
      in if pid = [] then MissingActiveProfile
         else case resolveSoftSwitchRemainingPercent pol of
             None \<Rightarrow> MissingSoftSwitchThreshold
           | Some th \<Rightarrow>
               (case fresh_snapshot (map_of states pid) now freshMs of
                  None \<Rightarrow> MissingFreshQuotaSnapshot
                | Some q \<Rightarrow>
                    (case resolveLeastLimitedScore (Some q) of
                       None \<Rightarrow> MissingRemainingPercent
                     | Some r \<Rightarrow> if r \<le> th then AtOrBelowThreshold r th else AboveThreshold r th)))"

text \<open>An empty active profile id is falsy.\<close>

definition resolveCurrentCandidate :: "auth_candidate list \<Rightarrow> string option \<Rightarrow> auth_candidate option" where
  "resolveCurrentCandidate cs active =
     (case active of None \<Rightarrow> None
      | Some a \<Rightarrow> if a = [] then None else List.find (\<lambda>c. profileId c = a) cs)"

definition resolveSoftSwitchPreferredCandidate ::
    "auth_candidate list \<Rightarrow> string option \<Rightarrow> auth_policy \<Rightarrow> bool \<Rightarrow> auth_candidate option" where
  "resolveSoftSwitchPreferredCandidate cs active pol allowCurrent =
     (if \<not> allowCurrent then None
      else case resolveCurrentCandidate cs active of
          None \<Rightarrow> None
        | Some cur \<Rightarrow>
            (case resolveSoftSwitchRemainingPercent pol of
               None \<Rightarrow> None
             | Some th \<Rightarrow>
                 (case leastLimitedScore cur of
                    None \<Rightarrow> Some cur
                  | Some sc \<Rightarrow>
                      if th < sc then Some cur
                      else (case List.find (\<lambda>c. profileId c \<noteq> profileId cur
                                      \<and> (case leastLimitedScore c of None \<Rightarrow> False | Some v \<Rightarrow> sc < v)) cs of
                              Some better \<Rightarrow> Some better
                            | None \<Rightarrow> Some cur))))"

section \<open>Selection\<close>

text \<open>The body of the loop over the members: an exclusion or a candidate.\<close>

definition classify_member ::
    "rat \<Rightarrow> rat \<Rightarrow> string option \<Rightarrow> auth_policy \<Rightarrow> (string \<times> member_state) list \<Rightarrow> bool \<Rightarrow> auth_member
     \<Rightarrow> exclusion + auth_candidate" where
  "classify_member now freshMs active pol states allowCurrent m =
     (let pid = profileId m;
          out = (\<lambda>r t. Inl \<lparr>ex_profileId = pid, ex_reason = r, ex_retryAtMs = t\<rparr>);
          st = map_of states pid
      in if \<not> enabled m then out Disabled None
         else if \<not> allowCurrent \<and> active = Some pid then out CurrentActive None
         else if (case st of None \<Rightarrow> False | Some s \<Rightarrow> credentialHealthStatus s = Some NeedsReauth)
           then out AuthInvalid None
         else case resolveStateBlocker st now of
             Some (r, t) \<Rightarrow> out r (Some t)
           | None \<Rightarrow>
         (let snap = fresh_snapshot st now freshMs
          in case resolveSnapshotEligibilityBlocker snap now of
             Some (r, t) \<Rightarrow> out r t
           | None \<Rightarrow>
         (if (case snap of None \<Rightarrow> False | Some q \<Rightarrow> isQuotaExhausted q)
          then out QuotaExhausted (resolveQuotaSnapshotExhaustionRetryAtMs (the snap) st now)
          else (let eff = reconcileMemberRuntimeState st snap
          in case resolveRecentLimiterRetry eff pol now of
             Some (r, t) \<Rightarrow> out r (Some t)
           | None \<Rightarrow>
         (case resolveQuotaRuntimeExhaustion eff now of
             Some t \<Rightarrow> out QuotaExhausted (Some t)
           | None \<Rightarrow>
         (case resolveCooldownRetryAtMs pol eff now of
             Some t \<Rightarrow> out Cooldown (Some t)
           | None \<Rightarrow>
               Inr (auth_member.extend m \<lparr>leastLimitedScore = resolveLeastLimitedScore snap\<rparr>)))))))"

fun partition_members ::
    "(auth_member \<Rightarrow> exclusion + auth_candidate) \<Rightarrow> auth_member list \<Rightarrow> exclusion list \<times> auth_candidate list" where
  "partition_members f [] = ([], [])"
| "partition_members f (m # ms) =
     (case partition_members f ms of
        (ex, cs) \<Rightarrow> (case f m of Inl e \<Rightarrow> (e # ex, cs) | Inr c \<Rightarrow> (ex, c # cs)))"

definition compare_least_limited ::
    "(string \<Rightarrow> string \<Rightarrow> rat) \<Rightarrow> auth_candidate \<Rightarrow> auth_candidate \<Rightarrow> rat" where
  "compare_least_limited lc l r =
     (case (leastLimitedScore l, leastLimitedScore r) of
        (Some a, Some b) \<Rightarrow> if a \<noteq> b then b - a else comparePriority lc l r
      | (Some _, None) \<Rightarrow> -1
      | (None, Some _) \<Rightarrow> 1
      | (None, None) \<Rightarrow> comparePriority lc l r)"

definition order_candidates ::
    "(string \<Rightarrow> string \<Rightarrow> rat) \<Rightarrow> strategy \<Rightarrow> auth_candidate list \<Rightarrow> auth_candidate list" where
  "order_candidates lc strat cs =
     (if strat = LeastLimited then js_sort (compare_least_limited lc) cs
      else js_sort (comparePriority lc) cs)"

definition selectAuthGroupCandidate ::
    "(string \<Rightarrow> string \<Rightarrow> rat) \<Rightarrow> rat \<Rightarrow> rat \<Rightarrow> string option \<Rightarrow> auth_policy \<Rightarrow> auth_member list
     \<Rightarrow> (string \<times> member_state) list \<Rightarrow> bool \<Rightarrow> selection" where
  "selectAuthGroupCandidate lc now freshMs active pol members states allowCurrent =
     (if strategy pol = Manual then \<lparr>selected = None, sel_reason = ManualStrategy, excluded = []\<rparr>
      else case partition_members (classify_member now freshMs active pol states allowCurrent) members of
        (ex, cs0) \<Rightarrow>
          (let cs = order_candidates lc (strategy pol) cs0;
               soft = resolveSoftSwitchPreferredCandidate cs active pol allowCurrent;
               sel = (case soft of Some c \<Rightarrow> Some c
                      | None \<Rightarrow> (case cs of [] \<Rightarrow> None | c # _ \<Rightarrow> Some c))
           in \<lparr>selected = sel, sel_reason = (if sel \<noteq> None then Selected else NoEligibleMembers),
               excluded = ex\<rparr>))"

section \<open>Lemmas\<close>

lemma comparator_priority: "comparator lc \<Longrightarrow> comparator (comparePriority lc)"
  unfolding comparePriority_def
  by (rule comparator_or [OF comparator_minus comparator_or [OF comparator_minus]],
      rule comparator_key)

text \<open>A known remaining percentage comes before an unknown one, a larger before a smaller.\<close>

definition compare_score :: "auth_candidate \<Rightarrow> auth_candidate \<Rightarrow> rat" where
  "compare_score l r =
     (case (leastLimitedScore l, leastLimitedScore r) of
        (Some a, Some b) \<Rightarrow> b - a
      | (Some _, None) \<Rightarrow> -1
      | (None, Some _) \<Rightarrow> 1
      | (None, None) \<Rightarrow> 0)"

lemma compare_least_limited_eq:
  "compare_least_limited lc l r = cmp_or (compare_score l r) (comparePriority lc l r)"
  by (auto simp: compare_least_limited_def compare_score_def cmp_or_def split: option.splits)

lemma comparator_score: "comparator compare_score"
  by unfold_locales (auto simp: compare_score_def split: option.splits)

lemma comparator_least_limited: "comparator lc \<Longrightarrow> comparator (compare_least_limited lc)"
proof -
  assume "comparator lc"
  then have "comparator (\<lambda>l r. cmp_or (compare_score l r) (comparePriority lc l r))"
    by (intro comparator_or [OF comparator_score comparator_priority])
  moreover have "compare_least_limited lc = (\<lambda>l r. cmp_or (compare_score l r) (comparePriority lc l r))"
    by (simp add: fun_eq_iff compare_least_limited_eq)
  ultimately show ?thesis by simp
qed

lemma partition_members_sets:
  "set (snd (partition_members f ms)) = {c. \<exists>m \<in> set ms. f m = Inr c}"
  "set (fst (partition_members f ms)) = {e. \<exists>m \<in> set ms. f m = Inl e}"
  by (induction ms) (auto split: prod.splits sum.splits)

lemma partition_members_length:
  "length (fst (partition_members f ms)) + length (snd (partition_members f ms)) = length ms"
  by (induction ms) (auto split: prod.splits sum.splits)

lemma partition_members_none:
  "snd (partition_members f ms) = [] \<Longrightarrow> map Inl (fst (partition_members f ms)) = map f ms"
  by (induction ms) (auto split: prod.splits sum.splits)

lemma classify_excluded:
  "classify_member now freshMs active pol states allow m = Inl e \<Longrightarrow> ex_profileId e = profileId m"
  by (auto simp: classify_member_def Let_def split: if_splits option.splits prod.splits)

lemma state_blocker_none:
  "resolveStateBlocker (Some s) now = None \<longleftrightarrow>
   (\<forall>f \<in> {capacityLimitedUntilMs, authInvalidUntilMs, planUnavailableUntilMs, validationBlockedUntilMs}.
      future now (finite_num (f s)) = None)"
  by (auto simp: resolveStateBlocker_def state_num_def future_def split: option.splits if_splits)

lemma future_none: "future now x = None \<longleftrightarrow> (\<forall>t. x = Some t \<longrightarrow> t \<le> now)"
  by (auto simp: future_def split: option.splits)

lemma classify_candidate:
  assumes "classify_member now freshMs active pol states allow m = Inr c"
  shows "enabled m" and "allow \<or> active \<noteq> Some (profileId m)"
    and "c = auth_member.extend m \<lparr>leastLimitedScore =
           resolveLeastLimitedScore (fresh_snapshot (map_of states (profileId m)) now freshMs)\<rparr>"
    and "map_of states (profileId m) = Some s \<Longrightarrow> credentialHealthStatus s \<noteq> Some NeedsReauth"
    and "resolveStateBlocker (map_of states (profileId m)) now = None"
    and "fresh_snapshot (map_of states (profileId m)) now freshMs = Some q \<Longrightarrow> \<not> isQuotaExhausted q"
  using assms
  by (auto simp: classify_member_def Let_def split: if_splits option.splits prod.splits)

lemma extend_fields [simp]:
  "profileId (auth_member.extend m x) = profileId m" "priority (auth_member.extend m x) = priority m"
  "createdAtMs (auth_member.extend m x) = createdAtMs m" "enabled (auth_member.extend m x) = enabled m"
  "auth_member.truncate (auth_member.extend m x) = m"
  "leastLimitedScore (auth_member.extend m \<lparr>leastLimitedScore = sc\<rparr>) = sc"
  by (simp_all add: auth_member.defs)

lemma set_order_candidates [simp]: "set (order_candidates lc strat cs) = set cs"
  by (simp add: order_candidates_def)

lemma soft_preferred_in:
  "resolveSoftSwitchPreferredCandidate cs active pol allow = Some c \<Longrightarrow> c \<in> set cs"
  by (auto simp: resolveSoftSwitchPreferredCandidate_def resolveCurrentCandidate_def find_Some_iff
      split: if_splits option.splits)

lemma selected_candidate:
  assumes "selected (selectAuthGroupCandidate lc now freshMs active pol members states allow) = Some c"
  shows "strategy pol \<noteq> Manual"
    and "\<exists>m \<in> set members. classify_member now freshMs active pol states allow m = Inr c"
proof -
  show "strategy pol \<noteq> Manual"
    using assms by (auto simp: selectAuthGroupCandidate_def)
  let ?cs = "snd (partition_members (classify_member now freshMs active pol states allow) members)"
  let ?o = "order_candidates lc (strategy pol) ?cs"
  have "resolveSoftSwitchPreferredCandidate ?o active pol allow = Some c \<or> (\<exists>cs. ?o = c # cs)"
    using assms
    by (auto simp: selectAuthGroupCandidate_def Let_def split: prod.splits option.splits list.splits if_splits)
  then have "c \<in> set ?o" using soft_preferred_in by fastforce
  then show "\<exists>m \<in> set members. classify_member now freshMs active pol states allow m = Inr c"
    by (simp add: partition_members_sets)
qed

section \<open>Usable accounts\<close>

text \<open>
  When an account can be used, read off its member entry and its runtime state, without the order of the
  checks and the reasons they give.
\<close>

definition over_by :: "rat \<Rightarrow> rat \<Rightarrow> jsnum option \<Rightarrow> bool" where
  "over_by now delay x \<longleftrightarrow> (\<forall>t. finite_num x = Some t \<longrightarrow> t + delay \<le> now)"

text \<open>A snapshot that only tells of meters of a blocking category rules the account out.\<close>

definition tells_of_quota :: "quota_snapshot \<Rightarrow> bool" where
  "tells_of_quota q \<longleftrightarrow> (\<exists>m \<in> set (meters q). limitCategory m \<in> {CatUsageLimit, CatRateLimit, CatUnknown})
     \<or> (\<forall>m \<in> set (meters q). limitCategory m = CatTemporaryThrottle)"

definition quota_left :: "quota_snapshot \<Rightarrow> bool" where
  "quota_left q \<longleftrightarrow> \<not> exhausted q
     \<and> (\<forall>m \<in> set (meters q). limitCategory m \<in> {CatUsageLimit, CatRateLimit} \<longrightarrow>
          (\<forall>r. finite_num (remainingPct m) = Some r \<longrightarrow> 0 < r))
     \<and> (\<forall>r. finite_num (effectiveRemainingPercent q) = Some r \<longrightarrow> 0 < r)"

text \<open>The limits left after reconciliation with the snapshot.\<close>

definition limits_over :: "auth_policy \<Rightarrow> rat \<Rightarrow> member_state \<Rightarrow> bool" where
  "limits_over pol now s \<longleftrightarrow>
     (lastFailureKind s \<in> {Some ''usage_limit'', Some ''rate_limit'', Some ''capacity''} \<longrightarrow>
        over_by now (cooldownMs pol) (lastObservedAtMs s))
     \<and> over_by now 0 (quotaExhaustedUntilMs s) \<and> over_by now 0 (rateLimitedUntilMs s)
     \<and> over_by now (cooldownMs pol) (cooldownStartedAtMs s)
     \<and> over_by now 0 (cooldownUntilMs s) \<and> over_by now 0 (exhaustedUntilMs s)
     \<and> (honorProviderResetsAt pol \<longrightarrow>
          (\<exists>f \<in> {cooldownStartedAtMs, cooldownUntilMs, exhaustedUntilMs}. finite_num (f s) \<noteq> None) \<longrightarrow>
          over_by now 0 (providerResetsAtMs s))"

definition usable_member ::
    "rat \<Rightarrow> rat \<Rightarrow> string option \<Rightarrow> auth_policy \<Rightarrow> (string \<times> member_state) list \<Rightarrow> bool \<Rightarrow> auth_member \<Rightarrow> bool" where
  "usable_member now freshMs active pol states allow m \<longleftrightarrow>
     enabled m \<and> (allow \<or> active \<noteq> Some (profileId m))
     \<and> (\<forall>s. map_of states (profileId m) = Some s \<longrightarrow>
          credentialHealthStatus s \<noteq> Some NeedsReauth
          \<and> (\<forall>f \<in> {capacityLimitedUntilMs, authInvalidUntilMs, planUnavailableUntilMs, validationBlockedUntilMs}.
               over_by now 0 (f s))
          \<and> (\<forall>q. quotaSnapshot s = Some q \<longrightarrow> now - capturedAtMs q \<le> freshMs \<longrightarrow> tells_of_quota q \<and> quota_left q)
          \<and> limits_over pol now (the (reconcileMemberRuntimeState (Some s) (fresh_snapshot (Some s) now freshMs))))"

definition scored :: "rat \<Rightarrow> rat \<Rightarrow> (string \<times> member_state) list \<Rightarrow> auth_member \<Rightarrow> auth_candidate" where
  "scored now freshMs states m = auth_member.extend m \<lparr>leastLimitedScore =
     resolveLeastLimitedScore (fresh_snapshot (map_of states (profileId m)) now freshMs)\<rparr>"

lemma future_over: "future now (map_option (\<lambda>t. t + d) (finite_num x)) = None \<longleftrightarrow> over_by now d x"
  "future now (finite_num x) = None \<longleftrightarrow> over_by now 0 x"
  by (auto simp: future_none over_by_def)

lemma future_max: "future now (max_known xs) = None \<longleftrightarrow> (\<forall>x \<in> set xs. future now x = None)"
  by (induction xs rule: max_known.induct) (auto simp: future_none split: option.splits)

lemma snapshot_blocker_none:
  "resolveSnapshotEligibilityBlocker (Some q) now = None \<longleftrightarrow> tells_of_quota q"
proof (cases "\<exists>m \<in> set (meters q). limitCategory m \<in> {CatUsageLimit, CatRateLimit, CatUnknown}")
  case True
  then show ?thesis
    by (auto simp: resolveSnapshotEligibilityBlocker_def tells_of_quota_def list_ex_iff Let_def)
next
  case False
  then have none: "\<not> list_ex (\<lambda>m. limitCategory m \<in> {CatUsageLimit, CatRateLimit, CatUnknown}) (meters q)"
    by (simp add: list_ex_iff)
  let ?bad = "{CatAuthInvalid, CatDisabled, CatPlanInvalid, CatValidationFailed, CatCapacity}"
  have "resolveSnapshotEligibilityBlocker (Some q) now = None \<longleftrightarrow> set (map limitCategory (meters q)) \<inter> ?bad = {}"
    using none by (auto simp: resolveSnapshotEligibilityBlocker_def Let_def)
  moreover have "c \<notin> ?bad \<longleftrightarrow> c \<in> {CatUsageLimit, CatRateLimit, CatUnknown} \<or> c = CatTemporaryThrottle" for c
    by (cases c) simp_all
  ultimately show ?thesis
    using False unfolding tells_of_quota_def disjoint_iff set_map by (metis (no_types, lifting) imageE imageI)
qed

lemma quota_left_iff: "\<not> isQuotaExhausted q \<longleftrightarrow> quota_left q"
  by (auto simp: isQuotaExhausted_def quota_left_def list_ex_iff limiter_exhausted_def isQuotaMeter_def
      isRateLimitMeter_def meterIsExhausted_def split: option.splits)

lemma limits_over_iff:
  "resolveRecentLimiterRetry (Some s) pol now = None \<and> resolveQuotaRuntimeExhaustion (Some s) now = None
     \<and> resolveCooldownRetryAtMs pol (Some s) now = None \<longleftrightarrow> limits_over pol now s"
proof -
  have "resolveRecentLimiterRetry (Some s) pol now = None \<longleftrightarrow>
      (lastFailureKind s \<in> {Some ''usage_limit'', Some ''rate_limit'', Some ''capacity''} \<longrightarrow>
        over_by now (cooldownMs pol) (lastObservedAtMs s))"
    by (auto simp: resolveRecentLimiterRetry_def over_by_def split: option.splits)
  moreover have "resolveQuotaRuntimeExhaustion (Some s) now = None \<longleftrightarrow>
      over_by now 0 (quotaExhaustedUntilMs s) \<and> over_by now 0 (rateLimitedUntilMs s)"
    by (simp add: resolveQuotaRuntimeExhaustion_def future_max state_num_def future_over)
  moreover have "resolveCooldownRetryAtMs pol (Some s) now = None \<longleftrightarrow>
      over_by now (cooldownMs pol) (cooldownStartedAtMs s)
     \<and> over_by now 0 (cooldownUntilMs s) \<and> over_by now 0 (exhaustedUntilMs s)
     \<and> (honorProviderResetsAt pol \<longrightarrow>
          (\<exists>f \<in> {cooldownStartedAtMs, cooldownUntilMs, exhaustedUntilMs}. finite_num (f s) \<noteq> None) \<longrightarrow>
          over_by now 0 (providerResetsAtMs s))"
    by (simp add: resolveCooldownRetryAtMs_def Let_def future_max state_num_def future_over) (simp add: future_def, blast)
  ultimately show ?thesis unfolding limits_over_def by blast
qed

lemma classify_none:
  assumes "map_of states (profileId m) = None"
  shows "classify_member now freshMs active pol states allow m = Inr c \<longleftrightarrow>
    usable_member now freshMs active pol states allow m \<and> c = scored now freshMs states m"
  using assms
  by (auto simp: classify_member_def usable_member_def scored_def Let_def resolveStateBlocker_def state_num_def future_def
      fresh_snapshot_def isFreshQuotaSnapshot_def resolveSnapshotEligibilityBlocker_def reconcileMemberRuntimeState_def
      resolveRecentLimiterRetry_def resolveQuotaRuntimeExhaustion_def resolveCooldownRetryAtMs_def)

lemma classify_some:
  fixes now freshMs :: rat
  assumes "map_of states (profileId m) = Some s"
  defines "snap \<equiv> fresh_snapshot (Some s) now freshMs"
  shows "classify_member now freshMs active pol states allow m = Inr c \<longleftrightarrow>
    enabled m \<and> (allow \<or> active \<noteq> Some (profileId m)) \<and> credentialHealthStatus s \<noteq> Some NeedsReauth
    \<and> resolveStateBlocker (Some s) now = None \<and> resolveSnapshotEligibilityBlocker snap now = None
    \<and> \<not> (case snap of None \<Rightarrow> False | Some q \<Rightarrow> isQuotaExhausted q)
    \<and> resolveRecentLimiterRetry (reconcileMemberRuntimeState (Some s) snap) pol now = None
    \<and> resolveQuotaRuntimeExhaustion (reconcileMemberRuntimeState (Some s) snap) now = None
    \<and> resolveCooldownRetryAtMs pol (reconcileMemberRuntimeState (Some s) snap) now = None
    \<and> c = auth_member.extend m \<lparr>leastLimitedScore = resolveLeastLimitedScore snap\<rparr>"
  using assms(1) unfolding snap_def
  by (simp add: classify_member_def Let_def split: option.split) blast

lemma fresh_snapshot_cases:
  "fresh_snapshot (Some s) now freshMs = Some q \<longleftrightarrow> quotaSnapshot s = Some q \<and> now - capturedAtMs q \<le> freshMs"
  by (auto simp: fresh_snapshot_def isFreshQuotaSnapshot_def Let_def split: option.splits)

lemma classify_usable:
  "classify_member now freshMs active pol states allow m = Inr c \<longleftrightarrow>
    usable_member now freshMs active pol states allow m \<and> c = scored now freshMs states m"
proof (cases "map_of states (profileId m)")
  case None
  then show ?thesis by (rule classify_none)
next
  case (Some s)
  let ?snap = "fresh_snapshot (Some s) now freshMs"
  have "reconcileMemberRuntimeState (Some s) ?snap \<noteq> None"
    by (simp add: reconcileMemberRuntimeState_def split: option.split)
  then obtain s' where s': "reconcileMemberRuntimeState (Some s) ?snap = Some s'" by blast
  have snap: "resolveSnapshotEligibilityBlocker ?snap now = None \<and> \<not> (case ?snap of None \<Rightarrow> False | Some q \<Rightarrow> isQuotaExhausted q)
      \<longleftrightarrow> (\<forall>q. quotaSnapshot s = Some q \<longrightarrow> now - capturedAtMs q \<le> freshMs \<longrightarrow> tells_of_quota q \<and> quota_left q)"
  proof (cases ?snap)
    case None
    then show ?thesis
      using fresh_snapshot_cases [of s now freshMs] by (auto simp: resolveSnapshotEligibilityBlocker_def)
  next
    case (Some q)
    then show ?thesis
      using fresh_snapshot_cases [of s now freshMs q] by (simp add: snapshot_blocker_none quota_left_iff)
  qed
  have blockers: "resolveStateBlocker (Some s) now = None \<longleftrightarrow>
      (\<forall>f \<in> {capacityLimitedUntilMs, authInvalidUntilMs, planUnavailableUntilMs, validationBlockedUntilMs}. over_by now 0 (f s))"
    by (simp add: state_blocker_none future_over)
  show ?thesis
    unfolding classify_some [OF Some] usable_member_def scored_def Some blockers s'
    using snap limits_over_iff [of s' pol now] by (auto simp: s' simp del: insert_iff)
qed

section \<open>Properties\<close>

text \<open>A group of three accounts: the primary is exhausted, the others have quota left.\<close>

definition demo_snapshot :: "rat \<Rightarrow> quota_snapshot" where
  "demo_snapshot r =
     \<lparr>capturedAtMs = 1000, effectiveMeterId = None, effectiveRemainingPercent = Some (Fin r), meters = [], exhausted = False,
      planUnavailable = False\<rparr>"

definition demo_state :: "rat \<Rightarrow> member_state" where
  "demo_state r =
     \<lparr>credentialHealthStatus = Some Connected, cooldownStartedAtMs = Some (Fin 900),
      cooldownUntilMs = None, exhaustedUntilMs = None, quotaExhaustedUntilMs = None,
      rateLimitedUntilMs = None, capacityLimitedUntilMs = None, authInvalidUntilMs = None,
      planUnavailableUntilMs = None, validationBlockedUntilMs = None, providerResetsAtMs = None,
      lastFailureKind = Some ''usage_limit'', lastObservedAtMs = Some (Fin 900),
      quotaSnapshot = Some (demo_snapshot r)\<rparr>"

definition demo_member :: "string \<Rightarrow> rat \<Rightarrow> auth_member" where
  "demo_member pid p = \<lparr>profileId = pid, priority = p, createdAtMs = 0, enabled = True\<rparr>"

definition demo_members :: "auth_member list" where
  "demo_members = [demo_member ''a'' 1, demo_member ''b'' 2, demo_member ''c'' 3]"

definition demo_states :: "(string \<times> member_state) list" where
  "demo_states = [(''a'', demo_state 0), (''b'', demo_state 10), (''c'', demo_state 80)]"

definition demo_policy :: "strategy \<Rightarrow> auth_policy" where
  "demo_policy st = DEFAULT_AUTH_GROUP_POLICY\<lparr>strategy := st\<rparr>"

lemmas demo_defs = demo_snapshot_def demo_state_def demo_member_def demo_members_def demo_states_def
  demo_policy_def DEFAULT_AUTH_GROUP_POLICY_def

lemmas auth_defs = classify_member_def resolveStateBlocker_def state_num_def future_def fresh_snapshot_def
  isFreshQuotaSnapshot_def resolveSnapshotEligibilityBlocker_def isQuotaExhausted_def
  reconcileMemberRuntimeState_def isSnapshotNewerThanFailure_def clear_cooldown_def clear_quota_def
  clear_rate_def snapshotProvesQuotaUsable_def snapshotProvesRateLimitUsable_def
  resolveRecentLimiterRetry_def resolveQuotaRuntimeExhaustion_def resolveCooldownRetryAtMs_def
  resolveLeastLimitedScore_def Let_def auth_member.defs

lemma demo_classified:
  "classify_member 1500 1000 active (demo_policy st) demo_states True (demo_member ''b'' 2)
     = Inr (auth_member.extend (demo_member ''b'' 2) \<lparr>leastLimitedScore = Some 10\<rparr>)"
  "classify_member 1500 1000 active (demo_policy st) demo_states True (demo_member ''c'' 3)
     = Inr (auth_member.extend (demo_member ''c'' 3) \<lparr>leastLimitedScore = Some 80\<rparr>)"
  "classify_member 1500 1000 active (demo_policy st) demo_states True (demo_member ''a'' 1)
     = Inl \<lparr>ex_profileId = ''a'', ex_reason = QuotaExhausted, ex_retryAtMs = None\<rparr>"
  by (simp_all add: demo_defs auth_defs resolveQuotaSnapshotExhaustionRetryAtMs_def earliest_reset_def
      map_filter_def)

text \<open>The selection in terms of the ordered candidates.\<close>

lemma selected_alt:
  assumes "strategy pol \<noteq> Manual"
  shows "selected (selectAuthGroupCandidate lc now freshMs active pol members states allow)
    = (let cs = order_candidates lc (strategy pol)
                  (snd (partition_members (classify_member now freshMs active pol states allow) members))
       in case resolveSoftSwitchPreferredCandidate cs active pol allow of Some c \<Rightarrow> Some c
          | None \<Rightarrow> (case cs of [] \<Rightarrow> None | c # _ \<Rightarrow> Some c))"
  unfolding selectAuthGroupCandidate_def Let_def using assms(1) by (simp add: case_prod_beta)

lemma none_selected:
  assumes "strategy pol \<noteq> Manual"
  shows "selected (selectAuthGroupCandidate lc now freshMs active pol members states allow) = None
    \<longleftrightarrow> set (snd (partition_members (classify_member now freshMs active pol states allow) members)) = {}"
proof -
  let ?cs = "order_candidates lc (strategy pol) (snd (partition_members (classify_member now freshMs active pol states allow) members))"
  have "selected (selectAuthGroupCandidate lc now freshMs active pol members states allow) = None \<longleftrightarrow> ?cs = []"
    unfolding selected_alt [OF assms] Let_def using soft_preferred_in [of ?cs active pol allow]
    by (cases "resolveSoftSwitchPreferredCandidate ?cs active pol allow"; cases ?cs) auto
  also have "\<dots> \<longleftrightarrow> set ?cs = {}" by (rule set_empty [symmetric])
  finally show ?thesis by (simp only: set_order_candidates)
qed

text \<open>C10: The selected account can be used, and there is a selection whenever one can be used. Outside the
  manual strategy, which selects nothing, the selection is a member with its score, that is enabled, not
  the active one unless retrying it is allowed, whose credentials need no new login, whose capacity,
  authentication, plan and validation blocks are over, whose fresh snapshot, if any, tells of quota and
  leaves some, and whose cooldown, exhaustion, rate limit and recent failure, as they stand after
  reconciliation with that snapshot, are over; nothing is selected exactly when no member is like this.\<close>

theorem selected_account_is_usable:
  "(\<forall>c. selected (selectAuthGroupCandidate lc now freshMs active pol members states allow) = Some c \<longrightarrow>
      strategy pol \<noteq> Manual
      \<and> (\<exists>m \<in> set members. usable_member now freshMs active pol states allow m \<and> c = scored now freshMs states m))
   \<and> (selected (selectAuthGroupCandidate lc now freshMs active pol members states allow) = None \<longleftrightarrow>
      strategy pol = Manual \<or> (\<forall>m \<in> set members. \<not> usable_member now freshMs active pol states allow m))"
proof -
  let ?f = "classify_member now freshMs active pol states allow"
  let ?r = "selectAuthGroupCandidate lc now freshMs active pol members states allow"
  have "set (snd (partition_members ?f members)) = {} \<longleftrightarrow> (\<forall>m \<in> set members. \<not> usable_member now freshMs active pol states allow m)"
    by (simp only: partition_members_sets classify_usable) blast
  moreover have "selected ?r = None" if "strategy pol = Manual"
    using that by (simp add: selectAuthGroupCandidate_def)
  ultimately have "selected ?r = None \<longleftrightarrow> strategy pol = Manual \<or> (\<forall>m \<in> set members. \<not> usable_member now freshMs active pol states allow m)"
    using none_selected [of pol lc now freshMs active members states allow] by blast
  moreover have "strategy pol \<noteq> Manual \<and> (\<exists>m \<in> set members. usable_member now freshMs active pol states allow m \<and> c = scored now freshMs states m)"
    if "selected ?r = Some c" for c
    using selected_candidate [OF that] unfolding classify_usable by blast
  ultimately show ?thesis by blast
qed

theorem selected_account_is_usable_witness:
  "map_option profileId (selected (selectAuthGroupCandidate code_unit_compare 1500 1000 (Some ''a'')
      (demo_policy Priority) demo_members demo_states True)) = Some ''b''
   \<and> demo_member ''b'' 2 \<in> set demo_members"
proof -
  have sel: "selected (selectAuthGroupCandidate code_unit_compare 1500 1000 (Some ''a'')
      (demo_policy Priority) demo_members demo_states True)
      = Some (auth_member.extend (demo_member ''b'' 2) \<lparr>leastLimitedScore = Some 10\<rparr>)"
    by (simp add: selectAuthGroupCandidate_def demo_members_def demo_classified Let_def
        order_candidates_def comparePriority_def cmp_or_def resolveSoftSwitchPreferredCandidate_def
        resolveCurrentCandidate_def)
      (simp_all add: demo_defs)
  with selected_account_is_usable [of code_unit_compare 1500 1000 "Some ''a''" "demo_policy Priority" demo_members demo_states True]
  have "\<exists>m \<in> set demo_members. scored 1500 1000 demo_states m = auth_member.extend (demo_member ''b'' 2) \<lparr>leastLimitedScore = Some 10\<rparr>"
    by (metis (no_types, lifting))
  then have "\<exists>m \<in> set demo_members. profileId m = ''b''"
    by (auto simp: scored_def demo_member_def dest!: arg_cong [where f = profileId])
  then show ?thesis using sel by (auto simp: demo_members_def demo_member_def)
qed

text \<open>No member is lost: outside the manual strategy each one is either excluded with a reason or
  a candidate, nothing is selected only when every member was excluded (each one listed, in order),
  and the reason given is \<open>selected\<close> exactly when there is a selection.\<close>

theorem every_member_is_accounted_for:
  assumes "strategy pol \<noteq> Manual"
  shows "length (excluded (selectAuthGroupCandidate lc now freshMs active pol members states allow))
      + length (filter (\<lambda>m. \<exists>c. classify_member now freshMs active pol states allow m = Inr c) members)
      = length members
    \<and> (selected (selectAuthGroupCandidate lc now freshMs active pol members states allow) = None \<longrightarrow>
        map ex_profileId (excluded (selectAuthGroupCandidate lc now freshMs active pol members states allow))
          = map profileId members)
    \<and> (sel_reason (selectAuthGroupCandidate lc now freshMs active pol members states allow) = Selected
        \<longleftrightarrow> selected (selectAuthGroupCandidate lc now freshMs active pol members states allow) \<noteq> None)"
proof -
  let ?f = "classify_member now freshMs active pol states allow"
  let ?r = "selectAuthGroupCandidate lc now freshMs active pol members states allow"
  have ex: "excluded ?r = fst (partition_members ?f members)"
    using assms by (simp add: selectAuthGroupCandidate_def Let_def split: prod.splits)
  have "length (snd (partition_members ?f members)) = length (filter (\<lambda>m. \<exists>c. ?f m = Inr c) members)"
    by (induction members) (auto split: prod.splits sum.splits)
  then have count: "length (excluded ?r) + length (filter (\<lambda>m. \<exists>c. ?f m = Inr c) members) = length members"
    using partition_members_length [of ?f members] ex by simp
  have none: "map ex_profileId (excluded ?r) = map profileId members" if "selected ?r = None"
  proof -
    have "order_candidates lc (strategy pol) (snd (partition_members ?f members)) = []"
      using that assms
      by (simp add: selectAuthGroupCandidate_def Let_def split: prod.splits option.splits list.splits)
    then have "snd (partition_members ?f members) = []"
      using set_order_candidates [of lc "strategy pol"] by (metis set_empty)
    then have "map Inl (fst (partition_members ?f members)) = map ?f members"
      by (rule partition_members_none)
    then show ?thesis unfolding ex
    proof (induction members)
      case Nil
      then show ?case by simp
    next
      case (Cons m ms)
      then show ?case by (auto dest: classify_excluded split: prod.splits sum.splits)
    qed
  qed
  have "sel_reason ?r = Selected \<longleftrightarrow> selected ?r \<noteq> None"
    using assms by (simp add: selectAuthGroupCandidate_def Let_def split: prod.splits)
  with count none show ?thesis by blast
qed

theorem every_member_is_accounted_for_witness:
  "\<exists>n. length (excluded (selectAuthGroupCandidate code_unit_compare 1500 1000 (Some ''a'')
      (demo_policy Priority) demo_members demo_states False)) + n = 3"
proof -
  have "strategy (demo_policy Priority) \<noteq> Manual" by (simp add: demo_policy_def)
  moreover have "length demo_members = 3" by (simp add: demo_members_def)
  ultimately show ?thesis
    using every_member_is_accounted_for [of "demo_policy Priority" code_unit_compare 1500 1000
        "Some ''a''" demo_members demo_states False] by metis
qed

lemma selected_without_retry:
  assumes "strategy pol \<noteq> Manual"
  shows "selected (selectAuthGroupCandidate lc now freshMs active pol members states False) =
    (case order_candidates lc (strategy pol)
       (snd (partition_members (classify_member now freshMs active pol states False) members)) of
       [] \<Rightarrow> None | c # _ \<Rightarrow> Some c)"
  using assms by (simp add: selectAuthGroupCandidate_def resolveSoftSwitchPreferredCandidate_def
      Let_def split: prod.splits)

text \<open>What the strategies ask for, and when the active account comes first.\<close>

definition as_good :: "strategy \<Rightarrow> auth_candidate \<Rightarrow> auth_candidate \<Rightarrow> bool" where
  "as_good strat c d \<longleftrightarrow>
     (strat = Priority \<longrightarrow> priority c < priority d \<or> (priority c = priority d \<and> createdAtMs c \<le> createdAtMs d))
     \<and> (strat = LeastLimited \<longrightarrow> (\<forall>b. leastLimitedScore d = Some b \<longrightarrow> (\<exists>a. leastLimitedScore c = Some a \<and> b \<le> a)))"

definition more_left :: "auth_candidate \<Rightarrow> auth_candidate \<Rightarrow> bool" where
  "more_left e cur \<longleftrightarrow> (\<exists>v w. leastLimitedScore cur = Some v \<and> leastLimitedScore e = Some w \<and> v < w)"

definition low :: "rat \<Rightarrow> auth_candidate \<Rightarrow> bool" where
  "low th cur \<longleftrightarrow> (\<exists>v. leastLimitedScore cur = Some v \<and> v \<le> th)"

lemma find_least:
  "sorted_wrt R xs \<Longrightarrow> List.find P xs = Some c \<Longrightarrow> d \<in> set xs \<Longrightarrow> P d \<Longrightarrow> c = d \<or> R c d"
  by (induction xs) (auto split: if_splits dest: find_SomeD)

lemma ordered_candidates:
  assumes "comparator lc"
  shows "sorted_wrt (as_good strat) (order_candidates lc strat cs)"
proof -
  have "sorted_wrt (\<lambda>a b. comparePriority lc a b \<le> 0) (js_sort (comparePriority lc) cs)"
    by (rule comparator.sorted_js_sort [OF comparator_priority [OF assms]])
  then have "sorted_wrt (as_good strat) (js_sort (comparePriority lc) cs)" if "strat \<noteq> LeastLimited"
    by (rule sorted_wrt_mono_rel [rotated])
       (use that in \<open>auto simp: as_good_def comparePriority_def cmp_or_def split: if_splits\<close>)
  moreover have "sorted_wrt (\<lambda>a b. compare_least_limited lc a b \<le> 0) (js_sort (compare_least_limited lc) cs)"
    by (rule comparator.sorted_js_sort [OF comparator_least_limited [OF assms]])
  then have "sorted_wrt (as_good LeastLimited) (js_sort (compare_least_limited lc) cs)"
    by (rule sorted_wrt_mono_rel [rotated])
       (auto simp: as_good_def compare_least_limited_def split: if_splits option.splits)
  ultimately show ?thesis by (auto simp: order_candidates_def)
qed

lemma as_good_refl: "as_good strat c c"
  by (simp add: as_good_def)

lemma current_candidate:
  assumes "distinct (map profileId members)" and "cur \<in> scored now freshMs states ` set members"
    and "set cs \<subseteq> scored now freshMs states ` set members" and "cur \<in> set cs" and "profileId cur \<noteq> []"
  shows "resolveCurrentCandidate cs (Some (profileId cur)) = Some cur"
proof -
  have only: "c = cur" if "c \<in> set cs" "profileId c = profileId cur" for c
  proof -
    obtain m n where "m \<in> set members" "n \<in> set members" "c = scored now freshMs states m" "cur = scored now freshMs states n"
      using assms(2,3) \<open>c \<in> set cs\<close> by blast
    then show ?thesis using that(2) assms(1) by (auto simp: scored_def distinct_map inj_on_def)
  qed
  obtain c where c: "List.find (\<lambda>c. profileId c = profileId cur) cs = Some c"
    using assms(4) by (cases "List.find (\<lambda>c. profileId c = profileId cur) cs") (auto simp: find_None_iff)
  then have "c = cur" by (intro only) (auto dest: find_SomeD)
  then show ?thesis using c assms(5) by (simp add: resolveCurrentCandidate_def)
qed

text \<open>C34: The selection is the best usable member. With a consistent locale comparison, another strategy
  than manual and members of different ids: when retrying is not allowed, or the active
  account is not usable, or no soft threshold is set, the selection is as good as every usable member: under
  the priority strategy none has a smaller priority number, nor the same and an earlier creation, and under
  \<open>least_limited\<close> none is known to have more left. Otherwise the active account is kept if its quota
  is not known to be at or below the threshold, or no usable member has more left; else the
  selection has more left than it and is as good as every usable member that does.\<close>

theorem selection_is_optimal:
  assumes "comparator lc" and "strategy pol \<noteq> Manual" and "distinct (map profileId members)"
    and "selected (selectAuthGroupCandidate lc now freshMs active pol members states allow) = Some c"
  defines "U \<equiv> {scored now freshMs states m |m. m \<in> set members \<and> usable_member now freshMs active pol states allow m}"
  shows "(\<forall>cur \<in> U. \<forall>th. allow \<longrightarrow> active = Some (profileId cur) \<longrightarrow> profileId cur \<noteq> [] \<longrightarrow>
      resolveSoftSwitchRemainingPercent pol = Some th \<longrightarrow>
      (if low th cur \<and> (\<exists>e \<in> U. more_left e cur)
       then more_left c cur \<and> (\<forall>e \<in> U. more_left e cur \<longrightarrow> as_good (strategy pol) c e)
       else c = cur))
    \<and> ((\<not> allow \<or> resolveSoftSwitchRemainingPercent pol = None
         \<or> (\<forall>cur \<in> U. profileId cur = [] \<or> active \<noteq> Some (profileId cur))) \<longrightarrow> (\<forall>d \<in> U. as_good (strategy pol) c d))"
proof -
  let ?base = "snd (partition_members (classify_member now freshMs active pol states allow) members)"
  let ?cs = "order_candidates lc (strategy pol) ?base"
  let ?soft = "resolveSoftSwitchPreferredCandidate ?cs active pol allow"
  have U: "set ?cs = U"
    by (auto simp: partition_members_sets classify_usable U_def)
  have sorted: "sorted_wrt (as_good (strategy pol)) ?cs" by (rule ordered_candidates [OF assms(1)])
  have sel: "Some c = (case ?soft of Some c \<Rightarrow> Some c | None \<Rightarrow> (case ?cs of [] \<Rightarrow> None | c # _ \<Rightarrow> Some c))"
    using assms(4) unfolding selected_alt [OF assms(2)] Let_def by simp
  have first: "\<forall>d \<in> U. as_good (strategy pol) c d" if "?soft = None"
  proof -
    have "Some c = (case ?cs of [] \<Rightarrow> None | c # _ \<Rightarrow> Some c)" using sel by (simp only: that option.case)
    then obtain ds where "?cs = c # ds" by (cases ?cs) simp_all
    then show ?thesis using sorted U as_good_refl by (metis set_ConsD sorted_wrt.simps(2))
  qed
  have sticky: "if low th cur \<and> (\<exists>e \<in> U. more_left e cur)
       then more_left c cur \<and> (\<forall>e \<in> U. more_left e cur \<longrightarrow> as_good (strategy pol) c e) else c = cur"
    if cur: "cur \<in> U" "allow" "active = Some (profileId cur)" "profileId cur \<noteq> []"
      and th: "resolveSoftSwitchRemainingPercent pol = Some th" for cur th
  proof -
    have current: "resolveCurrentCandidate ?cs active = Some cur"
      unfolding cur(3)
      by (rule current_candidate [OF assms(3)]) (use cur U in \<open>auto simp: U_def\<close>)
    let ?better = "\<lambda>e. profileId e \<noteq> profileId cur \<and> (\<exists>v w. leastLimitedScore cur = Some v \<and> leastLimitedScore e = Some w \<and> v < w)"
    have id: "profileId e \<noteq> profileId cur" if "e \<in> U" "more_left e cur" for e
    proof
      assume "profileId e = profileId cur"
      then have "resolveCurrentCandidate ?cs (Some (profileId e)) = Some e" "profileId e = profileId cur"
        using current_candidate [OF assms(3), of e now freshMs states ?cs] that(1) cur(4) U by (auto simp: U_def)
      then have "e = cur" using current cur(3) by simp
      then show False using that(2) by (auto simp: more_left_def)
    qed
    show ?thesis
    proof (cases "low th cur")
      case False
      then have "?soft = Some cur"
        using current th cur(2) by (auto simp: resolveSoftSwitchPreferredCandidate_def low_def split: option.split)
      then show ?thesis using sel False by simp
    next
      case True
      then obtain v where v: "leastLimitedScore cur = Some v" "v \<le> th" by (auto simp: low_def)
      let ?P = "\<lambda>e. profileId e \<noteq> profileId cur \<and> (case leastLimitedScore e of None \<Rightarrow> False | Some w \<Rightarrow> v < w)"
      have P: "?P e \<longleftrightarrow> more_left e cur" if "e \<in> U" for e
        using id [OF that] v(1) by (auto simp: more_left_def split: option.splits)
      have soft: "?soft = (case List.find ?P ?cs of Some better \<Rightarrow> Some better | None \<Rightarrow> Some cur)"
        using current th cur(2) v by (simp add: resolveSoftSwitchPreferredCandidate_def)
      show ?thesis
      proof (cases "List.find ?P ?cs")
        case None
        then have "\<not> (\<exists>e \<in> U. more_left e cur)" using P U by (auto simp only: find_None_iff)
        moreover have "c = cur" using sel soft None by simp
        ultimately show ?thesis by simp
      next
        case (Some d)
        then have "c = d" using sel soft by simp
        have d: "d \<in> U" "?P d" using Some U by (auto dest: find_SomeD)
        have "as_good (strategy pol) d e" if "e \<in> U" "more_left e cur" for e
          using find_least [OF sorted Some, of e] P [OF that(1)] that U as_good_refl by auto
        then show ?thesis using d P [OF d(1)] True \<open>c = d\<close> by auto
      qed
    qed
  qed
  have "?soft = None" if "\<not> allow \<or> resolveSoftSwitchRemainingPercent pol = None
         \<or> (\<forall>cur \<in> U. profileId cur = [] \<or> active \<noteq> Some (profileId cur))"
  proof -
    have "resolveCurrentCandidate ?cs active = None" if "\<forall>cur \<in> U. profileId cur = [] \<or> active \<noteq> Some (profileId cur)"
      using that U by (auto simp: resolveCurrentCandidate_def find_None_iff split: option.split)
    then show ?thesis using that by (auto simp: resolveSoftSwitchPreferredCandidate_def split: option.split)
  qed
  then show ?thesis using first sticky by blast
qed

theorem selection_is_optimal_witness:
  "\<exists>c. selected (selectAuthGroupCandidate code_unit_compare 1500 1000 (Some ''a'')
      (demo_policy LeastLimited) demo_members demo_states False) = Some c \<and> leastLimitedScore c = Some 80
     \<and> as_good LeastLimited c (scored 1500 1000 demo_states (demo_member ''b'' 2))"
proof -
  let ?sel = "selected (selectAuthGroupCandidate code_unit_compare 1500 1000 (Some ''a'')
      (demo_policy LeastLimited) demo_members demo_states False)"
  have cl: "classify_member 1500 1000 (Some ''a'') (demo_policy LeastLimited) demo_states False (demo_member ''c'' 3)
     = Inr (auth_member.extend (demo_member ''c'' 3) \<lparr>leastLimitedScore = Some 80\<rparr>)"
    "classify_member 1500 1000 (Some ''a'') (demo_policy LeastLimited) demo_states False (demo_member ''b'' 2)
     = Inr (auth_member.extend (demo_member ''b'' 2) \<lparr>leastLimitedScore = Some 10\<rparr>)"
    "classify_member 1500 1000 (Some ''a'') (demo_policy LeastLimited) demo_states False (demo_member ''a'' 1)
     = Inl \<lparr>ex_profileId = ''a'', ex_reason = CurrentActive, ex_retryAtMs = None\<rparr>"
    by (simp_all add: demo_defs auth_defs)
  have sel: "?sel = Some (auth_member.extend (demo_member ''c'' 3) \<lparr>leastLimitedScore = Some 80\<rparr>)"
    by (simp add: selectAuthGroupCandidate_def demo_members_def cl Let_def order_candidates_def
        compare_least_limited_def resolveSoftSwitchPreferredCandidate_def) (simp add: demo_defs)
  have "strategy (demo_policy LeastLimited) \<noteq> Manual" "distinct (map profileId demo_members)"
    by (simp_all add: demo_policy_def demo_members_def demo_member_def)
  note best = selection_is_optimal [OF code_units.comparator_axioms this sel, THEN conjunct2, THEN mp]
  have "usable_member 1500 1000 (Some ''a'') (demo_policy LeastLimited) demo_states False (demo_member ''b'' 2)"
    using cl(2) by (simp only: classify_usable)
  then have "as_good (strategy (demo_policy LeastLimited))
      (auth_member.extend (demo_member ''c'' 3) \<lparr>leastLimitedScore = Some 80\<rparr>) (scored 1500 1000 demo_states (demo_member ''b'' 2))"
    by (intro best [THEN bspec]) (auto simp: demo_members_def)
  then show ?thesis using sel by (simp add: demo_policy_def)
qed

text \<open>Retrying the active account is sticky: when that is allowed and the account is still usable,
  the choice moves away from it only if its known remaining quota is at or below the soft-switch
  threshold, and then only to an account with strictly more left.\<close>

theorem soft_switch_only_improves:
  assumes "strategy pol \<noteq> Manual" and "a \<noteq> []" and "distinct (map profileId members)"
    and "resolveSoftSwitchRemainingPercent pol = Some th"
    and "m \<in> set members" and "profileId m = a"
    and "classify_member now freshMs (Some a) pol states True m = Inr cur"
  shows "\<exists>c. selected (selectAuthGroupCandidate lc now freshMs (Some a) pol members states True) = Some c
    \<and> (c = cur \<or> (\<exists>sc v. leastLimitedScore cur = Some sc \<and> sc \<le> th
                        \<and> leastLimitedScore c = Some v \<and> sc < v))"
proof -
  let ?f = "classify_member now freshMs (Some a) pol states True"
  let ?cs = "order_candidates lc (strategy pol) (snd (partition_members ?f members))"
  have only: "c = cur" if "c \<in> set ?cs" "profileId c = a" for c
  proof -
    from that(1) obtain m' where m': "m' \<in> set members" "?f m' = Inr c"
      by (auto simp: partition_members_sets)
    then have "profileId m' = profileId m"
      using classify_candidate(3) [OF m'(2)] that(2) assms(6) by simp
    then have "m' = m" using m'(1) assms(3,5) by (auto simp: distinct_map inj_on_def)
    then show ?thesis using m'(2) assms(7) by simp
  qed
  have "cur \<in> set ?cs" using assms(5,7) by (auto simp: partition_members_sets)
  moreover have "profileId cur = a" using classify_candidate(3) [OF assms(7)] assms(6) by simp
  ultimately obtain c where "List.find (\<lambda>c. profileId c = a) ?cs = Some c"
    by (cases "List.find (\<lambda>c. profileId c = a) ?cs") (auto simp: find_None_iff)
  moreover from this have "c = cur" by (intro only) (auto dest: find_SomeD)
  ultimately have "resolveCurrentCandidate ?cs (Some a) = Some cur"
    using assms(2) by (simp add: resolveCurrentCandidate_def)
  then show ?thesis
    using assms(1,4)
    by (auto simp: selectAuthGroupCandidate_def resolveSoftSwitchPreferredCandidate_def Let_def
        dest!: find_SomeD split: prod.splits option.splits)
qed

theorem soft_switch_only_improves_witness:
  "\<exists>c. selected (selectAuthGroupCandidate code_unit_compare 1500 1000 (Some ''b'')
      (demo_policy Priority) demo_members demo_states True) = Some c
   \<and> (profileId c = ''b'' \<or> (\<exists>v. leastLimitedScore c = Some v \<and> 10 < v))"
proof -
  have "resolveSoftSwitchRemainingPercent (demo_policy Priority) = Some 15"
    by (simp add: resolveSoftSwitchRemainingPercent_def demo_policy_def DEFAULT_AUTH_GROUP_POLICY_def)
  moreover have "distinct (map profileId demo_members)" "demo_member ''b'' 2 \<in> set demo_members"
    "profileId (demo_member ''b'' 2) = ''b''"
    by (simp_all add: demo_members_def demo_member_def)
  ultimately show ?thesis
    using soft_switch_only_improves [of "demo_policy Priority" "''b''" demo_members 15
        "demo_member ''b'' 2" 1500 1000 demo_states _ code_unit_compare, OF _ _ _ _ _ _ demo_classified(1)]
    by (auto simp: demo_policy_def demo_member_def)
qed

lemma clear_fields:
  "cooldownStartedAtMs (clear_rate v s n) = cooldownStartedAtMs n"
  "cooldownUntilMs (clear_rate v s n) = cooldownUntilMs n"
  "exhaustedUntilMs (clear_rate v s n) = exhaustedUntilMs n"
  "quotaExhaustedUntilMs (clear_rate v s n) = quotaExhaustedUntilMs n"
  "cooldownStartedAtMs (clear_quota u s n) = cooldownStartedAtMs n"
  "cooldownUntilMs (clear_quota u s n) = cooldownUntilMs n"
  "exhaustedUntilMs (clear_quota u s n) = exhaustedUntilMs n"
  "rateLimitedUntilMs (clear_quota u s n) = rateLimitedUntilMs n"
  "lastFailureKind (clear_cooldown u s n) = lastFailureKind n"
  "quotaExhaustedUntilMs (clear_cooldown u s n) = quotaExhaustedUntilMs n"
  "rateLimitedUntilMs (clear_cooldown u s n) = rateLimitedUntilMs n"
  by (simp_all add: clear_rate_def clear_quota_def clear_cooldown_def)

text \<open>Once cleared, none of the three conditions holds any more.\<close>

lemma clear_idem:
  fixes u v s
  defines "t \<equiv> clear_rate v s (clear_quota u s (clear_cooldown u s s))"
  shows "clear_rate v t (clear_quota u t (clear_cooldown u t t)) = t"
proof -
  have "u \<Longrightarrow> finite_num (cooldownStartedAtMs t) = None" "u \<Longrightarrow> finite_num (cooldownUntilMs t) = None"
    "u \<Longrightarrow> finite_num (exhaustedUntilMs t) = None"
    by (simp_all add: t_def clear_fields) (simp_all add: clear_cooldown_def)
  then have "clear_cooldown u t t = t"
    unfolding clear_cooldown_def [of u t t] by auto
  moreover have kind: "u \<Longrightarrow> lastFailureKind t \<noteq> Some ''usage_limit''"
    "v \<Longrightarrow> lastFailureKind t \<noteq> Some ''rate_limit''"
    by (auto simp: t_def clear_rate_def clear_quota_def clear_cooldown_def)
  have "u \<Longrightarrow> finite_num (quotaExhaustedUntilMs t) = None"
    by (simp add: t_def clear_fields) (simp add: clear_quota_def clear_fields)
  then have "clear_quota u t t = t"
    unfolding clear_quota_def [of u t t] using kind(1) by auto
  moreover have "v \<Longrightarrow> finite_num (rateLimitedUntilMs t) = None"
    unfolding t_def clear_rate_def by (simp add: clear_fields)
  then have "clear_rate v t t = t"
    unfolding clear_rate_def [of v t t] using kind(2) by auto
  ultimately show ?thesis by simp
qed

text \<open>Reconciliation with a quota snapshot only ever lifts limits: it clears fields and sets none,
  never touches credential health, the capacity, authentication, plan and validation blocks or the
  observation time, ignores a snapshot that is not newer than the failure, is idempotent, and a
  snapshot that proves quota usable lifts every cooldown.\<close>

theorem reconcile_only_lifts_limits:
  "reconcileMemberRuntimeState (reconcileMemberRuntimeState st snap) snap = reconcileMemberRuntimeState st snap
   \<and> (\<forall>s s' q. st = Some s \<longrightarrow> snap = Some q \<longrightarrow> reconcileMemberRuntimeState st snap = Some s' \<longrightarrow>
        (\<forall>f \<in> {cooldownStartedAtMs, cooldownUntilMs, exhaustedUntilMs, quotaExhaustedUntilMs,
               rateLimitedUntilMs, providerResetsAtMs}. f s' = f s \<or> f s' = None)
        \<and> (\<forall>f \<in> {capacityLimitedUntilMs, authInvalidUntilMs, planUnavailableUntilMs,
                 validationBlockedUntilMs, lastObservedAtMs}. f s' = f s)
        \<and> credentialHealthStatus s' = credentialHealthStatus s \<and> quotaSnapshot s' = quotaSnapshot s
        \<and> (lastFailureKind s' = lastFailureKind s \<or> lastFailureKind s' = None)
        \<and> (\<not> isSnapshotNewerThanFailure q st \<longrightarrow> s' = s)
        \<and> (isSnapshotNewerThanFailure q st \<longrightarrow> snapshotProvesQuotaUsable q \<longrightarrow>
             resolveCooldownRetryAtMs pol (Some s') now = None))"
proof (cases "\<exists>s q. st = Some s \<and> snap = Some q \<and> isSnapshotNewerThanFailure q st")
  case False
  then have "reconcileMemberRuntimeState st snap = st"
    by (auto simp: reconcileMemberRuntimeState_def split: option.splits)
  then show ?thesis using False by auto
next
  case True
  then obtain s q where st: "st = Some s" "snap = Some q" and new: "isSnapshotNewerThanFailure q (Some s)"
    by auto
  let ?u = "snapshotProvesQuotaUsable q" and ?v = "snapshotProvesRateLimitUsable q"
  let ?t = "clear_rate ?v s (clear_quota ?u s (clear_cooldown ?u s s))"
  have r: "reconcileMemberRuntimeState st snap = Some ?t"
    using st new by (simp add: reconcileMemberRuntimeState_def)
  have kept: "capacityLimitedUntilMs ?t = capacityLimitedUntilMs s" "authInvalidUntilMs ?t = authInvalidUntilMs s"
    "planUnavailableUntilMs ?t = planUnavailableUntilMs s" "validationBlockedUntilMs ?t = validationBlockedUntilMs s"
    "lastObservedAtMs ?t = lastObservedAtMs s" "credentialHealthStatus ?t = credentialHealthStatus s"
    "quotaSnapshot ?t = quotaSnapshot s"
    by (simp_all add: clear_rate_def clear_quota_def clear_cooldown_def)
  then have "isSnapshotNewerThanFailure q (Some ?t)"
    using new by (simp add: isSnapshotNewerThanFailure_def state_num_def)
  moreover have "clear_rate ?v ?t (clear_quota ?u ?t (clear_cooldown ?u ?t ?t)) = ?t"
    by (rule clear_idem)
  ultimately have idem: "reconcileMemberRuntimeState (Some ?t) snap = Some ?t"
    using st by (simp add: reconcileMemberRuntimeState_def)
  have cleared: "\<forall>f \<in> {cooldownStartedAtMs, cooldownUntilMs, exhaustedUntilMs, quotaExhaustedUntilMs,
      rateLimitedUntilMs, providerResetsAtMs}. f ?t = f s \<or> f ?t = None"
    by (simp add: clear_rate_def clear_quota_def clear_cooldown_def)
  have kind: "lastFailureKind ?t = lastFailureKind s \<or> lastFailureKind ?t = None"
    by (simp add: clear_rate_def clear_quota_def clear_cooldown_def)
  have "resolveCooldownRetryAtMs pol (Some ?t) now = None" if "?u"
    using that by (simp add: resolveCooldownRetryAtMs_def state_num_def future_def clear_rate_def
        clear_quota_def clear_cooldown_def Let_def)
  then show ?thesis using r idem kept cleared kind st new by simp
qed

theorem reconcile_only_lifts_limits_witness:
  "\<exists>s'. reconcileMemberRuntimeState (Some (demo_state 10)) (Some (demo_snapshot 10)) = Some s'
     \<and> resolveCooldownRetryAtMs (demo_policy Priority) (Some s') 1500 = None"
proof -
  have "isSnapshotNewerThanFailure (demo_snapshot 10) (Some (demo_state 10))"
    "snapshotProvesQuotaUsable (demo_snapshot 10)"
    by (simp_all add: demo_defs auth_defs)
  moreover have "reconcileMemberRuntimeState (Some (demo_state 10)) (Some (demo_snapshot 10)) \<noteq> None"
    by (simp add: reconcileMemberRuntimeState_def)
  then obtain s' where "reconcileMemberRuntimeState (Some (demo_state 10)) (Some (demo_snapshot 10)) = Some s'"
    by blast
  ultimately show ?thesis
    using reconcile_only_lifts_limits [of "Some (demo_state 10)" "Some (demo_snapshot 10)"
        "demo_policy Priority" 1500] by blast
qed

end
