(* ===== verification/RecoveryPolicy.thy ===== *)
theory RecoveryPolicy
  imports JsBase
begin

text \<open>
  The decision what to do about a failing connected service, from
  \<open>apps/cli/src/daemon/connectedServices/runtimeAuth/ConnectedServiceRecoveryPolicy.ts\<close> (the
  failure classification is the type of \<open>types.ts\<close> beside it, reduced to the fields the
  decision reads). Fields of the input the code never reads are left out.
\<close>

section \<open>Data\<close>

datatype actor = Automatic | ManualActor

datatype issue_kind =
    UsageLimit | RateLimit | Capacity | AuthExpired | AccountChanged | RefreshFailed
  | PermissionDenied | Plan | Validation | AccountDisabled | TemporaryThrottle
  | DependencyFailure | Unknown | SoftLimit

datatype quota_scope =
    ScopeAccount | ScopeWorkspace | ScopeOrganization | ScopeModel | ScopeProvider | ScopeUnknown

datatype recovery_action = ProviderStateSharingRequired | QuotaRecoveryRequired

record issue =
  kind :: issue_kind
  issue_serviceId :: string
  issue_profileId :: "string option"
  issue_groupId :: "string option"
  resetsAtMs :: "rat option"
  retryAfterMs :: "rat option"
  quotaScope :: "quota_scope option"
  recoveryAction :: "recovery_action option"

datatype policy_selection =
    ProfileSelection (sel_serviceId: string) string
  | GroupSelection (sel_serviceId: string) string string

datatype cached_status = HConnected | HRefreshing | HNeedsReauth | HRefreshFailedRetryable | HUnknown

datatype live_evidence = Accepted | LiveAuthFailed

record credential_health =
  cachedStatus :: "cached_status option"
  liveEvidence :: "live_evidence option"

datatype apply_mode = HotApply | RestartRematerialize | DelegateToGroupSwitch

datatype no_candidate_reason = NoManualStrategy | NoEligible | NoSafeBetterCandidate

text \<open>\<open>retryAtMs\<close> of a missing candidate may be absent, null or a number.\<close>

datatype group_candidate =
    CandidateSelected string apply_mode
  | CandidateNone no_candidate_reason "rat option option"

datatype restart_continuity = RestartAvailable | RestartUnavailable | RestartSharedStateRequired

record recovery_input =
  in_actor :: actor
  in_issue :: "issue option"
  in_selection :: "policy_selection option"
  credentialHealth :: "credential_health option"
  groupSwitchInProgress :: bool
  groupCandidate :: "group_candidate option"
  restart :: "restart_continuity option"
  refreshable :: bool

datatype decision =
    NoIssue
  | SoftLimitNoSafeCandidate
  | LiveEvidenceSupersedesCachedHealth string string
  | TemporaryRetry string "string option" "string option" "rat option" "rat option"
  | Refresh string string issue_kind
  | SwitchAccount apply_mode string string "string option" "string option" issue_kind actor
  | WaitForGroupSwitch string string
  | WaitUntilReset string "string option" "string option" "rat option"
  | ReconnectRequired string "string option" "string option" issue_kind actor
  | ProfileActionRequired string "string option" "string option" issue_kind
  | ConnectedServiceRequired string "string option" "string option" issue_kind
  | SharedStateRequired string "string option" "string option" issue_kind
  | RetryRequired string "string option" "string option" issue_kind

section \<open>Reading the issue\<close>

definition non_blank :: "string option \<Rightarrow> bool" where
  "non_blank x = (case x of None \<Rightarrow> False | Some s \<Rightarrow> trim s \<noteq> [])"

definition issueProfileId :: "issue \<Rightarrow> policy_selection option \<Rightarrow> string option" where
  "issueProfileId i sel =
     (if non_blank (issue_profileId i) then issue_profileId i
      else case sel of
          Some (ProfileSelection _ p) \<Rightarrow> Some p
        | Some (GroupSelection _ _ p) \<Rightarrow> if p = [] then None else Some p
        | None \<Rightarrow> None)"

definition issueGroupId :: "issue \<Rightarrow> policy_selection option \<Rightarrow> string option" where
  "issueGroupId i sel =
     (if non_blank (issue_groupId i) then issue_groupId i
      else case sel of Some (GroupSelection _ g _) \<Rightarrow> Some g | _ \<Rightarrow> None)"

fun isCredentialFailure :: "issue_kind \<Rightarrow> bool" where
  "isCredentialFailure k \<longleftrightarrow>
     k \<in> {AuthExpired, AccountChanged, RefreshFailed, PermissionDenied, AccountDisabled}"

fun isSwitchableGroupIssue :: "issue_kind \<Rightarrow> bool" where
  "isSwitchableGroupIssue k \<longleftrightarrow>
     k \<in> {UsageLimit, RateLimit, Capacity, AuthExpired, AccountChanged, RefreshFailed,
          DependencyFailure, AccountDisabled, SoftLimit, Unknown}"

definition isAccountScopedCapacityIssue :: "issue \<Rightarrow> bool" where
  "isAccountScopedCapacityIssue i \<longleftrightarrow> kind i = Capacity \<and> quotaScope i = Some ScopeAccount"

definition isTemporaryRetryOwned :: "issue \<Rightarrow> bool" where
  "isTemporaryRetryOwned i \<longleftrightarrow>
     kind i = TemporaryThrottle \<or> (kind i = Capacity \<and> \<not> isAccountScopedCapacityIssue i)"

definition hasProviderSharedStateRecoveryAction :: "issue \<Rightarrow> bool" where
  "hasProviderSharedStateRecoveryAction i \<longleftrightarrow> recoveryAction i = Some ProviderStateSharingRequired"

fun is_group :: "policy_selection option \<Rightarrow> bool" where
  "is_group (Some (GroupSelection _ _ _)) = True"
| "is_group _ = False"

definition isSwitchableGroupSelection :: "issue \<Rightarrow> policy_selection option \<Rightarrow> bool" where
  "isSwitchableGroupSelection i sel \<longleftrightarrow> is_group sel \<and> isSwitchableGroupIssue (kind i)"

section \<open>The decision\<close>

fun is_none_candidate :: "group_candidate option \<Rightarrow> bool" where
  "is_none_candidate (Some (CandidateNone _ _)) = True"
| "is_none_candidate _ = False"

text \<open>An empty profile id is falsy.\<close>

definition truthy_id :: "string option \<Rightarrow> bool" where
  "truthy_id p \<longleftrightarrow> p \<noteq> None \<and> p \<noteq> Some []"

definition decideConnectedServiceRecovery :: "recovery_input \<Rightarrow> decision" where
  "decideConnectedServiceRecovery inp =
     (case in_issue inp of None \<Rightarrow> NoIssue
      | Some i \<Rightarrow>
        (let sel = in_selection inp;
             pid = issueProfileId i sel;
             gid = issueGroupId i sel;
             k = kind i; svc = issue_serviceId i;
             cached = (case credentialHealth inp of None \<Rightarrow> None | Some h \<Rightarrow> cachedStatus h);
             live = (case credentialHealth inp of None \<Rightarrow> None | Some h \<Rightarrow> liveEvidence h)
         in if isTemporaryRetryOwned i then TemporaryRetry svc pid gid (resetsAtMs i) (retryAfterMs i)
            else if (hasProviderSharedStateRecoveryAction i \<or> restart inp = Some RestartSharedStateRequired)
                    \<and> \<not> isSwitchableGroupSelection i sel
              then SharedStateRequired svc pid gid k
            else if restart inp = Some RestartUnavailable then RetryRequired svc pid gid k
            else if cached = Some HNeedsReauth \<and> live = Some Accepted \<and> truthy_id pid
              then LiveEvidenceSupersedesCachedHealth svc (the pid)
            else if isCredentialFailure k \<and> refreshable inp \<and> truthy_id pid
                    \<and> live \<noteq> Some LiveAuthFailed \<and> cached \<noteq> Some HNeedsReauth
              then Refresh svc (the pid) k
            else if isCredentialFailure k \<and> (cached = Some HNeedsReauth \<or> live = Some LiveAuthFailed)
              then (case (sel, groupCandidate inp) of
                      (Some (GroupSelection s g p), Some (CandidateSelected q m)) \<Rightarrow>
                        SwitchAccount m s g (Some p) (Some q) k (in_actor inp)
                    | _ \<Rightarrow> ReconnectRequired svc pid gid k (in_actor inp))
            else if is_group sel \<and> groupSwitchInProgress inp
              then (case sel of Some (GroupSelection s g _) \<Rightarrow> WaitForGroupSwitch s g | _ \<Rightarrow> NoIssue)
            else if k = SoftLimit \<and> is_none_candidate (groupCandidate inp) then SoftLimitNoSafeCandidate
            else case groupCandidate inp of
              Some (CandidateNone _ (Some retryAt)) \<Rightarrow>
                WaitUntilReset svc pid gid (case retryAt of Some t \<Rightarrow> Some t | None \<Rightarrow> resetsAtMs i)
            | gc \<Rightarrow>
              (case (sel, gc) of
                 (Some (GroupSelection s g p), Some (CandidateSelected q m)) \<Rightarrow>
                   SwitchAccount m s g (Some p) (Some q) k (in_actor inp)
               | (Some (GroupSelection s g p), _) \<Rightarrow>
                   if isSwitchableGroupIssue k
                   then SwitchAccount DelegateToGroupSwitch s g (Some p) None k (in_actor inp)
                   else ConnectedServiceRequired svc pid gid k
               | (Some (ProfileSelection s p), _) \<Rightarrow>
                   if isCredentialFailure k then ReconnectRequired s pid gid k (in_actor inp)
                   else ProfileActionRequired s pid gid k
               | (None, _) \<Rightarrow> ConnectedServiceRequired svc pid gid k)))"

section \<open>Properties\<close>

lemmas decide = decideConnectedServiceRecovery_def Let_def

lemma is_group_iff: "is_group sel \<longleftrightarrow> (\<exists>s g p. sel = Some (GroupSelection s g p))"
  by (cases sel rule: is_group.cases) auto

text \<open>What the health of the credentials says: a login is needed, or the provider just refused.\<close>

definition rejected_credentials :: "recovery_input \<Rightarrow> bool" where
  "rejected_credentials inp \<longleftrightarrow>
     (\<exists>h. credentialHealth inp = Some h
        \<and> (cachedStatus h = Some HNeedsReauth \<or> liveEvidence h = Some LiveAuthFailed))"

definition demo_issue :: "issue_kind \<Rightarrow> quota_scope option \<Rightarrow> issue" where
  "demo_issue k sc =
     \<lparr>kind = k, issue_serviceId = ''svc'', issue_profileId = Some ''p1'', issue_groupId = None,
      resetsAtMs = Some 900, retryAfterMs = None, quotaScope = sc, recoveryAction = None\<rparr>"

definition demo_input :: "issue_kind \<Rightarrow> quota_scope option \<Rightarrow> credential_health option \<Rightarrow> recovery_input" where
  "demo_input k sc h =
     \<lparr>in_actor = Automatic, in_issue = Some (demo_issue k sc),
      in_selection = Some (GroupSelection ''svc'' ''g'' ''p1''), credentialHealth = h,
      groupSwitchInProgress = False, groupCandidate = Some (CandidateSelected ''p2'' HotApply),
      restart = None, refreshable = True\<rparr>"

lemmas demo_recovery_defs = demo_input_def demo_issue_def decide isTemporaryRetryOwned_def
  isAccountScopedCapacityIssue_def hasProviderSharedStateRecoveryAction_def issueProfileId_def
  non_blank_def truthy_id_def trim_def js_ws_def

text \<open>An account switch is always justified: it is decided for a group selection only, within
  that group and away from its active account, to the candidate offered (or delegated to the group
  switch when none is); never for throttling or for capacity that is not scoped to the account, never
  when the runtime cannot be restarted, and during another group switch only for credentials known
  to be rejected.\<close>

theorem switch_account_is_justified:
  assumes "decideConnectedServiceRecovery inp = SwitchAccount m svc gid src dst k a"
  shows "\<exists>i p. in_issue inp = Some i \<and> in_selection inp = Some (GroupSelection svc gid p)
    \<and> src = Some p \<and> k = kind i \<and> a = in_actor inp
    \<and> kind i \<noteq> TemporaryThrottle \<and> (kind i = Capacity \<longrightarrow> quotaScope i = Some ScopeAccount)
    \<and> restart inp \<noteq> Some RestartUnavailable
    \<and> ((\<exists>q. dst = Some q \<and> groupCandidate inp = Some (CandidateSelected q m))
       \<or> (dst = None \<and> m = DelegateToGroupSwitch \<and> isSwitchableGroupIssue k))
    \<and> (groupSwitchInProgress inp \<longrightarrow> isCredentialFailure k \<and> rejected_credentials inp)"
proof (cases "in_issue inp")
  case None
  then show ?thesis using assms by (simp add: decide)
next
  case (Some i)
  then show ?thesis
    using assms
    by (cases "in_selection inp"; cases "groupCandidate inp")
      (auto simp: decide isTemporaryRetryOwned_def isAccountScopedCapacityIssue_def
        rejected_credentials_def simp del: isCredentialFailure.simps isSwitchableGroupIssue.simps
        split: if_splits option.splits policy_selection.splits group_candidate.splits)
qed

theorem switch_account_is_justified_witness:
  "decideConnectedServiceRecovery (demo_input Capacity (Some ScopeAccount) None)
     = SwitchAccount HotApply ''svc'' ''g'' (Some ''p1'') (Some ''p2'') Capacity Automatic
   \<and> kind (demo_issue Capacity (Some ScopeAccount)) \<noteq> TemporaryThrottle"
proof -
  have d: "decideConnectedServiceRecovery (demo_input Capacity (Some ScopeAccount) None)
     = SwitchAccount HotApply ''svc'' ''g'' (Some ''p1'') (Some ''p2'') Capacity Automatic"
    by (simp add: demo_recovery_defs)
  from switch_account_is_justified [OF d] d show ?thesis by (simp add: demo_input_def)
qed



end
