(* ===== verification/ExecutionBudget.thy ===== *)
theory ExecutionBudget
  imports JsBase
begin

text \<open>
  The registry of execution runs and ephemeral tasks of the daemon, from
  \<open>apps/cli/src/daemon/executionBudget/ExecutionBudgetRegistry.ts\<close>: the class's private fields
  are the record \<open>budget\<close>, its two \<open>Map\<close>s are association lists in insertion order and
  the token sets duplicate-free lists. A constructor that throws returns \<open>Inl\<close>.
\<close>

section \<open>State and construction\<close>

record budget =
  maxConcurrentExecutionRuns :: "int option"
  maxConcurrentEphemeralTasks :: "int option"
  maxConcurrentTotal :: "int option"
  maxConcurrentByClass :: "(string \<times> jsnum) list"
  inFlightByTokenId :: "(string \<times> string) list"
  inFlightTokenIdsByClass :: "(string \<times> string list) list"

datatype budget_error = InvalidMaxConcurrentExecutionRuns | InvalidMaxConcurrentEphemeralTasks

text \<open>\<open>Number.isInteger(x) && x >= 1\<close>, with the integer it is.\<close>

fun positive_integer :: "jsnum \<Rightarrow> int option" where
  "positive_integer (Fin r) = (if r = of_int (floor r) \<and> 1 \<le> r then Some (floor r) else None)"
| "positive_integer _ = None"

definition newBudget ::
    "jsnum option \<Rightarrow> jsnum option \<Rightarrow> jsnum option \<Rightarrow> (string \<times> jsnum) list \<Rightarrow> budget_error + budget" where
  "newBudget runs tasks totalCap byClass =
     (if (case runs of None \<Rightarrow> False | Some x \<Rightarrow> positive_integer x = None)
      then Inl InvalidMaxConcurrentExecutionRuns
      else if (case tasks of None \<Rightarrow> False | Some x \<Rightarrow> positive_integer x = None)
      then Inl InvalidMaxConcurrentEphemeralTasks
      else Inr \<lparr>maxConcurrentExecutionRuns = Option.bind runs positive_integer,
                maxConcurrentEphemeralTasks = Option.bind tasks positive_integer,
                maxConcurrentTotal = Option.bind totalCap positive_integer,
                maxConcurrentByClass = byClass,
                inFlightByTokenId = [], inFlightTokenIdsByClass = []\<rparr>)"

section \<open>Operations\<close>

definition countInFlightTotal :: "budget \<Rightarrow> int" where
  "countInFlightTotal b = int (length (inFlightByTokenId b))"

definition class_tokens :: "budget \<Rightarrow> string \<Rightarrow> string list" where
  "class_tokens b cls = (case map_of (inFlightTokenIdsByClass b) cls of None \<Rightarrow> [] | Some ts \<Rightarrow> ts)"

definition countInFlightForClass :: "budget \<Rightarrow> string \<Rightarrow> int" where
  "countInFlightForClass b cls = int (length (class_tokens b cls))"

definition perClassCap :: "budget \<Rightarrow> string \<Rightarrow> int option" where
  "perClassCap b cls = Option.bind (map_of (maxConcurrentByClass b) cls) positive_integer"

text \<open>The cap of a class: the smaller of the two that are set.\<close>

definition effectiveCap :: "int option \<Rightarrow> int option \<Rightarrow> int option" where
  "effectiveCap base per =
     (case per of None \<Rightarrow> base
      | Some p \<Rightarrow> (case base of Some c \<Rightarrow> Some (min c p) | None \<Rightarrow> Some p))"

definition reached :: "int option \<Rightarrow> int \<Rightarrow> bool" where
  "reached cap n = (case cap of None \<Rightarrow> False | Some c \<Rightarrow> c \<le> n)"

definition tryAcquireToken :: "string \<Rightarrow> string \<Rightarrow> int option \<Rightarrow> budget \<Rightarrow> bool \<times> budget" where
  "tryAcquireToken tok cls base b =
     (if tok = [] then (False, b)
      else if tok \<in> set (obj_keys (inFlightByTokenId b)) then (True, b)
      else if reached (maxConcurrentTotal b) (countInFlightTotal b) then (False, b)
      else if reached (effectiveCap base (perClassCap b cls)) (countInFlightForClass b cls) then (False, b)
      else (True, b\<lparr>inFlightByTokenId := AList.update tok cls (inFlightByTokenId b),
                    inFlightTokenIdsByClass :=
                      AList.update cls (oset_add tok (class_tokens b cls)) (inFlightTokenIdsByClass b)\<rparr>))"

definition releaseToken :: "string \<Rightarrow> budget \<Rightarrow> budget" where
  "releaseToken tok b =
     (if tok = [] then b
      else case map_of (inFlightByTokenId b) tok of
          None \<Rightarrow> b
        | Some cls \<Rightarrow>
            if cls = [] then b
            else let b1 = b\<lparr>inFlightByTokenId := AList.delete tok (inFlightByTokenId b)\<rparr>
                 in (case map_of (inFlightTokenIdsByClass b1) cls of
                       None \<Rightarrow> b1
                     | Some ts \<Rightarrow>
                         let ts' = filter (\<lambda>t. t \<noteq> tok) ts
                         in if ts' = []
                            then b1\<lparr>inFlightTokenIdsByClass := AList.delete cls (inFlightTokenIdsByClass b1)\<rparr>
                            else b1\<lparr>inFlightTokenIdsByClass := AList.update cls ts' (inFlightTokenIdsByClass b1)\<rparr>))"

definition run_class :: "string option \<Rightarrow> string" where
  "run_class intent =
     (case intent of None \<Rightarrow> ''execution_run''
      | Some s \<Rightarrow> if trim s = [] then ''execution_run'' else trim s)"

definition tryAcquireExecutionRun :: "string \<Rightarrow> string option \<Rightarrow> budget \<Rightarrow> bool \<times> budget" where
  "tryAcquireExecutionRun rid intent b =
     tryAcquireToken rid (run_class intent) (maxConcurrentExecutionRuns b) b"

definition releaseExecutionRun :: "string \<Rightarrow> budget \<Rightarrow> budget" where
  "releaseExecutionRun rid b = releaseToken rid b"

datatype task_kind = AutomationTask | EphemeralTask

definition task_class :: "task_kind option \<Rightarrow> string" where
  "task_class k = (if k = Some AutomationTask then ''automation'' else ''ephemeral_task'')"

definition ephemeral_in_flight :: "budget \<Rightarrow> int" where
  "ephemeral_in_flight b = countInFlightForClass b ''automation'' + countInFlightForClass b ''ephemeral_task''"

definition tryAcquireEphemeralTask :: "string \<Rightarrow> task_kind option \<Rightarrow> budget \<Rightarrow> bool \<times> budget" where
  "tryAcquireEphemeralTask tid k b =
     (if tid = [] then (False, b)
      else if tid \<in> set (obj_keys (inFlightByTokenId b)) then (True, b)
      else case maxConcurrentEphemeralTasks b of
          None \<Rightarrow> tryAcquireToken tid (task_class k) None b
        | Some c \<Rightarrow>
            if c \<le> ephemeral_in_flight b then (False, b)
            else tryAcquireToken tid (task_class k) (Some c) b)"

definition releaseEphemeralTask :: "string \<Rightarrow> budget \<Rightarrow> budget" where
  "releaseEphemeralTask tid b = releaseToken tid b"

definition getInFlightSnapshot :: "budget \<Rightarrow> int \<times> int" where
  "getInFlightSnapshot b =
     (int (length (filter (\<lambda>cls. cls \<noteq> ''automation'' \<and> cls \<noteq> ''ephemeral_task'')
        (map snd (inFlightByTokenId b)))), ephemeral_in_flight b)"

datatype budget_op =
    AcquireRun string "string option"
  | ReleaseRun string
  | AcquireTask string "task_kind option"
  | ReleaseTask string

fun budget_step :: "budget \<Rightarrow> budget_op \<Rightarrow> budget" where
  "budget_step b (AcquireRun r i) = snd (tryAcquireExecutionRun r i b)"
| "budget_step b (ReleaseRun r) = releaseExecutionRun r b"
| "budget_step b (AcquireTask t k) = snd (tryAcquireEphemeralTask t k b)"
| "budget_step b (ReleaseTask t) = releaseEphemeralTask t b"

section \<open>The invariant\<close>

text \<open>
  The two maps are two views of one relation (each class lists exactly its tokens, once, and no
  class is listed without tokens), and the total and explicit per-class caps hold.
\<close>

definition views_agree :: "budget \<Rightarrow> bool" where
  "views_agree b \<longleftrightarrow> obj_wf (inFlightByTokenId b) \<and> obj_wf (inFlightTokenIdsByClass b)
     \<and> (\<forall>cls. distinct (class_tokens b cls)
          \<and> set (class_tokens b cls) = {t. map_of (inFlightByTokenId b) t = Some cls})
     \<and> (\<forall>cls. map_of (inFlightTokenIdsByClass b) cls \<noteq> Some [])
     \<and> (\<forall>t cls. map_of (inFlightByTokenId b) t = Some cls \<longrightarrow> t \<noteq> [] \<and> cls \<noteq> [])"

definition within_caps :: "budget \<Rightarrow> bool" where
  "within_caps b \<longleftrightarrow>
     (\<forall>c. maxConcurrentTotal b = Some c \<longrightarrow> countInFlightTotal b \<le> max 0 c)
     \<and> (\<forall>cls c. perClassCap b cls = Some c \<longrightarrow> countInFlightForClass b cls \<le> max 0 c)
     \<and> (\<forall>cls c. cls \<noteq> ''automation'' \<longrightarrow> cls \<noteq> ''ephemeral_task'' \<longrightarrow>
          maxConcurrentExecutionRuns b = Some c \<longrightarrow> countInFlightForClass b cls \<le> max 0 c)"

definition budget_inv :: "budget \<Rightarrow> bool" where
  "budget_inv b \<longleftrightarrow> views_agree b \<and> within_caps b"

lemma trim_nonempty_class: "run_class i \<noteq> []" "task_class k \<noteq> []"
  by (auto simp: run_class_def task_class_def split: option.split)

text \<open>The state after taking a fresh token.\<close>

definition take_token :: "string \<Rightarrow> string \<Rightarrow> budget \<Rightarrow> budget" where
  "take_token tok cls b =
     b\<lparr>inFlightByTokenId := inFlightByTokenId b @ [(tok, cls)],
       inFlightTokenIdsByClass :=
         AList.update cls (class_tokens b cls @ [tok]) (inFlightTokenIdsByClass b)\<rparr>"

lemma update_fresh: "k \<notin> set (obj_keys m) \<Longrightarrow> AList.update k v m = m @ [(k, v)]"
  by (induction m) auto

lemma delete_fresh_last: "k \<notin> set (obj_keys m) \<Longrightarrow> AList.delete k (m @ [(k, v)]) = m"
  by (induction m) auto

lemma fresh_not_listed:
  "views_agree b \<Longrightarrow> tok \<notin> set (obj_keys (inFlightByTokenId b)) \<Longrightarrow> tok \<notin> set (class_tokens b cls)"
  unfolding views_agree_def by (force dest: map_of_SomeD)

lemma acquire_cases:
  assumes "views_agree b"
  obtains "snd (tryAcquireToken tok cls base b) = b"
  | "snd (tryAcquireToken tok cls base b) = take_token tok cls b" "tok \<noteq> []"
    "fst (tryAcquireToken tok cls base b)"
    "tok \<notin> set (obj_keys (inFlightByTokenId b))" "\<not> reached (maxConcurrentTotal b) (countInFlightTotal b)"
    "\<not> reached (effectiveCap base (perClassCap b cls)) (countInFlightForClass b cls)"
proof (cases "snd (tryAcquireToken tok cls base b) = b")
  case False
  then have "tok \<noteq> []" "tok \<notin> set (obj_keys (inFlightByTokenId b))"
    "\<not> reached (maxConcurrentTotal b) (countInFlightTotal b)"
    "\<not> reached (effectiveCap base (perClassCap b cls)) (countInFlightForClass b cls)"
    by (auto simp: tryAcquireToken_def split: if_splits)
  moreover from this have "snd (tryAcquireToken tok cls base b) = take_token tok cls b"
    "fst (tryAcquireToken tok cls base b)"
    using fresh_not_listed [OF assms, of tok cls]
    by (simp_all add: tryAcquireToken_def take_token_def update_fresh oset_add_def)
  ultimately show ?thesis by (intro that(2))
qed (rule that(1))

lemma take_token_fields [simp]:
  "class_tokens (take_token tok cls b) c = (if c = cls then class_tokens b cls @ [tok] else class_tokens b c)"
  "inFlightByTokenId (take_token tok cls b) = inFlightByTokenId b @ [(tok, cls)]"
  "maxConcurrentTotal (take_token tok cls b) = maxConcurrentTotal b"
  "maxConcurrentExecutionRuns (take_token tok cls b) = maxConcurrentExecutionRuns b"
  "maxConcurrentEphemeralTasks (take_token tok cls b) = maxConcurrentEphemeralTasks b"
  "perClassCap (take_token tok cls b) c = perClassCap b c"
  by (simp_all add: take_token_def class_tokens_def perClassCap_def update_conv')

lemma take_token_views:
  assumes "views_agree b" and "tok \<noteq> []" and "cls \<noteq> []" and "tok \<notin> set (obj_keys (inFlightByTokenId b))"
  shows "views_agree (take_token tok cls b)"
proof -
  have new: "map_of (inFlightByTokenId b) tok = None"
    using assms(4) by (simp add: map_of_eq_None_iff)
  have "map_of (inFlightByTokenId b @ [(tok, cls)]) t = (if t = tok then Some cls else map_of (inFlightByTokenId b) t)" for t
    using new by (auto simp: map_add_def split: option.split)
  moreover have "map_of (inFlightTokenIdsByClass (take_token tok cls b)) c \<noteq> Some []" for c
    using assms(1) by (simp add: take_token_def views_agree_def update_conv')
  moreover have "obj_wf (inFlightTokenIdsByClass (take_token tok cls b))"
    using assms(1) by (simp add: take_token_def views_agree_def)
  ultimately show ?thesis
    using assms new fresh_not_listed [OF assms(1,4)]
    unfolding views_agree_def by (auto simp: obj_wf_def)
qed

lemma take_token_caps:
  assumes "within_caps b" and "\<not> reached (maxConcurrentTotal b) (countInFlightTotal b)"
    and "\<not> reached (effectiveCap base (perClassCap b cls)) (countInFlightForClass b cls)"
    and "cls \<noteq> ''automation'' \<Longrightarrow> cls \<noteq> ''ephemeral_task'' \<Longrightarrow> base = maxConcurrentExecutionRuns b"
  shows "within_caps (take_token tok cls b)"
  using assms
  by (auto simp: within_caps_def countInFlightTotal_def countInFlightForClass_def reached_def
      effectiveCap_def split: option.splits)

lemma releaseToken_unknown:
  "tok \<notin> set (obj_keys (inFlightByTokenId b)) \<Longrightarrow> releaseToken tok b = b"
  by (auto simp: releaseToken_def map_of_eq_None_iff [THEN iffD2])

lemma class_tokens_known:
  "t \<in> set (class_tokens b cls) \<Longrightarrow> map_of (inFlightTokenIdsByClass b) cls = Some (class_tokens b cls)"
  by (cases "map_of (inFlightTokenIdsByClass b) cls") (simp_all add: class_tokens_def)

text \<open>Releasing a token in flight takes it out of both views.\<close>

lemma release_known:
  assumes "views_agree b" and "map_of (inFlightByTokenId b) tok = Some cls"
  shows "inFlightByTokenId (releaseToken tok b) = AList.delete tok (inFlightByTokenId b)"
    and "class_tokens (releaseToken tok b) c = filter (\<lambda>t. t \<noteq> tok) (class_tokens b c)"
    and "map_of (inFlightTokenIdsByClass (releaseToken tok b)) c \<noteq> Some []"
    and "obj_wf (inFlightTokenIdsByClass (releaseToken tok b))"
    and "maxConcurrentTotal (releaseToken tok b) = maxConcurrentTotal b"
    and "maxConcurrentExecutionRuns (releaseToken tok b) = maxConcurrentExecutionRuns b"
    and "maxConcurrentEphemeralTasks (releaseToken tok b) = maxConcurrentEphemeralTasks b"
    and "maxConcurrentByClass (releaseToken tok b) = maxConcurrentByClass b"
proof -
  have ne: "tok \<noteq> []" "cls \<noteq> []" using assms unfolding views_agree_def by blast+
  have "tok \<in> set (class_tokens b cls)" using assms unfolding views_agree_def by blast
  then obtain ts where ts: "map_of (inFlightTokenIdsByClass b) cls = Some ts" "class_tokens b cls = ts"
    using class_tokens_known by blast
  have only: "filter (\<lambda>t. t \<noteq> tok) (class_tokens b c) = class_tokens b c" if "c \<noteq> cls" for c
    using assms that unfolding views_agree_def by (auto simp: filter_id_conv)
  note r = releaseToken_def assms(2) ts ne Let_def
  show "inFlightByTokenId (releaseToken tok b) = AList.delete tok (inFlightByTokenId b)"
    "maxConcurrentTotal (releaseToken tok b) = maxConcurrentTotal b"
    "maxConcurrentExecutionRuns (releaseToken tok b) = maxConcurrentExecutionRuns b"
    "maxConcurrentEphemeralTasks (releaseToken tok b) = maxConcurrentEphemeralTasks b"
    "maxConcurrentByClass (releaseToken tok b) = maxConcurrentByClass b"
    by (simp_all add: r)
  show "obj_wf (inFlightTokenIdsByClass (releaseToken tok b))"
    using assms(1) by (simp add: r views_agree_def)
  show "map_of (inFlightTokenIdsByClass (releaseToken tok b)) c \<noteq> Some []"
    using assms(1) by (simp add: r views_agree_def update_conv' delete_conv')
  show "class_tokens (releaseToken tok b) c = filter (\<lambda>t. t \<noteq> tok) (class_tokens b c)"
    using only [of c] ts by (auto simp: r class_tokens_def update_conv' delete_conv' split: option.splits)
qed

lemma release_views:
  assumes "views_agree b"
  shows "views_agree (releaseToken tok b)"
proof (cases "map_of (inFlightByTokenId b) tok")
  case None
  then show ?thesis using assms by (simp add: releaseToken_unknown map_of_eq_None_iff)
next
  case (Some cls)
  show ?thesis
    using assms unfolding views_agree_def release_known [OF assms Some]
    by (auto simp: delete_conv' release_known [OF assms Some] split: if_splits)
qed

lemma release_caps:
  assumes "views_agree b" and "within_caps b"
  shows "within_caps (releaseToken tok b)"
proof (cases "map_of (inFlightByTokenId b) tok")
  case None
  then show ?thesis using assms by (simp add: releaseToken_unknown map_of_eq_None_iff)
next
  case (Some cls)
  have "length (AList.delete tok (inFlightByTokenId b)) \<le> length (inFlightByTokenId b)"
    by (rule length_delete_le)
  moreover have "length (filter (\<lambda>t. t \<noteq> tok) (class_tokens b c)) \<le> length (class_tokens b c)" for c
    by (rule length_filter_le)
  ultimately show ?thesis
    using assms(2)
    unfolding within_caps_def countInFlightTotal_def countInFlightForClass_def perClassCap_def
      release_known [OF assms(1) Some]
    by (meson le_trans of_nat_le_iff order_trans)
qed

lemma budget_inv_acquire:
  assumes "budget_inv b" and "cls \<noteq> []"
    and "cls \<noteq> ''automation'' \<Longrightarrow> cls \<noteq> ''ephemeral_task'' \<Longrightarrow> base = maxConcurrentExecutionRuns b"
  shows "budget_inv (snd (tryAcquireToken tok cls base b))"
proof -
  have va: "views_agree b" using assms(1) by (simp add: budget_inv_def)
  then show ?thesis
  proof (cases rule: acquire_cases [where tok = tok and cls = cls and base = base])
    case 1
    then show ?thesis using assms(1) by simp
  next
    case 2
    then show ?thesis
      using assms take_token_views [OF va, of tok cls] take_token_caps [of b base cls tok]
      by (simp add: budget_inv_def)
  qed
qed

lemma budget_step_inv: "budget_inv b \<Longrightarrow> budget_inv (budget_step b opn)"
proof (cases opn)
  case (AcquireTask t k)
  assume "budget_inv b"
  then have "budget_inv (snd (tryAcquireToken t (task_class k) base b))" for base
    by (rule budget_inv_acquire) (auto simp: task_class_def split: if_splits)
  then show ?thesis
    using AcquireTask \<open>budget_inv b\<close> by (simp add: tryAcquireEphemeralTask_def split: option.split)
qed (auto simp: tryAcquireExecutionRun_def releaseExecutionRun_def releaseEphemeralTask_def
    budget_inv_def [of "releaseToken _ _"] budget_inv_def [of b] release_views release_caps
    intro!: budget_inv_acquire trim_nonempty_class)

interpretation budget: reducer budget_step budget_inv
  by unfold_locales (rule budget_step_inv)

lemma newBudget_inv: "newBudget runs tasks totalCap caps = Inr b \<Longrightarrow> budget_inv b"
  by (auto simp: newBudget_def budget_inv_def views_agree_def within_caps_def class_tokens_def
      countInFlightTotal_def countInFlightForClass_def split: if_splits)

section \<open>Properties\<close>

lemma acquire_config:
  assumes "views_agree b"
  shows "maxConcurrentTotal (snd (tryAcquireToken t cls base b)) = maxConcurrentTotal b"
    "maxConcurrentExecutionRuns (snd (tryAcquireToken t cls base b)) = maxConcurrentExecutionRuns b"
    "maxConcurrentEphemeralTasks (snd (tryAcquireToken t cls base b)) = maxConcurrentEphemeralTasks b"
    "perClassCap (snd (tryAcquireToken t cls base b)) = perClassCap b"
  by (rule acquire_cases [OF assms, where tok = t and cls = cls and base = base]; simp add: fun_eq_iff)+

lemma release_config:
  assumes "views_agree b"
  shows "maxConcurrentTotal (releaseToken t b) = maxConcurrentTotal b"
    "maxConcurrentExecutionRuns (releaseToken t b) = maxConcurrentExecutionRuns b"
    "maxConcurrentEphemeralTasks (releaseToken t b) = maxConcurrentEphemeralTasks b"
    "perClassCap (releaseToken t b) = perClassCap b"
  by (cases "map_of (inFlightByTokenId b) t";
      simp add: releaseToken_unknown map_of_eq_None_iff release_known [OF assms] perClassCap_def fun_eq_iff)+

lemma step_config:
  assumes "budget_inv b"
  shows "maxConcurrentTotal (budget_step b opn) = maxConcurrentTotal b
    \<and> maxConcurrentExecutionRuns (budget_step b opn) = maxConcurrentExecutionRuns b
    \<and> maxConcurrentEphemeralTasks (budget_step b opn) = maxConcurrentEphemeralTasks b
    \<and> perClassCap (budget_step b opn) = perClassCap b"
  using assms by (cases opn)
    (simp_all add: budget_inv_def tryAcquireExecutionRun_def tryAcquireEphemeralTask_def
      releaseExecutionRun_def releaseEphemeralTask_def acquire_config release_config split: option.split)

lemma run_config:
  "budget_inv b \<Longrightarrow> maxConcurrentTotal (foldl budget_step b ops) = maxConcurrentTotal b
    \<and> maxConcurrentExecutionRuns (foldl budget_step b ops) = maxConcurrentExecutionRuns b
    \<and> maxConcurrentEphemeralTasks (foldl budget_step b ops) = maxConcurrentEphemeralTasks b
    \<and> perClassCap (foldl budget_step b ops) = perClassCap b"
  by (induction ops arbitrary: b) (simp_all add: step_config budget_step_inv)

lemma newBudget_caps:
  assumes "newBudget runs tasks totalCap caps = Inr b"
  shows "maxConcurrentTotal b = Some c \<Longrightarrow> 1 \<le> c" "maxConcurrentExecutionRuns b = Some c \<Longrightarrow> 1 \<le> c"
    "maxConcurrentEphemeralTasks b = Some c \<Longrightarrow> 1 \<le> c" "perClassCap b cls = Some c \<Longrightarrow> 1 \<le> c"
proof -
  have pos: "positive_integer x = Some n \<Longrightarrow> 1 \<le> n" for x n
    by (cases x) (auto split: if_splits)
  show "maxConcurrentTotal b = Some c \<Longrightarrow> 1 \<le> c" "maxConcurrentExecutionRuns b = Some c \<Longrightarrow> 1 \<le> c"
    "maxConcurrentEphemeralTasks b = Some c \<Longrightarrow> 1 \<le> c" "perClassCap b cls = Some c \<Longrightarrow> 1 \<le> c"
    using assms by (auto simp: newBudget_def perClassCap_def bind_eq_Some_conv dest: pos split: if_splits)
qed

section \<open>The shared budget of ephemeral tasks\<close>

text \<open>Runs do not use the two class names of the ephemeral tasks as their intent.\<close>

fun proper_op :: "budget_op \<Rightarrow> bool" where
  "proper_op (AcquireRun r i) \<longleftrightarrow> run_class i \<noteq> ''automation'' \<and> run_class i \<noteq> ''ephemeral_task''"
| "proper_op _ = True"

definition ephemeral_ok :: "budget \<Rightarrow> bool" where
  "ephemeral_ok b \<longleftrightarrow> budget_inv b
     \<and> (\<forall>c. maxConcurrentEphemeralTasks b = Some c \<longrightarrow> ephemeral_in_flight b \<le> max 0 c)"

lemma ephemeral_release:
  assumes "views_agree b"
  shows "ephemeral_in_flight (releaseToken t b) \<le> ephemeral_in_flight b"
proof (cases "map_of (inFlightByTokenId b) t")
  case None
  then show ?thesis by (simp add: releaseToken_unknown map_of_eq_None_iff)
next
  case (Some cls)
  show ?thesis
    by (simp add: ephemeral_in_flight_def countInFlightForClass_def release_known [OF assms Some] add_mono)
qed

lemma ephemeral_acquire:
  assumes "views_agree b"
  shows "ephemeral_in_flight (snd (tryAcquireToken t cls base b)) \<le> ephemeral_in_flight b
    + (if cls = ''automation'' \<or> cls = ''ephemeral_task'' then 1 else 0)"
  by (rule acquire_cases [OF assms, where tok = t and cls = cls and base = base])
    (auto simp: ephemeral_in_flight_def countInFlightForClass_def)

lemma ephemeral_ok_step:
  assumes "ephemeral_ok b" and "proper_op opn"
  shows "ephemeral_ok (budget_step b opn)"
proof -
  have inv: "budget_inv b" and va: "views_agree b"
    using assms(1) by (simp_all add: ephemeral_ok_def budget_inv_def)
  have "ephemeral_in_flight (budget_step b opn) \<le> max 0 c" if c: "maxConcurrentEphemeralTasks b = Some c" for c
  proof -
    have le: "ephemeral_in_flight b \<le> max 0 c" using assms(1) c by (simp add: ephemeral_ok_def)
    show ?thesis
    proof (cases opn)
      case (AcquireRun r i)
      then show ?thesis
        using le assms(2) ephemeral_acquire [OF va, of r "run_class i" "maxConcurrentExecutionRuns b"]
        by (simp add: tryAcquireExecutionRun_def)
    next
      case (AcquireTask t k)
      then show ?thesis
        using le c ephemeral_acquire [OF va, of t "task_class k" "Some c"]
        by (auto simp: tryAcquireEphemeralTask_def split: if_splits)
    qed (use le ephemeral_release [OF va] order_trans in
        \<open>fastforce simp: releaseExecutionRun_def releaseEphemeralTask_def\<close>)+
  qed
  then show ?thesis
    using inv step_config [OF inv, of opn] budget_step_inv [OF inv, of opn] by (simp add: ephemeral_ok_def)
qed

text \<open>Automations and ephemeral tasks share one budget: as long as no execution run names one of
  their two classes as its intent, their sum never exceeds the cap on ephemeral tasks.\<close>

lemma ephemeral_budget_is_shared:
  assumes "newBudget runs tasks totalCap caps = Inr b" and "list_all proper_op ops"
    and "maxConcurrentEphemeralTasks b = Some c"
  shows "ephemeral_in_flight (foldl budget_step b ops) \<le> c"
proof -
  have "ephemeral_ok b"
    using assms(1) newBudget_inv [OF assms(1)]
    by (auto simp: ephemeral_ok_def newBudget_def ephemeral_in_flight_def countInFlightForClass_def
        class_tokens_def split: if_splits)
  then have "ephemeral_ok (foldl budget_step b ops)"
    using assms(2) by (induction ops arbitrary: b) (simp_all add: ephemeral_ok_step)
  then show ?thesis
    using run_config [OF newBudget_inv [OF assms(1)], of ops] assms(3) newBudget_caps(3) [OF assms(1,3)]
    by (auto simp: ephemeral_ok_def)
qed

section \<open>The caps\<close>

text \<open>C9: After any sequence of acquisitions and releases on a fresh registry the two indexes describe
  the same set of tokens; the total cap holds; every explicit cap of a class holds for that class; the cap
  on execution runs holds for each class of runs, that is for each intent by itself, not for their sum; and
  the cap on ephemeral tasks holds for automations and ephemeral tasks together, as long as no
  execution run names one of these two classes as its intent.\<close>

theorem budget_caps_hold:
  assumes "newBudget runs tasks totalCap caps = Inr b"
  shows "views_agree (foldl budget_step b ops)
    \<and> (\<forall>c. maxConcurrentTotal b = Some c \<longrightarrow> countInFlightTotal (foldl budget_step b ops) \<le> c)
    \<and> (\<forall>cls c. perClassCap b cls = Some c \<longrightarrow> countInFlightForClass (foldl budget_step b ops) cls \<le> c)
    \<and> (\<forall>cls c. cls \<noteq> ''automation'' \<longrightarrow> cls \<noteq> ''ephemeral_task'' \<longrightarrow> maxConcurrentExecutionRuns b = Some c
         \<longrightarrow> countInFlightForClass (foldl budget_step b ops) cls \<le> c)
    \<and> (\<forall>c. maxConcurrentEphemeralTasks b = Some c \<longrightarrow> list_all proper_op ops
         \<longrightarrow> countInFlightForClass (foldl budget_step b ops) ''automation''
           + countInFlightForClass (foldl budget_step b ops) ''ephemeral_task'' \<le> c)"
proof -
  have inv: "budget_inv b" using assms by (rule newBudget_inv)
  from budget.run_inv [OF this] have "budget_inv (foldl budget_step b ops)" .
  then have va: "views_agree (foldl budget_step b ops)" and wc: "within_caps (foldl budget_step b ops)"
    by (simp_all add: budget_inv_def)
  let ?f = "foldl budget_step b ops"
  have cfg: "maxConcurrentTotal ?f = maxConcurrentTotal b" "perClassCap ?f = perClassCap b"
    "maxConcurrentExecutionRuns ?f = maxConcurrentExecutionRuns b"
    using run_config [OF inv, of ops] by simp_all
  have total: "countInFlightTotal ?f \<le> c" if "maxConcurrentTotal b = Some c" for c
    using wc newBudget_caps(1) [OF assms that] that by (fastforce simp: within_caps_def cfg)
  have per: "countInFlightForClass ?f cls \<le> c" if "perClassCap b cls = Some c" for cls c
    using wc newBudget_caps(4) [OF assms that] that by (fastforce simp: within_caps_def cfg)
  have run: "countInFlightForClass ?f cls \<le> c"
    if "cls \<noteq> ''automation''" "cls \<noteq> ''ephemeral_task''" "maxConcurrentExecutionRuns b = Some c" for cls c
  proof -
    have "countInFlightForClass ?f cls \<le> max 0 c"
      using wc that unfolding within_caps_def cfg by blast
    then show ?thesis using newBudget_caps(2) [OF assms that(3)] by simp
  qed
  have tasks: "countInFlightForClass ?f ''automation'' + countInFlightForClass ?f ''ephemeral_task'' \<le> c"
    if "maxConcurrentEphemeralTasks b = Some c" "list_all proper_op ops" for c
    using ephemeral_budget_is_shared [OF assms that(2,1)] by (simp add: ephemeral_in_flight_def)
  show ?thesis by (intro conjI allI impI) (fact va total per run tasks)+
qed

theorem budget_caps_hold_witness:
  "\<exists>b. newBudget (Some (Fin 2)) None (Some (Fin 3)) [(''review'', Fin 1)] = Inr b
     \<and> countInFlightTotal (foldl budget_step b
          [AcquireRun ''r1'' None, AcquireRun ''r2'' (Some ''review''), AcquireTask ''t'' None]) \<le> 3"
proof -
  obtain b where b: "newBudget (Some (Fin 2)) None (Some (Fin 3)) [(''review'', Fin 1)] = Inr b"
    and "maxConcurrentTotal b = Some 3"
    by (simp add: newBudget_def)
  then show ?thesis using b budget_caps_hold [OF b, THEN conjunct2, THEN conjunct1] by blast
qed

text \<open>Giving a token back undoes taking it: after a fresh token was granted, releasing it restores
  the registry exactly, both indexes included.\<close>

theorem release_undoes_acquire:
  assumes "budget_inv b" and "fst (tryAcquireToken tok cls base b)"
    and "tok \<notin> set (obj_keys (inFlightByTokenId b))" and "cls \<noteq> []"
  shows "releaseToken tok (snd (tryAcquireToken tok cls base b)) = b"
proof -
  have va: "views_agree b" using assms(1) by (simp add: budget_inv_def)
  have ne: "tok \<noteq> []" using assms(2) by (auto simp: tryAcquireToken_def)
  have "snd (tryAcquireToken tok cls base b) = take_token tok cls b"
    using assms(2,3) fresh_not_listed [OF va assms(3), of cls]
    by (auto simp: tryAcquireToken_def take_token_def update_fresh oset_add_def split: if_splits)
  moreover have "map_of (inFlightByTokenId b @ [(tok, cls)]) tok = Some cls"
    using assms(3) by (simp add: map_add_def map_of_eq_None_iff [THEN iffD2])
  moreover have "AList.delete tok (inFlightByTokenId b @ [(tok, cls)]) = inFlightByTokenId b"
    using assms(3) by (simp add: delete_fresh_last)
  moreover have "filter (\<lambda>t. t \<noteq> tok) (class_tokens b cls) = class_tokens b cls"
    using fresh_not_listed [OF va assms(3), of cls] by (auto simp: filter_id_conv)
  moreover have "AList.delete cls (AList.update cls [tok] (inFlightTokenIdsByClass b)) = inFlightTokenIdsByClass b"
    if "class_tokens b cls = []"
  proof -
    have "map_of (inFlightTokenIdsByClass b) cls = None"
      using that va by (cases "map_of (inFlightTokenIdsByClass b) cls") (auto simp: class_tokens_def views_agree_def)
    then show ?thesis by (simp add: delete_update_same map_of_eq_None_iff)
  qed
  moreover have "AList.update cls (class_tokens b cls) (inFlightTokenIdsByClass b) = inFlightTokenIdsByClass b"
    if "class_tokens b cls \<noteq> []"
    using that by (intro update_triv) (cases "map_of (inFlightTokenIdsByClass b) cls", auto simp: class_tokens_def)
  ultimately show ?thesis
    using ne assms(4) by (auto simp: releaseToken_def take_token_def update_conv' Let_def)
qed

text \<open>A registry with a cap of one run and one ephemeral task, and a review already running.\<close>

definition small_budget :: budget where
  "small_budget =
     \<lparr>maxConcurrentExecutionRuns = Some 1, maxConcurrentEphemeralTasks = Some 1,
      maxConcurrentTotal = None, maxConcurrentByClass = [], inFlightByTokenId = [],
      inFlightTokenIdsByClass = []\<rparr>"

lemma small_budget_new: "newBudget (Some (Fin 1)) (Some (Fin 1)) None [] = Inr small_budget"
  by (simp add: newBudget_def small_budget_def)

lemmas budget_run = small_budget_def tryAcquireExecutionRun_def tryAcquireToken_def run_class_def
  reached_def effectiveCap_def perClassCap_def class_tokens_def countInFlightForClass_def
  countInFlightTotal_def oset_add_def trim_def js_ws_def

theorem release_undoes_acquire_witness:
  "releaseToken ''r1'' (snd (tryAcquireToken ''r1'' ''review'' (Some 1) small_budget)) = small_budget"
  by (rule release_undoes_acquire [OF newBudget_inv [OF small_budget_new]])
    (simp_all add: budget_run)

text \<open>The cap on concurrent execution runs is applied to each intent separately: a registry
  limited to one execution run and one ephemeral task grants a review run, a plan run and a
  delegation run at once, and reports three execution runs in flight.\<close>

theorem run_cap_is_per_intent:
  "newBudget (Some (Fin 1)) (Some (Fin 1)) None [] = Inr small_budget
   \<and> fst (tryAcquireExecutionRun ''r3'' (Some ''delegate'')
        (foldl budget_step small_budget [AcquireRun ''r1'' (Some ''review''), AcquireRun ''r2'' (Some ''plan'')]))
   \<and> getInFlightSnapshot (foldl budget_step small_budget
        [AcquireRun ''r1'' (Some ''review''), AcquireRun ''r2'' (Some ''plan''),
         AcquireRun ''r3'' (Some ''delegate'')]) = (3, 0)
   \<and> \<not> fst (tryAcquireExecutionRun ''r4'' (Some ''plan'')
        (foldl budget_step small_budget [AcquireRun ''r2'' (Some ''plan'')]))"
  using small_budget_new
  by (simp add: budget_run getInFlightSnapshot_def ephemeral_in_flight_def)

end
