(* ===== verification/ShellAllowlist.thy ===== *)
theory ShellAllowlist
  imports JsBase
begin

text \<open>
  The allow-list for shell commands of an agent session, from
  \<open>apps/cli/src/agent/permissions/shellCommandAllowlist.ts\<close>: the splitter of a command line
  into top-level segments, and the test of each segment against the user's patterns. The splitter's
  loop is a recursion over the rest of the input with the loop's variables as arguments; \<open>None\<close>
  is \<open>ok: false\<close>.
\<close>

section \<open>Words\<close>

datatype shell_op = Seq | Pipe | And | Or | Bg

record shell_item =
  segment :: string
  opBefore :: "shell_op option"

datatype allow_pattern = Exact string | Prefix string

definition matchesPrefixTokenBoundary :: "string \<Rightarrow> string \<Rightarrow> bool" where
  "matchesPrefixTokenBoundary command prefix =
     (if command = [] \<or> prefix = [] then False
      else if \<not> starts_with command prefix then False
      else if length command = length prefix then True
      else if last prefix = CHR '' '' then True
      else command ! length prefix = CHR '' '')"

definition ident_start :: "char \<Rightarrow> bool" where
  "ident_start c \<longleftrightarrow> (CHR ''A'' \<le> c \<and> c \<le> CHR ''Z'') \<or> (CHR ''a'' \<le> c \<and> c \<le> CHR ''z'') \<or> c = CHR ''_''"

definition ident_char :: "char \<Rightarrow> bool" where
  "ident_char c \<longleftrightarrow> ident_start c \<or> (CHR ''0'' \<le> c \<and> c \<le> CHR ''9'')"

text \<open>The two regular expressions: a word that starts an assignment, and an identifier.\<close>

fun is_env_assignment :: "string \<Rightarrow> bool" where
  "is_env_assignment [] = False"
| "is_env_assignment (c # cs) = (ident_start c \<and> starts_with (dropWhile ident_char cs) ''='')"

fun is_identifier :: "string \<Rightarrow> bool" where
  "is_identifier [] = False"
| "is_identifier (c # cs) = (ident_start c \<and> list_all ident_char cs)"

definition stripSimpleEnvPrelude :: "string \<Rightarrow> string" where
  "stripSimpleEnvPrelude command =
     join '' '' (dropWhile is_env_assignment (split_ws (trim command)))"

text \<open>\<open>s.split(/\s+/).filter(Boolean)\<close>, and its first word or the empty string.\<close>

definition shell_words :: "string \<Rightarrow> string list" where
  "shell_words s = filter (\<lambda>w. w \<noteq> []) (split_ws s)"

definition first_word :: "string \<Rightarrow> string" where
  "first_word s = (case shell_words s of [] \<Rightarrow> [] | w # _ \<Rightarrow> w)"

section \<open>The splitter\<close>

definition flush :: "string \<Rightarrow> shell_op option \<Rightarrow> shell_item list \<Rightarrow> shell_item list" where
  "flush current opb items =
     (if trim current = [] then items else items @ [\<lparr>segment = trim current, opBefore = opb\<rparr>])"

definition backslash :: char where "backslash = CHR 0x5C"
definition single_quote :: char where "single_quote = CHR 0x27"
definition double_quote :: char where "double_quote = CHR 0x22"
definition backtick :: char where "backtick = CHR 0x60"
definition newline :: char where "newline = CHR 0x0A"

text \<open>Is the next character of the rest \<open>c\<close> (\<open>src[i + 1] === c\<close>)?\<close>

definition next_is :: "string \<Rightarrow> char \<Rightarrow> bool" where
  "next_is cs c \<longleftrightarrow> (case cs of [] \<Rightarrow> False | d # _ \<Rightarrow> d = c)"

function split_loop ::
    "bool \<Rightarrow> bool \<Rightarrow> bool \<Rightarrow> string \<Rightarrow> shell_op option \<Rightarrow> shell_item list \<Rightarrow> string \<Rightarrow> shell_item list option" where
  "split_loop inS inD esc cur opb items [] =
     (if esc \<or> inS \<or> inD then None else Some (flush cur opb items))"
| "split_loop inS inD esc cur opb items (c # cs) =
     (if esc then split_loop inS inD False (cur @ [c]) opb items cs
      else if c = backslash then split_loop inS inD True (cur @ [c]) opb items cs
      else if \<not> inD \<and> c = single_quote then split_loop (\<not> inS) inD False (cur @ [c]) opb items cs
      else if \<not> inS \<and> c = double_quote then split_loop inS (\<not> inD) False (cur @ [c]) opb items cs
      else if \<not> inS \<and> \<not> inD then
        (if c = backtick then None
         else if c = CHR ''$'' \<and> next_is cs (CHR ''('') then None
         else if c = CHR ''<'' \<and> next_is cs (CHR ''('') then None
         else if c = CHR ''>'' \<and> next_is cs (CHR ''('') then None
         else if c = newline \<or> c = CHR '';'' then
           split_loop inS inD False [] (Some Seq) (flush cur opb items) cs
         else if c = CHR ''&'' then
           (if next_is cs (CHR ''&'') then split_loop inS inD False [] (Some And) (flush cur opb items) (tl cs)
            else split_loop inS inD False [] (Some Bg) (flush cur opb items) cs)
         else if c = CHR ''|'' then
           (if next_is cs (CHR ''|'') then split_loop inS inD False [] (Some Or) (flush cur opb items) (tl cs)
            else split_loop inS inD False [] (Some Pipe) (flush cur opb items) cs)
         else split_loop inS inD False (cur @ [c]) opb items cs)
      else split_loop inS inD False (cur @ [c]) opb items cs)"
  by pat_completeness auto
termination
  by (relation "measure (\<lambda>(_, _, _, _, _, _, cs). length cs)") auto

definition splitShellCommandTopLevelDetailed :: "string \<Rightarrow> shell_item list option" where
  "splitShellCommandTopLevelDetailed command =
     (if trim command = [] then Some []
      else split_loop False False False [] None [] (trim command))"

definition splitShellCommandTopLevel :: "string \<Rightarrow> string list option" where
  "splitShellCommandTopLevel command =
     map_option (map segment) (splitShellCommandTopLevelDetailed command)"

section \<open>The decision\<close>

definition isSimpleUnsetOnlySegment :: "string \<Rightarrow> bool" where
  "isSimpleUnsetOnlySegment seg =
     (if \<not> starts_with (trim seg) ''unset '' then False
      else case shell_words (trim seg) of
          [] \<Rightarrow> False
        | w # ws \<Rightarrow> w = ''unset'' \<and> ws \<noteq> [] \<and> list_all is_identifier ws)"

definition prefix_allows :: "string \<Rightarrow> string \<Rightarrow> bool" where
  "prefix_allows effective value =
     (let normalized = trim (stripSimpleEnvPrelude value)
      in if normalized = [] then False
         else if \<not> list_ex js_ws normalized then first_word effective = normalized
         else matchesPrefixTokenBoundary effective normalized)"

fun pattern_exact :: "string \<Rightarrow> allow_pattern \<Rightarrow> bool" where
  "pattern_exact raw (Exact v) = (raw = v)"
| "pattern_exact raw (Prefix _) = False"

fun pattern_prefix :: "string \<Rightarrow> allow_pattern \<Rightarrow> bool" where
  "pattern_prefix effective (Prefix v) = prefix_allows effective v"
| "pattern_prefix effective (Exact _) = False"

definition isSegmentAllowed :: "string \<Rightarrow> allow_pattern list \<Rightarrow> bool" where
  "isSegmentAllowed seg pats =
     (let raw = trim seg
      in if raw = [] then False
         else if list_ex (pattern_exact raw) pats then True
         else list_ex (pattern_prefix (stripSimpleEnvPrelude raw)) pats)"

definition SAFE_PIPE_FILTERS :: "string list" where
  "SAFE_PIPE_FILTERS = [''head'', ''tail'', ''wc'', ''sort'', ''uniq'', ''cut'', ''tr'']"

definition isSafePipeFilterSegment :: "string \<Rightarrow> bool" where
  "isSafePipeFilterSegment seg =
     (let t = trim seg
      in if t = [] then False
         else if CHR ''>'' \<in> set t \<or> CHR ''<'' \<in> set t then False
         else first_word (stripSimpleEnvPrelude t) \<in> set SAFE_PIPE_FILTERS)"

fun later_items_allowed :: "allow_pattern list \<Rightarrow> shell_item list \<Rightarrow> bool" where
  "later_items_allowed pats [] = True"
| "later_items_allowed pats (it # its) =
     (if opBefore it = Some Pipe \<and> isSafePipeFilterSegment (segment it) then later_items_allowed pats its
      else if \<not> isSegmentAllowed (segment it) pats then False
      else later_items_allowed pats its)"

definition isShellCommandAllowed :: "string \<Rightarrow> allow_pattern list \<Rightarrow> bool" where
  "isShellCommandAllowed command pats =
     (let raw = trim command
      in if raw = [] then False
         else if list_ex (pattern_exact raw) pats then True
         else case splitShellCommandTopLevelDetailed raw of
             None \<Rightarrow> False
           | Some all_items \<Rightarrow>
               (case dropWhile (\<lambda>it. isSimpleUnsetOnlySegment (segment it)) all_items of
                  [] \<Rightarrow> False
                | it # its \<Rightarrow> isSegmentAllowed (segment it) pats \<and> later_items_allowed pats its))"

section \<open>Plain commands\<close>

text \<open>
  A command without quotes and backslashes, and the reading of such a command: command and process
  substitutions, and the characters of the control operators.
\<close>

definition plain :: "string \<Rightarrow> bool" where
  "plain s \<longleftrightarrow> (\<forall>c \<in> set s. c \<noteq> backslash \<and> c \<noteq> single_quote \<and> c \<noteq> double_quote)"

fun has_substitution :: "string \<Rightarrow> bool" where
  "has_substitution [] = False"
| "has_substitution (c # cs) =
     (c = backtick \<or> (c \<in> {CHR ''$'', CHR ''<'', CHR ''>''} \<and> next_is cs (CHR ''('')) \<or> has_substitution cs)"

definition operator_char :: "char \<Rightarrow> bool" where
  "operator_char c \<longleftrightarrow> c \<in> {newline, CHR '';'', CHR ''&'', CHR ''|''}"

fun read_operator :: "string \<Rightarrow> (shell_op \<times> string) option" where
  "read_operator [] = None"
| "read_operator (c # cs) =
     (if c = CHR ''&'' then Some (if next_is cs c then (And, tl cs) else (Bg, cs))
      else if c = CHR ''|'' then Some (if next_is cs c then (Or, tl cs) else (Pipe, cs))
      else if c = CHR '';'' \<or> c = newline then Some (Seq, cs)
      else None)"

lemma read_operator_shorter: "read_operator s = Some (op, rest) \<Longrightarrow> length rest < length s"
  by (cases s) (auto split: if_splits)

text \<open>
  The parts of a plain command: the text up to the first operator without the space around it, unless
  it is blank, then the parts behind the operator. Each part knows the operator before it.
\<close>

function command_parts :: "shell_op option \<Rightarrow> string \<Rightarrow> shell_item list" where
  "command_parts opb s =
     (let part = trim (takeWhile (\<lambda>c. \<not> operator_char c) s)
      in (if part = [] then [] else [\<lparr>segment = part, opBefore = opb\<rparr>])
         @ (case read_operator (dropWhile (\<lambda>c. \<not> operator_char c) s) of
              None \<Rightarrow> []
            | Some (op, rest) \<Rightarrow> command_parts (Some op) rest))"
  by pat_completeness auto
termination
  by (relation "measure (length \<circ> snd)")
    (auto dest!: read_operator_shorter intro: less_le_trans length_dropWhile_le)

declare command_parts.simps [simp del]

lemma set_trim: "set (trim s) \<subseteq> set s"
  by (auto simp: trim_def dest!: set_dropWhileD)

lemma next_is_Cons: "next_is cs c \<Longrightarrow> cs = c # tl cs"
  by (cases cs) (simp_all add: next_is_def)

lemma split_none_iff:
  "plain cs \<Longrightarrow> split_loop False False False cur opb items cs = None \<longleftrightarrow> has_substitution cs"
proof (induction cs arbitrary: cur opb items rule: measure_induct_rule [of length])
  case (less cs)
  show ?case
  proof (cases cs)
    case (Cons c ds)
    have step: "split_loop False False False cur' opb' items' ds = None \<longleftrightarrow> has_substitution ds" for cur' opb' items'
      using less Cons by (simp add: plain_def)
    have skip: "split_loop False False False cur' opb' items' (tl ds) = None \<longleftrightarrow> has_substitution ds"
      if nx: "next_is ds d" and d: "d = CHR ''&'' \<or> d = CHR ''|''" for d cur' opb' items'
    proof -
      obtain es where ds: "ds = d # es" using next_is_Cons [OF nx] by blast
      have "split_loop False False False cur' opb' items' es = None \<longleftrightarrow> has_substitution es"
        using less Cons ds by (simp add: plain_def)
      then show ?thesis using ds d by (auto simp: backtick_def)
    qed
    have c: "c \<noteq> backslash" "c \<noteq> single_quote" "c \<noteq> double_quote"
      using less.prems Cons by (auto simp: plain_def)
    show ?thesis
      unfolding Cons using c step skip
      by (auto simp: newline_def backtick_def)
  qed simp
qed

lemma takeWhile_until:
  "\<forall>c \<in> set cur. \<not> P c \<Longrightarrow> P c \<Longrightarrow> takeWhile (\<lambda>c. \<not> P c) (cur @ c # ds) = cur"
  "\<forall>c \<in> set cur. \<not> P c \<Longrightarrow> P c \<Longrightarrow> dropWhile (\<lambda>c. \<not> P c) (cur @ c # ds) = c # ds"
  by (induction cur) simp_all

lemma command_parts_cut:
  assumes "\<forall>c \<in> set cur. \<not> operator_char c" and "operator_char c"
    and "read_operator (c # ds) = Some (op, rest)"
  shows "items @ command_parts opb (cur @ c # ds) = flush cur opb items @ command_parts (Some op) rest"
  using assms(3)
  by (subst command_parts.simps) (simp add: takeWhile_until [OF assms(1,2)] flush_def Let_def)

lemma command_parts_whole:
  "\<forall>c \<in> set cur. \<not> operator_char c \<Longrightarrow> items @ command_parts opb cur = flush cur opb items"
  by (subst command_parts.simps) (simp add: flush_def Let_def takeWhile_eq_all_conv [THEN iffD2] dropWhile_eq_Nil_conv [THEN iffD2])

lemma has_substitution_skip:
  "\<not> has_substitution cs \<Longrightarrow> \<not> has_substitution (tl cs)"
  by (cases cs) auto

lemma plain_tl: "plain cs \<Longrightarrow> plain (tl cs)"
  by (cases cs) (auto simp: plain_def)

text \<open>The splitter reads a plain command into its parts.\<close>

lemma split_is_parts:
  "plain cs \<Longrightarrow> \<not> has_substitution cs \<Longrightarrow> \<forall>c \<in> set cur. \<not> operator_char c \<Longrightarrow>
   split_loop False False False cur opb items cs = Some (items @ command_parts opb (cur @ cs))"
proof (induction cs arbitrary: cur opb items rule: measure_induct_rule [of length])
  case (less cs)
  show ?case
  proof (cases cs)
    case Nil
    then show ?thesis using command_parts_whole [OF less.prems(3), of items opb] by simp
  next
    case (Cons c ds)
    have c: "c \<noteq> backslash" "c \<noteq> single_quote" "c \<noteq> double_quote" "plain ds"
      using less.prems(1) Cons by (auto simp: plain_def)
    have sub: "c \<noteq> backtick" "c = CHR ''$'' \<Longrightarrow> \<not> next_is ds (CHR ''('')" "c = CHR ''<'' \<Longrightarrow> \<not> next_is ds (CHR ''('')"
      "c = CHR ''>'' \<Longrightarrow> \<not> next_is ds (CHR ''('')" "\<not> has_substitution ds"
      using less.prems(2) Cons by auto
    have rest: "split_loop False False False [] opb' items' es = Some (items' @ command_parts opb' es)"
      if "es = ds \<or> es = tl ds" for opb' items' es
    proof -
      have "length es < length cs" using that Cons by (auto simp: less_Suc_eq_le)
      moreover have "plain es" "\<not> has_substitution es"
        using that c(4) sub(5) plain_tl has_substitution_skip by blast+
      ultimately show ?thesis using less.IH [of es "[]" opb' items'] by simp
    qed
    show ?thesis
    proof (cases "operator_char c")
      case True
      then obtain op es where es: "read_operator (c # ds) = Some (op, es)" "es = ds \<or> es = tl ds"
        "split_loop False False False cur opb items (c # ds)
           = split_loop False False False [] (Some op) (flush cur opb items) es"
        using c(1-3) sub(1-4) by (cases "next_is ds c") (auto simp: operator_char_def newline_def)
      then show ?thesis
        using command_parts_cut [OF less.prems(3) True es(1)] rest [OF es(2)] unfolding Cons by simp
    next
      case False
      then have "split_loop False False False cur opb items (c # ds) = split_loop False False False (cur @ [c]) opb items ds"
        using c sub by (auto simp: operator_char_def)
      moreover have "\<forall>d \<in> set (cur @ [c]). \<not> operator_char d" using less.prems(3) False by simp
      ultimately show ?thesis
        using less.IH [of ds "cur @ [c]" opb items] c(4) sub(5) unfolding Cons by simp
    qed
  qed
qed

lemma plain_trim: "plain s \<Longrightarrow> plain (trim s)"
  using set_trim [of s] by (auto simp: plain_def)

lemma later_items_all:
  "later_items_allowed pats its \<longleftrightarrow>
   (\<forall>it \<in> set its. isSegmentAllowed (segment it) pats \<or> (opBefore it = Some Pipe \<and> isSafePipeFilterSegment (segment it)))"
  by (induction its) auto

lemma dropWhile_split:
  "dropWhile P xs = y # ys \<longleftrightarrow> (\<exists>us. xs = us @ y # ys \<and> (\<forall>u \<in> set us. P u) \<and> \<not> P y)"
  by (induction xs) (auto simp: Cons_eq_append_conv)

section \<open>Properties\<close>

text \<open>C3: For a command without quotes and backslashes that no exact pattern allows as a whole, the
  decision is this: it contains no command or process substitution outside them, and of all its parts,
  read off independently of the splitter, the leading ones only unset variables, the first other one
  exists and is allowed by itself, and each later one is allowed by itself or is a read-only filter
  directly behind a pipe. So an allowed command never carries a forbidden part along, and no command of
  allowed parts is refused.\<close>

theorem plain_command_allowed_by_parts:
  assumes "plain command" and "\<not> list_ex (pattern_exact (trim command)) pats"
  shows "isShellCommandAllowed command pats \<longleftrightarrow> \<not> has_substitution (trim command)
    \<and> (\<exists>unsets first later. command_parts None (trim command) = unsets @ first # later
        \<and> (\<forall>it \<in> set unsets. isSimpleUnsetOnlySegment (segment it))
        \<and> \<not> isSimpleUnsetOnlySegment (segment first) \<and> isSegmentAllowed (segment first) pats
        \<and> (\<forall>it \<in> set later. isSegmentAllowed (segment it) pats
             \<or> (opBefore it = Some Pipe \<and> isSafePipeFilterSegment (segment it))))"
proof -
  let ?t = "trim command"
  let ?parts = "dropWhile (\<lambda>it. isSimpleUnsetOnlySegment (segment it)) (command_parts None ?t)"
  have blank: "command_parts None [] = []" by (simp add: command_parts.simps trim_def)
  have split: "splitShellCommandTopLevelDetailed ?t = (if has_substitution ?t then None else Some (command_parts None ?t))"
    using split_none_iff [OF plain_trim [OF assms(1)], of "[]" None "[]"]
      split_is_parts [OF plain_trim [OF assms(1)], of "[]" None "[]"]
    by (auto simp: splitShellCommandTopLevelDetailed_def blank)
  have "isShellCommandAllowed command pats \<longleftrightarrow> \<not> has_substitution ?t
      \<and> (\<exists>first later. ?parts = first # later \<and> isSegmentAllowed (segment first) pats \<and> later_items_allowed pats later)"
    using assms(2) split
    by (cases ?parts) (auto simp: isShellCommandAllowed_def Let_def blank simp del: dropWhile_eq_Cons_conv dropWhile_eq_Nil_conv)
  then show ?thesis unfolding later_items_all dropWhile_split by blast
qed

lemmas shell_run = isShellCommandAllowed_def isSegmentAllowed_def prefix_allows_def Let_def
  splitShellCommandTopLevelDetailed_def trim_def js_ws_def stripSimpleEnvPrelude_def split_ws.simps
  isSimpleUnsetOnlySegment_def first_word_def shell_words_def flush_def next_is_def backslash_def
  single_quote_def double_quote_def backtick_def newline_def isSafePipeFilterSegment_def
  SAFE_PIPE_FILTERS_def

lemma git_log_allowed: "isShellCommandAllowed ''git log | head'' [Prefix ''git'']"
  by (simp add: shell_run ident_start_def ident_char_def)

theorem plain_command_allowed_by_parts_witness:
  "\<not> has_substitution (trim ''git log | head'') \<and> \<not> isShellCommandAllowed ''git log; rm'' [Prefix ''git'']"
proof
  have "plain ''git log | head''" "\<not> list_ex (pattern_exact (trim ''git log | head'')) [Prefix ''git'']"
    by (simp_all add: plain_def backslash_def single_quote_def double_quote_def)
  with plain_command_allowed_by_parts [of "''git log | head''" "[Prefix ''git'']"] git_log_allowed
  show "\<not> has_substitution (trim ''git log | head'')" by blast
  show "\<not> isShellCommandAllowed ''git log; rm'' [Prefix ''git'']"
    by (simp add: shell_run ident_start_def ident_char_def)
qed

text \<open>Approvals are monotone: a command allowed by some patterns is allowed by any larger list, in
  any order.\<close>

theorem approvals_are_monotone:
  assumes "isShellCommandAllowed command pats" and "set pats \<subseteq> set pats'"
  shows "isShellCommandAllowed command pats'"
proof -
  have ex: "list_ex P pats \<Longrightarrow> list_ex P pats'" for P
    using assms(2) by (auto simp: list_ex_iff)
  have seg: "isSegmentAllowed x pats \<Longrightarrow> isSegmentAllowed x pats'" for x
    by (auto simp: isSegmentAllowed_def Let_def dest: ex split: if_splits)
  have "later_items_allowed pats its \<Longrightarrow> later_items_allowed pats' its" for its
    by (induction its) (auto dest: seg split: if_splits)
  then show ?thesis
    using assms(1)
    by (auto simp: isShellCommandAllowed_def Let_def simp del: dropWhile_eq_Nil_conv
        dest: ex seg split: if_splits option.splits list.splits)
qed

theorem approvals_are_monotone_witness:
  "isShellCommandAllowed ''git log | head'' [Exact ''ls'', Prefix ''git'']"
  by (rule approvals_are_monotone [OF git_log_allowed]) simp

text \<open>The splitter does not respect quotes the way a shell does: it looks for command
  substitutions outside double quotes only, although a shell performs them inside as well, and it
  takes a backslash for an escape inside single quotes, where it is an ordinary character. Each of
  the following commands runs \<open>rm\<close> in a shell, and the pattern \<open>git:*\<close> allows both.\<close>

theorem quoted_commands_escape_the_allow_list:
  "isShellCommandAllowed (''git '' @ [double_quote] @ ''$(rm x)'' @ [double_quote]) [Prefix ''git'']
   \<and> isShellCommandAllowed (''git '' @ [single_quote, backslash, single_quote] @ '';rm x #'' @ [single_quote])
       [Prefix ''git'']
   \<and> \<not> isShellCommandAllowed ''git $(rm x)'' [Prefix ''git'']
   \<and> \<not> isShellCommandAllowed ''git log;rm x'' [Prefix ''git'']"
  by (simp add: shell_run ident_start_def ident_char_def)

end
