(* ===== verification/ResearchRun.thy ===== *)
theory ResearchRun
  imports JsBase
begin

text \<open>
  The research run of \<open>packages/devpilot-research/src\<close>: its events and state
  (\<open>types.ts\<close>), the normalisation of incoming messages (\<open>normalize.ts\<close>), the reducer
  (\<open>reducer.ts\<close>, one definition per kind of event) and the selectors (\<open>selectors.ts\<close>).
  Objects used as dictionaries are association lists; a missing field is \<open>None\<close>. Reading a
  dictionary finds its own keys only: names inherited from \<open>Object.prototype\<close> are not modelled.
\<close>

section \<open>Events\<close>

datatype event_type =
    SessionStarted | SessionEnded | CycleStarted | CycleCompleted | CoordinatorProgress
  | HypothesisCreated | HypothesisUpdated | ExecutorStarted | ExecutorProgress | ExecutorCompleted
  | ExecutorFailed | ToolCalled | ToolCompleted | ToolFailed | EvidenceCreated | ReportGenerated
  | PermissionRequested | PermissionResolved | RunCancelled | RunFailed | UserAwait | UserInput
  | UsageUpdated | ArtifactCreated | MemoryCreated | AuditCompleted | FileChanged

definition DEVPILOT_EVENT_TYPES :: "(string \<times> event_type) list" where
  "DEVPILOT_EVENT_TYPES =
     [(''session.started'', SessionStarted), (''session.ended'', SessionEnded),
      (''cycle.started'', CycleStarted), (''cycle.completed'', CycleCompleted),
      (''coordinator.progress'', CoordinatorProgress),
      (''hypothesis.created'', HypothesisCreated), (''hypothesis.updated'', HypothesisUpdated),
      (''executor.started'', ExecutorStarted), (''executor.progress'', ExecutorProgress),
      (''executor.completed'', ExecutorCompleted), (''executor.failed'', ExecutorFailed),
      (''tool.called'', ToolCalled), (''tool.completed'', ToolCompleted), (''tool.failed'', ToolFailed),
      (''evidence.created'', EvidenceCreated), (''report.generated'', ReportGenerated),
      (''permission.requested'', PermissionRequested), (''permission.resolved'', PermissionResolved),
      (''run.cancelled'', RunCancelled), (''run.failed'', RunFailed), (''user.await'', UserAwait),
      (''user.input'', UserInput), (''usage.updated'', UsageUpdated),
      (''artifact.created'', ArtifactCreated), (''memory.created'', MemoryCreated),
      (''audit.completed'', AuditCompleted), (''file.changed'', FileChanged)]"

datatype run_status = RIdle | RRunning | RAwaitingInput | RCompleted | RFailed | RCancelled

datatype hypothesis_status =
    HPending | HQueued | HRunning | HDone | HMerged | HFailed | HPruned | HAwaitingInput | HCancelled

datatype executor_status = XQueued | XRunning | XCompleted | XFailed | XCancelled

type_synonym jsdata = "(string \<times> jsval) list"

record event =
  etype :: event_type
  originalType :: string
  ev_timestamp :: "string option"
  ev_runId :: "string option"
  ev_sessionId :: "string option"
  cycleId :: "string option"
  ev_hypothesisId :: "string option"
  ev_executorId :: "string option"
  toolName :: "string option"
  ev_status :: "string option"
  ev_summary :: "string option"
  data :: jsdata

section \<open>Normalisation\<close>

definition TYPE_ALIASES :: "(string \<times> event_type) list" where
  "TYPE_ALIASES =
     [(''SESSION_START'', SessionStarted), (''session.start'', SessionStarted),
      (''SESSION_END'', SessionEnded), (''session.end'', SessionEnded),
      (''cycle.start'', CycleStarted), (''cycle.started'', CycleStarted),
      (''cycle.end'', CycleCompleted), (''cycle.completed'', CycleCompleted),
      (''cycle.phase'', CoordinatorProgress),
      (''hypothesis.created'', HypothesisCreated), (''idea.proposed'', HypothesisCreated),
      (''hypothesis.updated'', HypothesisUpdated), (''idea.completed'', HypothesisUpdated),
      (''idea.pruned'', HypothesisUpdated), (''idea.merged'', HypothesisUpdated),
      (''tree.updated'', HypothesisUpdated),
      (''executor.start'', ExecutorStarted), (''executor.started'', ExecutorStarted),
      (''executor.progress'', ExecutorProgress), (''executor.end'', ExecutorCompleted),
      (''executor.completed'', ExecutorCompleted), (''executor.failed'', ExecutorFailed),
      (''tool.start'', ToolCalled), (''tool.called'', ToolCalled),
      (''tool.end'', ToolCompleted), (''tool.completed'', ToolCompleted),
      (''tool.failed'', ToolFailed), (''evidence.created'', EvidenceCreated),
      (''report.generated'', ReportGenerated), (''permission.requested'', PermissionRequested),
      (''permission.resolved'', PermissionResolved), (''run.cancelled'', RunCancelled),
      (''run.failed'', RunFailed), (''user.await'', UserAwait), (''AWAIT_USER'', UserAwait),
      (''user.input_received'', UserInput), (''USER_INPUT_RECEIVED'', UserInput),
      (''llm.call'', UsageUpdated), (''session.checkpoint'', ArtifactCreated),
      (''memory.created'', MemoryCreated), (''audit.completed'', AuditCompleted),
      (''file.changed'', FileChanged)]"

definition record_of :: "jsval \<Rightarrow> jsdata option" where
  "record_of v = (case v of JObj m \<Rightarrow> Some m | _ \<Rightarrow> None)"

text \<open>One candidate of \<open>stringValue\<close> and of \<open>text\<close>.\<close>

fun value_text :: "jsval \<Rightarrow> string option" where
  "value_text (JStr s) = trim_or_none s"
| "value_text (JNum (Fin r)) = Some (number_text r)"
| "value_text _ = None"

definition stringValue :: "jsval list \<Rightarrow> string option" where
  "stringValue vs = first_some (map value_text vs)"

definition picked :: "jsdata \<Rightarrow> string list \<Rightarrow> jsval list" where
  "picked m ks = map (fields_get m) ks"

definition resolve_type :: "string \<Rightarrow> event_type option" where
  "resolve_type s = first_some [map_of TYPE_ALIASES s, map_of DEVPILOT_EVENT_TYPES s]"

definition normalizeDevPilotEvent :: "jsval \<Rightarrow> event option" where
  "normalizeDevPilotEvent input =
     (case record_of input of None \<Rightarrow> None
      | Some source \<Rightarrow>
        (let nested = some_or source (record_of (fields_get source ''devpilot''));
             d = some_or [] (first_some [record_of (fields_get nested ''data''),
                                         record_of (fields_get source ''data'')])
         in case stringValue [fields_get nested ''type'', fields_get source ''type''] of
              None \<Rightarrow> None
            | Some orig \<Rightarrow>
              (case resolve_type orig of None \<Rightarrow> None
               | Some ty \<Rightarrow> Some
                 \<lparr>etype = ty, originalType = orig,
                  ev_timestamp = stringValue (picked nested [''timestamp'', ''ts''] @ picked source [''timestamp'', ''ts'']),
                  ev_runId = stringValue (picked nested [''run_id'', ''runId''] @ picked d [''run_id'', ''runId'']),
                  ev_sessionId = stringValue (picked nested [''session_id'', ''sessionId''] @ picked d [''session_id'', ''sessionId'']),
                  cycleId = stringValue (picked nested [''cycle_id'', ''cycleId''] @ picked d [''cycle_id'', ''cycleId'', ''cycle_num'']),
                  ev_hypothesisId = stringValue (picked nested [''hypothesis_id'', ''hypothesisId'']
                     @ picked d [''hypothesis_id'', ''hypothesisId'', ''node_id'']),
                  ev_executorId = stringValue (picked nested [''executor_id'', ''executorId''] @ picked d [''executor_id'', ''executorId'']),
                  toolName = stringValue (picked nested [''tool_name'', ''toolName''] @ picked d [''tool_name'', ''toolName'', ''name'']),
                  ev_status = stringValue (picked nested [''status''] @ picked d [''status'']),
                  ev_summary = stringValue (picked nested [''summary''] @ picked d [''summary'', ''message'']),
                  data = d\<rparr>)))"

definition normalizeDevPilotEvents :: "jsval list \<Rightarrow> event list" where
  "normalizeDevPilotEvents inputs = List.map_filter normalizeDevPilotEvent inputs"

section \<open>State\<close>

record hypothesis_node =
  h_id :: string
  h_hypothesis :: string
  h_parentId :: "string option"
  h_depth :: rat
  h_status :: hypothesis_status
  h_score :: "rat option"
  h_result :: "string option"
  h_insight :: "string option"
  h_executorId :: "string option"
  h_evidenceCount :: rat
  h_changedFiles :: "string list"
  h_tests :: "string list"
  h_createdAt :: "string option"
  h_updatedAt :: "string option"

record executor_state =
  x_id :: string
  x_hypothesisId :: "string option"
  x_hypothesis :: "string option"
  x_task :: "string option"
  x_status :: executor_status
  x_branch :: "string option"
  x_worktree :: "string option"
  x_changedFiles :: "string list"
  x_tests :: "string list"
  x_testStatus :: "string option"
  x_startedAt :: "string option"
  x_completedAt :: "string option"
  x_latestMessage :: "string option"
  x_summary :: "string option"
  x_failure :: "string option"

record evidence_record =
  e_id :: string
  e_title :: string
  e_url :: "string option"
  e_provider :: "string option"
  e_channel :: "string option"
  e_excerpt :: "string option"
  e_contentPath :: "string option"
  e_timestamp :: "string option"
  e_hypothesisId :: "string option"
  e_sessionId :: "string option"
  e_relevance :: "rat option"

datatype artifact_kind = Report | Artifact | Memory | Audit

record report_artifact =
  a_id :: string
  a_name :: string
  a_path :: "string option"
  a_kind :: artifact_kind
  a_timestamp :: "string option"
  a_summary :: "string option"

datatype approval_status = Pending | Approved | Denied

record approval_request =
  p_id :: string
  p_operation :: string
  p_reason :: "string option"
  p_action :: "string option"
  p_files :: "string list"
  p_repository :: "string option"
  p_risk :: "string option"
  p_executorId :: "string option"
  p_hypothesisId :: "string option"
  p_status :: approval_status
  p_requestedAt :: "string option"
  p_resolvedAt :: "string option"

record coordinator =
  c_status :: run_status
  activity :: "string option"
  currentHypothesisId :: "string option"
  turns :: nat
  lastEvent :: "string option"
  pendingQuestion :: "string option"

record run_usage =
  inputTokens :: rat
  outputTokens :: rat
  totalTokens :: rat

record run_state =
  runId :: "string option"
  sessionId :: string
  projectPath :: "string option"
  task :: "string option"
  mode :: "string option"
  r_status :: run_status
  provider :: "string option"
  model :: "string option"
  startedAt :: "string option"
  endedAt :: "string option"
  currentCycle :: rat
  totalCycles :: "rat option"
  coordinator :: coordinator
  hypotheses :: "(string \<times> hypothesis_node) list"
  hypothesisOrder :: "string list"
  executors :: "(string \<times> executor_state) list"
  executorOrder :: "string list"
  evidence :: "evidence_record list"
  artifacts :: "report_artifact list"
  approvals :: "approval_request list"
  changedFiles :: "string list"
  branch :: "string option"
  worktree :: "string option"
  run_usage :: run_usage

definition createInitialResearchRunState :: "string \<Rightarrow> run_state" where
  "createInitialResearchRunState sid =
     \<lparr>runId = None, sessionId = sid, projectPath = None, task = None, mode = None, r_status = RIdle,
      provider = None, model = None, startedAt = None, endedAt = None, currentCycle = 0,
      totalCycles = None,
      coordinator = \<lparr>c_status = RIdle, activity = None, currentHypothesisId = None, turns = 0,
                     lastEvent = None, pendingQuestion = None\<rparr>,
      hypotheses = [], hypothesisOrder = [], executors = [], executorOrder = [], evidence = [],
      artifacts = [], approvals = [], changedFiles = [], branch = None, worktree = None,
      run_usage = \<lparr>inputTokens = 0, outputTokens = 0, totalTokens = 0\<rparr>\<rparr>"

section \<open>Reading event data\<close>

definition ev_text :: "jsdata \<Rightarrow> string list \<Rightarrow> string option" where
  "ev_text d ks = stringValue (picked d ks)"

fun value_number :: "jsval \<Rightarrow> rat option" where
  "value_number (JNum (Fin r)) = Some r"
| "value_number (JStr s) = (if trim s = [] then None else finite_num (Some (js_number s)))"
| "value_number _ = None"

definition numberValue :: "jsdata \<Rightarrow> string list \<Rightarrow> rat option" where
  "numberValue d ks = first_some (map value_number (picked d ks))"

fun string_item :: "jsval \<Rightarrow> string option" where
  "string_item (JStr s) = (if trim s = [] then None else Some s)"
| "string_item _ = None"

fun value_strings :: "jsval \<Rightarrow> string list option" where
  "value_strings (JArr vs) = Some (List.map_filter string_item vs)"
| "value_strings (JStr s) = (if trim s = [] then None else Some [trim s])"
| "value_strings _ = None"

definition ev_strings :: "jsdata \<Rightarrow> string list \<Rightarrow> string list" where
  "ev_strings d ks = some_or [] (first_some (map value_strings (picked d ks)))"

definition hypothesis_status_of :: "string \<Rightarrow> hypothesis_status option" where
  "hypothesis_status_of raw = map_of
     [(''pending'', HPending), (''queued'', HQueued), (''running'', HRunning), (''done'', HDone),
      (''merged'', HMerged), (''failed'', HFailed), (''pruned'', HPruned),
      (''awaiting-input'', HAwaitingInput), (''cancelled'', HCancelled)] raw"

definition hypothesisStatus :: "event \<Rightarrow> hypothesis_status option \<Rightarrow> hypothesis_status" where
  "hypothesisStatus ev current =
     (let raw = to_lower (some_or [] (first_some [ev_status ev, ev_text (data ev) [''status'']]))
      in if originalType ev = ''idea.pruned'' then HPruned
         else if originalType ev = ''idea.merged'' then HMerged
         else if originalType ev = ''idea.completed'' then (if raw = ''failed'' then HFailed else HDone)
         else some_or (some_or HPending current) (hypothesis_status_of raw))"

definition executor_status_of :: "string \<Rightarrow> executor_status option" where
  "executor_status_of raw = map_of
     [(''queued'', XQueued), (''running'', XRunning), (''completed'', XCompleted),
      (''failed'', XFailed), (''cancelled'', XCancelled)] raw"

definition executorStatus :: "event \<Rightarrow> executor_status" where
  "executorStatus ev =
     (if etype ev = ExecutorStarted then XRunning
      else if etype ev = ExecutorFailed then XFailed
      else if etype ev = ExecutorCompleted then XCompleted
      else some_or XRunning (executor_status_of (to_lower (some_or [] (ev_status ev)))))"

text \<open>\<open>updateCoordinator\<close>: the caller overwrites further fields of the result.\<close>

definition updateCoordinator :: "run_state \<Rightarrow> event \<Rightarrow> coordinator" where
  "updateCoordinator st ev = (coordinator st)\<lparr>lastEvent := Some (originalType ev)\<rparr>"

text \<open>\<open>base\<close>: every handler starts from the state with the run id of the event.\<close>

definition run_base :: "run_state \<Rightarrow> event \<Rightarrow> run_state" where
  "run_base st ev = st\<lparr>runId := first_some [ev_runId ev, runId st]\<rparr>"

section \<open>The reducer, one handler per kind of event\<close>

definition on_session_started :: "run_state \<Rightarrow> event \<Rightarrow> run_state" where
  "on_session_started st ev =
     (let d = data ev in (run_base st ev)
       \<lparr>sessionId := some_or (sessionId st) (ev_sessionId ev),
        projectPath := first_some [ev_text d [''cwd'', ''project'', ''project_path''], projectPath st],
        task := first_some [ev_text d [''task'', ''instruction''], task st],
        mode := first_some [ev_text d [''mode''], mode st],
        r_status := RRunning,
        provider := first_some [ev_text d [''provider''], provider st],
        model := first_some [ev_text d [''model''], model st],
        startedAt := first_some [ev_timestamp ev, startedAt st],
        coordinator := (updateCoordinator st ev)\<lparr>c_status := RRunning, activity := Some ''Starting research run''\<rparr>\<rparr>)"

definition on_session_ended :: "run_state \<Rightarrow> event \<Rightarrow> run_state" where
  "on_session_ended st ev =
     (let exitReason = some_or ''completed'' (ev_text (data ev) [''exit_reason'', ''reason'']);
          s = (if exitReason = ''ok'' \<or> exitReason = ''completed'' then RCompleted
               else if exitReason = ''cancelled'' \<or> exitReason = ''interrupted'' then RCancelled
               else RFailed)
      in (run_base st ev)
       \<lparr>r_status := s, endedAt := ev_timestamp ev,
        coordinator := (updateCoordinator st ev)
          \<lparr>c_status := s, activity := Some (''Run '' @ exitReason), pendingQuestion := None\<rparr>\<rparr>)"

definition on_cycle :: "run_state \<Rightarrow> event \<Rightarrow> run_state" where
  "on_cycle st ev =
     (let d = data ev;
          cycle = some_or (currentCycle st) (numberValue d [''cycle_num'', ''cycle'', ''number'']);
          totalN = first_some [numberValue d [''total_cycles'', ''total''], totalCycles st]
      in (run_base st ev)
       \<lparr>currentCycle := cycle, totalCycles := totalN,
        coordinator := (updateCoordinator st ev)
          \<lparr>c_status := RRunning,
           activity := Some (''Cycle '' @ number_text cycle
             @ (if etype ev = CycleStarted then '' started'' else '' completed''))\<rparr>\<rparr>)"

definition on_coordinator_progress :: "run_state \<Rightarrow> event \<Rightarrow> run_state" where
  "on_coordinator_progress st ev =
     (run_base st ev)
       \<lparr>coordinator := (updateCoordinator st ev)
          \<lparr>c_status := RRunning,
           activity := first_some [ev_summary ev, ev_text (data ev) [''phase'', ''activity'', ''detail'']],
           currentHypothesisId := first_some [ev_hypothesisId ev, currentHypothesisId (coordinator st)]\<rparr>\<rparr>"

text \<open>\<open>strings(...).length ? strings(...) : current?.field ?? []\<close>.\<close>

definition strings_or :: "jsdata \<Rightarrow> string list \<Rightarrow> string list option \<Rightarrow> string list" where
  "strings_or d ks current =
     (if ev_strings d ks \<noteq> [] then ev_strings d ks else some_or [] current)"

definition hypothesis_from :: "event \<Rightarrow> string \<Rightarrow> hypothesis_node option \<Rightarrow> hypothesis_node" where
  "hypothesis_from ev hid cur =
     (let d = data ev in
      \<lparr>h_id = hid,
       h_hypothesis = some_or (''Hypothesis '' @ hid)
          (first_some [ev_text d [''hypothesis'', ''idea'', ''title''], map_option h_hypothesis cur]),
       h_parentId = first_some [ev_text d [''parent_id'', ''parentId''], Option.bind cur h_parentId],
       h_depth = some_or 0 (first_some [numberValue d [''depth''], map_option h_depth cur]),
       h_status = hypothesisStatus ev (map_option h_status cur),
       h_score = first_some [numberValue d [''score''], Option.bind cur h_score],
       h_result = first_some [ev_text d [''result''], Option.bind cur h_result],
       h_insight = first_some [ev_text d [''insight''], Option.bind cur h_insight],
       h_executorId = first_some [ev_executorId ev, ev_text d [''assigned_executor'', ''executor''],
                                  Option.bind cur h_executorId],
       h_evidenceCount = some_or 0 (first_some [numberValue d [''evidence_count'', ''evidenceCount''],
                                                map_option h_evidenceCount cur]),
       h_changedFiles = strings_or d [''changed_files'', ''changedFiles''] (map_option h_changedFiles cur),
       h_tests = strings_or d [''tests''] (map_option h_tests cur),
       h_createdAt = first_some [Option.bind cur h_createdAt, ev_timestamp ev],
       h_updatedAt = ev_timestamp ev\<rparr>)"

definition truthy :: "string option \<Rightarrow> bool" where
  "truthy x \<longleftrightarrow> x \<noteq> None \<and> x \<noteq> Some []"

definition on_hypothesis :: "run_state \<Rightarrow> event \<Rightarrow> run_state" where
  "on_hypothesis st ev =
     (let hid = first_some [ev_hypothesisId ev, ev_text (data ev) [''id'']]
      in if \<not> truthy hid then st
         else let k = the hid; cur = map_of (hypotheses st) k; node = hypothesis_from ev k cur
              in (run_base st ev)
               \<lparr>hypotheses := AList.update k node (hypotheses st),
                hypothesisOrder := (if cur \<noteq> None then hypothesisOrder st else hypothesisOrder st @ [k]),
                coordinator := (updateCoordinator st ev)
                  \<lparr>currentHypothesisId := Some k,
                   c_status := (if h_status node = HAwaitingInput then RAwaitingInput else RRunning)\<rparr>\<rparr>)"

definition executor_from :: "event \<Rightarrow> string \<Rightarrow> executor_state option \<Rightarrow> executor_state" where
  "executor_from ev xid cur =
     (let d = data ev in
      \<lparr>x_id = xid,
       x_hypothesisId = first_some [ev_hypothesisId ev, Option.bind cur x_hypothesisId],
       x_hypothesis = first_some [ev_text d [''hypothesis'', ''idea''], Option.bind cur x_hypothesis],
       x_task = first_some [ev_text d [''task''], Option.bind cur x_task],
       x_status = executorStatus ev,
       x_branch = first_some [ev_text d [''branch''], Option.bind cur x_branch],
       x_worktree = first_some [ev_text d [''worktree'', ''worktree_path''], Option.bind cur x_worktree],
       x_changedFiles = strings_or d [''changed_files'', ''changedFiles''] (map_option x_changedFiles cur),
       x_tests = strings_or d [''tests''] (map_option x_tests cur),
       x_testStatus = first_some [ev_text d [''test_status'', ''testStatus''], Option.bind cur x_testStatus],
       x_startedAt = first_some [Option.bind cur x_startedAt,
                                 if etype ev = ExecutorStarted then ev_timestamp ev else None],
       x_completedAt = (if etype ev = ExecutorCompleted \<or> etype ev = ExecutorFailed then ev_timestamp ev
                        else Option.bind cur x_completedAt),
       x_latestMessage = first_some [ev_summary ev, ev_text d [''latest_message'', ''message'', ''detail''],
                                     Option.bind cur x_latestMessage],
       x_summary = first_some [ev_text d [''completion_summary'', ''summary''], Option.bind cur x_summary],
       x_failure = (if etype ev = ExecutorFailed
                    then Some (some_or ''Executor failed'' (ev_text d [''error'', ''failure'', ''reason'']))
                    else Option.bind cur x_failure)\<rparr>)"

definition on_executor :: "run_state \<Rightarrow> event \<Rightarrow> run_state" where
  "on_executor st ev =
     (let xid = first_some [ev_executorId ev, ev_hypothesisId ev, ev_text (data ev) [''id'', ''node_id'']]
      in if \<not> truthy xid then st
         else let k = the xid; cur = map_of (executors st) k; x = executor_from ev k cur
              in (run_base st ev)
               \<lparr>executors := AList.update k x (executors st),
                executorOrder := (if cur \<noteq> None then executorOrder st else executorOrder st @ [k]),
                branch := first_some [x_branch x, branch st],
                worktree := first_some [x_worktree x, worktree st],
                changedFiles := oset_of (changedFiles st @ x_changedFiles x),
                coordinator := (updateCoordinator st ev)
                  \<lparr>c_status := RRunning, currentHypothesisId := x_hypothesisId x\<rparr>\<rparr>)"

text \<open>\<open>event.type.split('.')[1]\<close> for the three tool events.\<close>

fun tool_verb :: "event_type \<Rightarrow> string" where
  "tool_verb ToolCalled = ''called''"
| "tool_verb ToolCompleted = ''completed''"
| "tool_verb _ = ''failed''"

definition strip_sub :: "string \<Rightarrow> string" where
  "strip_sub s = (if starts_with s ''sub:'' then drop 4 s else s)"

definition on_tool :: "run_state \<Rightarrow> event \<Rightarrow> run_state" where
  "on_tool st ev =
     (let xid = first_some [ev_executorId ev, map_option strip_sub (ev_text (data ev) [''agent''])];
          cur = (if truthy xid then map_of (executors st) (the xid) else None);
          said = some_or ''Tool'' (toolName ev) @ '' '' @ tool_verb (etype ev)
      in case cur of
           None \<Rightarrow> (run_base st ev)\<lparr>coordinator := (updateCoordinator st ev)\<lparr>activity := Some said\<rparr>\<rparr>
         | Some x \<Rightarrow> (run_base st ev)
            \<lparr>executors := AList.update (the xid)
               (x\<lparr>x_latestMessage := Some (some_or said (ev_summary ev))\<rparr>) (executors st),
             coordinator := updateCoordinator st ev\<rparr>)"

definition on_evidence :: "run_state \<Rightarrow> event \<Rightarrow> run_state" where
  "on_evidence st ev =
     (let d = data ev;
          eid = some_or (some_or ''evidence'' (ev_timestamp ev) @ '':'' @ string_of_nat (length (evidence st)))
                  (ev_text d [''evidence_id'', ''id''])
      in if list_ex (\<lambda>x. e_id x = eid) (evidence st) then st
         else (run_base st ev)
           \<lparr>evidence := evidence st @
              [\<lparr>e_id = eid, e_title = some_or ''Research evidence'' (ev_text d [''source_title'', ''title'']),
                e_url = ev_text d [''source_url'', ''url''],
                e_provider = ev_text d [''source_provider'', ''provider''],
                e_channel = ev_text d [''source_channel'', ''channel''],
                e_excerpt = ev_text d [''excerpt'', ''summary''],
                e_contentPath = ev_text d [''content_path'', ''path''],
                e_timestamp = ev_timestamp ev, e_hypothesisId = ev_hypothesisId ev,
                e_sessionId = Some (some_or (sessionId st) (ev_sessionId ev)),
                e_relevance = numberValue d [''confidence'', ''relevance'']\<rparr>],
            coordinator := updateCoordinator st ev\<rparr>)"

fun artifact_kind_of :: "event_type \<Rightarrow> artifact_kind" where
  "artifact_kind_of ReportGenerated = Report"
| "artifact_kind_of MemoryCreated = Memory"
| "artifact_kind_of AuditCompleted = Audit"
| "artifact_kind_of _ = Artifact"

fun kind_name :: "artifact_kind \<Rightarrow> string" where
  "kind_name Report = ''report''"
| "kind_name Artifact = ''artifact''"
| "kind_name Memory = ''memory''"
| "kind_name Audit = ''audit''"

definition on_artifact :: "run_state \<Rightarrow> event \<Rightarrow> run_state" where
  "on_artifact st ev =
     (let d = data ev; k = artifact_kind_of (etype ev);
          aid = some_or (kind_name k @ '':'' @ string_of_nat (length (artifacts st)))
                  (ev_text d [''artifact_id'', ''report_id'', ''memory_id'', ''audit_id'', ''id'', ''path''])
      in if list_ex (\<lambda>x. a_id x = aid) (artifacts st) then st
         else (run_base st ev)
           \<lparr>artifacts := artifacts st @
              [\<lparr>a_id = aid,
                a_name = some_or (if k = Report then ''REPORT.md'' else kind_name k) (ev_text d [''name'', ''title'']),
                a_path = ev_text d [''path'', ''report_path''], a_kind = k, a_timestamp = ev_timestamp ev,
                a_summary = first_some [ev_summary ev, ev_text d [''summary'']]\<rparr>],
            coordinator := updateCoordinator st ev\<rparr>)"

definition on_permission_requested :: "run_state \<Rightarrow> event \<Rightarrow> run_state" where
  "on_permission_requested st ev =
     (let d = data ev;
          pid = some_or (''permission:'' @ string_of_nat (length (approvals st)))
                  (ev_text d [''permission_id'', ''id''])
      in if list_ex (\<lambda>x. p_id x = pid) (approvals st) then st
         else (run_base st ev)
           \<lparr>approvals := approvals st @
              [\<lparr>p_id = pid,
                p_operation = some_or ''Sensitive action'' (ev_text d [''operation'', ''category'', ''tool_name'']),
                p_reason = ev_text d [''reason''], p_action = ev_text d [''command'', ''action''],
                p_files = ev_strings d [''affected_files'', ''files''], p_repository = ev_text d [''repository''],
                p_risk = ev_text d [''risk'', ''risk_level''], p_executorId = ev_executorId ev,
                p_hypothesisId = ev_hypothesisId ev, p_status = Pending,
                p_requestedAt = ev_timestamp ev, p_resolvedAt = None\<rparr>],
            coordinator := (updateCoordinator st ev)\<lparr>c_status := RAwaitingInput\<rparr>\<rparr>)"

definition on_permission_resolved :: "run_state \<Rightarrow> event \<Rightarrow> run_state" where
  "on_permission_resolved st ev =
     (let d = data ev; pid = ev_text d [''permission_id'', ''id'']
      in if \<not> truthy pid then st
         else let dec = (if ev_text d [''decision'', ''result''] = Some ''approved'' then Approved else Denied)
              in (run_base st ev)
               \<lparr>approvals := map (\<lambda>x. if p_id x = the pid then x\<lparr>p_status := dec, p_resolvedAt := ev_timestamp ev\<rparr> else x)
                              (approvals st),
                coordinator := (updateCoordinator st ev)\<lparr>c_status := RRunning\<rparr>\<rparr>)"

definition on_user_await :: "run_state \<Rightarrow> event \<Rightarrow> run_state" where
  "on_user_await st ev =
     (run_base st ev)\<lparr>r_status := RAwaitingInput,
       coordinator := (updateCoordinator st ev)
         \<lparr>c_status := RAwaitingInput, pendingQuestion := ev_text (data ev) [''prompt'', ''question'']\<rparr>\<rparr>"

definition on_user_input :: "run_state \<Rightarrow> event \<Rightarrow> run_state" where
  "on_user_input st ev =
     (run_base st ev)\<lparr>r_status := RRunning,
       coordinator := (updateCoordinator st ev)\<lparr>c_status := RRunning, pendingQuestion := None\<rparr>\<rparr>"

definition on_usage :: "run_state \<Rightarrow> event \<Rightarrow> run_state" where
  "on_usage st ev =
     (let inp = some_or 0 (numberValue (data ev) [''input_tokens'']);
          outp = some_or 0 (numberValue (data ev) [''output_tokens''])
      in (run_base st ev)
       \<lparr>run_usage := \<lparr>inputTokens = inputTokens (run_usage st) + inp,
                      outputTokens = outputTokens (run_usage st) + outp,
                      totalTokens = totalTokens (run_usage st) + inp + outp\<rparr>,
        coordinator := (updateCoordinator st ev)\<lparr>turns := turns (coordinator st) + 1\<rparr>\<rparr>)"

definition on_run_over :: "run_state \<Rightarrow> event \<Rightarrow> run_state" where
  "on_run_over st ev =
     (let s = (if etype ev = RunCancelled then RCancelled else RFailed)
      in (run_base st ev)\<lparr>r_status := s, endedAt := ev_timestamp ev,
           coordinator := (updateCoordinator st ev)\<lparr>c_status := s, activity := ev_summary ev\<rparr>\<rparr>)"

definition on_file_changed :: "run_state \<Rightarrow> event \<Rightarrow> run_state" where
  "on_file_changed st ev =
     (run_base st ev)
       \<lparr>changedFiles := oset_of (changedFiles st @ ev_strings (data ev) [''path'', ''files'', ''changed_files'']),
        coordinator := updateCoordinator st ev\<rparr>"

definition reduceResearchRun :: "run_state \<Rightarrow> event \<Rightarrow> run_state" where
  "reduceResearchRun st ev =
     (case etype ev of
        SessionStarted \<Rightarrow> on_session_started st ev
      | SessionEnded \<Rightarrow> on_session_ended st ev
      | CycleStarted \<Rightarrow> on_cycle st ev
      | CycleCompleted \<Rightarrow> on_cycle st ev
      | CoordinatorProgress \<Rightarrow> on_coordinator_progress st ev
      | HypothesisCreated \<Rightarrow> on_hypothesis st ev
      | HypothesisUpdated \<Rightarrow> on_hypothesis st ev
      | ExecutorStarted \<Rightarrow> on_executor st ev
      | ExecutorProgress \<Rightarrow> on_executor st ev
      | ExecutorCompleted \<Rightarrow> on_executor st ev
      | ExecutorFailed \<Rightarrow> on_executor st ev
      | ToolCalled \<Rightarrow> on_tool st ev
      | ToolCompleted \<Rightarrow> on_tool st ev
      | ToolFailed \<Rightarrow> on_tool st ev
      | EvidenceCreated \<Rightarrow> on_evidence st ev
      | ReportGenerated \<Rightarrow> on_artifact st ev
      | ArtifactCreated \<Rightarrow> on_artifact st ev
      | MemoryCreated \<Rightarrow> on_artifact st ev
      | AuditCompleted \<Rightarrow> on_artifact st ev
      | PermissionRequested \<Rightarrow> on_permission_requested st ev
      | PermissionResolved \<Rightarrow> on_permission_resolved st ev
      | UserAwait \<Rightarrow> on_user_await st ev
      | UserInput \<Rightarrow> on_user_input st ev
      | UsageUpdated \<Rightarrow> on_usage st ev
      | RunCancelled \<Rightarrow> on_run_over st ev
      | RunFailed \<Rightarrow> on_run_over st ev
      | FileChanged \<Rightarrow> on_file_changed st ev)"

definition reduceResearchRunEvents :: "string \<Rightarrow> event list \<Rightarrow> run_state" where
  "reduceResearchRunEvents sid evs = foldl reduceResearchRun (createInitialResearchRunState sid) evs"

section \<open>Selectors\<close>

definition selectActiveExecutors :: "run_state \<Rightarrow> executor_state list" where
  "selectActiveExecutors st =
     filter (\<lambda>x. x_status x = XRunning) (List.map_filter (map_of (executors st)) (executorOrder st))"

definition selectPendingApprovals :: "run_state \<Rightarrow> approval_request list" where
  "selectPendingApprovals st = filter (\<lambda>a. p_status a = Pending) (approvals st)"

definition parent_of :: "(string \<times> hypothesis_node) list \<Rightarrow> hypothesis_node \<Rightarrow> hypothesis_node option" where
  "parent_of hs n = (if truthy (h_parentId n) then map_of hs (the (h_parentId n)) else None)"

text \<open>The loop of \<open>selectBestScoringPath\<close>; \<open>path.unshift\<close> prepends.\<close>

function climb :: "(string \<times> hypothesis_node) list \<Rightarrow> hypothesis_node option \<Rightarrow> string list \<Rightarrow> string list \<Rightarrow> string list" where
  "climb hs cur visited path =
     (case cur of None \<Rightarrow> path
      | Some n \<Rightarrow>
          if h_id n \<in> set visited then path
          else climb hs (parent_of hs n) (h_id n # visited) (h_id n # path))"
  by pat_completeness auto
termination
proof (relation "measure (\<lambda>(hs, cur, visited, path).
    card ((h_id ` (snd ` set hs \<union> set_option cur)) - set visited))", goal_cases)
  case 1
  show ?case by simp
next
  case (2 hs cur visited path n)
  let ?ids = "h_id ` snd ` set hs"
  have "h_id ` set_option (parent_of hs n) \<subseteq> ?ids"
    by (auto simp: parent_of_def split: if_splits dest!: map_of_SomeD) force
  then have "h_id ` (snd ` set hs \<union> set_option (parent_of hs n)) - set (h_id n # visited)
      \<subset> h_id ` (snd ` set hs \<union> set_option cur) - set visited"
    using 2 by auto
  then show ?case by (simp add: psubset_card_mono)
qed

declare climb.simps [simp del]

text \<open>Sorting by falling score is stable: the first node with the best score leads.\<close>

definition selectBestScoringPath :: "run_state \<Rightarrow> string list" where
  "selectBestScoringPath st =
     (let scored = filter (\<lambda>n. h_score n \<noteq> None)
            (List.map_filter (map_of (hypotheses st)) (hypothesisOrder st))
      in case js_sort (\<lambda>l r. some_or 0 (h_score r) - some_or 0 (h_score l)) scored of
           [] \<Rightarrow> []
         | best # _ \<Rightarrow> climb (hypotheses st) (Some best) [] [])"

section \<open>The invariant\<close>

definition ids_wf :: "run_state \<Rightarrow> bool" where
  "ids_wf st \<longleftrightarrow> distinct (map e_id (evidence st)) \<and> distinct (map a_id (artifacts st))
     \<and> distinct (map p_id (approvals st)) \<and> distinct (changedFiles st)"

definition dict_wf :: "('v \<Rightarrow> string) \<Rightarrow> (string \<times> 'v) list \<Rightarrow> string list \<Rightarrow> bool" where
  "dict_wf f m order \<longleftrightarrow> obj_wf m \<and> obj_keys m = order \<and> (\<forall>(k, v) \<in> set m. f v = k)"

definition usage_wf :: "run_usage \<Rightarrow> bool" where
  "usage_wf u \<longleftrightarrow> totalTokens u = inputTokens u + outputTokens u"

definition research_inv :: "run_state \<Rightarrow> bool" where
  "research_inv st \<longleftrightarrow> ids_wf st \<and> dict_wf h_id (hypotheses st) (hypothesisOrder st)
     \<and> dict_wf x_id (executors st) (executorOrder st) \<and> usage_wf (run_usage st)"

text \<open>Everything the run has recorded under an id.\<close>

definition recorded :: "run_state \<Rightarrow> (string \<times> string) set" where
  "recorded st = Pair ''hypothesis'' ` set (hypothesisOrder st) \<union> Pair ''executor'' ` set (executorOrder st)
     \<union> Pair ''evidence'' ` e_id ` set (evidence st) \<union> Pair ''artifact'' ` a_id ` set (artifacts st)
     \<union> Pair ''approval'' ` p_id ` set (approvals st) \<union> Pair ''file'' ` set (changedFiles st)"

lemma set_update_subset: "set (AList.update k v m) \<subseteq> insert (k, v) (set m)"
  by (induction m) auto

lemma dict_wf_update:
  assumes "dict_wf f m order" and "f v = k"
  shows "dict_wf f (AList.update k v m) (if map_of m k \<noteq> None then order else order @ [k])"
proof -
  have "\<forall>(k', v') \<in> set (AList.update k v m). f v' = k'"
    using assms set_update_subset [of k v m] by (auto simp: dict_wf_def)
  then show ?thesis
    using assms(1) unfolding dict_wf_def map_of_eq_None_iff obj_keys_update set_map by simp
qed

text \<open>The two shapes in which the handlers produce it.\<close>

lemma dict_wf_insert:
  assumes "dict_wf f m order" and "f v = k"
  shows "map_of m k = Some w \<Longrightarrow> dict_wf f (AList.update k v m) order"
    and "map_of m k = None \<Longrightarrow> dict_wf f (AList.update k v m) (order @ [k])"
  using dict_wf_update [OF assms] by simp_all

lemma run_base_fields [simp]:
  "hypotheses (run_base st ev) = hypotheses st" "hypothesisOrder (run_base st ev) = hypothesisOrder st"
  "executors (run_base st ev) = executors st" "executorOrder (run_base st ev) = executorOrder st"
  "evidence (run_base st ev) = evidence st" "artifacts (run_base st ev) = artifacts st"
  "approvals (run_base st ev) = approvals st" "changedFiles (run_base st ev) = changedFiles st"
  "run_usage (run_base st ev) = run_usage st"
  by (simp_all add: run_base_def)

lemma from_ids [simp]: "h_id (hypothesis_from ev k cur) = k" "x_id (executor_from ev k xcur) = k"
  by (simp_all add: hypothesis_from_def executor_from_def Let_def)

text \<open>The handlers that touch none of the collections.\<close>

lemmas plain_handlers = on_session_started_def on_session_ended_def on_cycle_def
  on_coordinator_progress_def on_user_await_def on_user_input_def on_run_over_def

lemma plain_handlers_inv:
  "research_inv st \<Longrightarrow> research_inv (on_session_started st ev) \<and> research_inv (on_session_ended st ev)
    \<and> research_inv (on_cycle st ev) \<and> research_inv (on_coordinator_progress st ev)
    \<and> research_inv (on_user_await st ev) \<and> research_inv (on_user_input st ev) \<and> research_inv (on_run_over st ev)"
  by (simp add: plain_handlers research_inv_def ids_wf_def Let_def)

lemma on_hypothesis_inv: "research_inv st \<Longrightarrow> research_inv (on_hypothesis st ev)"
  by (auto simp: on_hypothesis_def research_inv_def ids_wf_def Let_def dict_wf_insert)

lemma on_executor_inv: "research_inv st \<Longrightarrow> research_inv (on_executor st ev)"
  by (auto simp: on_executor_def research_inv_def ids_wf_def Let_def dict_wf_insert)

lemma dict_wf_key: "dict_wf f m order \<Longrightarrow> map_of m k = Some v \<Longrightarrow> f v = k"
  by (auto simp: dict_wf_def dest: map_of_SomeD)

lemma on_tool_inv: "research_inv st \<Longrightarrow> research_inv (on_tool st ev)"
  by (auto simp: on_tool_def research_inv_def ids_wf_def Let_def dict_wf_key
      dict_wf_insert split: option.split if_splits)

lemma on_records_inv:
  "research_inv st \<Longrightarrow> research_inv (on_evidence st ev)"
  "research_inv st \<Longrightarrow> research_inv (on_artifact st ev)"
  "research_inv st \<Longrightarrow> research_inv (on_permission_requested st ev)"
  by (auto simp: on_evidence_def on_artifact_def on_permission_requested_def research_inv_def
      ids_wf_def Let_def list_ex_iff)

lemma on_others_inv:
  "research_inv st \<Longrightarrow> research_inv (on_permission_resolved st ev)"
  "research_inv st \<Longrightarrow> research_inv (on_usage st ev)"
  "research_inv st \<Longrightarrow> research_inv (on_file_changed st ev)"
  by (auto simp: on_permission_resolved_def on_usage_def on_file_changed_def research_inv_def
      ids_wf_def usage_wf_def Let_def comp_def if_distrib [of p_id] cong: if_cong)

lemma reduce_inv: "research_inv st \<Longrightarrow> research_inv (reduceResearchRun st ev)"
  using plain_handlers_inv [of st ev]
  by (cases "etype ev") (simp_all add: reduceResearchRun_def on_hypothesis_inv on_executor_inv
      on_tool_inv on_records_inv on_others_inv)

lemma initial_inv: "research_inv (createInitialResearchRunState sid)"
  by (simp add: createInitialResearchRunState_def research_inv_def ids_wf_def dict_wf_def usage_wf_def)

lemma recorded_congs:
  "recorded (on_session_started st ev) = recorded st" "recorded (on_session_ended st ev) = recorded st"
  "recorded (on_cycle st ev) = recorded st" "recorded (on_coordinator_progress st ev) = recorded st"
  "recorded (on_user_await st ev) = recorded st" "recorded (on_user_input st ev) = recorded st"
  "recorded (on_run_over st ev) = recorded st" "recorded (on_usage st ev) = recorded st"
  "recorded (on_tool st ev) = recorded st"
  by (simp_all add: plain_handlers on_usage_def on_tool_def recorded_def Let_def split: option.split)

text \<open>A handler that only extends the collections only extends the record.\<close>

definition extends :: "run_state \<Rightarrow> run_state \<Rightarrow> bool" where
  "extends st st' \<longleftrightarrow> set (hypothesisOrder st) \<subseteq> set (hypothesisOrder st')
     \<and> set (executorOrder st) \<subseteq> set (executorOrder st') \<and> set (evidence st) \<subseteq> set (evidence st')
     \<and> set (artifacts st) \<subseteq> set (artifacts st') \<and> set (approvals st) \<subseteq> set (approvals st')
     \<and> set (changedFiles st) \<subseteq> set (changedFiles st')"

lemma recorded_extends: "extends st st' \<Longrightarrow> recorded st \<subseteq> recorded st'"
  unfolding extends_def recorded_def by (elim conjE, intro Un_mono image_mono)

lemma recorded_hypothesis: "recorded st \<subseteq> recorded (on_hypothesis st ev)"
  by (rule recorded_extends) (simp add: extends_def on_hypothesis_def Let_def subset_insertI)

lemma recorded_executor: "recorded st \<subseteq> recorded (on_executor st ev)"
  by (rule recorded_extends) (simp add: extends_def on_executor_def Let_def subset_insertI)

lemma recorded_records:
  "recorded st \<subseteq> recorded (on_evidence st ev)" "recorded st \<subseteq> recorded (on_artifact st ev)"
  "recorded st \<subseteq> recorded (on_permission_requested st ev)" "recorded st \<subseteq> recorded (on_file_changed st ev)"
  by (rule recorded_extends, simp add: extends_def on_evidence_def on_artifact_def
      on_permission_requested_def on_file_changed_def Let_def subset_insertI)+

lemma recorded_resolved: "recorded (on_permission_resolved st ev) = recorded st"
proof -
  have ids: "map p_id (approvals (on_permission_resolved st ev)) = map p_id (approvals st)"
    by (simp add: on_permission_resolved_def Let_def comp_def if_distrib [of p_id] cong: if_cong)
  have "p_id ` set (approvals (on_permission_resolved st ev)) = p_id ` set (approvals st)"
    using arg_cong [OF ids, of set] by simp
  moreover have "hypothesisOrder (on_permission_resolved st ev) = hypothesisOrder st"
    "executorOrder (on_permission_resolved st ev) = executorOrder st"
    "evidence (on_permission_resolved st ev) = evidence st"
    "artifacts (on_permission_resolved st ev) = artifacts st"
    "changedFiles (on_permission_resolved st ev) = changedFiles st"
    by (simp_all add: on_permission_resolved_def Let_def)
  ultimately show ?thesis by (simp only: recorded_def)
qed

lemma recorded_step: "recorded st \<subseteq> recorded (reduceResearchRun st ev)"
  by (cases "etype ev") (simp_all add: reduceResearchRun_def recorded_congs recorded_hypothesis
      recorded_executor recorded_records recorded_resolved)

interpretation research: monotone_reducer reduceResearchRun research_inv recorded
  by unfold_locales (simp_all add: reduce_inv recorded_step)

section \<open>Properties\<close>

text \<open>C13: Whatever events arrive, the state of a research run stays consistent: hypotheses and executors
  are listed in the order of their first event, each once and under its own id, evidence, artifacts
  and approvals have distinct ids, changed files are listed once, and the total of the tokens is the
  sum of input and output.\<close>

theorem research_state_is_consistent:
  "hypothesisOrder (reduceResearchRunEvents sid evs) = obj_keys (hypotheses (reduceResearchRunEvents sid evs))
   \<and> executorOrder (reduceResearchRunEvents sid evs) = obj_keys (executors (reduceResearchRunEvents sid evs))
   \<and> distinct (hypothesisOrder (reduceResearchRunEvents sid evs))
   \<and> distinct (executorOrder (reduceResearchRunEvents sid evs))
   \<and> list_all (\<lambda>(k, n). h_id n = k) (hypotheses (reduceResearchRunEvents sid evs))
   \<and> list_all (\<lambda>(k, x). x_id x = k) (executors (reduceResearchRunEvents sid evs))
   \<and> distinct (map e_id (evidence (reduceResearchRunEvents sid evs)))
   \<and> distinct (map a_id (artifacts (reduceResearchRunEvents sid evs)))
   \<and> distinct (map p_id (approvals (reduceResearchRunEvents sid evs)))
   \<and> distinct (changedFiles (reduceResearchRunEvents sid evs))
   \<and> totalTokens (run_usage (reduceResearchRunEvents sid evs))
       = inputTokens (run_usage (reduceResearchRunEvents sid evs))
         + outputTokens (run_usage (reduceResearchRunEvents sid evs))"
proof -
  let ?r = "reduceResearchRunEvents sid evs"
  have "research_inv ?r"
    unfolding reduceResearchRunEvents_def by (rule research.run_inv [OF initial_inv])
  then have "ids_wf ?r" "dict_wf h_id (hypotheses ?r) (hypothesisOrder ?r)"
    "dict_wf x_id (executors ?r) (executorOrder ?r)" "usage_wf (run_usage ?r)"
    by (simp_all only: research_inv_def)
  then show ?thesis
    unfolding ids_wf_def dict_wf_def obj_wf_def usage_wf_def
    by (elim conjE, intro conjI) (assumption | simp add: list_all_iff)+
qed

text \<open>Nothing a run has recorded disappears: after more events every hypothesis, executor, evidence,
  artifact, approval and changed file of a prefix is still there.\<close>

theorem research_log_is_append_only:
  "recorded (reduceResearchRunEvents sid evs) \<subseteq> recorded (reduceResearchRunEvents sid (evs @ later))"
  unfolding reduceResearchRunEvents_def by (rule research.run_append_mono [OF initial_inv])

text \<open>Redelivery is harmless: an evidence, artifact or permission request that names its id changes
  nothing when it arrives a second time.\<close>

theorem redelivered_records_are_ignored:
  assumes "(etype ev = EvidenceCreated \<and> ev_text (data ev) [''evidence_id'', ''id''] = Some i)
    \<or> (etype ev \<in> {ReportGenerated, ArtifactCreated, MemoryCreated, AuditCompleted}
        \<and> ev_text (data ev) [''artifact_id'', ''report_id'', ''memory_id'', ''audit_id'', ''id'', ''path''] = Some i)
    \<or> (etype ev = PermissionRequested \<and> ev_text (data ev) [''permission_id'', ''id''] = Some i)"
  shows "reduceResearchRun (reduceResearchRun st ev) ev = reduceResearchRun st ev"
proof -
  have "on_evidence (on_evidence st ev) ev = on_evidence st ev"
    if "ev_text (data ev) [''evidence_id'', ''id''] = Some i"
    using that by (simp add: on_evidence_def Let_def)
  moreover have "on_artifact (on_artifact st ev) ev = on_artifact st ev"
    if "ev_text (data ev) [''artifact_id'', ''report_id'', ''memory_id'', ''audit_id'', ''id'', ''path''] = Some i"
    using that by (simp add: on_artifact_def Let_def)
  moreover have "on_permission_requested (on_permission_requested st ev) ev = on_permission_requested st ev"
    if "ev_text (data ev) [''permission_id'', ''id''] = Some i"
    using that by (simp add: on_permission_requested_def Let_def)
  ultimately show ?thesis
    using assms by (elim disjE conjE insertE emptyE) (simp_all add: reduceResearchRun_def)
qed

definition demo_event :: "event_type \<Rightarrow> jsdata \<Rightarrow> event" where
  "demo_event ty d =
     \<lparr>etype = ty, originalType = ''demo'', ev_timestamp = None, ev_runId = None, ev_sessionId = None,
      cycleId = None, ev_hypothesisId = None, ev_executorId = None, toolName = None, ev_status = None,
      ev_summary = None, data = d\<rparr>"

lemmas text_defs = ev_text_def stringValue_def picked_def fields_get_def trim_or_none_def trim_def js_ws_def

theorem redelivered_records_are_ignored_witness:
  "reduceResearchRunEvents ''s'' (replicate 2 (demo_event EvidenceCreated [(''id'', JStr ''e1'')]))
   = reduceResearchRunEvents ''s'' [demo_event EvidenceCreated [(''id'', JStr ''e1'')]]"
proof -
  let ?e = "demo_event EvidenceCreated [(''id'', JStr ''e1'')]"
  have "etype ?e = EvidenceCreated \<and> ev_text (data ?e) [''evidence_id'', ''id''] = Some ''e1''"
    by (simp add: demo_event_def text_defs)
  then show ?thesis
    using redelivered_records_are_ignored [of ?e "''e1''" "createInitialResearchRunState ''s''"]
    by (simp add: reduceResearchRunEvents_def numeral_2_eq_2)
qed

section \<open>The best scoring path\<close>

definition parent_link :: "(string \<times> hypothesis_node) list \<Rightarrow> string \<Rightarrow> string \<Rightarrow> bool" where
  "parent_link hs a b \<longleftrightarrow>
     (\<exists>na nb. map_of hs b = Some nb \<and> parent_of hs nb = Some na \<and> h_id na = a)"

lemma parent_of_named:
  assumes "\<forall>(k, n) \<in> set hs. h_id n = k" and "parent_of hs n = Some m"
  shows "map_of hs (h_id m) = Some m"
proof -
  have m: "map_of hs (the (h_parentId n)) = Some m"
    using assms(2) by (simp add: parent_of_def split: if_splits)
  then have "h_id m = the (h_parentId n)" using assms(1) by (auto dest!: map_of_SomeD)
  then show ?thesis using m by simp
qed

lemma climb_path:
  assumes "\<forall>(k, n) \<in> set hs. h_id n = k"
    and "distinct path" and "set visited = set path" and "successively (parent_link hs) path"
    and "\<And>n. cur = Some n \<Longrightarrow> map_of hs (h_id n) = Some n"
    and "path = [] \<or> (\<exists>nb. map_of hs (hd path) = Some nb \<and> parent_of hs nb = cur)"
  shows "distinct (climb hs cur visited path) \<and> successively (parent_link hs) (climb hs cur visited path)
    \<and> (\<exists>pre. climb hs cur visited path = pre @ path)"
  using assms
proof (induction hs cur visited path rule: climb.induct)
  case (1 hs cur visited path)
  show ?case
  proof (cases "\<exists>n. cur = Some n \<and> h_id n \<notin> set visited")
    case False
    then have "climb hs cur visited path = path" by (subst climb.simps) (auto split: option.split)
    then show ?thesis using 1(3,5) by simp
  next
    case True
    then obtain n where n: "cur = Some n" "h_id n \<notin> set visited" by blast
    have step: "climb hs cur visited path = climb hs (parent_of hs n) (h_id n # visited) (h_id n # path)"
      using n by (subst climb.simps) simp
    have named: "map_of hs (h_id n) = Some n" using 1(6) n(1) by blast
    have link: "successively (parent_link hs) (h_id n # path)"
    proof (cases path)
      case (Cons b bs)
      then obtain nb where "map_of hs b = Some nb" "parent_of hs nb = cur" using 1(7) by auto
      then have "parent_link hs (h_id n) b" using n(1) by (auto simp: parent_link_def)
      then show ?thesis using 1(5) Cons by simp
    qed simp
    have "distinct (climb hs (parent_of hs n) (h_id n # visited) (h_id n # path))
      \<and> successively (parent_link hs) (climb hs (parent_of hs n) (h_id n # visited) (h_id n # path))
      \<and> (\<exists>pre. climb hs (parent_of hs n) (h_id n # visited) (h_id n # path) = pre @ (h_id n # path))"
      by (rule 1(1) [OF n(1,2) 1(2) _ _ link])
        (use 1 n named parent_of_named [OF 1(2)] in auto)
    then show ?thesis unfolding step by (metis append.assoc append_Cons append_Nil)
  qed
qed

lemma comparator_best_score: "comparator (\<lambda>l r. some_or 0 (h_score r) - some_or 0 (h_score l))"
  by unfold_locales auto

lemma scored_set:
  assumes "obj_wf hs"
  shows "set (filter (\<lambda>n. h_score n \<noteq> None) (List.map_filter (map_of hs) (obj_keys hs)))
    = {n. \<exists>k. (k, n) \<in> set hs \<and> h_score n \<noteq> None}"
  using assms unfolding map_filter_def
  by (auto simp: obj_wf_def image_iff) (metis map_of_eq_Some_iff option.sel fst_conv)+

text \<open>The path of a hypothesis that is registered under its id.\<close>

lemma climb_from:
  assumes "\<forall>(k, n) \<in> set hs. h_id n = k" and "map_of hs (h_id best) = Some best"
  shows "distinct (climb hs (Some best) [] [])" "successively (parent_link hs) (climb hs (Some best) [] [])"
    "\<exists>pre. climb hs (Some best) [] [] = pre @ [h_id best]"
proof -
  show "distinct (climb hs (Some best) [] [])" "successively (parent_link hs) (climb hs (Some best) [] [])"
    using climb_path [OF assms(1), of "[]" "[]" "Some best"] assms(2) by simp_all
  have "climb hs (Some best) [] [] = climb hs (parent_of hs best) [h_id best] [h_id best]"
    by (subst climb.simps) simp
  moreover have "\<exists>pre. climb hs (parent_of hs best) [h_id best] [h_id best] = pre @ [h_id best]"
    using climb_path [OF assms(1), of "[h_id best]" "[h_id best]" "parent_of hs best"] assms(2)
      parent_of_named [OF assms(1)] by auto
  ultimately show "\<exists>pre. climb hs (Some best) [] [] = pre @ [h_id best]" by metis
qed

text \<open>C35: The best scoring path of a run always ends, in a hypothesis with the highest score, each
  element being the parent of the next and none repeated, even when the parent links form a cycle; it
  is empty exactly when nothing is scored.\<close>

theorem best_scoring_path_is_a_lineage:
  "(selectBestScoringPath (reduceResearchRunEvents sid evs) = []
      \<longleftrightarrow> (\<forall>(k, n) \<in> set (hypotheses (reduceResearchRunEvents sid evs)). h_score n = None))
   \<and> distinct (selectBestScoringPath (reduceResearchRunEvents sid evs))
   \<and> successively (parent_link (hypotheses (reduceResearchRunEvents sid evs)))
       (selectBestScoringPath (reduceResearchRunEvents sid evs))
   \<and> (selectBestScoringPath (reduceResearchRunEvents sid evs) \<noteq> [] \<longrightarrow>
       (\<exists>best s. map_of (hypotheses (reduceResearchRunEvents sid evs))
            (last (selectBestScoringPath (reduceResearchRunEvents sid evs))) = Some best
          \<and> h_score best = Some s
          \<and> (\<forall>(k, n) \<in> set (hypotheses (reduceResearchRunEvents sid evs)).
               \<forall>t. h_score n = Some t \<longrightarrow> t \<le> s)))"
proof -
  let ?st = "reduceResearchRunEvents sid evs"
  let ?hs = "hypotheses ?st"
  let ?cmp = "\<lambda>l r. some_or 0 (h_score r) - some_or 0 (h_score l)"
  let ?scored = "filter (\<lambda>n. h_score n \<noteq> None) (List.map_filter (map_of ?hs) (obj_keys ?hs))"
  have "dict_wf h_id ?hs (hypothesisOrder ?st)"
    using research.run_inv [OF initial_inv, of sid evs]
    unfolding reduceResearchRunEvents_def research_inv_def by blast
  then have wf: "obj_wf ?hs" "hypothesisOrder ?st = obj_keys ?hs" "\<forall>(k, n) \<in> set ?hs. h_id n = k"
    unfolding dict_wf_def by (elim conjE, (assumption | simp))+
  note scored = scored_set [OF wf(1)]
  have path: "selectBestScoringPath ?st =
      (case js_sort ?cmp ?scored of [] \<Rightarrow> [] | best # _ \<Rightarrow> climb ?hs (Some best) [] [])"
    by (simp add: selectBestScoringPath_def wf(2))
  show ?thesis
  proof (cases "js_sort ?cmp ?scored")
    case Nil
    then have "set ?scored = {}" using set_js_sort [of ?cmp ?scored] by simp
    then have "\<forall>(k, n) \<in> set ?hs. h_score n = None" unfolding scored by auto
    then show ?thesis using path Nil by simp
  next
    case (Cons best rest)
    have "best \<in> set ?scored" unfolding set_js_sort [of ?cmp ?scored, symmetric] Cons by simp
    then obtain k s where k: "(k, best) \<in> set ?hs" "h_score best = Some s" unfolding scored by auto
    then have here: "map_of ?hs (h_id best) = Some best"
      using wf(1,3) by (auto simp: obj_wf_def map_of_is_SomeI)
    have top: "t \<le> s" if "(j, n) \<in> set ?hs" "h_score n = Some t" for j n t
    proof -
      have "n \<in> set ?scored" unfolding scored using that by auto
      from comparator.hd_js_sort_least [OF comparator_best_score this] Cons that(2) k(2)
      show ?thesis by simp
    qed
    have some: "\<not> (\<forall>(k, n) \<in> set ?hs. h_score n = None)" using k by force
    show ?thesis
      unfolding path using Cons climb_from [OF wf(3) here] here k(2) top some by auto
  qed
qed

text \<open>Two hypotheses that name each other as parent.\<close>

definition cyclic_run :: "event list" where
  "cyclic_run =
     [demo_event HypothesisCreated
        [(''id'', JStr ''h1''), (''parent_id'', JStr ''h2''), (''score'', JNum (Fin 3))],
      demo_event HypothesisCreated
        [(''id'', JStr ''h2''), (''parent_id'', JStr ''h1''), (''score'', JNum (Fin 5))]]"

theorem best_scoring_path_is_a_lineage_witness:
  "selectBestScoringPath (reduceResearchRunEvents ''s'' cyclic_run) \<noteq> []
   \<and> (\<exists>best s. map_of (hypotheses (reduceResearchRunEvents ''s'' cyclic_run))
        (last (selectBestScoringPath (reduceResearchRunEvents ''s'' cyclic_run))) = Some best
      \<and> h_score best = Some s \<and> 5 \<le> s)"
proof -
  have hs: "map_of (hypotheses (reduceResearchRunEvents ''s'' cyclic_run)) ''h2'' \<noteq> None
      \<and> Option.bind (map_of (hypotheses (reduceResearchRunEvents ''s'' cyclic_run)) ''h2'') h_score = Some 5"
    by (simp add: reduceResearchRunEvents_def cyclic_run_def demo_event_def reduceResearchRun_def
        on_hypothesis_def text_defs createInitialResearchRunState_def run_base_def truthy_def
        hypothesis_from_def numberValue_def Let_def)
  then obtain n where "map_of (hypotheses (reduceResearchRunEvents ''s'' cyclic_run)) ''h2'' = Some n"
    and sc: "h_score n = Some 5"
    by auto
  then have n: "(''h2'', n) \<in> set (hypotheses (reduceResearchRunEvents ''s'' cyclic_run))" "h_score n = Some 5"
    using map_of_SomeD by fast+
  then have "selectBestScoringPath (reduceResearchRunEvents ''s'' cyclic_run) \<noteq> []"
    using best_scoring_path_is_a_lineage [of "''s''" cyclic_run] by force
  then show ?thesis
    using best_scoring_path_is_a_lineage [of "''s''" cyclic_run] n by fast
qed

section \<open>Normalised events\<close>

lemma digits_of_nonempty: "digits_of n \<noteq> []"
  by (subst digits_of.simps) simp

lemma value_text_nonempty: "value_text v \<noteq> Some []"
  by (cases v rule: value_text.cases)
    (auto simp: trim_or_none_def number_text_def string_of_nat_def digits_of_nonempty Let_def)

lemma stringValue_nonempty: "stringValue vs \<noteq> Some []"
proof -
  have "first_some xs = Some [] \<Longrightarrow> Some [] \<in> set xs" for xs :: "string option list"
    by (induction xs rule: first_some.induct) auto
  then show ?thesis using value_text_nonempty by (force simp: stringValue_def)
qed

text \<open>Normalisation recognises every canonical event name as itself and every alias as one
  canonical type, keeps the name it saw, and never produces an empty id, so that an event which
  carries an id is never dropped for it.\<close>

theorem normalisation_is_sound:
  "(\<forall>(s, ty) \<in> set DEVPILOT_EVENT_TYPES. resolve_type s = Some ty)
   \<and> distinct (obj_keys TYPE_ALIASES) \<and> snd ` set TYPE_ALIASES \<subseteq> snd ` set DEVPILOT_EVENT_TYPES
   \<and> (\<forall>v ev. normalizeDevPilotEvent v = Some ev \<longrightarrow>
        resolve_type (originalType ev) = Some (etype ev)
        \<and> (\<forall>f \<in> {ev_runId, ev_sessionId, cycleId, ev_hypothesisId, ev_executorId, toolName}. f ev \<noteq> Some []))"
proof -
  have names: "\<forall>(s, ty) \<in> set DEVPILOT_EVENT_TYPES. resolve_type s = Some ty"
    by (simp add: DEVPILOT_EVENT_TYPES_def TYPE_ALIASES_def resolve_type_def)
  have "distinct (obj_keys TYPE_ALIASES)" "snd ` set TYPE_ALIASES \<subseteq> snd ` set DEVPILOT_EVENT_TYPES"
    by (simp_all add: TYPE_ALIASES_def DEVPILOT_EVENT_TYPES_def)
  moreover have "resolve_type (originalType ev) = Some (etype ev)
      \<and> (\<forall>f \<in> {ev_runId, ev_sessionId, cycleId, ev_hypothesisId, ev_executorId, toolName}. f ev \<noteq> Some [])"
    if "normalizeDevPilotEvent v = Some ev" for v ev
    using that by (auto simp: normalizeDevPilotEvent_def Let_def stringValue_nonempty split: option.splits)
  ultimately show ?thesis using names by blast
qed

theorem normalisation_is_sound_witness:
  "\<exists>ev. normalizeDevPilotEvent (JObj [(''type'', JStr ''idea.proposed''), (''node_id'', JStr ''h1'')]) = Some ev
     \<and> resolve_type (originalType ev) = Some (etype ev)"
proof -
  obtain ev where "normalizeDevPilotEvent (JObj [(''type'', JStr ''idea.proposed''), (''node_id'', JStr ''h1'')]) = Some ev"
    by (simp add: normalizeDevPilotEvent_def record_of_def text_defs resolve_type_def TYPE_ALIASES_def Let_def)
  then show ?thesis using normalisation_is_sound by blast
qed

end
