(* ===== verification/AppPane.thy ===== *)
theory AppPane
  imports JsBase
begin

text \<open>
  The panes of the application shell, from
  \<open>apps/ui/sources/components/appShell/panes/model/appPaneReducer.ts\<close>: one state per scope
  with a right, a details and a bottom pane, the tabs of the details pane with their preview slot,
  the least-recently-used list of scopes and the focus mode. Each action of the reducer is one
  definition. Scope states and tab states are association lists; \<open>maxScopesInMemory\<close> is a
  natural number.
\<close>

section \<open>State\<close>

datatype open_mode = OpenPreview | OpenPinned

record details_tab =
  key :: string
  tab_kind :: string
  title :: string
  subtitle :: "string option"
  resource :: jsval

record details_tab_state = details_tab +
  isPreview :: bool
  isPinned :: bool

record side_pane =
  sp_isOpen :: bool
  activeTabId :: "string option"
  sp_tabState :: "(string \<times> jsval) list"

record details_pane =
  dp_isOpen :: bool
  tabs :: "details_tab_state list"
  activeTabKey :: "string option"
  dp_tabState :: "(string \<times> jsval) list"

record pane_scope =
  right :: side_pane
  details :: details_pane
  bottom :: side_pane

record app_pane =
  activeScopeId :: "string option"
  scopes :: "(string \<times> pane_scope) list"
  scopeLru :: "string list"
  focusMode :: "string option"
  maxScopesInMemory :: nat

datatype pane_action =
    ActivateScope string
  | OpenRight string "string option"
  | CloseRight string
  | SetRightTab string string
  | SetRightTabState string string jsval
  | OpenBottom string "string option"
  | CloseBottom string
  | SetBottomTab string string
  | SetBottomTabState string string jsval
  | OpenDetailsTab string details_tab open_mode
  | SetDetailsTabState string string jsval
  | PinDetailsTab string string
  | UnpinDetailsTab string string
  | CloseDetails string
  | CloseDetailsTab string string
  | SetActiveDetailsTab string string
  | EnterFocusMode string
  | ExitFocusMode "string option"

definition createAppPaneState :: "nat \<Rightarrow> app_pane" where
  "createAppPaneState m =
     \<lparr>activeScopeId = None, scopes = [], scopeLru = [], focusMode = None, maxScopesInMemory = m\<rparr>"

definition createEmptyScopeState :: pane_scope where
  "createEmptyScopeState =
     \<lparr>right = \<lparr>sp_isOpen = False, activeTabId = None, sp_tabState = []\<rparr>,
      details = \<lparr>dp_isOpen = False, tabs = [], activeTabKey = None, dp_tabState = []\<rparr>,
      bottom = \<lparr>sp_isOpen = False, activeTabId = None, sp_tabState = []\<rparr>\<rparr>"

section \<open>Scopes\<close>

text \<open>An empty id is falsy.\<close>

definition truthy_id :: "string option \<Rightarrow> bool" where
  "truthy_id x \<longleftrightarrow> x \<noteq> None \<and> x \<noteq> Some []"

definition touchScopeLru :: "string list \<Rightarrow> string \<Rightarrow> string list" where
  "touchScopeLru lru sid = sid # filter (\<lambda>i. i \<noteq> sid) lru"

definition evictScopesIfNeeded :: "app_pane \<Rightarrow> app_pane" where
  "evictScopesIfNeeded st =
     (if length (scopes st) \<le> maxScopesInMemory st then st
      else let keep = take (maxScopesInMemory st) (scopeLru st);
               nextLru = filter (\<lambda>i. i \<in> set keep) (scopeLru st)
           in st\<lparr>scopes := filter (\<lambda>(i, _). i \<in> set keep) (scopes st),
                 scopeLru := nextLru,
                 activeScopeId := (if truthy_id (activeScopeId st) \<and> the (activeScopeId st) \<in> set keep
                                   then activeScopeId st
                                   else (case nextLru of [] \<Rightarrow> None | i # _ \<Rightarrow> Some i)),
                 focusMode := (if truthy_id (focusMode st) \<and> the (focusMode st) \<in> set keep
                               then focusMode st else None)\<rparr>)"

definition scope_or_empty :: "app_pane \<Rightarrow> string \<Rightarrow> pane_scope" where
  "scope_or_empty st sid = some_or createEmptyScopeState (map_of (scopes st) sid)"

definition upsertScope :: "app_pane \<Rightarrow> string \<Rightarrow> (pane_scope \<Rightarrow> pane_scope) \<Rightarrow> app_pane" where
  "upsertScope st sid mutate = st\<lparr>scopes := AList.update sid (mutate (scope_or_empty st sid)) (scopes st)\<rparr>"

definition setDetailsTabs :: "details_tab_state list \<Rightarrow> string option \<Rightarrow> pane_scope \<Rightarrow> pane_scope" where
  "setDetailsTabs ts k sc = sc\<lparr>details := (details sc)\<lparr>tabs := ts, activeTabKey := k\<rparr>\<rparr>"

definition scopeHasFocusablePane :: "pane_scope option \<Rightarrow> bool" where
  "scopeHasFocusablePane sc =
     (case sc of None \<Rightarrow> False | Some s \<Rightarrow> sp_isOpen (right s) \<or> dp_isOpen (details s))"

definition clearFocusModeIfScopeCannotFocus :: "string \<Rightarrow> app_pane \<Rightarrow> app_pane" where
  "clearFocusModeIfScopeCannotFocus sid st =
     (if focusMode st \<noteq> Some sid then st
      else if scopeHasFocusablePane (map_of (scopes st) sid) then st
      else st\<lparr>focusMode := None\<rparr>)"

section \<open>Actions\<close>

definition activateScope :: "string \<Rightarrow> app_pane \<Rightarrow> app_pane" where
  "activateScope sid st =
     evictScopesIfNeeded
       (st\<lparr>activeScopeId := Some sid, scopeLru := touchScopeLru (scopeLru st) sid,
           scopes := (if map_of (scopes st) sid \<noteq> None then scopes st
                      else AList.update sid createEmptyScopeState (scopes st)),
           focusMode := (if truthy_id (focusMode st) \<and> focusMode st \<noteq> Some sid then None
                         else focusMode st)\<rparr>)"

definition openRight :: "string option \<Rightarrow> pane_scope \<Rightarrow> pane_scope" where
  "openRight tab sc = sc\<lparr>right := (right sc)\<lparr>sp_isOpen := True, activeTabId := first_some [tab, activeTabId (right sc)]\<rparr>\<rparr>"

definition closeRight :: "pane_scope \<Rightarrow> pane_scope" where
  "closeRight sc = sc\<lparr>right := (right sc)\<lparr>sp_isOpen := False\<rparr>\<rparr>"

definition setRightTab :: "string \<Rightarrow> pane_scope \<Rightarrow> pane_scope" where
  "setRightTab tab sc = sc\<lparr>right := (right sc)\<lparr>activeTabId := Some tab\<rparr>\<rparr>"

definition setRightTabState :: "string \<Rightarrow> jsval \<Rightarrow> pane_scope \<Rightarrow> pane_scope" where
  "setRightTabState tab v sc = sc\<lparr>right := (right sc)\<lparr>sp_tabState := AList.update tab v (sp_tabState (right sc))\<rparr>\<rparr>"

definition openBottom :: "string option \<Rightarrow> pane_scope \<Rightarrow> pane_scope" where
  "openBottom tab sc = sc\<lparr>bottom := (bottom sc)\<lparr>sp_isOpen := True, activeTabId := first_some [tab, activeTabId (bottom sc)]\<rparr>\<rparr>"

definition closeBottom :: "pane_scope \<Rightarrow> pane_scope" where
  "closeBottom sc = sc\<lparr>bottom := (bottom sc)\<lparr>sp_isOpen := False\<rparr>\<rparr>"

definition setBottomTab :: "string \<Rightarrow> pane_scope \<Rightarrow> pane_scope" where
  "setBottomTab tab sc = sc\<lparr>bottom := (bottom sc)\<lparr>activeTabId := Some tab\<rparr>\<rparr>"

definition setBottomTabState :: "string \<Rightarrow> jsval \<Rightarrow> pane_scope \<Rightarrow> pane_scope" where
  "setBottomTabState tab v sc = sc\<lparr>bottom := (bottom sc)\<lparr>sp_tabState := AList.update tab v (sp_tabState (bottom sc))\<rparr>\<rparr>"

text \<open>\<open>tabs.findIndex((t) => t.key === k)\<close>, \<open>None\<close> for -1, and the update of one index.\<close>

fun tab_index :: "string \<Rightarrow> details_tab_state list \<Rightarrow> nat option" where
  "tab_index k [] = None"
| "tab_index k (t # ts) = (if key t = k then Some 0 else map_option Suc (tab_index k ts))"

definition update_tab :: "nat \<Rightarrow> (details_tab_state \<Rightarrow> details_tab_state) \<Rightarrow> details_tab_state list \<Rightarrow> details_tab_state list" where
  "update_tab i f ts = ts[i := f (ts ! i)]"

definition openDetailsTab :: "details_tab \<Rightarrow> open_mode \<Rightarrow> pane_scope \<Rightarrow> pane_scope" where
  "openDetailsTab tab openAs prev =
     (case tab_index (key tab) (tabs (details prev)) of
        Some i \<Rightarrow>
          (let existing = tabs (details prev) ! i;
               pinned = (if openAs = OpenPinned then True else isPinned existing);
               preview = (if pinned then False else isPreview existing)
           in prev\<lparr>details := (details prev)
                \<lparr>dp_isOpen := True,
                 tabs := update_tab i (\<lambda>t. t\<lparr>isPinned := pinned, isPreview := preview\<rparr>) (tabs (details prev)),
                 activeTabKey := Some (key tab)\<rparr>\<rparr>)
      | None \<Rightarrow>
          (let kept = (if openAs = OpenPreview then filter (\<lambda>t. \<not> isPreview t) (tabs (details prev))
                       else tabs (details prev));
               nextTab = details_tab.extend tab
                 \<lparr>isPreview = (openAs = OpenPreview), isPinned = (openAs = OpenPinned)\<rparr>
           in setDetailsTabs (kept @ [nextTab]) (Some (key nextTab))
                (prev\<lparr>details := (details prev)\<lparr>dp_isOpen := True\<rparr>\<rparr>)))"

definition setDetailsTabState :: "string \<Rightarrow> jsval \<Rightarrow> pane_scope \<Rightarrow> pane_scope" where
  "setDetailsTabState k v prev =
     (if nullish v then
        (if k \<notin> set (obj_keys (dp_tabState (details prev))) then prev
         else prev\<lparr>details := (details prev)\<lparr>dp_tabState := AList.delete k (dp_tabState (details prev))\<rparr>\<rparr>)
      else prev\<lparr>details := (details prev)\<lparr>dp_tabState := AList.update k v (dp_tabState (details prev))\<rparr>\<rparr>)"

definition pinDetailsTab :: "string \<Rightarrow> pane_scope \<Rightarrow> pane_scope" where
  "pinDetailsTab k prev =
     (case tab_index k (tabs (details prev)) of None \<Rightarrow> prev
      | Some i \<Rightarrow> prev\<lparr>details := (details prev)
          \<lparr>tabs := update_tab i (\<lambda>t. t\<lparr>isPinned := True, isPreview := False\<rparr>) (tabs (details prev))\<rparr>\<rparr>)"

definition unpinDetailsTab :: "string \<Rightarrow> pane_scope \<Rightarrow> pane_scope" where
  "unpinDetailsTab k prev =
     (case tab_index k (tabs (details prev)) of None \<Rightarrow> prev
      | Some i \<Rightarrow>
          (let withTarget = update_tab i (\<lambda>t. t\<lparr>isPinned := False, isPreview := True\<rparr>) (tabs (details prev));
               removed = oset_of (map key (filter (\<lambda>t. key t \<noteq> k \<and> \<not> isPinned t \<and> isPreview t) withTarget));
               nextTabs = (if removed \<noteq> [] then filter (\<lambda>t. key t \<notin> set removed) withTarget else withTarget);
               nextState = (if removed \<noteq> [] then fold AList.delete removed (dp_tabState (details prev))
                            else dp_tabState (details prev))
           in setDetailsTabs nextTabs (Some k) (prev\<lparr>details := (details prev)\<lparr>dp_tabState := nextState\<rparr>\<rparr>)))"

definition closeDetails :: "pane_scope \<Rightarrow> pane_scope" where
  "closeDetails prev = prev\<lparr>details := (details prev)\<lparr>dp_isOpen := False\<rparr>\<rparr>"

text \<open>\<open>xs[i]\<close>: \<open>undefined\<close> out of range; \<open>i - 1\<close> may be -1.\<close>

definition at_index :: "'a list \<Rightarrow> int \<Rightarrow> 'a option" where
  "at_index xs i = (if 0 \<le> i \<and> nat i < length xs then Some (xs ! nat i) else None)"

definition closeDetailsTab :: "string \<Rightarrow> pane_scope \<Rightarrow> pane_scope" where
  "closeDetailsTab k prev =
     (case tab_index k (tabs (details prev)) of None \<Rightarrow> prev
      | Some i \<Rightarrow>
          (let nextTabs = filter (\<lambda>t. key t \<noteq> k) (tabs (details prev));
               nextActive = (if activeTabKey (details prev) = Some k
                 then first_some [map_option key (at_index nextTabs (int i - 1)),
                                  map_option key (at_index nextTabs (int i)),
                                  map_option key (at_index nextTabs (int (length nextTabs) - 1))]
                 else activeTabKey (details prev))
           in setDetailsTabs nextTabs nextActive
                (prev\<lparr>details := (details prev)
                   \<lparr>dp_isOpen := (if nextTabs \<noteq> [] then dp_isOpen (details prev) else False),
                    dp_tabState := AList.delete k (dp_tabState (details prev))\<rparr>\<rparr>)))"

definition setActiveDetailsTab :: "string \<Rightarrow> pane_scope \<Rightarrow> pane_scope" where
  "setActiveDetailsTab k prev =
     (if \<not> list_ex (\<lambda>t. key t = k) (tabs (details prev)) then prev
      else prev\<lparr>details := (details prev)\<lparr>activeTabKey := Some k\<rparr>\<rparr>)"

definition enterFocusMode :: "string \<Rightarrow> app_pane \<Rightarrow> app_pane" where
  "enterFocusMode sid st =
     (if activeScopeId st \<noteq> Some sid then st
      else if \<not> scopeHasFocusablePane (map_of (scopes st) sid) then st
      else st\<lparr>focusMode := Some sid\<rparr>)"

definition exitFocusMode :: "string option \<Rightarrow> app_pane \<Rightarrow> app_pane" where
  "exitFocusMode sid st =
     (if \<not> truthy_id (focusMode st) then st
      else if truthy_id sid \<and> sid \<noteq> focusMode st then st
      else st\<lparr>focusMode := None\<rparr>)"

fun appPaneReduce :: "app_pane \<Rightarrow> pane_action \<Rightarrow> app_pane" where
  "appPaneReduce st (ActivateScope s) = activateScope s st"
| "appPaneReduce st (OpenRight s t) = upsertScope st s (openRight t)"
| "appPaneReduce st (CloseRight s) = clearFocusModeIfScopeCannotFocus s (upsertScope st s closeRight)"
| "appPaneReduce st (SetRightTab s t) = upsertScope st s (setRightTab t)"
| "appPaneReduce st (SetRightTabState s t v) = upsertScope st s (setRightTabState t v)"
| "appPaneReduce st (OpenBottom s t) = upsertScope st s (openBottom t)"
| "appPaneReduce st (CloseBottom s) = upsertScope st s closeBottom"
| "appPaneReduce st (SetBottomTab s t) = upsertScope st s (setBottomTab t)"
| "appPaneReduce st (SetBottomTabState s t v) = upsertScope st s (setBottomTabState t v)"
| "appPaneReduce st (OpenDetailsTab s t m) = upsertScope st s (openDetailsTab t m)"
| "appPaneReduce st (SetDetailsTabState s k v) = upsertScope st s (setDetailsTabState k v)"
| "appPaneReduce st (PinDetailsTab s k) = upsertScope st s (pinDetailsTab k)"
| "appPaneReduce st (UnpinDetailsTab s k) = upsertScope st s (unpinDetailsTab k)"
| "appPaneReduce st (CloseDetails s) = clearFocusModeIfScopeCannotFocus s (upsertScope st s closeDetails)"
| "appPaneReduce st (CloseDetailsTab s k) = clearFocusModeIfScopeCannotFocus s (upsertScope st s (closeDetailsTab k))"
| "appPaneReduce st (SetActiveDetailsTab s k) = upsertScope st s (setActiveDetailsTab k)"
| "appPaneReduce st (EnterFocusMode s) = enterFocusMode s st"
| "appPaneReduce st (ExitFocusMode s) = exitFocusMode s st"

section \<open>The details pane\<close>

text \<open>
  Tabs have distinct keys and are either pinned or a preview, at most one is a preview, the active
  tab is one of them (none only when there are none), and an open pane has a tab to show.
\<close>

definition one_preview :: "details_tab_state list \<Rightarrow> bool" where
  "one_preview ts \<longleftrightarrow>
     (\<forall>t \<in> set ts. \<forall>u \<in> set ts. isPreview t \<longrightarrow> isPreview u \<longrightarrow> key t = key u)"

definition tabs_wf :: "details_tab_state list \<Rightarrow> string option \<Rightarrow> bool \<Rightarrow> bool" where
  "tabs_wf ts active opened \<longleftrightarrow>
     distinct (map key ts) \<and> (\<forall>t \<in> set ts. isPreview t \<longleftrightarrow> \<not> isPinned t) \<and> one_preview ts
     \<and> (active = None \<longrightarrow> ts = []) \<and> (\<forall>k. active = Some k \<longrightarrow> k \<in> key ` set ts)
     \<and> (opened \<longrightarrow> ts \<noteq> [])"

definition scope_wf :: "pane_scope \<Rightarrow> bool" where
  "scope_wf sc \<longleftrightarrow>
     tabs_wf (tabs (details sc)) (activeTabKey (details sc)) (dp_isOpen (details sc))"

lemma tab_index_None: "tab_index k ts = None \<longleftrightarrow> k \<notin> key ` set ts"
  by (induction ts) auto

lemma tab_index_Some: "tab_index k ts = Some i \<Longrightarrow> i < length ts \<and> key (ts ! i) = k"
  by (induction ts arbitrary: i) (auto split: if_splits)

text \<open>With distinct keys, updating the tab found at a key is updating the tabs with that key.\<close>

lemma update_tab_map:
  assumes "distinct (map key ts)" and "tab_index k ts = Some i"
  shows "update_tab i f ts = map (\<lambda>t. if key t = k then f t else t) ts"
  using assms
proof (induction ts arbitrary: i)
  case (Cons t ts)
  show ?case
  proof (cases "key t = k")
    case True
    then have "map (\<lambda>t. if key t = k then f t else t) ts = ts"
      using Cons.prems(1) by (intro map_idI) (auto simp: image_iff)
    then show ?thesis using True Cons.prems(2) by (simp add: update_tab_def)
  next
    case False
    then obtain j where "tab_index k ts = Some j" "i = Suc j" using Cons.prems(2) by auto
    then show ?thesis using Cons.IH [of j] Cons.prems(1) False by (simp add: update_tab_def)
  qed
qed simp

lemma key_updates [simp]:
  "key (t\<lparr>isPinned := a, isPreview := b\<rparr>) = key t" "isPinned (t\<lparr>isPinned := a, isPreview := b\<rparr>) = a"
  "isPreview (t\<lparr>isPinned := a, isPreview := b\<rparr>) = b"
  by simp_all

lemma extend_tab [simp]:
  "key (details_tab.extend t \<lparr>isPreview = b, isPinned = a\<rparr>) = key t"
  "isPreview (details_tab.extend t \<lparr>isPreview = b, isPinned = a\<rparr>) = b"
  "isPinned (details_tab.extend t \<lparr>isPreview = b, isPinned = a\<rparr>) = a"
  by (simp_all add: details_tab.defs)

lemma keys_of_update:
  "map key (map (\<lambda>t. if key t = k then t\<lparr>isPinned := a, isPreview := b\<rparr> else t) ts) = map key ts"
  by simp

lemma wf_empty: "scope_wf createEmptyScopeState"
  by (simp add: scope_wf_def tabs_wf_def one_preview_def createEmptyScopeState_def)

lemma wf_sides:
  "scope_wf (openRight t sc) = scope_wf sc" "scope_wf (closeRight sc) = scope_wf sc"
  "scope_wf (setRightTab x sc) = scope_wf sc" "scope_wf (setRightTabState x v sc) = scope_wf sc"
  "scope_wf (openBottom t sc) = scope_wf sc" "scope_wf (closeBottom sc) = scope_wf sc"
  "scope_wf (setBottomTab x sc) = scope_wf sc" "scope_wf (setBottomTabState x v sc) = scope_wf sc"
  "scope_wf (setDetailsTabState x v sc) = scope_wf sc"
  by (simp_all add: scope_wf_def openRight_def closeRight_def setRightTab_def setRightTabState_def
      openBottom_def closeBottom_def setBottomTab_def setBottomTabState_def setDetailsTabState_def)

lemma one_preview_update:
  assumes "one_preview ts" and "q \<Longrightarrow> \<forall>t \<in> set ts. isPreview t \<longrightarrow> key t = k"
  shows "one_preview (map (\<lambda>t. if key t = k then t\<lparr>isPinned := p, isPreview := q\<rparr> else t) ts)"
proof -
  let ?f = "\<lambda>t. if key t = k then t\<lparr>isPinned := p, isPreview := q\<rparr> else t"
  have f: "key (?f t) = key t" "isPreview (?f t) = (if key t = k then q else isPreview t)" for t by simp_all
  have "key t = key u" if m: "t \<in> set ts" "u \<in> set ts" and pr: "isPreview (?f t)" "isPreview (?f u)" for t u
  proof (cases q)
    case True
    with pr m assms(2) have "key t = k" "key u = k" unfolding f by metis+
    then show ?thesis by simp
  next
    case False
    with pr m assms(1) show ?thesis unfolding f one_preview_def by metis
  qed
  then show ?thesis
    unfolding one_preview_def set_map ball_simps(9) f(1) by blast
qed

text \<open>Marking the tab of a key, as pinned or as the preview, and making some tab active.\<close>

lemma tabs_wf_mark:
  assumes "tabs_wf ts a op" and "tab_index k ts = Some i" and "q \<longleftrightarrow> \<not> p"
    and "q \<Longrightarrow> \<forall>t \<in> set ts. isPreview t \<longrightarrow> key t = k"
    and "a' = a \<or> a' = Some k"
  shows "tabs_wf (update_tab i (\<lambda>t. t\<lparr>isPinned := p, isPreview := q\<rparr>) ts) a' op'"
proof -
  let ?f = "\<lambda>t. if key t = k then t\<lparr>isPinned := p, isPreview := q\<rparr> else t"
  have d: "distinct (map key ts)" and op: "one_preview ts" using assms(1) by (simp_all add: tabs_wf_def)
  have eq: "update_tab i (\<lambda>t. t\<lparr>isPinned := p, isPreview := q\<rparr>) ts = map ?f ts"
    by (rule update_tab_map [OF d assms(2)])
  have keys: "map key (map ?f ts) = map key ts" by (rule keys_of_update)
  then have kset: "key ` set (map ?f ts) = key ` set ts" by (metis set_map)
  have "k \<in> key ` set ts" using tab_index_Some [OF assms(2)] by (metis image_eqI nth_mem)
  moreover from this have "ts \<noteq> []" by auto
  moreover have "\<forall>t \<in> set (map ?f ts). isPreview t \<longleftrightarrow> \<not> isPinned t"
    using assms(1,3) by (auto simp: tabs_wf_def)
  moreover have "one_preview (map ?f ts)" by (rule one_preview_update [OF op assms(4)])
  ultimately show ?thesis
    unfolding eq tabs_wf_def keys kset
    using assms(1,5) d by (simp add: tabs_wf_def) blast
qed

text \<open>A new tab at the end; a preview replaces the previous one.\<close>

lemma tabs_wf_append:
  assumes "tabs_wf ts a op" and "key n \<notin> key ` set ts" and "isPreview n \<longleftrightarrow> \<not> isPinned n"
  shows "tabs_wf ((if isPreview n then filter (\<lambda>t. \<not> isPreview t) ts else ts) @ [n]) (Some (key n)) True"
proof -
  let ?k = "if isPreview n then filter (\<lambda>t. \<not> isPreview t) ts else ts"
  have sub: "set ?k \<subseteq> set ts" by (cases "isPreview n") (simp_all add: filter_is_subset)
  have "distinct (map key ?k)" using assms(1) unfolding tabs_wf_def by (simp add: distinct_map_filter)
  moreover have "key n \<notin> key ` set ?k" using sub assms(2) by (meson image_mono subsetD)
  ultimately have "distinct (map key (?k @ [n]))" by simp
  moreover have "one_preview (?k @ [n])"
  proof (cases "isPreview n")
    case True
    then have "t = n" if "t \<in> set (?k @ [n])" "isPreview t" for t using that by simp
    then show ?thesis unfolding one_preview_def by metis
  next
    case False
    then have "t \<in> set ts" if "t \<in> set (?k @ [n])" "isPreview t" for t using that by fastforce
    then show ?thesis using assms(1) unfolding tabs_wf_def one_preview_def by metis
  qed
  moreover have "\<forall>t \<in> set (?k @ [n]). isPreview t \<longleftrightarrow> \<not> isPinned t"
    using assms(1,3) sub unfolding tabs_wf_def set_append by (metis Un_iff empty_iff insert_iff list.set subsetD)
  moreover have "key n \<in> key ` set (?k @ [n])" by simp
  ultimately show ?thesis unfolding tabs_wf_def by (metis append_is_Nil_conv list.distinct(1) option.distinct(1) option.inject)
qed

lemma wf_open:
  assumes "scope_wf sc"
  shows "scope_wf (openDetailsTab t m sc)"
proof (cases "tab_index (key t) (tabs (details sc))")
  case None
  let ?n = "details_tab.extend t \<lparr>isPreview = (m = OpenPreview), isPinned = (m = OpenPinned)\<rparr>"
  have "isPreview ?n \<longleftrightarrow> \<not> isPinned ?n" by (cases m) simp_all
  moreover have "key ?n \<notin> key ` set (tabs (details sc))" using None by (simp add: tab_index_None)
  ultimately have "tabs_wf ((if isPreview ?n then filter (\<lambda>t. \<not> isPreview t) (tabs (details sc))
      else tabs (details sc)) @ [?n]) (Some (key ?n)) True"
    using assms unfolding scope_wf_def by (intro tabs_wf_append)
  then show ?thesis
    unfolding openDetailsTab_def None option.case
    by (simp add: setDetailsTabs_def scope_wf_def Let_def)
next
  case (Some i)
  let ?ex = "tabs (details sc) ! i"
  let ?pin = "if m = OpenPinned then True else isPinned ?ex"
  let ?pre = "if ?pin then False else isPreview ?ex"
  have ex: "?ex \<in> set (tabs (details sc))" "key ?ex = key t" using tab_index_Some [OF Some] by simp_all
  have w: "tabs_wf (tabs (details sc)) (activeTabKey (details sc)) (dp_isOpen (details sc))"
    using assms by (simp add: scope_wf_def)
  have 1: "?pre \<longleftrightarrow> \<not> ?pin" using w ex unfolding tabs_wf_def by metis
  have 2: "\<forall>u \<in> set (tabs (details sc)). isPreview u \<longrightarrow> key u = key t" if "?pre"
    using w ex that unfolding tabs_wf_def one_preview_def by metis
  have "tabs_wf (update_tab i (\<lambda>t. t\<lparr>isPinned := ?pin, isPreview := ?pre\<rparr>) (tabs (details sc))) (Some (key t)) True"
    by (rule tabs_wf_mark [OF w Some 1 2]) simp_all
  then show ?thesis
    unfolding openDetailsTab_def Some option.case Let_def scope_wf_def by simp
qed

lemma wf_pin:
  assumes "scope_wf sc"
  shows "scope_wf (pinDetailsTab k sc)"
proof (cases "tab_index k (tabs (details sc))")
  case (Some i)
  have "tabs_wf (update_tab i (\<lambda>t. t\<lparr>isPinned := True, isPreview := False\<rparr>) (tabs (details sc)))
      (activeTabKey (details sc)) (dp_isOpen (details sc))"
    by (rule tabs_wf_mark [OF assms [unfolded scope_wf_def] Some]) simp_all
  then show ?thesis unfolding pinDetailsTab_def Some option.case scope_wf_def by simp
qed (simp add: pinDetailsTab_def assms)

lemma wf_active: "scope_wf sc \<Longrightarrow> scope_wf (setActiveDetailsTab k sc)"
  unfolding setActiveDetailsTab_def scope_wf_def tabs_wf_def list_ex_iff
  by (cases "\<exists>t \<in> set (tabs (details sc)). key t = k") (simp_all, force)

lemma wf_close: "scope_wf sc \<Longrightarrow> scope_wf (closeDetails sc)"
  by (simp add: closeDetails_def scope_wf_def tabs_wf_def)

text \<open>Unpinning makes a tab the preview and drops the previous one.\<close>

lemma filter_by_key:
  assumes "distinct (map key ts)"
  shows "filter (\<lambda>t. key t \<notin> key ` {u \<in> set ts. P u}) ts = filter (\<lambda>t. \<not> P t) ts"
proof (rule filter_cong [OF refl])
  fix t assume t: "t \<in> set ts"
  have "inj_on key (set ts)" using assms by (simp add: distinct_map)
  then show "key t \<notin> key ` {u \<in> set ts. P u} \<longleftrightarrow> \<not> P t"
    using t by (auto dest: inj_onD)
qed

lemma unpin_tabs:
  assumes "tabs_wf ts a op" and "tab_index k ts = Some i"
  defines "wt \<equiv> update_tab i (\<lambda>t. t\<lparr>isPinned := False, isPreview := True\<rparr>) ts"
  defines "nx \<equiv> filter (\<lambda>t. key t \<notin> set (oset_of (map key (filter
              (\<lambda>t. key t \<noteq> k \<and> \<not> isPinned t \<and> isPreview t) wt)))) wt"
  shows "tabs_wf nx (Some k) op'"
proof -
  let ?f = "\<lambda>t. if key t = k then t\<lparr>isPinned := False, isPreview := True\<rparr> else t"
  let ?old = "filter (\<lambda>t. key t = k \<or> isPinned t) ts"
  have d: "distinct (map key ts)" and eq: "\<forall>t \<in> set ts. isPreview t \<longleftrightarrow> \<not> isPinned t"
    using assms(1) unfolding tabs_wf_def by blast+
  have wt: "wt = map ?f ts" unfolding wt_def by (rule update_tab_map [OF d assms(2)])
  have dwt: "distinct (map key wt)" unfolding wt keys_of_update by (rule d)
  have "nx = filter (\<lambda>t. \<not> (key t \<noteq> k \<and> \<not> isPinned t \<and> isPreview t)) wt"
    unfolding nx_def using filter_by_key [OF dwt] by simp
  also have "\<dots> = map ?f (filter (\<lambda>t. \<not> (key (?f t) \<noteq> k \<and> \<not> isPinned (?f t) \<and> isPreview (?f t))) ts)"
    unfolding wt by (simp add: filter_map o_def)
  also have "filter (\<lambda>t. \<not> (key (?f t) \<noteq> k \<and> \<not> isPinned (?f t) \<and> isPreview (?f t))) ts = ?old"
    by (rule filter_cong [OF refl]) (simp add: eq)
  finally have nx: "nx = map ?f ?old" .
  have k: "k \<in> key ` set ?old" using tab_index_Some [OF assms(2)] by (force simp: image_iff in_set_conv_nth)
  have old: "tabs_wf ?old (Some k) op'"
    unfolding tabs_wf_def
  proof (intro conjI allI impI)
    show "distinct (map key ?old)" by (rule distinct_map_filter [OF d])
    show "\<forall>t \<in> set ?old. isPreview t \<longleftrightarrow> \<not> isPinned t" using eq by simp
    show "one_preview ?old" using assms(1) unfolding tabs_wf_def one_preview_def by simp
    show "?old \<noteq> []" using k by (metis empty_iff image_empty list.set(1))
  qed (use k in simp_all)
  from k obtain j where j: "tab_index k ?old = Some j" using tab_index_None by (metis not_None_eq)
  have dold: "distinct (map key ?old)" by (rule distinct_map_filter [OF d])
  have prev: "\<forall>t \<in> set ?old. isPreview t \<longrightarrow> key t = k" using eq by auto
  have "tabs_wf (update_tab j (\<lambda>t. t\<lparr>isPinned := False, isPreview := True\<rparr>) ?old) (Some k) op'"
    by (rule tabs_wf_mark [OF old j _ prev]) simp_all
  then show ?thesis unfolding update_tab_map [OF dold j] nx .
qed

lemma wf_unpin:
  assumes "scope_wf sc"
  shows "scope_wf (unpinDetailsTab k sc)"
proof (cases "tab_index k (tabs (details sc))")
  case (Some i)
  have sel: "(if xs \<noteq> [] then filter (\<lambda>t. key t \<notin> set xs) ts else ts) = filter (\<lambda>t. key t \<notin> set xs) ts"
    for xs ts by simp
  show ?thesis
    using unpin_tabs [OF assms [unfolded scope_wf_def] Some]
    unfolding unpinDetailsTab_def Some option.case scope_wf_def Let_def sel setDetailsTabs_def
    by simp
qed (simp add: unpinDetailsTab_def assms)

text \<open>Closing the active tab moves to its left neighbour, else to the right one, else to none.\<close>

lemma at_index_set: "at_index xs i = Some x \<Longrightarrow> x \<in> set xs"
  by (auto simp: at_index_def split: if_splits)

lemma at_index_last: "xs \<noteq> [] \<Longrightarrow> at_index xs (int (length xs) - 1) = Some (last xs)"
  by (cases xs rule: rev_cases) (simp_all add: at_index_def nth_append)

lemma first_some_of: "first_some xs = Some x \<Longrightarrow> Some x \<in> set xs"
  by (induction xs rule: first_some.induct) auto

lemma close_next_active:
  fixes xs :: "details_tab_state list" and i :: int
  defines "nx \<equiv> first_some [map_option key (at_index xs (i - 1)), map_option key (at_index xs i),
                        map_option key (at_index xs (int (length xs) - 1))]"
  shows "(nx = None \<longrightarrow> xs = []) \<and> (\<forall>k. nx = Some k \<longrightarrow> k \<in> key ` set xs)"
proof (intro conjI impI allI)
  assume "nx = None"
  then show "xs = []" unfolding nx_def using at_index_last [of xs]
    by (cases "xs = []"; cases "at_index xs (i - 1)"; cases "at_index xs i") simp_all
next
  fix k assume "nx = Some k"
  from first_some_of [OF this [unfolded nx_def]]
  have "\<exists>j. map_option key (at_index xs j) = Some k" by (simp del: map_option_eq_Some) metis
  then obtain j t where "at_index xs j = Some t" "key t = k" by (elim exE) (simp, elim exE conjE, rule that)
  then show "k \<in> key ` set xs" by (metis at_index_set image_eqI)
qed

lemma wf_close_tab:
  assumes "scope_wf sc"
  shows "scope_wf (closeDetailsTab k sc)"
proof (cases "tab_index k (tabs (details sc))")
  case (Some i)
  let ?ts = "tabs (details sc)"
  let ?nx = "filter (\<lambda>t. key t \<noteq> k) ?ts"
  let ?a = "if activeTabKey (details sc) = Some k
                 then first_some [map_option key (at_index ?nx (int i - 1)), map_option key (at_index ?nx (int i)),
                                  map_option key (at_index ?nx (int (length ?nx) - 1))]
                 else activeTabKey (details sc)"
  have w: "tabs_wf ?ts (activeTabKey (details sc)) (dp_isOpen (details sc))"
    using assms by (simp add: scope_wf_def)
  have act: "(?a = None \<longrightarrow> ?nx = []) \<and> (\<forall>j. ?a = Some j \<longrightarrow> j \<in> key ` set ?nx)"
  proof (cases "activeTabKey (details sc) = Some k")
    case True
    then show ?thesis using close_next_active [of ?nx "int i"] by simp
  next
    case False
    have "(activeTabKey (details sc) = None \<longrightarrow> ?ts = [])
        \<and> (\<forall>j. activeTabKey (details sc) = Some j \<longrightarrow> j \<in> key ` set ?ts)"
      using w unfolding tabs_wf_def by blast
    then show ?thesis using False by force
  qed
  have "tabs_wf ?nx ?a (if ?nx \<noteq> [] then dp_isOpen (details sc) else False)"
    unfolding tabs_wf_def
  proof (intro conjI)
    show "distinct (map key ?nx)" using w unfolding tabs_wf_def by (simp add: distinct_map_filter)
    show "\<forall>t \<in> set ?nx. isPreview t \<longleftrightarrow> \<not> isPinned t" using w unfolding tabs_wf_def by simp
    show "one_preview ?nx" using w unfolding tabs_wf_def one_preview_def by simp
  qed (use act in \<open>blast, blast, simp\<close>)
  then show ?thesis
    unfolding closeDetailsTab_def Some option.case Let_def scope_wf_def setDetailsTabs_def by simp
qed (simp add: closeDetailsTab_def assms)

section \<open>The shell\<close>

text \<open>
  Scopes have distinct ids and well-formed panes, the list of recently used scopes names existing
  scopes once each and starts with the active one, and the focus mode, when its id is not empty, is
  on the active scope, which has something to focus.
\<close>

definition lru_wf :: "app_pane \<Rightarrow> bool" where
  "lru_wf st \<longleftrightarrow> distinct (scopeLru st) \<and> set (scopeLru st) \<subseteq> set (obj_keys (scopes st))
     \<and> activeScopeId st = (if scopeLru st = [] then None else Some (hd (scopeLru st)))"

definition focus_wf :: "app_pane \<Rightarrow> bool" where
  "focus_wf st \<longleftrightarrow> (truthy_id (focusMode st) \<longrightarrow> focusMode st = activeScopeId st
     \<and> scopeHasFocusablePane (map_of (scopes st) (the (focusMode st))))"

definition scopes_wf :: "app_pane \<Rightarrow> bool" where
  "scopes_wf st \<longleftrightarrow> obj_wf (scopes st) \<and> (\<forall>sid sc. map_of (scopes st) sid = Some sc \<longrightarrow> scope_wf sc)"

definition pane_inv :: "app_pane \<Rightarrow> bool" where
  "pane_inv st \<longleftrightarrow> scopes_wf st \<and> lru_wf st \<and> focus_wf st"

lemma map_of_AList_update: "map_of (AList.update k v m) = (map_of m)(k \<mapsto> v)"
  by (rule update_conv')

lemma map_of_filter_keys:
  "map_of (filter (\<lambda>(i, _). i \<in> A) m) k = (if k \<in> A then map_of m k else None)"
  by (induction m) auto

lemma obj_keys_map_of: "k \<in> set (obj_keys m) \<longleftrightarrow> map_of m k \<noteq> None"
  by (simp add: map_of_eq_None_iff)

text \<open>Changing one scope.\<close>

definition opens :: "(pane_scope \<Rightarrow> pane_scope) \<Rightarrow> bool" where
  "opens f \<longleftrightarrow> (\<forall>sc. scopeHasFocusablePane (Some sc) \<longrightarrow> scopeHasFocusablePane (Some (f sc)))"

lemma scopes_wf_upsert:
  assumes "scopes_wf st" and "\<And>sc. scope_wf sc \<Longrightarrow> scope_wf (f sc)"
  shows "scopes_wf (upsertScope st sid f)"
proof -
  have "scope_wf (scope_or_empty st sid)"
    using assms(1) wf_empty by (cases "map_of (scopes st) sid") (simp_all add: scope_or_empty_def scopes_wf_def)
  then have "scope_wf (f (scope_or_empty st sid))" by (rule assms(2))
  then show ?thesis
    using assms(1) by (simp add: scopes_wf_def upsertScope_def map_of_AList_update)
qed

lemma lru_wf_upsert: "lru_wf st \<Longrightarrow> lru_wf (upsertScope st sid f)"
  unfolding lru_wf_def upsertScope_def by (simp add: obj_keys_update) blast

lemma focus_wf_upsert:
  assumes "focus_wf st" and "focusMode st = Some sid \<Longrightarrow> opens f"
  shows "focus_wf (upsertScope st sid f)"
  using assms
  by (cases "map_of (scopes st) sid")
    (auto simp: focus_wf_def upsertScope_def map_of_AList_update opens_def scope_or_empty_def
      scopeHasFocusablePane_def [of None] truthy_id_def)

lemma pane_inv_upsert:
  assumes "pane_inv st" and "\<And>sc. scope_wf sc \<Longrightarrow> scope_wf (f sc)" and "opens f"
  shows "pane_inv (upsertScope st sid f)"
  using assms scopes_wf_upsert lru_wf_upsert focus_wf_upsert unfolding pane_inv_def by blast

text \<open>Closing a pane of a scope may end the focus mode.\<close>

lemma pane_inv_closing:
  assumes "pane_inv st" and "\<And>sc. scope_wf sc \<Longrightarrow> scope_wf (f sc)"
  shows "pane_inv (clearFocusModeIfScopeCannotFocus sid (upsertScope st sid f))"
proof -
  let ?u = "upsertScope st sid f"
  have u: "scopes_wf ?u" "lru_wf ?u"
    using assms scopes_wf_upsert lru_wf_upsert unfolding pane_inv_def by blast+
  have foc: "focusMode ?u = focusMode st" "activeScopeId ?u = activeScopeId st" by (simp_all add: upsertScope_def)
  show ?thesis
  proof (cases "focusMode st = Some sid \<and> \<not> scopeHasFocusablePane (map_of (scopes ?u) sid)")
    case True
    then have eq: "clearFocusModeIfScopeCannotFocus sid ?u = ?u\<lparr>focusMode := None\<rparr>"
      using foc by (simp add: clearFocusModeIfScopeCannotFocus_def)
    show ?thesis
      using u unfolding eq pane_inv_def by (simp add: focus_wf_def scopes_wf_def lru_wf_def truthy_id_def)
  next
    case False
    have eq: "clearFocusModeIfScopeCannotFocus sid ?u = ?u"
      using False foc by (auto simp: clearFocusModeIfScopeCannotFocus_def)
    have "focus_wf ?u"
    proof (cases "focusMode st = Some sid")
      case True
      then show ?thesis
        using False assms(1) foc unfolding pane_inv_def focus_wf_def by simp
    next
      case False
      then show ?thesis using assms(1) focus_wf_upsert unfolding pane_inv_def by blast
    qed
    then show ?thesis using u unfolding eq pane_inv_def by blast
  qed
qed

lemma opens_rules:
  "opens (openRight a)" "opens (setRightTab x)" "opens (setRightTabState x v)" "opens (openBottom a)"
  "opens closeBottom" "opens (setBottomTab x)" "opens (setBottomTabState x v)"
  "opens (setDetailsTabState x v)" "opens (setActiveDetailsTab x)"
  by (simp_all add: opens_def scopeHasFocusablePane_def openRight_def setRightTab_def setRightTabState_def
      openBottom_def closeBottom_def setBottomTab_def setBottomTabState_def setDetailsTabState_def
      setActiveDetailsTab_def)

lemma opens_tabs:
  "opens (openDetailsTab t m)" "opens (pinDetailsTab x)" "opens (unpinDetailsTab x)"
  unfolding opens_def scopeHasFocusablePane_def
  by (auto simp: openDetailsTab_def pinDetailsTab_def unpinDetailsTab_def setDetailsTabs_def Let_def
      split: option.split)

text \<open>Activation: before eviction, and eviction itself.\<close>

definition activated :: "string \<Rightarrow> app_pane \<Rightarrow> app_pane" where
  "activated sid st = st\<lparr>activeScopeId := Some sid, scopeLru := touchScopeLru (scopeLru st) sid,
     scopes := (if map_of (scopes st) sid \<noteq> None then scopes st
                else AList.update sid createEmptyScopeState (scopes st)),
     focusMode := (if truthy_id (focusMode st) \<and> focusMode st \<noteq> Some sid then None else focusMode st)\<rparr>"

lemma activateScope_activated: "activateScope sid st = evictScopesIfNeeded (activated sid st)"
  by (simp add: activateScope_def activated_def)

lemma pane_inv_activated:
  assumes "pane_inv st"
  shows "pane_inv (activated sid st)"
proof -
  have "scopes_wf (activated sid st)"
    using assms wf_empty unfolding pane_inv_def scopes_wf_def activated_def
    by (simp add: map_of_AList_update)
  moreover have "set (obj_keys (scopes (activated sid st))) = insert sid (set (obj_keys (scopes st)))"
    by (rule set_eqI, unfold obj_keys_map_of insert_iff) (auto simp: activated_def map_of_AList_update)
  then have "lru_wf (activated sid st)"
    using assms unfolding pane_inv_def lru_wf_def
    by (auto simp: activated_def touchScopeLru_def split del: if_split)
  moreover have "focus_wf (activated sid st)"
    unfolding focus_wf_def
  proof
    assume "truthy_id (focusMode (activated sid st))"
    then have f: "focusMode st = Some sid" "truthy_id (focusMode st)"
      by (auto simp: activated_def truthy_id_def split: if_splits)
    then have s: "scopeHasFocusablePane (map_of (scopes st) sid)"
      using assms unfolding pane_inv_def focus_wf_def by (metis option.sel)
    then have "map_of (scopes st) sid \<noteq> None" by (cases "map_of (scopes st) sid") (simp_all add: scopeHasFocusablePane_def)
    then have "scopes (activated sid st) = scopes st" by (simp add: activated_def)
    then show "focusMode (activated sid st) = activeScopeId (activated sid st)
        \<and> scopeHasFocusablePane (map_of (scopes (activated sid st)) (the (focusMode (activated sid st))))"
      using f s by (simp add: activated_def)
  qed
  ultimately show ?thesis unfolding pane_inv_def by blast
qed

lemma filter_take_distinct: "distinct xs \<Longrightarrow> filter (\<lambda>i. i \<in> set (take n xs)) xs = take n xs"
proof (induction xs arbitrary: n)
  case (Cons x xs)
  show ?case
  proof (cases n)
    case (Suc m)
    have "filter (\<lambda>i. i \<in> set (take n (x # xs))) xs = filter (\<lambda>i. i \<in> set (take m xs)) xs"
      using Cons.prems Suc by (intro filter_cong) auto
    then show ?thesis using Cons Suc by simp
  qed simp
qed simp

text \<open>What is left after eviction; the active scope survives unless the limit is 0.\<close>

lemma evict_result:
  assumes "pane_inv st" and "maxScopesInMemory st < length (scopes st)"
  shows "scopeLru (evictScopesIfNeeded st) = take (maxScopesInMemory st) (scopeLru st)"
    and "scopes (evictScopesIfNeeded st)
      = filter (\<lambda>(i, _). i \<in> set (take (maxScopesInMemory st) (scopeLru st))) (scopes st)"
    and "activeScopeId (evictScopesIfNeeded st)
      = (if take (maxScopesInMemory st) (scopeLru st) = [] then None else activeScopeId st)"
    and "focusMode (evictScopesIfNeeded st) =
      (if truthy_id (focusMode st) \<and> the (focusMode st) \<in> set (take (maxScopesInMemory st) (scopeLru st))
       then focusMode st else None)"
proof -
  let ?k = "take (maxScopesInMemory st) (scopeLru st)"
  have d: "distinct (scopeLru st)" and act: "activeScopeId st = (if scopeLru st = [] then None else Some (hd (scopeLru st)))"
    using assms(1) unfolding pane_inv_def lru_wf_def by blast+
  have n: "filter (\<lambda>i. i \<in> set ?k) (scopeLru st) = ?k" by (rule filter_take_distinct [OF d])
  have hd: "hd ?k = hd (scopeLru st)" if "?k \<noteq> []" using that by (cases "scopeLru st"; cases "maxScopesInMemory st") simp_all
  have sel: "(if truthy_id (activeScopeId st) \<and> the (activeScopeId st) \<in> set ?k then activeScopeId st
      else (case ?k of [] \<Rightarrow> None | i # _ \<Rightarrow> Some i)) = (if ?k = [] then None else activeScopeId st)"
  proof (cases ?k)
    case Nil
    show ?thesis unfolding Nil by simp
  next
    case (Cons i r)
    then have "scopeLru st \<noteq> []" by auto
    then have "activeScopeId st = Some i" using act hd Cons by simp
    then show ?thesis using Cons by simp
  qed
  have ev: "evictScopesIfNeeded st = st\<lparr>scopes := filter (\<lambda>(i, _). i \<in> set ?k) (scopes st), scopeLru := ?k,
      activeScopeId := (if ?k = [] then None else activeScopeId st),
      focusMode := (if truthy_id (focusMode st) \<and> the (focusMode st) \<in> set ?k then focusMode st else None)\<rparr>"
    unfolding evictScopesIfNeeded_def Let_def n sel using assms(2) by simp
  show "scopeLru (evictScopesIfNeeded st) = ?k" "activeScopeId (evictScopesIfNeeded st) = (if ?k = [] then None else activeScopeId st)"
    "scopes (evictScopesIfNeeded st) = filter (\<lambda>(i, _). i \<in> set ?k) (scopes st)"
    "focusMode (evictScopesIfNeeded st) = (if truthy_id (focusMode st) \<and> the (focusMode st) \<in> set ?k then focusMode st else None)"
    unfolding ev by simp_all
qed

lemma pane_inv_evict:
  assumes "pane_inv st"
  shows "pane_inv (evictScopesIfNeeded st)"
proof (cases "maxScopesInMemory st < length (scopes st)")
  case True
  let ?k = "take (maxScopesInMemory st) (scopeLru st)"
  let ?e = "evictScopesIfNeeded st"
  note e = evict_result [OF assms True]
  have inv: "scopes_wf st" "lru_wf st" "focus_wf st" using assms unfolding pane_inv_def by blast+
  have "scopes_wf ?e"
    using inv(1) unfolding scopes_wf_def e(2) by (simp add: map_of_filter_keys)
  moreover have "lru_wf ?e"
  proof -
    have "set ?k \<subseteq> set (obj_keys (scopes st))" "distinct ?k"
      using inv(2) set_take_subset unfolding lru_wf_def by (fast, simp)
    moreover from this(1) have "set ?k \<subseteq> set (obj_keys (filter (\<lambda>(i, _). i \<in> set ?k) (scopes st)))"
      unfolding subset_iff obj_keys_map_of map_of_filter_keys by simp
    moreover have "hd ?k = hd (scopeLru st) \<and> scopeLru st \<noteq> []" if "?k \<noteq> []"
      using that by (cases "scopeLru st"; cases "maxScopesInMemory st") simp_all
    ultimately show ?thesis using inv(2) unfolding lru_wf_def e by simp
  qed
  moreover have "focus_wf ?e"
    using inv(3) unfolding focus_wf_def e by (auto simp: map_of_filter_keys truthy_id_def)
  ultimately show ?thesis unfolding pane_inv_def by blast
qed (use assms in \<open>simp add: evictScopesIfNeeded_def\<close>)

lemma wf_focusMode [simp]:
  "scopes_wf (st\<lparr>focusMode := x\<rparr>) = scopes_wf st" "lru_wf (st\<lparr>focusMode := x\<rparr>) = lru_wf st"
  by (simp_all add: scopes_wf_def lru_wf_def)

lemma pane_inv_focus: "pane_inv st \<Longrightarrow> pane_inv (enterFocusMode sid st)"
  unfolding enterFocusMode_def pane_inv_def by (auto simp: focus_wf_def)

lemma pane_inv_exit: "pane_inv st \<Longrightarrow> pane_inv (exitFocusMode s st)"
  unfolding exitFocusMode_def pane_inv_def by (simp add: focus_wf_def truthy_id_def [of None])

lemmas pane_wf = wf_sides [THEN iffD2] wf_open wf_pin wf_unpin wf_active wf_close wf_close_tab

lemma pane_inv_step: "pane_inv st \<Longrightarrow> pane_inv (appPaneReduce st a)"
  by (cases a)
    (simp_all add: pane_inv_upsert pane_inv_closing pane_wf opens_rules opens_tabs pane_inv_focus
      pane_inv_exit activateScope_activated pane_inv_evict pane_inv_activated)

lemma pane_inv_created: "pane_inv (createAppPaneState m)"
  by (simp add: pane_inv_def scopes_wf_def lru_wf_def focus_wf_def createAppPaneState_def truthy_id_def)

interpretation pane: reducer appPaneReduce pane_inv
  by unfold_locales (rule pane_inv_step)

lemmas pane_run_inv = pane.run_inv [OF pane_inv_created]

section \<open>Properties\<close>

lemma distinct_all_equal:
  assumes "distinct xs" and "\<forall>x \<in> set xs. \<forall>y \<in> set xs. x = y"
  shows "length xs \<le> 1"
  using assms card_le_Suc0_iff_eq [of "set xs"] distinct_card [of xs] by simp

lemma limit_const: "maxScopesInMemory (appPaneReduce st a) = maxScopesInMemory st"
  by (cases a) (simp_all add: upsertScope_def clearFocusModeIfScopeCannotFocus_def activateScope_def
      evictScopesIfNeeded_def enterFocusMode_def exitFocusMode_def Let_def)

lemma limit_run: "maxScopesInMemory (foldl appPaneReduce st as) = maxScopesInMemory st"
  by (induction as arbitrary: st) (simp_all add: limit_const)

lemma length_kept_scopes:
  assumes "obj_wf m" shows "length (filter (\<lambda>(i, _). i \<in> set ks) m) \<le> length ks"
proof -
  let ?f = "filter (\<lambda>(i, _). i \<in> set ks) m"
  have "distinct (obj_keys ?f)" using assms by (simp add: obj_wf_def distinct_map_filter)
  then have "length ?f = card (set (obj_keys ?f))" by (metis distinct_card length_map)
  also have "\<dots> \<le> card (set ks)" by (rule card_mono) auto
  also have "\<dots> \<le> length ks" by (rule card_length)
  finally show ?thesis .
qed

text \<open>C14: Whatever the user does, the details pane of every scope is consistent: tabs have distinct keys
  and are pinned or preview but never both, at most one is a preview, the active tab is one of them
  and there is one unless there are no tabs, and an open details pane has a tab to show.\<close>

theorem details_pane_is_consistent:
  assumes "map_of (scopes (foldl appPaneReduce (createAppPaneState m) as)) sid = Some sc"
  shows "distinct (map key (tabs (details sc)))
    \<and> length (filter isPreview (tabs (details sc))) \<le> 1
    \<and> list_all (\<lambda>t. isPreview t \<noteq> isPinned t) (tabs (details sc))
    \<and> (activeTabKey (details sc) = None \<longleftrightarrow> tabs (details sc) = [])
    \<and> (\<forall>k. activeTabKey (details sc) = Some k \<longrightarrow> k \<in> key ` set (tabs (details sc)))
    \<and> (dp_isOpen (details sc) \<longrightarrow> tabs (details sc) \<noteq> [])"
proof -
  let ?ts = "tabs (details sc)"
  have wf: "tabs_wf ?ts (activeTabKey (details sc)) (dp_isOpen (details sc))"
    using assms pane_run_inv [of m as] unfolding pane_inv_def scopes_wf_def scope_wf_def by blast
  have "distinct (map key (filter isPreview ?ts))"
    using wf unfolding tabs_wf_def by (blast intro: distinct_map_filter)
  moreover have "\<forall>x \<in> set (map key (filter isPreview ?ts)). \<forall>y \<in> set (map key (filter isPreview ?ts)). x = y"
    using wf unfolding tabs_wf_def one_preview_def by simp
  ultimately have "length (map key (filter isPreview ?ts)) \<le> 1" by (rule distinct_all_equal)
  then have "length (filter isPreview ?ts) \<le> 1" by simp
  then show ?thesis
    using wf unfolding tabs_wf_def list_all_iff by (metis image_empty empty_iff list.set(1) not_None_eq)
qed

text \<open>Activating a scope never leaves more scopes in memory than the limit allows, keeps only
  recently used scopes when it evicts, and does not evict the scope it activates: with a limit of at
  least one that scope is active and keeps its state, or starts empty.\<close>

theorem activation_bounds_memory:
  fixes st :: app_pane
  assumes "st = foldl appPaneReduce (createAppPaneState m) as"
  shows "length (scopes (appPaneReduce st (ActivateScope sid))) \<le> m
    \<and> set (scopeLru (appPaneReduce st (ActivateScope sid))) \<subseteq> insert sid (set (scopeLru st))
    \<and> (0 < m \<longrightarrow> activeScopeId (appPaneReduce st (ActivateScope sid)) = Some sid
        \<and> map_of (scopes (appPaneReduce st (ActivateScope sid))) sid
          = Some (some_or createEmptyScopeState (map_of (scopes st) sid)))"
proof -
  have inv: "pane_inv st" and lim: "maxScopesInMemory st = m"
    unfolding assms using pane_run_inv limit_run by (blast, simp add: createAppPaneState_def)
  let ?a = "activated sid st"
  have ainv: "pane_inv ?a" using inv by (rule pane_inv_activated)
  have a: "maxScopesInMemory ?a = m" "activeScopeId ?a = Some sid" "scopeLru ?a = touchScopeLru (scopeLru st) sid"
    "map_of (scopes ?a) sid = Some (some_or createEmptyScopeState (map_of (scopes st) sid))"
    using lim by (simp_all add: activated_def map_of_AList_update) (cases "map_of (scopes st) sid", simp_all)
  have lru: "set (scopeLru ?a) \<subseteq> insert sid (set (scopeLru st))" unfolding a by (auto simp: touchScopeLru_def)
  show ?thesis
  proof (cases "m < length (scopes ?a)")
    case False
    then have "evictScopesIfNeeded ?a = ?a" using a by (simp add: evictScopesIfNeeded_def)
    then show ?thesis using False a lru by (simp add: activateScope_activated)
  next
    case True
    then have "maxScopesInMemory ?a < length (scopes ?a)" using a by simp
    note e = evict_result [OF ainv this]
    have "length (scopes (evictScopesIfNeeded ?a)) \<le> m"
      using length_kept_scopes [of "scopes ?a" "take m (scopeLru ?a)"] ainv
      unfolding e(2) a(1) pane_inv_def scopes_wf_def by simp
    moreover have "sid \<in> set (take m (scopeLru ?a))" "take m (scopeLru ?a) \<noteq> []" if "0 < m"
      using that by (cases m; simp add: a touchScopeLru_def)+
    ultimately show ?thesis
      using lru set_take_subset [of m "scopeLru ?a"] a
      by (auto simp: activateScope_activated e map_of_filter_keys)
  qed
qed

definition demo_tab :: "string \<Rightarrow> details_tab" where
  "demo_tab k = \<lparr>key = k, tab_kind = ''file'', title = k, subtitle = None, resource = JNull\<rparr>"

definition demo_pane :: "pane_action list" where
  "demo_pane = [ActivateScope ''a'', OpenDetailsTab ''a'' (demo_tab ''x'') OpenPinned,
     OpenDetailsTab ''a'' (demo_tab ''y'') OpenPreview, OpenDetailsTab ''a'' (demo_tab ''z'') OpenPreview,
     EnterFocusMode ''a'']"

lemmas pane_run = demo_pane_def demo_tab_def createAppPaneState_def activateScope_def touchScopeLru_def
  evictScopesIfNeeded_def upsertScope_def scope_or_empty_def openDetailsTab_def setDetailsTabs_def
  createEmptyScopeState_def update_tab_def details_tab.defs enterFocusMode_def
  scopeHasFocusablePane_def truthy_id_def Let_def

text \<open>The focus mode is always on the active scope, and that scope has an open right or details
  pane to focus; closing the last one of them ends it.\<close>

theorem focus_is_on_the_active_scope:
  assumes "focusMode (foldl appPaneReduce (createAppPaneState m) as) = Some sid" and "sid \<noteq> []"
  shows "activeScopeId (foldl appPaneReduce (createAppPaneState m) as) = Some sid
    \<and> (\<exists>sc. map_of (scopes (foldl appPaneReduce (createAppPaneState m) as)) sid = Some sc
          \<and> (sp_isOpen (right sc) \<or> dp_isOpen (details sc)))"
proof -
  let ?st = "foldl appPaneReduce (createAppPaneState m) as"
  have t: "truthy_id (focusMode ?st)" using assms by (simp add: truthy_id_def)
  have "focus_wf ?st" using pane_run_inv [of m as] unfolding pane_inv_def by blast
  then have "focusMode ?st = activeScopeId ?st" "scopeHasFocusablePane (map_of (scopes ?st) (the (focusMode ?st)))"
    using t unfolding focus_wf_def by blast+
  then have "activeScopeId ?st = Some sid" "scopeHasFocusablePane (map_of (scopes ?st) sid)"
    unfolding assms(1) option.sel by simp_all
  then show ?thesis
    unfolding scopeHasFocusablePane_def by (metis (no_types, lifting) option.case_eq_if option.collapse)
qed

lemma filter_tab_index:
  assumes "distinct (map key ts)" and "tab_index k ts = Some i"
  shows "filter (\<lambda>t. key t \<noteq> k) ts = take i ts @ drop (Suc i) ts"
  using assms
proof (induction ts arbitrary: i)
  case (Cons t ts)
  show ?case
  proof (cases "key t = k")
    case True
    then have "filter (\<lambda>t. key t \<noteq> k) ts = ts" using Cons.prems(1) by (intro filter_True) (auto simp: image_iff)
    then show ?thesis using True Cons.prems(2) by simp
  qed (use Cons in auto)
qed simp

text \<open>Closing the active tab removes exactly that tab and its stored state and shows its left
  neighbour, else its right one; closing the only tab closes the pane.\<close>

theorem closing_shows_a_neighbour:
  assumes "distinct (map key (tabs (details sc)))" and "tab_index k (tabs (details sc)) = Some i"
    and "activeTabKey (details sc) = Some k"
  shows "tabs (details (closeDetailsTab k sc)) = take i (tabs (details sc)) @ drop (Suc i) (tabs (details sc))
    \<and> activeTabKey (details (closeDetailsTab k sc)) =
        (if 0 < i then Some (key (tabs (details sc) ! (i - 1)))
         else if 1 < length (tabs (details sc)) then Some (key (tabs (details sc) ! 1)) else None)
    \<and> (dp_isOpen (details (closeDetailsTab k sc)) \<longleftrightarrow>
         dp_isOpen (details sc) \<and> 1 < length (tabs (details sc)))
    \<and> map_of (dp_tabState (details (closeDetailsTab k sc))) k = None"
proof -
  let ?ts = "tabs (details sc)"
  let ?nx = "filter (\<lambda>t. key t \<noteq> k) ?ts"
  note i = tab_index_Some [OF assms(2)]
  have nx: "?nx = take i ?ts @ drop (Suc i) ?ts" by (rule filter_tab_index [OF assms(1,2)])
  have len: "length ?nx = length ?ts - 1" unfolding nx using i by simp
  have l: "at_index ?nx (int i - 1) = (if 0 < i then Some (?ts ! (i - 1)) else None)"
  proof (cases i)
    case (Suc j)
    then have "j < length ?nx" using len i by linarith
    moreover have "?nx ! j = ?ts ! j" unfolding nx using Suc i by (simp add: nth_append)
    ultimately show ?thesis using Suc by (simp add: at_index_def)
  qed (simp add: at_index_def)
  have r: "at_index ?nx (int i) = (if Suc i < length ?ts then Some (?ts ! Suc i) else None)"
    unfolding nx at_index_def using i by (auto simp: nth_append)
  have e: "at_index ?nx (int (length ?nx) - 1) = None" if "length ?ts = 1"
    using that len by (simp add: at_index_def)
  have ne: "?nx \<noteq> [] \<longleftrightarrow> 1 < length ?ts" using len by (metis diff_is_0_eq length_0_conv not_le)
  have act: "first_some [map_option key (at_index ?nx (int i - 1)), map_option key (at_index ?nx (int i)),
      map_option key (at_index ?nx (int (length ?nx) - 1))] =
      (if 0 < i then Some (key (?ts ! (i - 1))) else if 1 < length ?ts then Some (key (?ts ! 1)) else None)"
    unfolding l r using e i by auto
  show ?thesis
    unfolding closeDetailsTab_def assms(2) option.case Let_def setDetailsTabs_def act ne
    using assms(3) by (simp add: nx delete_conv')
qed

theorem details_pane_is_consistent_witness:
  "\<exists>sc. map_of (scopes (foldl appPaneReduce (createAppPaneState 2) demo_pane)) ''a'' = Some sc
    \<and> length (filter isPreview (tabs (details sc))) \<le> 1 \<and> map key (tabs (details sc)) = [''x'', ''z'']"
proof -
  have "\<exists>sc. map_of (scopes (foldl appPaneReduce (createAppPaneState 2) demo_pane)) ''a'' = Some sc
      \<and> map key (tabs (details sc)) = [''x'', ''z'']"
    by (simp add: pane_run)
  then obtain sc where sc: "map_of (scopes (foldl appPaneReduce (createAppPaneState 2) demo_pane)) ''a'' = Some sc"
    and k: "map key (tabs (details sc)) = [''x'', ''z'']" by (elim exE conjE) (rule that)
  have "length (filter isPreview (tabs (details sc))) \<le> 1"
    using details_pane_is_consistent [OF sc] by (elim conjE)
  then show ?thesis using sc k by (intro exI [of _ sc] conjI)
qed

theorem activation_bounds_memory_witness:
  "length (scopes (appPaneReduce (foldl appPaneReduce (createAppPaneState 2) [ActivateScope ''a'', ActivateScope ''b''])
      (ActivateScope ''c''))) \<le> 2"
  using activation_bounds_memory [OF refl, of 2 "[ActivateScope ''a'', ActivateScope ''b'']" "''c''"] by blast

theorem focus_is_on_the_active_scope_witness:
  "activeScopeId (foldl appPaneReduce (createAppPaneState 2) demo_pane) = Some ''a''"
proof -
  have "focusMode (foldl appPaneReduce (createAppPaneState 2) demo_pane) = Some ''a''"
    by (simp add: pane_run)
  from focus_is_on_the_active_scope [OF this] show ?thesis by simp
qed

theorem closing_shows_a_neighbour_witness:
  "\<exists>sc. tabs (details (closeDetailsTab ''z'' sc)) = take 1 (tabs (details sc))
    \<and> map_of (scopes (foldl appPaneReduce (createAppPaneState 2) demo_pane)) ''a'' = Some sc"
proof -
  have "\<exists>sc. map_of (scopes (foldl appPaneReduce (createAppPaneState 2) demo_pane)) ''a'' = Some sc
      \<and> distinct (map key (tabs (details sc))) \<and> tab_index ''z'' (tabs (details sc)) = Some 1
      \<and> activeTabKey (details sc) = Some ''z'' \<and> drop (Suc 1) (tabs (details sc)) = []"
    by (simp add: pane_run)
  then obtain sc where "map_of (scopes (foldl appPaneReduce (createAppPaneState 2) demo_pane)) ''a'' = Some sc"
    and "distinct (map key (tabs (details sc)))" "tab_index ''z'' (tabs (details sc)) = Some 1"
      "activeTabKey (details sc) = Some ''z''" "drop (Suc 1) (tabs (details sc)) = []" by (elim exE conjE) (rule that)
  with closing_shows_a_neighbour [OF this(2,3,4)] show ?thesis by (metis append_Nil2)
qed

end
