(* ===== verification/ListSelection.thy ===== *)
theory ListSelection
  imports JsBase
begin

text \<open>
  Multiple selection in the session list, from
  \<open>apps/ui/sources/components/sessions/shell/selection/\<close>: the pure reducer, its range resolution
  and its state. Sets are lists without repetition in insertion order, since the code iterates over
  them. A commit that changes nothing observable returns the very same state, so that snapshots can
  be cached by version.
\<close>

section \<open>State\<close>

record list_selection =
  isSelectionMode :: bool
  selectedKeys :: "string list"
  anchorKey :: "string option"
  focusedKey :: "string option"
  visibleOrderedKeys :: "string list"
  eligibleKeys :: "string list"
  scopeKey :: string
  version :: nat

datatype selection_action =
    Enter "string option"
  | Exit
  | Clear
  | Replace string
  | Toggle string
  | SelectRange string bool
  | SelectAllVisible
  | SetSelectedKeys "string list"
  | SetFocusedKey "string option"
  | SetVisibleOrder "string list" "string list option"
  | ResetScope string "string list" "string list option"

section \<open>Helpers\<close>

definition normalizeKeys :: "string list \<Rightarrow> string list" where
  "normalizeKeys ks = filter (\<lambda>k. k \<noteq> []) (map trim ks)"

definition createEligibleKeys :: "string list \<Rightarrow> string list option \<Rightarrow> string list" where
  "createEligibleKeys visible eligible =
     (case eligible of None \<Rightarrow> oset_of (normalizeKeys visible) | Some ks \<Rightarrow> oset_of (normalizeKeys ks))"

definition setsEqual :: "string list \<Rightarrow> string list \<Rightarrow> bool" where
  "setsEqual l r \<longleftrightarrow> length l = length r \<and> list_all (\<lambda>v. v \<in> set r) l"

definition isEligible :: "list_selection \<Rightarrow> string option \<Rightarrow> bool" where
  "isEligible st k \<longleftrightarrow> k \<noteq> None \<and> the k \<in> set (eligibleKeys st)"

definition firstSelectedVisibleKey :: "string list \<Rightarrow> string list \<Rightarrow> string option" where
  "firstSelectedVisibleKey sel visible = List.find (\<lambda>k. k \<in> set sel) visible"

text \<open>\<open>a && P(a)\<close> for an id that may be \<open>null\<close> or empty.\<close>

definition key_and :: "string option \<Rightarrow> (string \<Rightarrow> bool) \<Rightarrow> bool" where
  "key_and k P \<longleftrightarrow> k \<noteq> None \<and> the k \<noteq> [] \<and> P (the k)"

definition prune_selected :: "list_selection \<Rightarrow> string list \<Rightarrow> string list" where
  "prune_selected st eligible = filter (\<lambda>k. k \<in> set eligible) (selectedKeys st)"

definition pruneState :: "list_selection \<Rightarrow> string list \<Rightarrow> string list
    \<Rightarrow> string list \<times> string option \<times> string option" where
  "pruneState st visible eligible =
     (let sel = prune_selected st eligible in
      (sel,
       if key_and (anchorKey st) (\<lambda>a. a \<in> set sel \<and> a \<in> set eligible) then anchorKey st
       else firstSelectedVisibleKey sel visible,
       if key_and (focusedKey st) (\<lambda>f. f \<in> set visible \<and> f \<in> set eligible) then focusedKey st
       else firstSelectedVisibleKey sel visible))"

definition commit :: "list_selection \<Rightarrow> list_selection \<Rightarrow> list_selection" where
  "commit st nx =
     (if isSelectionMode st = isSelectionMode nx \<and> scopeKey st = scopeKey nx
         \<and> anchorKey st = anchorKey nx \<and> focusedKey st = focusedKey nx
         \<and> visibleOrderedKeys st = visibleOrderedKeys nx
         \<and> setsEqual (eligibleKeys st) (eligibleKeys nx) \<and> setsEqual (selectedKeys st) (selectedKeys nx)
      then st else nx\<lparr>version := version st + 1\<rparr>)"

definition createInitialSessionListSelectionState ::
    "string \<Rightarrow> string list \<Rightarrow> string list option \<Rightarrow> list_selection" where
  "createInitialSessionListSelectionState sk visible eligible =
     \<lparr>isSelectionMode = False, selectedKeys = [], anchorKey = None, focusedKey = None,
      visibleOrderedKeys = normalizeKeys visible,
      eligibleKeys = createEligibleKeys (normalizeKeys visible) eligible,
      scopeKey = sk, version = 0\<rparr>"

section \<open>Ranges\<close>

text \<open>\<open>indexOf\<close>, -1 when absent, and \<open>slice\<close> with bounds in range.\<close>

fun index_of :: "'a \<Rightarrow> 'a list \<Rightarrow> nat option" where
  "index_of x [] = None"
| "index_of x (y # ys) = (if y = x then Some 0 else map_option Suc (index_of x ys))"

definition slice :: "nat \<Rightarrow> nat \<Rightarrow> 'a list \<Rightarrow> 'a list" where
  "slice a b xs = drop a (take b xs)"

definition resolveSessionListSelectionRange ::
    "string list \<Rightarrow> string option \<Rightarrow> string \<Rightarrow> string list option \<Rightarrow> string list" where
  "resolveSessionListSelectionRange visible anchor target eligible =
     (let ok = (\<lambda>k. case eligible of None \<Rightarrow> True | Some e \<Rightarrow> k \<in> set e) in
      if target \<notin> set visible then []
      else if \<not> ok target then []
      else case index_of target visible of None \<Rightarrow> []
        | Some t \<Rightarrow>
           (case (if key_and anchor (\<lambda>_. True) then index_of (the anchor) visible else None) of
              None \<Rightarrow> [target]
            | Some a \<Rightarrow> filter ok (slice (min a t) (max a t + 1) visible)))"

section \<open>Actions\<close>

definition on_enter :: "string option \<Rightarrow> list_selection \<Rightarrow> list_selection" where
  "on_enter k st =
     (let sel = (if isEligible st k then [the k] else []);
          a = (if sel \<noteq> [] then k else None)
      in commit st (st\<lparr>isSelectionMode := True, selectedKeys := sel, anchorKey := a, focusedKey := a\<rparr>))"

definition on_exit :: "list_selection \<Rightarrow> list_selection" where
  "on_exit st = commit st (st\<lparr>isSelectionMode := False, selectedKeys := [], anchorKey := None, focusedKey := None\<rparr>)"

definition on_replace :: "string \<Rightarrow> list_selection \<Rightarrow> list_selection" where
  "on_replace k st =
     (if \<not> isEligible st (Some k) then st
      else commit st (st\<lparr>isSelectionMode := True, selectedKeys := [k], anchorKey := Some k, focusedKey := Some k\<rparr>))"

definition on_toggle :: "string \<Rightarrow> list_selection \<Rightarrow> list_selection" where
  "on_toggle k st =
     (if \<not> isEligible st (Some k) then st
      else let sel = (if k \<in> set (selectedKeys st) then filter (\<lambda>x. x \<noteq> k) (selectedKeys st)
                      else oset_add k (selectedKeys st));
               a = (if sel \<noteq> [] then Some k else None)
           in commit st (st\<lparr>isSelectionMode := (sel \<noteq> []), selectedKeys := sel, anchorKey := a, focusedKey := a\<rparr>))"

definition range_anchor :: "list_selection \<Rightarrow> string option" where
  "range_anchor st =
     (if key_and (anchorKey st) (\<lambda>a. a \<in> set (eligibleKeys st) \<and> a \<in> set (visibleOrderedKeys st))
      then anchorKey st else None)"

definition on_range :: "string \<Rightarrow> bool \<Rightarrow> list_selection \<Rightarrow> list_selection" where
  "on_range target add st =
     (let range = resolveSessionListSelectionRange (visibleOrderedKeys st) (range_anchor st) target
                    (Some (eligibleKeys st))
      in if range = [] then st
         else commit st (st\<lparr>isSelectionMode := True,
                selectedKeys := oset_adds (if add then selectedKeys st else []) range,
                anchorKey := first_some [range_anchor st, Some target], focusedKey := Some target\<rparr>))"

definition select_keys :: "string list \<Rightarrow> list_selection \<Rightarrow> list_selection" where
  "select_keys ks st =
     (let sel = oset_of (filter (\<lambda>k. k \<in> set (eligibleKeys st)) ks);
          f = firstSelectedVisibleKey sel (visibleOrderedKeys st)
      in commit st (st\<lparr>isSelectionMode := (sel \<noteq> []), selectedKeys := sel, anchorKey := f, focusedKey := f\<rparr>))"

definition on_select_all :: "list_selection \<Rightarrow> list_selection" where
  "on_select_all st = select_keys (visibleOrderedKeys st) st"

definition on_set_selected :: "string list \<Rightarrow> list_selection \<Rightarrow> list_selection" where
  "on_set_selected ks st = select_keys (oset_of (normalizeKeys ks)) st"

definition on_focus :: "string option \<Rightarrow> list_selection \<Rightarrow> list_selection" where
  "on_focus k st = commit st (st\<lparr>focusedKey := (if isEligible st k then k else None)\<rparr>)"

definition on_visible_order :: "string list \<Rightarrow> string list option \<Rightarrow> list_selection \<Rightarrow> list_selection" where
  "on_visible_order visible eligible st =
     (let v = normalizeKeys visible; e = createEligibleKeys v eligible in
      case pruneState st v e of (sel, a, f) \<Rightarrow>
        commit st (st\<lparr>isSelectionMode := (sel \<noteq> []), visibleOrderedKeys := v, eligibleKeys := e,
                      selectedKeys := sel, anchorKey := a, focusedKey := f\<rparr>))"

definition on_reset_scope :: "string \<Rightarrow> string list \<Rightarrow> string list option \<Rightarrow> list_selection \<Rightarrow> list_selection" where
  "on_reset_scope sk visible eligible st =
     (if sk = scopeKey st then on_visible_order visible eligible st
      else let v = normalizeKeys visible; e = createEligibleKeys v eligible in
        commit st (st\<lparr>isSelectionMode := False, selectedKeys := [], anchorKey := None, focusedKey := None,
                      visibleOrderedKeys := v, eligibleKeys := e, scopeKey := sk\<rparr>))"

fun reduceSessionListSelection :: "list_selection \<Rightarrow> selection_action \<Rightarrow> list_selection" where
  "reduceSessionListSelection st (Enter k) = on_enter k st"
| "reduceSessionListSelection st Exit = on_exit st"
| "reduceSessionListSelection st Clear = on_exit st"
| "reduceSessionListSelection st (Replace k) = on_replace k st"
| "reduceSessionListSelection st (Toggle k) = on_toggle k st"
| "reduceSessionListSelection st (SelectRange t a) = on_range t a st"
| "reduceSessionListSelection st SelectAllVisible = on_select_all st"
| "reduceSessionListSelection st (SetSelectedKeys ks) = on_set_selected ks st"
| "reduceSessionListSelection st (SetFocusedKey k) = on_focus k st"
| "reduceSessionListSelection st (SetVisibleOrder v e) = on_visible_order v e st"
| "reduceSessionListSelection st (ResetScope sk v e) = on_reset_scope sk v e st"

section \<open>Invariant\<close>

text \<open>
  Selected keys are eligible, anchor and focus are eligible, nothing is selected or anchored outside
  the selection mode, and the keys known to the reducer are trimmed and not empty.
\<close>

definition keys_normal :: "string list \<Rightarrow> bool" where
  "keys_normal ks \<longleftrightarrow> (\<forall>k \<in> set ks. k \<noteq> [] \<and> trim k = k)"

definition selection_wf :: "list_selection \<Rightarrow> bool" where
  "selection_wf st \<longleftrightarrow> distinct (selectedKeys st) \<and> set (selectedKeys st) \<subseteq> set (eligibleKeys st)
     \<and> set_option (anchorKey st) \<subseteq> set (eligibleKeys st) \<and> set_option (focusedKey st) \<subseteq> set (eligibleKeys st)
     \<and> (\<not> isSelectionMode st \<longrightarrow> selectedKeys st = [] \<and> anchorKey st = None)"

definition selection_inv :: "list_selection \<Rightarrow> bool" where
  "selection_inv st \<longleftrightarrow> selection_wf st \<and> distinct (eligibleKeys st)
     \<and> keys_normal (eligibleKeys st) \<and> keys_normal (visibleOrderedKeys st)"

text \<open>What a snapshot shows; the order of the sets is not part of it.\<close>

definition observed where
  "observed st = (isSelectionMode st, set (selectedKeys st), anchorKey st, focusedKey st,
                  visibleOrderedKeys st, set (eligibleKeys st), scopeKey st)"

lemma selection_inv_version [simp]: "selection_inv (st\<lparr>version := v\<rparr>) = selection_inv st"
  by (simp add: selection_inv_def selection_wf_def)

lemma observed_version [simp]: "observed (st\<lparr>version := v\<rparr>) = observed st"
  by (simp add: observed_def)

lemma setsEqual_iff: "distinct l \<Longrightarrow> distinct r \<Longrightarrow> setsEqual l r \<longleftrightarrow> set l = set r"
  unfolding setsEqual_def list_all_iff
  by (metis card_subset_eq distinct_card List.finite_set subsetI)

lemma commit_observed:
  assumes "selection_inv st" and "selection_inv nx"
  shows "commit st nx = (if observed st = observed nx then st else nx\<lparr>version := version st + 1\<rparr>)"
proof -
  have "setsEqual (eligibleKeys st) (eligibleKeys nx) \<longleftrightarrow> set (eligibleKeys st) = set (eligibleKeys nx)"
    "setsEqual (selectedKeys st) (selectedKeys nx) \<longleftrightarrow> set (selectedKeys st) = set (selectedKeys nx)"
    using assms by (simp_all add: setsEqual_iff selection_inv_def selection_wf_def)
  then show ?thesis unfolding commit_def observed_def by simp
qed

lemma keys_normal_normalize: "keys_normal (normalizeKeys ks)"
  by (auto simp: keys_normal_def normalizeKeys_def)

lemma keys_normal_eligible: "keys_normal (createEligibleKeys v e)" "distinct (createEligibleKeys v e)"
  using keys_normal_normalize
  by (simp_all add: createEligibleKeys_def keys_normal_def split: option.split)

lemma first_visible_in: "set_option (firstSelectedVisibleKey sel v) \<subseteq> set sel"
  by (cases "firstSelectedVisibleKey sel v") (auto simp: firstSelectedVisibleKey_def dest: find_SomeD)

lemma first_visible_none: "firstSelectedVisibleKey [] v = None"
  by (simp add: firstSelectedVisibleKey_def find_None_iff)

lemma range_subset: "set (resolveSessionListSelectionRange v a t (Some e)) \<subseteq> set e"
  by (auto simp: resolveSessionListSelectionRange_def Let_def split: option.splits if_splits)

text \<open>Every action returns the state itself or commits a well-formed one.\<close>

definition commits :: "list_selection \<Rightarrow> list_selection \<Rightarrow> bool" where
  "commits st st' \<longleftrightarrow> st' = st \<or> (\<exists>nx. selection_inv nx \<and> st' = commit st nx)"

lemma commits_upd:
  assumes "selection_inv st" and "distinct sel" and "set sel \<subseteq> set (eligibleKeys st)"
    and "set_option a \<subseteq> set (eligibleKeys st)" and "set_option f \<subseteq> set (eligibleKeys st)"
    and "\<not> m \<Longrightarrow> sel = [] \<and> a = None"
  shows "commits st (commit st (st\<lparr>isSelectionMode := m, selectedKeys := sel, anchorKey := a, focusedKey := f\<rparr>))"
  unfolding commits_def using assms
  by (intro disjI2 exI [of _ "st\<lparr>isSelectionMode := m, selectedKeys := sel, anchorKey := a, focusedKey := f\<rparr>"])
    (simp add: selection_inv_def selection_wf_def)

lemma commits_keys:
  assumes "selection_inv st"
  shows "commits st (on_enter k st)" "commits st (on_exit st)" "commits st (on_replace j st)"
    "commits st (select_keys ks st)"
proof -
  show "commits st (on_enter k st)"
    unfolding on_enter_def Let_def
    by (rule commits_upd [OF assms]) (auto simp: isEligible_def)
  show "commits st (on_exit st)" unfolding on_exit_def by (rule commits_upd [OF assms]) simp_all
  show "commits st (on_replace j st)"
  proof (cases "isEligible st (Some j)")
    case True
    then show ?thesis
      unfolding on_replace_def by (simp, intro commits_upd [OF assms]) (simp_all add: isEligible_def)
  qed (simp add: on_replace_def commits_def)
  let ?sel = "oset_of (filter (\<lambda>k. k \<in> set (eligibleKeys st)) ks)"
  have f: "set_option (firstSelectedVisibleKey ?sel (visibleOrderedKeys st)) \<subseteq> set (eligibleKeys st)"
    using first_visible_in [of ?sel] by fastforce
  show "commits st (select_keys ks st)"
    unfolding select_keys_def Let_def
    by (rule commits_upd [OF assms _ _ f f]) (auto simp: first_visible_none)
qed

lemma commits_toggle:
  assumes "selection_inv st"
  shows "commits st (on_toggle k st)"
proof (cases "isEligible st (Some k)")
  case True
  let ?sel = "if k \<in> set (selectedKeys st) then filter (\<lambda>x. x \<noteq> k) (selectedKeys st) else oset_add k (selectedKeys st)"
  have "distinct ?sel" "set ?sel \<subseteq> set (eligibleKeys st)" "k \<in> set (eligibleKeys st)"
    using assms True by (auto simp: selection_inv_def selection_wf_def isEligible_def)
  then show ?thesis
    using True unfolding on_toggle_def Let_def
    by (simp only: if_False not_True_eq_False, intro commits_upd [OF assms]) simp_all
qed (simp add: on_toggle_def commits_def)

lemma commits_range:
  assumes "selection_inv st"
  shows "commits st (on_range t add st)"
proof -
  let ?r = "resolveSessionListSelectionRange (visibleOrderedKeys st) (range_anchor st) t (Some (eligibleKeys st))"
  show ?thesis
  proof (cases "?r = []")
    case False
    have t: "t \<in> set (eligibleKeys st)"
      using False by (auto simp: resolveSessionListSelectionRange_def Let_def split: if_splits)
    have "set_option (range_anchor st) \<subseteq> set (eligibleKeys st)"
      by (auto simp: range_anchor_def key_and_def split: if_splits)
    then have a: "set_option (first_some [range_anchor st, Some t]) \<subseteq> set (eligibleKeys st)"
      using t by (cases "range_anchor st") simp_all
    have "set (oset_adds (if add then selectedKeys st else []) ?r) \<subseteq> set (eligibleKeys st)"
      using assms range_subset [of _ _ t "eligibleKeys st"] by (auto simp: selection_inv_def selection_wf_def)
    moreover have "distinct (oset_adds (if add then selectedKeys st else []) ?r)"
      using assms by (simp add: selection_inv_def selection_wf_def)
    ultimately show ?thesis
      using False t unfolding on_range_def Let_def
      by (simp only: if_False, intro commits_upd [OF assms _ _ a]) simp_all
  qed (simp add: on_range_def commits_def)
qed

lemma commits_scope:
  assumes "selection_inv st"
  shows "commits st (on_visible_order v e st)" "commits st (on_reset_scope sk v e st)"
proof -
  let ?v = "normalizeKeys v" and ?e = "createEligibleKeys (normalizeKeys v) e"
  have norm: "keys_normal ?v" "keys_normal ?e" "distinct ?e"
    by (rule keys_normal_normalize keys_normal_eligible)+
  obtain sel a f where p: "pruneState st ?v ?e = (sel, a, f)" by (metis prod_cases3)
  then have sel: "sel = prune_selected st ?e" by (simp add: pruneState_def Let_def)
  have fv: "set_option (firstSelectedVisibleKey sel ?v) \<subseteq> set ?e"
    using first_visible_in [of sel ?v] by (auto simp: sel prune_selected_def)
  have "set_option a \<subseteq> set ?e" "set_option f \<subseteq> set ?e"
    using p fv by (auto simp: pruneState_def Let_def key_and_def sel split: if_splits)
  moreover have "a = None" if "sel = []"
    using p that by (auto simp: pruneState_def Let_def key_and_def sel [symmetric] first_visible_none split: if_splits)
  moreover have "distinct sel" "set sel \<subseteq> set ?e"
    using assms by (auto simp: sel prune_selected_def selection_inv_def selection_wf_def)
  ultimately have "selection_inv (st\<lparr>isSelectionMode := (sel \<noteq> []), visibleOrderedKeys := ?v, eligibleKeys := ?e,
                      selectedKeys := sel, anchorKey := a, focusedKey := f\<rparr>)"
    using norm by (simp add: selection_inv_def selection_wf_def)
  then show vo: "commits st (on_visible_order v e st)"
    unfolding on_visible_order_def Let_def p commits_def by auto
  have "selection_inv (st\<lparr>isSelectionMode := False, selectedKeys := [], anchorKey := None, focusedKey := None,
      visibleOrderedKeys := ?v, eligibleKeys := ?e, scopeKey := sk\<rparr>)"
    using norm by (simp add: selection_inv_def selection_wf_def)
  then show "commits st (on_reset_scope sk v e st)"
    using vo unfolding on_reset_scope_def Let_def commits_def by auto
qed

lemma reduce_commits:
  assumes "selection_inv st"
  shows "commits st (reduceSessionListSelection st a)"
proof (cases a)
  case (SetFocusedKey k)
  have "commits st (commit st (st\<lparr>focusedKey := (if isEligible st k then k else None)\<rparr>))"
    using assms unfolding commits_def
    by (intro disjI2 exI [of _ "st\<lparr>focusedKey := (if isEligible st k then k else None)\<rparr>"])
      (auto simp: selection_inv_def selection_wf_def isEligible_def)
  then show ?thesis using SetFocusedKey by (simp add: on_focus_def)
qed (simp_all add: commits_keys commits_toggle commits_range commits_scope on_select_all_def
    on_set_selected_def assms)

lemma commits_inv: "selection_inv st \<Longrightarrow> commits st st' \<Longrightarrow> selection_inv st'"
  unfolding commits_def using commit_observed by (elim disjE exE conjE) (simp_all split: if_split)

lemma commits_version:
  "selection_inv st \<Longrightarrow> commits st st' \<Longrightarrow>
     (observed st' = observed st \<longleftrightarrow> st' = st)
     \<and> version st' = (if observed st' = observed st then version st else version st + 1)"
proof -
  assume inv: "selection_inv st" and "commits st st'"
  then consider "st' = st" | nx where "selection_inv nx" "st' = commit st nx" unfolding commits_def by blast
  then show ?thesis
  proof cases
    case 2
    then have st': "st' = (if observed st = observed nx then st else nx\<lparr>version := version st + 1\<rparr>)"
      using commit_observed [OF inv] by simp
    show ?thesis
    proof (cases "observed st = observed nx")
      case False
      then have "observed st' = observed nx" "version st' = version st + 1" using st' by simp_all
      then show ?thesis using False by auto
    qed (use st' in simp)
  qed simp
qed

lemma selection_inv_created: "selection_inv (createInitialSessionListSelectionState sk v e)"
  by (simp add: createInitialSessionListSelectionState_def selection_inv_def selection_wf_def
      keys_normal_normalize keys_normal_eligible)

interpretation selection: monotone_reducer reduceSessionListSelection selection_inv version
  by unfold_locales (use reduce_commits commits_inv commits_version in \<open>blast, fastforce\<close>)

lemmas selection_run_inv = selection.run_inv [OF selection_inv_created]

section \<open>Properties\<close>

text \<open>After any actions the selection is consistent with the list it was last told about: selected
  keys are eligible, each once, anchor and focus are eligible, and outside the selection mode nothing
  is selected or anchored.\<close>

theorem selection_stays_eligible:
  "distinct (selectedKeys (foldl reduceSessionListSelection (createInitialSessionListSelectionState sk v e) as))
   \<and> set (selectedKeys (foldl reduceSessionListSelection (createInitialSessionListSelectionState sk v e) as))
     \<union> set_option (anchorKey (foldl reduceSessionListSelection (createInitialSessionListSelectionState sk v e) as))
     \<union> set_option (focusedKey (foldl reduceSessionListSelection (createInitialSessionListSelectionState sk v e) as))
     \<subseteq> set (eligibleKeys (foldl reduceSessionListSelection (createInitialSessionListSelectionState sk v e) as))
   \<and> (isSelectionMode (foldl reduceSessionListSelection (createInitialSessionListSelectionState sk v e) as)
      \<or> selectedKeys (foldl reduceSessionListSelection (createInitialSessionListSelectionState sk v e) as) = []
        \<and> anchorKey (foldl reduceSessionListSelection (createInitialSessionListSelectionState sk v e) as) = None)
   \<and> [] \<notin> set (eligibleKeys (foldl reduceSessionListSelection (createInitialSessionListSelectionState sk v e) as))"
  using selection_run_inv [of sk v e as]
  unfolding selection_inv_def selection_wf_def keys_normal_def by blast

text \<open>C20: The version tells snapshots apart exactly: an action changes it, by one, if and only if it
  changes what a snapshot shows, and otherwise returns the very same state; so once a later state has
  the version of an earlier one they are the same.\<close>

theorem version_counts_changes:
  assumes "st = foldl reduceSessionListSelection (createInitialSessionListSelectionState sk v e) as"
  shows "version (reduceSessionListSelection st a)
      = (if observed (reduceSessionListSelection st a) = observed st then version st else version st + 1)
    \<and> (observed (reduceSessionListSelection st a) = observed st \<longleftrightarrow> reduceSessionListSelection st a = st)
    \<and> (version st < version (foldl reduceSessionListSelection st later)
       \<or> foldl reduceSessionListSelection st (take n later) = st)"
proof -
  have inv: "selection_inv st" unfolding assms by (rule selection_run_inv)
  have "foldl reduceSessionListSelection st (take n later) = st"
    if "version (foldl reduceSessionListSelection st later) = version st"
    using inv that
  proof (induction later arbitrary: n)
    case (Cons b bs)
    let ?s = "reduceSessionListSelection st b"
    have "version st \<le> version ?s" "version ?s \<le> version (foldl reduceSessionListSelection ?s bs)"
      using selection.step_mono selection.run_mono selection.step_inv Cons.prems(1) by blast+
    then have "version ?s = version st" using Cons.prems(2) by simp
    then have s: "?s = st"
      using commits_version [OF Cons.prems(1) reduce_commits [OF Cons.prems(1), of b]] by (metis n_not_Suc_n Suc_eq_plus1)
    then show ?case using Cons by (cases n) simp_all
  qed simp
  moreover have "version st \<le> version (foldl reduceSessionListSelection st later)"
    using inv by (rule selection.run_mono)
  ultimately show ?thesis
    using commits_version [OF inv reduce_commits [OF inv, of a]] by (auto simp: le_less)
qed

text \<open>Ranges.\<close>

lemma index_of_Some: "index_of x xs = Some i \<Longrightarrow> i < length xs \<and> xs ! i = x"
  by (induction xs arbitrary: i) (auto split: if_splits)

lemma set_slice:
  assumes "b \<le> length xs" shows "set (slice a b xs) = {xs ! n | n. a \<le> n \<and> n < b}"
proof (intro set_eqI iffI)
  fix x assume "x \<in> set (slice a b xs)"
  then obtain m where "m < length (drop a (take b xs))" "drop a (take b xs) ! m = x"
    unfolding slice_def in_set_conv_nth by blast
  then show "x \<in> {xs ! n | n. a \<le> n \<and> n < b}"
    using assms by (intro CollectI exI [of _ "a + m"]) simp
next
  fix x assume "x \<in> {xs ! n | n. a \<le> n \<and> n < b}"
  then obtain n where n: "a \<le> n" "n < b" "x = xs ! n" by blast
  then have "n - a < length (drop a (take b xs))" "drop a (take b xs) ! (n - a) = x"
    using assms by simp_all
  then show "x \<in> set (slice a b xs)" unfolding slice_def by (metis nth_mem)
qed

lemma commit_fields:
  assumes "selection_inv st" and "selection_inv nx"
  shows "set (selectedKeys (commit st nx)) = set (selectedKeys nx)" "anchorKey (commit st nx) = anchorKey nx"
    "focusedKey (commit st nx) = focusedKey nx"
  unfolding commit_observed [OF assms] by (simp_all add: observed_def)

text \<open>Selecting a range from an anchor selects exactly the eligible rows shown between the anchor
  and the target, both included and whichever comes first, in addition to the previous selection or
  instead of it, and keeps the anchor for the next range.\<close>

theorem range_selects_between:
  assumes "selection_inv st" and "anchorKey st = Some a"
    and "index_of a (visibleOrderedKeys st) = Some i" and "index_of t (visibleOrderedKeys st) = Some j"
    and "t \<in> set (eligibleKeys st)"
  shows "set (selectedKeys (reduceSessionListSelection st (SelectRange t add))) =
      (if add then set (selectedKeys st) else {})
      \<union> {visibleOrderedKeys st ! n | n. min i j \<le> n \<and> n \<le> max i j \<and> visibleOrderedKeys st ! n \<in> set (eligibleKeys st)}
    \<and> {a, t} \<subseteq> set (selectedKeys (reduceSessionListSelection st (SelectRange t add)))
    \<and> anchorKey (reduceSessionListSelection st (SelectRange t add)) = Some a
    \<and> focusedKey (reduceSessionListSelection st (SelectRange t add)) = Some t"
proof -
  let ?v = "visibleOrderedKeys st" and ?e = "eligibleKeys st"
  let ?between = "{?v ! n | n. min i j \<le> n \<and> n \<le> max i j \<and> ?v ! n \<in> set ?e}"
  have i: "i < length ?v" "?v ! i = a" and j: "j < length ?v" "?v ! j = t"
    using index_of_Some [OF assms(3)] index_of_Some [OF assms(4)] by simp_all
  have a: "a \<in> set ?e" "a \<noteq> []"
    using assms(1,2) unfolding selection_inv_def selection_wf_def keys_normal_def by auto
  have anchor: "range_anchor st = Some a"
    using a i assms(2) nth_mem [OF i(1)] by (simp add: range_anchor_def key_and_def)
  let ?r = "resolveSessionListSelectionRange ?v (Some a) t (Some ?e)"
  have r: "?r = filter (\<lambda>k. k \<in> set ?e) (slice (min i j) (max i j + 1) ?v)"
    using a assms(3-5) nth_mem [OF j(1)] j by (simp add: resolveSessionListSelectionRange_def key_and_def)
  have "set ?r = ?between"
    unfolding r set_filter using i j set_slice [of "max i j + 1" ?v "min i j"] by auto
  moreover have "a \<in> ?between" "t \<in> ?between" using i j a assms(5) by fastforce+
  ultimately have set_r: "set ?r = ?between" "a \<in> set ?r" "t \<in> set ?r" by simp_all
  let ?nx = "st\<lparr>isSelectionMode := True, selectedKeys := oset_adds (if add then selectedKeys st else []) ?r,
                anchorKey := Some a, focusedKey := Some t\<rparr>"
  have run: "reduceSessionListSelection st (SelectRange t add) = commit st ?nx"
    using set_r(2) by (auto simp: on_range_def anchor Let_def)
  have nx: "selection_inv ?nx"
    using assms(1,5) a set_r by (auto simp: selection_inv_def selection_wf_def)
  have "set (selectedKeys ?nx) = (if add then set (selectedKeys st) else {}) \<union> set ?r" by simp
  then show ?thesis
    unfolding run commit_fields [OF assms(1) nx] using set_r by simp
qed

definition demo_selection :: list_selection where
  "demo_selection = foldl reduceSessionListSelection
     (createInitialSessionListSelectionState ''s'' [''a'', ''b'', ''c'', ''d''] (Some [''a'', ''c'', ''d'']))
     [Enter (Some ''d'')]"

lemmas selection_run = demo_selection_def createInitialSessionListSelectionState_def normalizeKeys_def
  createEligibleKeys_def oset_adds_def oset_add_def trim_def js_ws_def on_enter_def isEligible_def commit_def
  on_toggle_def on_range_def range_anchor_def resolveSessionListSelectionRange_def key_and_def slice_def
  setsEqual_def Let_def

theorem version_counts_changes_witness:
  "version (reduceSessionListSelection demo_selection (Toggle ''b'')) = version demo_selection"
proof -
  have "observed (reduceSessionListSelection demo_selection (Toggle ''b'')) = observed demo_selection"
    by (simp add: selection_run)
  then show ?thesis using version_counts_changes [OF demo_selection_def, of "Toggle ''b''"] by simp
qed

theorem range_selects_between_witness:
  "{''d'', ''a''} \<subseteq> set (selectedKeys (reduceSessionListSelection demo_selection (SelectRange ''a'' False)))"
proof -
  have "selection_inv demo_selection" unfolding demo_selection_def by (rule selection_run_inv)
  moreover have "anchorKey demo_selection = Some ''d''" "index_of ''d'' (visibleOrderedKeys demo_selection) = Some 3"
    "index_of ''a'' (visibleOrderedKeys demo_selection) = Some 0" "''a'' \<in> set (eligibleKeys demo_selection)"
    by (simp_all add: selection_run)
  ultimately show ?thesis
    using range_selects_between [of demo_selection "''d''" 3 "''a''" 0 False] by blast
qed

end
