(* ===== verification/ChangesPlanner.thy ===== *)
theory ChangesPlanner
  imports JsBase
begin

text \<open>
  Catching up with the change feed of the server, from \<open>apps/ui/sources/sync/runtime/orchestration/\<close>:
  \<open>changesPlanner.ts\<close> classifies each change and plans what to refresh, and the checkpoint loop of
  \<open>changesApplier.ts\<close> decides how far the cursor may advance once the refreshes have run. The
  outcome of the asynchronous refreshes is a parameter of the loop. Sets are lists in insertion
  order; hints are dynamic values.
\<close>

section \<open>Changes\<close>

record change_entry =
  cursor :: nat
  kind :: string
  entityId :: string
  hint :: jsval

datatype kv_action = KvNone | KvRefresh | KvBulk "string list"

datatype assignments_action =
    AssignNone
  | AssignSessions "string list" "string list"
  | AssignFolders "string list"

record unsupported_marker =
  u_cursor :: string
  u_kind :: string
  u_entityId :: string

datatype checkpoint_decision = Critical | SkippedByPolicy | Unsupported

datatype blocked_reason = UnsupportedKind | PartialMaterialization | PendingNotConverged

record classification =
  c_kind :: string
  c_cursor :: string
  c_entityId :: string
  c_decision :: checkpoint_decision
  plannerOwner :: string
  snapshotDomain :: "string option"
  materializationProof :: "string option"
  blockedReason :: "blocked_reason option"

definition CHANGE_CHECKPOINT_COVERAGE :: "(string \<times> string \<times> string) list" where
  "CHANGE_CHECKPOINT_COVERAGE =
     [(''account'', ''account'', ''account-settings-profile''),
      (''automation'', ''automations'', ''automations''),
      (''artifact'', ''artifacts'', ''artifacts''),
      (''feed'', ''feed'', ''feed''),
      (''friends'', ''friends'', ''friends''),
      (''friend_request'', ''friends'', ''friends''),
      (''friend_accepted'', ''friends'', ''friends''),
      (''kv'', ''kv'', ''todos''),
      (''machine'', ''machines'', ''machines''),
      (''pet'', ''pets'', ''account-pets''),
      (''session'', ''sessions'', ''sessions-and-session-messages''),
      (''share'', ''sessions'', ''sessions'')]"

definition knownChangeKinds :: "string list" where
  "knownChangeKinds =
     [''account'', ''automation'', ''artifact'', ''feed'', ''friends'', ''friend_request'', ''friend_accepted'',
      ''kv'', ''machine'', ''pet'', ''session'', ''share'']"

definition isKnownChangeKind :: "string \<Rightarrow> bool" where
  "isKnownChangeKind k \<longleftrightarrow> k \<in> set knownChangeKinds"

section \<open>Hints\<close>

fun is_number :: "jsval \<Rightarrow> bool" where
  "is_number (JNum _) = True"
| "is_number _ = False"

definition hasPendingHint :: "change_entry \<Rightarrow> bool" where
  "hasPendingHint ch \<longleftrightarrow> is_record (hint ch)
     \<and> (is_number (prop_get (hint ch) ''pendingVersion'') \<or> is_number (prop_get (hint ch) ''pendingCount''))"

definition isSessionFolderAssignmentHint :: "change_entry \<Rightarrow> bool" where
  "isSessionFolderAssignmentHint ch \<longleftrightarrow> is_record (hint ch)
     \<and> prop_get (hint ch) ''sessionFolderAssignment'' = JBool True"

definition isBulkSessionFolderAssignmentsHint :: "change_entry \<Rightarrow> bool" where
  "isBulkSessionFolderAssignmentsHint ch \<longleftrightarrow> is_record (hint ch)
     \<and> prop_get (hint ch) ''sessionFolderAssignments'' = JBool True"

fun trimmed_text :: "jsval \<Rightarrow> string option" where
  "trimmed_text (JStr s) = trim_or_none s"
| "trimmed_text _ = None"

definition readHintFolderId :: "change_entry \<Rightarrow> string option" where
  "readHintFolderId ch =
     (if \<not> is_record (hint ch) then None else trimmed_text (prop_get (hint ch) ''folderId''))"

definition readHintFolderIds :: "change_entry \<Rightarrow> string list" where
  "readHintFolderIds ch =
     (case prop_get (hint ch) ''folderIds'' of
        JArr ids \<Rightarrow> js_sort code_unit_compare (oset_of (List.map_filter trimmed_text ids))
      | _ \<Rightarrow> [])"

definition getChangeTargetMessageSeq :: "change_entry \<Rightarrow> int option" where
  "getChangeTargetMessageSeq ch =
     (if \<not> is_record (hint ch) then None
      else case (if nullish (prop_get (hint ch) ''lastMessageSeq'') then prop_get (hint ch) ''targetMessageSeq''
                 else prop_get (hint ch) ''lastMessageSeq'') of
             JNum (Fin r) \<Rightarrow> if r < 0 then None else Some (math_trunc r)
           | _ \<Rightarrow> None)"

section \<open>Classification\<close>

definition classified ::
    "change_entry \<Rightarrow> checkpoint_decision \<Rightarrow> string \<Rightarrow> string option \<Rightarrow> string option \<Rightarrow> classification" where
  "classified ch d owner area prf =
     \<lparr>c_kind = kind ch, c_cursor = string_of_nat (cursor ch), c_entityId = entityId ch, c_decision = d,
      plannerOwner = owner, snapshotDomain = area, materializationProof = prf, blockedReason = None\<rparr>"

definition classifyChangeForCheckpoint :: "change_entry \<Rightarrow> (string \<Rightarrow> bool) \<Rightarrow> classification" where
  "classifyChangeForCheckpoint ch loaded =
     (if \<not> isKnownChangeKind (kind ch) then
        (classified ch Unsupported ''unsupported'' None None)\<lparr>blockedReason := Some UnsupportedKind\<rparr>
      else
        let (owner, area) = some_or (''undefined'', ''undefined'') (map_of CHANGE_CHECKPOINT_COVERAGE (kind ch)) in
        if (kind ch = ''session'' \<or> kind ch = ''share'') \<and> kind ch = ''session'' \<and> isSessionFolderAssignmentHint ch then
          classified ch Critical ''session-folders'' (Some ''session-folder-assignments'')
            (Some ''session-folder-assignments'')
        else if (kind ch = ''session'' \<or> kind ch = ''share'') \<and> hasPendingHint ch then
          classified ch Critical owner (Some area) (Some ''pending-queue-convergence'')
        else if (kind ch = ''session'' \<or> kind ch = ''share'') \<and> \<not> loaded (entityId ch) then
          classified ch SkippedByPolicy owner (Some area) (Some ''session-open-catch-up'')
        else classified ch Critical owner (Some area) (Some area))"

section \<open>Planning\<close>

record plan_acc =
  sessionIds :: "string list"
  unsupportedChanges :: "unsupported_marker list"
  invalidateSessions :: bool
  invalidateMachines :: bool
  invalidateArtifacts :: bool
  invalidateSettings :: bool
  invalidateProfile :: bool
  invalidateFriends :: bool
  invalidateFeed :: bool
  invalidateAutomations :: bool
  invalidatePets :: bool
  assignmentSessionIds :: "string list"
  assignmentFolderIds :: "string list"
  assignmentFolderMode :: bool
  kvFull :: bool
  kvKeys :: "string list"

definition empty_plan :: plan_acc where
  "empty_plan =
     \<lparr>sessionIds = [], unsupportedChanges = [], invalidateSessions = False, invalidateMachines = False,
      invalidateArtifacts = False, invalidateSettings = False, invalidateProfile = False,
      invalidateFriends = False, invalidateFeed = False, invalidateAutomations = False,
      invalidatePets = False, assignmentSessionIds = [], assignmentFolderIds = [],
      assignmentFolderMode = False, kvFull = False, kvKeys = []\<rparr>"

fun key_text :: "jsval \<Rightarrow> string option" where
  "key_text (JStr s) = (if s = [] then None else Some s)"
| "key_text _ = None"

definition add_id :: "string \<Rightarrow> string list \<Rightarrow> string list" where
  "add_id i xs = (if i \<noteq> [] then oset_add i xs else xs)"

definition plan_kv :: "change_entry \<Rightarrow> plan_acc \<Rightarrow> plan_acc" where
  "plan_kv ch a =
     (if \<not> is_record (hint ch) then a\<lparr>kvFull := True\<rparr>
      else if prop_get (hint ch) ''full'' = JBool True then a\<lparr>kvFull := True\<rparr>
      else case prop_get (hint ch) ''keys'' of
             JArr ks \<Rightarrow> a\<lparr>kvKeys := oset_adds (kvKeys a) (List.map_filter key_text ks)\<rparr>
           | _ \<Rightarrow> a\<lparr>kvFull := True\<rparr>)"

definition plan_change :: "plan_acc \<Rightarrow> change_entry \<Rightarrow> plan_acc" where
  "plan_change a ch =
     (if \<not> isKnownChangeKind (kind ch) then
        a\<lparr>unsupportedChanges := unsupportedChanges a
           @ [\<lparr>u_cursor = string_of_nat (cursor ch), u_kind = kind ch, u_entityId = entityId ch\<rparr>]\<rparr>
      else if kind ch = ''session'' \<and> isSessionFolderAssignmentHint ch then
        a\<lparr>assignmentSessionIds := add_id (entityId ch) (assignmentSessionIds a),
          assignmentFolderIds := (case readHintFolderId ch of None \<Rightarrow> assignmentFolderIds a
                                  | Some f \<Rightarrow> oset_add f (assignmentFolderIds a))\<rparr>
      else if kind ch = ''account'' \<and> isBulkSessionFolderAssignmentsHint ch then
        a\<lparr>assignmentFolderMode := True,
          assignmentFolderIds := oset_adds (assignmentFolderIds a) (readHintFolderIds ch)\<rparr>
      else if kind ch = ''session'' \<or> kind ch = ''share'' then
        a\<lparr>invalidateSessions := True, sessionIds := add_id (entityId ch) (sessionIds a)\<rparr>
      else if kind ch = ''account'' then a\<lparr>invalidateSettings := True, invalidateProfile := True\<rparr>
      else if kind ch = ''machine'' then a\<lparr>invalidateMachines := True\<rparr>
      else if kind ch = ''artifact'' then a\<lparr>invalidateArtifacts := True\<rparr>
      else if kind ch = ''friends'' \<or> kind ch = ''friend_request'' \<or> kind ch = ''friend_accepted'' then
        a\<lparr>invalidateFriends := True\<rparr>
      else if kind ch = ''feed'' then a\<lparr>invalidateFeed := True\<rparr>
      else if kind ch = ''automation'' then a\<lparr>invalidateAutomations := True\<rparr>
      else if kind ch = ''pet'' then a\<lparr>invalidatePets := True\<rparr>
      else if kind ch = ''kv'' then plan_kv ch a
      else a)"

record invalidations =
  inv_sessions :: bool
  inv_machines :: bool
  inv_artifacts :: bool
  inv_settings :: bool
  inv_profile :: bool
  inv_friends :: bool
  inv_feed :: bool
  inv_automations :: bool
  inv_pets :: bool

definition invalidations_of :: "plan_acc \<Rightarrow> invalidations" where
  "invalidations_of a =
     \<lparr>inv_sessions = invalidateSessions a,
      inv_machines = invalidateMachines a,
      inv_artifacts = invalidateArtifacts a,
      inv_settings = invalidateSettings a,
      inv_profile = invalidateProfile a,
      inv_friends = invalidateFriends a,
      inv_feed = invalidateFeed a,
      inv_automations = invalidateAutomations a,
      inv_pets = invalidatePets a\<rparr>"

record planned_actions =
  p_changes :: "change_entry list"
  sessionIdsToCatchUp :: "string list"
  p_unsupported :: "unsupported_marker list"
  p_invalidate :: invalidations
  kv :: kv_action
  sessionFolderAssignments :: assignments_action

definition planned_kv :: "plan_acc \<Rightarrow> kv_action" where
  "planned_kv a = (if kvFull a then KvRefresh
     else if kvKeys a \<noteq> [] then KvBulk (js_sort code_unit_compare (kvKeys a)) else KvNone)"

definition planned_assignments :: "plan_acc \<Rightarrow> assignments_action" where
  "planned_assignments a =
     (if assignmentFolderMode a then AssignFolders (js_sort code_unit_compare (assignmentFolderIds a))
      else if assignmentSessionIds a \<noteq> [] then
        AssignSessions (js_sort code_unit_compare (assignmentSessionIds a))
          (js_sort code_unit_compare (assignmentFolderIds a))
      else AssignNone)"

definition planSyncActionsFromChanges :: "change_entry list \<Rightarrow> planned_actions" where
  "planSyncActionsFromChanges changes =
     (let a = foldl plan_change empty_plan changes in
      \<lparr>p_changes = changes, sessionIdsToCatchUp = js_sort code_unit_compare (sessionIds a),
       p_unsupported = unsupportedChanges a, p_invalidate = invalidations_of a, kv = planned_kv a, sessionFolderAssignments = planned_assignments a\<rparr>)"

section \<open>The checkpoint\<close>

text \<open>
  What is known once the planned refreshes have run: which sessions have their messages loaded,
  which refreshes completed or failed, and how far each session is materialised.
\<close>

record apply_outcome =
  loaded :: "string \<Rightarrow> bool"
  sessionsInvalidationFailed :: bool
  assignmentsRefreshFailed :: bool
  completedPending :: "string list"
  failedPending :: "string list"
  completedCatchUp :: "string list"
  failedCatchUp :: "string list"
  materializedMaxSeq :: "string \<Rightarrow> int option"

record apply_result =
  safeAdvanceCursor :: "string option"
  blocked :: "(string \<times> blocked_reason) option"
  processedChanges :: nat
  blockedChanges :: nat

definition is_session_kind :: "classification \<Rightarrow> bool" where
  "is_session_kind c \<longleftrightarrow> c_kind c = ''session'' \<or> c_kind c = ''share''"

text \<open>Why the loop stops at a change, if it does.\<close>

definition stops_at :: "apply_outcome \<Rightarrow> change_entry \<Rightarrow> blocked_reason option" where
  "stops_at out ch =
     (let c = classifyChangeForCheckpoint ch (loaded out) in
      if c_decision c = Unsupported then Some (some_or UnsupportedKind (blockedReason c))
      else if c_decision c = SkippedByPolicy then None
      else if sessionsInvalidationFailed out \<and> is_session_kind c then Some PartialMaterialization
      else if materializationProof c = Some ''pending-queue-convergence'' then
        (if c_entityId c \<notin> set (completedPending out) \<or> c_entityId c \<in> set (failedPending out)
         then Some PendingNotConverged else None)
      else if materializationProof c = Some ''session-folder-assignments'' then
        (if assignmentsRefreshFailed out then Some PartialMaterialization else None)
      else if is_session_kind c \<and> loaded out (c_entityId c)
          \<and> (c_entityId c \<notin> set (completedCatchUp out) \<or> c_entityId c \<in> set (failedCatchUp out))
        then Some PartialMaterialization
      else if is_session_kind c \<and> loaded out (c_entityId c)
          \<and> (case getChangeTargetMessageSeq ch of None \<Rightarrow> False
             | Some target \<Rightarrow> (case materializedMaxSeq out (c_entityId c) of None \<Rightarrow> True | Some s \<Rightarrow> s < target))
        then Some PartialMaterialization
      else None)"

fun checkpoint_loop ::
    "apply_outcome \<Rightarrow> change_entry list \<Rightarrow> string option \<Rightarrow> nat \<Rightarrow> nat \<Rightarrow> apply_result" where
  "checkpoint_loop out [] safe fin n =
     \<lparr>safeAdvanceCursor = safe, blocked = None, processedChanges = fin, blockedChanges = 0\<rparr>"
| "checkpoint_loop out (ch # chs) safe fin n =
     (case stops_at out ch of
        Some why \<Rightarrow> \<lparr>safeAdvanceCursor = safe, blocked = Some (string_of_nat (cursor ch), why),
                    processedChanges = fin, blockedChanges = n - fin\<rparr>
      | None \<Rightarrow> checkpoint_loop out chs (Some (string_of_nat (cursor ch))) (fin + 1) n)"

definition checkpoint :: "apply_outcome \<Rightarrow> change_entry list \<Rightarrow> apply_result" where
  "checkpoint out changes = checkpoint_loop out changes None 0 (length changes)"

text \<open>The sessions whose pending queue has to converge, in the order the applier collects them.\<close>

definition pending_sessions :: "(string \<Rightarrow> bool) \<Rightarrow> change_entry list \<Rightarrow> string list" where
  "pending_sessions isLoaded changes =
     oset_of (map c_entityId (filter (\<lambda>c. materializationProof c = Some ''pending-queue-convergence'')
       (map (\<lambda>ch. classifyChangeForCheckpoint ch isLoaded) changes)))"

definition catch_up_sessions :: "(string \<Rightarrow> bool) \<Rightarrow> planned_actions \<Rightarrow> string list" where
  "catch_up_sessions isLoaded p = filter isLoaded (sessionIdsToCatchUp p)"

section \<open>Applying a plan\<close>

text \<open>
  The refreshes that may fail without failing the whole run, as results: the refresh of the session
  list, of the folder assignments (false also when no handler is given), of the messages of a
  session and of its pending queue. Any other refresh that fails makes the run fail (\<open>restOk\<close>), and then no
  cursor is returned at all. A session's messages are refreshed only after the session list was.
  Which sessions have their messages loaded is asked when the refreshes are planned (\<open>isLoaded\<close>) and
  asked again by the checkpoint, after them (\<open>isLoadedAfter\<close>).
\<close>

record call_results =
  isLoaded :: "string \<Rightarrow> bool"
  isLoadedAfter :: "string \<Rightarrow> bool"
  sessionsOk :: bool
  assignmentsOk :: bool
  messagesOk :: "string \<Rightarrow> bool"
  pendingOk :: "string \<Rightarrow> bool"
  restOk :: bool
  maxSeq :: "string \<Rightarrow> int option"

definition run_refreshes :: "call_results \<Rightarrow> planned_actions \<Rightarrow> apply_outcome" where
  "run_refreshes r p =
     (let catchUp = catch_up_sessions (isLoaded r) p;
          pending = pending_sessions (isLoaded r) (p_changes p);
          listed = (\<not> inv_sessions (p_invalidate p) \<or> sessionsOk r)
      in \<lparr>loaded = isLoadedAfter r,
          sessionsInvalidationFailed = \<not> listed,
          assignmentsRefreshFailed = (sessionFolderAssignments p \<noteq> AssignNone \<and> \<not> assignmentsOk r),
          completedPending = filter (pendingOk r) pending,
          failedPending = filter (\<lambda>s. \<not> pendingOk r s) pending,
          completedCatchUp = filter (\<lambda>s. listed \<and> messagesOk r s) catchUp,
          failedCatchUp = filter (\<lambda>s. \<not> (listed \<and> messagesOk r s)) catchUp,
          materializedMaxSeq = maxSeq r\<rparr>)"

definition applyPlannedChangeActions :: "call_results \<Rightarrow> planned_actions \<Rightarrow> apply_result option" where
  "applyPlannedChangeActions r p =
     (if restOk r then Some (checkpoint (run_refreshes r p) (p_changes p)) else None)"

section \<open>The plan covers the changes\<close>

text \<open>A plan only grows.\<close>

lemma code_unit_sorted_set: "js_sort code_unit_compare xs = [] \<longleftrightarrow> xs = []"
  using set_js_sort [of code_unit_compare xs] by (metis set_empty)

instantiation plan_acc_ext :: (type) preorder
begin

definition less_eq_plan_acc_ext :: "'a plan_acc_scheme \<Rightarrow> 'a plan_acc_scheme \<Rightarrow> bool" where
  "less_eq_plan_acc_ext a b \<longleftrightarrow> (invalidateSessions a \<longrightarrow> invalidateSessions b)
     \<and> (invalidateMachines a \<longrightarrow> invalidateMachines b) \<and> (invalidateArtifacts a \<longrightarrow> invalidateArtifacts b)
     \<and> (invalidateSettings a \<longrightarrow> invalidateSettings b) \<and> (invalidateProfile a \<longrightarrow> invalidateProfile b)
     \<and> (invalidateFriends a \<longrightarrow> invalidateFriends b) \<and> (invalidateFeed a \<longrightarrow> invalidateFeed b)
     \<and> (invalidateAutomations a \<longrightarrow> invalidateAutomations b) \<and> (invalidatePets a \<longrightarrow> invalidatePets b)
     \<and> (kvFull a \<longrightarrow> kvFull b) \<and> (assignmentFolderMode a \<longrightarrow> assignmentFolderMode b)
     \<and> set (sessionIds a) \<subseteq> set (sessionIds b) \<and> set (kvKeys a) \<subseteq> set (kvKeys b)
     \<and> set (assignmentSessionIds a) \<subseteq> set (assignmentSessionIds b)
     \<and> set (assignmentFolderIds a) \<subseteq> set (assignmentFolderIds b)
     \<and> set (unsupportedChanges a) \<subseteq> set (unsupportedChanges b)"

definition less_plan_acc_ext :: "'a plan_acc_scheme \<Rightarrow> 'a plan_acc_scheme \<Rightarrow> bool" where
  "less_plan_acc_ext a b \<longleftrightarrow> a \<le> b \<and> \<not> b \<le> a"

instance
  by intro_classes (simp_all add: less_plan_acc_ext_def less_eq_plan_acc_ext_def subset_iff)

end

lemma plan_le_flags:
  "a \<le> a\<lparr>invalidateSessions := True, sessionIds := add_id i (sessionIds a)\<rparr>"
  "a \<le> a\<lparr>invalidateSettings := True, invalidateProfile := True\<rparr>"
  "a \<le> a\<lparr>invalidateMachines := True\<rparr>" "a \<le> a\<lparr>invalidateArtifacts := True\<rparr>"
  "a \<le> a\<lparr>invalidateFriends := True\<rparr>" "a \<le> a\<lparr>invalidateFeed := True\<rparr>"
  "a \<le> a\<lparr>invalidateAutomations := True\<rparr>" "a \<le> a\<lparr>invalidatePets := True\<rparr>"
  "a \<le> a\<lparr>kvFull := True\<rparr>" "a \<le> a\<lparr>kvKeys := oset_adds (kvKeys a) ks\<rparr>"
  "a \<le> a\<lparr>unsupportedChanges := unsupportedChanges a @ us\<rparr>"
  "a \<le> a\<lparr>assignmentFolderMode := True, assignmentFolderIds := oset_adds (assignmentFolderIds a) fs\<rparr>"
  by (simp_all add: less_eq_plan_acc_ext_def add_id_def subset_insertI)

lemma plan_le_assign:
  "a \<le> a\<lparr>assignmentSessionIds := add_id i (assignmentSessionIds a),
                assignmentFolderIds := (case f of None \<Rightarrow> assignmentFolderIds a | Some x \<Rightarrow> oset_add x (assignmentFolderIds a))\<rparr>"
  by (cases f) (simp_all add: less_eq_plan_acc_ext_def add_id_def subset_insertI)

lemma plan_kv_le: "a \<le> plan_kv ch a"
  by (simp add: plan_kv_def plan_le_flags split: jsval.split)

lemma plan_change_le: "(a :: plan_acc) \<le> plan_change a ch"
  by (simp add: plan_change_def plan_le_flags plan_le_assign plan_kv_le)

interpretation planning: monotone_reducer plan_change "\<lambda>_. True" "\<lambda>a. a"
  by unfold_locales (simp_all add: plan_change_le)

lemma planned_step:
  assumes "ch \<in> set chs"
  shows "\<exists>a. plan_change a ch \<le> foldl plan_change empty_plan chs"
proof -
  obtain xs ys where "chs = xs @ ch # ys" using assms by (meson split_list)
  then have "foldl plan_change empty_plan chs = foldl plan_change (plan_change (foldl plan_change empty_plan xs) ch) ys"
    by simp
  then show ?thesis using planning.run_mono by metis
qed

text \<open>What a plan has to contain for a change, by its kind.\<close>

definition folder_change :: "change_entry \<Rightarrow> bool" where
  "folder_change ch \<longleftrightarrow> kind ch = ''session'' \<and> isSessionFolderAssignmentHint ch"

definition bulk_change :: "change_entry \<Rightarrow> bool" where
  "bulk_change ch \<longleftrightarrow> kind ch = ''account'' \<and> isBulkSessionFolderAssignmentsHint ch"

definition session_change :: "change_entry \<Rightarrow> bool" where
  "session_change ch \<longleftrightarrow> kind ch = ''share'' \<or> (kind ch = ''session'' \<and> \<not> isSessionFolderAssignmentHint ch)"

definition kv_keys_of :: "change_entry \<Rightarrow> string set" where
  "kv_keys_of ch = (case prop_get (hint ch) ''keys'' of JArr ks \<Rightarrow> set (List.map_filter key_text ks) | _ \<Rightarrow> {})"

definition kv_exact :: "change_entry \<Rightarrow> bool" where
  "kv_exact ch \<longleftrightarrow> is_record (hint ch) \<and> prop_get (hint ch) ''full'' \<noteq> JBool True
     \<and> (\<exists>ks. prop_get (hint ch) ''keys'' = JArr ks)"

definition acc_has :: "plan_acc \<Rightarrow> change_entry \<Rightarrow> bool" where
  "acc_has a ch \<longleftrightarrow>
     (if \<not> isKnownChangeKind (kind ch) then
        \<lparr>u_cursor = string_of_nat (cursor ch), u_kind = kind ch, u_entityId = entityId ch\<rparr> \<in> set (unsupportedChanges a)
      else if folder_change ch then entityId ch \<noteq> [] \<longrightarrow> entityId ch \<in> set (assignmentSessionIds a)
      else if bulk_change ch then assignmentFolderMode a \<and> set (readHintFolderIds ch) \<subseteq> set (assignmentFolderIds a)
      else if session_change ch then
        invalidateSessions a \<and> (entityId ch \<noteq> [] \<longrightarrow> entityId ch \<in> set (sessionIds a))
      else if kind ch = ''account'' then invalidateSettings a \<and> invalidateProfile a
      else if kind ch = ''machine'' then invalidateMachines a
      else if kind ch = ''artifact'' then invalidateArtifacts a
      else if kind ch \<in> {''friends'', ''friend_request'', ''friend_accepted''} then invalidateFriends a
      else if kind ch = ''feed'' then invalidateFeed a
      else if kind ch = ''automation'' then invalidateAutomations a
      else if kind ch = ''pet'' then invalidatePets a
      else if kv_exact ch then kv_keys_of ch \<subseteq> set (kvKeys a) else kvFull a)"

lemma plan_le_parts:
  fixes a b :: plan_acc
  assumes "a \<le> b"
  shows "invalidateSessions a \<Longrightarrow> invalidateSessions b" "invalidateMachines a \<Longrightarrow> invalidateMachines b"
    "invalidateArtifacts a \<Longrightarrow> invalidateArtifacts b" "invalidateSettings a \<Longrightarrow> invalidateSettings b"
    "invalidateProfile a \<Longrightarrow> invalidateProfile b" "invalidateFriends a \<Longrightarrow> invalidateFriends b"
    "invalidateFeed a \<Longrightarrow> invalidateFeed b" "invalidateAutomations a \<Longrightarrow> invalidateAutomations b"
    "invalidatePets a \<Longrightarrow> invalidatePets b" "kvFull a \<Longrightarrow> kvFull b"
    "assignmentFolderMode a \<Longrightarrow> assignmentFolderMode b"
    "x \<in> set (sessionIds a) \<Longrightarrow> x \<in> set (sessionIds b)" "x \<in> set (assignmentSessionIds a) \<Longrightarrow> x \<in> set (assignmentSessionIds b)"
    "K \<subseteq> set (kvKeys a) \<Longrightarrow> K \<subseteq> set (kvKeys b)" "K \<subseteq> set (assignmentFolderIds a) \<Longrightarrow> K \<subseteq> set (assignmentFolderIds b)"
    "u \<in> set (unsupportedChanges a) \<Longrightarrow> u \<in> set (unsupportedChanges b)"
  using assms by (simp_all add: less_eq_plan_acc_ext_def subset_iff)

lemma if_imp:
  "(if c then P else Q) \<Longrightarrow> (c \<Longrightarrow> P \<Longrightarrow> P') \<Longrightarrow> (\<not> c \<Longrightarrow> Q \<Longrightarrow> Q') \<Longrightarrow> (if c then P' else Q')"
  by (simp split: if_splits)

lemma acc_has_mono:
  assumes "acc_has a ch" and "a \<le> b"
  shows "acc_has b ch"
  using assms(1) unfolding acc_has_def
  by (elim if_imp) (simp_all add: plan_le_parts [OF assms(2)])

lemmas plan_kinds = isKnownChangeKind_def knownChangeKinds_def folder_change_def bulk_change_def session_change_def

lemma acc_has_kv: "kv_exact ch \<longrightarrow> kv_keys_of ch \<subseteq> set (kvKeys (plan_kv ch a))"
  "\<not> kv_exact ch \<longrightarrow> kvFull (plan_kv ch a)"
  by (auto simp: plan_kv_def kv_exact_def kv_keys_of_def split: jsval.split)

lemma acc_has_step: "acc_has (plan_change a ch) ch"
proof (cases "isKnownChangeKind (kind ch)")
  case False
  then show ?thesis by (simp add: acc_has_def plan_change_def)
next
  case True
  note step = plan_change_def acc_has_def True
  consider "folder_change ch" | "bulk_change ch" | "session_change ch" "\<not> folder_change ch"
    | "kind ch = ''account''" "\<not> bulk_change ch"
    | "\<not> kind ch = ''session''" "\<not> kind ch = ''share''" "\<not> kind ch = ''account''"
    unfolding folder_change_def bulk_change_def session_change_def by blast
  then show ?thesis
  proof cases
    case 1
    then show ?thesis unfolding step by (simp add: folder_change_def add_id_def)
  next
    case 2
    then show ?thesis unfolding step by (simp add: folder_change_def bulk_change_def)
  next
    case 3
    then show ?thesis
      unfolding step by (auto simp: folder_change_def bulk_change_def session_change_def add_id_def)
  next
    case 4
    then show ?thesis
      unfolding step by (simp add: folder_change_def bulk_change_def session_change_def)
  next
    case 5
    have "kind ch \<in> {''machine'', ''artifact'', ''friends'', ''friend_request'', ''friend_accepted'', ''feed'',
        ''automation'', ''pet'', ''kv''}"
      using True 5 by (auto simp: isKnownChangeKind_def knownChangeKinds_def)
    then show ?thesis
      unfolding step using acc_has_kv [of ch a]
      by (elim insertE emptyE) (simp_all add: folder_change_def bulk_change_def session_change_def)
  qed
qed

lemma acc_has_planned: "ch \<in> set chs \<Longrightarrow> acc_has (foldl plan_change empty_plan chs) ch"
  using planned_step acc_has_step acc_has_mono by blast

section \<open>Properties\<close>

definition kv_plan_keys :: "kv_action \<Rightarrow> string set" where
  "kv_plan_keys k = (case k of KvBulk ks \<Rightarrow> set ks | _ \<Rightarrow> {})"

text \<open>What the plan must do for a change.\<close>

definition planned_for :: "planned_actions \<Rightarrow> change_entry \<Rightarrow> bool" where
  "planned_for p ch \<longleftrightarrow>
     (if \<not> isKnownChangeKind (kind ch) then
        \<lparr>u_cursor = string_of_nat (cursor ch), u_kind = kind ch, u_entityId = entityId ch\<rparr> \<in> set (p_unsupported p)
      else if folder_change ch then entityId ch \<noteq> [] \<longrightarrow>
        (case sessionFolderAssignments p of AssignSessions ss _ \<Rightarrow> entityId ch \<in> set ss
         | AssignFolders _ \<Rightarrow> True | AssignNone \<Rightarrow> False)
      else if bulk_change ch then
        (case sessionFolderAssignments p of AssignFolders fs \<Rightarrow> set (readHintFolderIds ch) \<subseteq> set fs | _ \<Rightarrow> False)
      else if session_change ch then inv_sessions (p_invalidate p)
        \<and> (entityId ch \<noteq> [] \<longrightarrow> entityId ch \<in> set (sessionIdsToCatchUp p))
      else if kind ch = ''account'' then inv_settings (p_invalidate p) \<and> inv_profile (p_invalidate p)
      else if kind ch = ''machine'' then inv_machines (p_invalidate p)
      else if kind ch = ''artifact'' then inv_artifacts (p_invalidate p)
      else if kind ch \<in> {''friends'', ''friend_request'', ''friend_accepted''} then inv_friends (p_invalidate p)
      else if kind ch = ''feed'' then inv_feed (p_invalidate p)
      else if kind ch = ''automation'' then inv_automations (p_invalidate p)
      else if kind ch = ''pet'' then inv_pets (p_invalidate p)
      else if kv_exact ch then kv p = KvRefresh \<or> kv_keys_of ch \<subseteq> kv_plan_keys (kv p)
      else kv p = KvRefresh)"

lemma planned_fields:
  fixes chs :: "change_entry list"
  defines "a \<equiv> foldl plan_change empty_plan chs"
  shows "p_unsupported (planSyncActionsFromChanges chs) = unsupportedChanges a"
    "inv_sessions (p_invalidate (planSyncActionsFromChanges chs)) = invalidateSessions a"
    "inv_settings (p_invalidate (planSyncActionsFromChanges chs)) = invalidateSettings a"
    "inv_profile (p_invalidate (planSyncActionsFromChanges chs)) = invalidateProfile a"
    "inv_machines (p_invalidate (planSyncActionsFromChanges chs)) = invalidateMachines a"
    "inv_artifacts (p_invalidate (planSyncActionsFromChanges chs)) = invalidateArtifacts a"
    "inv_friends (p_invalidate (planSyncActionsFromChanges chs)) = invalidateFriends a"
    "inv_feed (p_invalidate (planSyncActionsFromChanges chs)) = invalidateFeed a"
    "inv_automations (p_invalidate (planSyncActionsFromChanges chs)) = invalidateAutomations a"
    "inv_pets (p_invalidate (planSyncActionsFromChanges chs)) = invalidatePets a"
    "set (sessionIdsToCatchUp (planSyncActionsFromChanges chs)) = set (sessionIds a)"
    "kv (planSyncActionsFromChanges chs) = planned_kv a"
    "sessionFolderAssignments (planSyncActionsFromChanges chs) = planned_assignments a"
    "p_changes (planSyncActionsFromChanges chs) = chs"
  unfolding a_def by (simp_all add: planSyncActionsFromChanges_def Let_def invalidations_of_def)

lemma planned_parts:
  "i \<in> set (assignmentSessionIds a) \<Longrightarrow> (case planned_assignments a of AssignSessions ss _ \<Rightarrow> i \<in> set ss
     | AssignFolders _ \<Rightarrow> True | AssignNone \<Rightarrow> False)"
  "assignmentFolderMode a \<Longrightarrow> planned_assignments a = AssignFolders (js_sort code_unit_compare (assignmentFolderIds a))"
  "K \<subseteq> set (kvKeys a) \<Longrightarrow> planned_kv a = KvRefresh \<or> K \<subseteq> kv_plan_keys (planned_kv a)"
  "kvFull a \<Longrightarrow> planned_kv a = KvRefresh"
  by (auto simp: planned_assignments_def planned_kv_def kv_plan_keys_def)

lemma planned_has:
  assumes "ch \<in> set chs"
  shows "planned_for (planSyncActionsFromChanges chs) ch"
  using acc_has_planned [OF assms] unfolding acc_has_def planned_for_def planned_fields
  by (elim if_imp) (simp_all add: planned_parts)

text \<open>No change is lost by planning: for every change of a batch the plan contains the refresh its
  kind calls for, whatever else is in the batch: its session is caught up, its folder assignment, key
  or domain is refreshed, and a kind the client does not know is reported.\<close>

theorem every_change_is_planned:
  assumes "ch \<in> set changes"
  shows "planned_for (planSyncActionsFromChanges changes) ch"
  using assms by (rule planned_has)

text \<open>
  What has to have succeeded before the cursor may pass a change, read off the changes and the results
  alone. A change with a pending hint asks for the session list and the pending queue only; a session
  whose messages are not loaded, an account change (a bulk folder assignment included) and the changes of
  all other domains ask for nothing here.
\<close>

definition assignments_due :: "change_entry list \<Rightarrow> bool" where
  "assignments_due chs \<longleftrightarrow> list_ex (\<lambda>c. bulk_change c \<or> (folder_change c \<and> entityId c \<noteq> [])) chs"

definition sessions_due :: "change_entry list \<Rightarrow> bool" where
  "sessions_due chs \<longleftrightarrow> list_ex session_change chs"

definition seq_reached :: "call_results \<Rightarrow> change_entry \<Rightarrow> bool" where
  "seq_reached r ch = (case getChangeTargetMessageSeq ch of None \<Rightarrow> True
     | Some n \<Rightarrow> (case maxSeq r (entityId ch) of None \<Rightarrow> False | Some s \<Rightarrow> n \<le> s))"

definition settled :: "call_results \<Rightarrow> change_entry list \<Rightarrow> change_entry \<Rightarrow> bool" where
  "settled r chs ch \<longleftrightarrow> isKnownChangeKind (kind ch)
     \<and> (if folder_change ch then
          (assignments_due chs \<longrightarrow> assignmentsOk r) \<and> (sessions_due chs \<longrightarrow> sessionsOk r)
        else if session_change ch \<and> hasPendingHint ch then sessionsOk r \<and> pendingOk r (entityId ch)
        else if session_change ch \<and> isLoadedAfter r (entityId ch) then
          sessionsOk r \<and> entityId ch \<noteq> [] \<and> isLoaded r (entityId ch) \<and> messagesOk r (entityId ch) \<and> seq_reached r ch
        else True)"

definition stop_reason :: "call_results \<Rightarrow> change_entry \<Rightarrow> blocked_reason" where
  "stop_reason r ch =
     (if \<not> isKnownChangeKind (kind ch) then UnsupportedKind
      else if session_change ch \<and> hasPendingHint ch \<and> sessionsOk r then PendingNotConverged
      else PartialMaterialization)"

definition plans_assignments :: "plan_acc \<Rightarrow> bool" where
  "plans_assignments a \<longleftrightarrow> assignmentFolderMode a \<or> assignmentSessionIds a \<noteq> []"

lemma plans_assignments_step:
  "plans_assignments (plan_change a ch) \<longleftrightarrow>
     plans_assignments a \<or> bulk_change ch \<or> (folder_change ch \<and> entityId ch \<noteq> [])"
  by (auto simp: plans_assignments_def plan_change_def plan_kv_def bulk_change_def folder_change_def add_id_def
      isKnownChangeKind_def knownChangeKinds_def oset_add_def split: jsval.split)

lemma plans_assignments_run:
  "plans_assignments (foldl plan_change a chs) \<longleftrightarrow> plans_assignments a \<or> assignments_due chs"
  by (induction chs arbitrary: a) (auto simp: assignments_due_def plans_assignments_step)

lemma assignments_planned:
  "sessionFolderAssignments (planSyncActionsFromChanges chs) \<noteq> AssignNone \<longleftrightarrow> assignments_due chs"
proof -
  have "planned_assignments a \<noteq> AssignNone \<longleftrightarrow> plans_assignments a" for a
    by (simp add: planned_assignments_def plans_assignments_def)
  then show ?thesis
    by (simp add: planned_fields(13) plans_assignments_run) (simp add: plans_assignments_def empty_plan_def)
qed

lemma sessions_run:
  "invalidateSessions (foldl plan_change a chs) \<longleftrightarrow> invalidateSessions a \<or> sessions_due chs"
proof -
  have "invalidateSessions (plan_change a ch) \<longleftrightarrow> invalidateSessions a \<or> session_change ch" for a ch
    by (auto simp: plan_change_def plan_kv_def session_change_def isKnownChangeKind_def knownChangeKinds_def split: jsval.split)
  then show ?thesis by (induction chs arbitrary: a) (auto simp: sessions_due_def)
qed

lemma sessions_invalidated: "inv_sessions (p_invalidate (planSyncActionsFromChanges chs)) \<longleftrightarrow> sessions_due chs"
  by (simp add: planned_fields(2) sessions_run) (simp add: empty_plan_def)

lemma outcome_fields:
  "loaded (run_refreshes r p) = isLoadedAfter r" "materializedMaxSeq (run_refreshes r p) = maxSeq r"
  "sessionsInvalidationFailed (run_refreshes r p) \<longleftrightarrow> inv_sessions (p_invalidate p) \<and> \<not> sessionsOk r"
  "assignmentsRefreshFailed (run_refreshes r p) \<longleftrightarrow> sessionFolderAssignments p \<noteq> AssignNone \<and> \<not> assignmentsOk r"
  by (simp_all add: run_refreshes_def Let_def)

lemma outcome_lists:
  "s \<in> set (completedPending (run_refreshes r p)) \<longleftrightarrow>
     s \<in> set (pending_sessions (isLoaded r) (p_changes p)) \<and> pendingOk r s"
  "s \<in> set (failedPending (run_refreshes r p)) \<longleftrightarrow>
     s \<in> set (pending_sessions (isLoaded r) (p_changes p)) \<and> \<not> pendingOk r s"
  "s \<in> set (completedCatchUp (run_refreshes r p)) \<longleftrightarrow> s \<in> set (sessionIdsToCatchUp p) \<and> isLoaded r s
     \<and> (inv_sessions (p_invalidate p) \<longrightarrow> sessionsOk r) \<and> messagesOk r s"
  "s \<in> set (failedCatchUp (run_refreshes r p)) \<longleftrightarrow> s \<in> set (sessionIdsToCatchUp p) \<and> isLoaded r s
     \<and> \<not> ((inv_sessions (p_invalidate p) \<longrightarrow> sessionsOk r) \<and> messagesOk r s)"
  by (auto simp: run_refreshes_def Let_def catch_up_sessions_def)

text \<open>The classes of a change, as the checkpoint reads them.\<close>

lemma known_sessions: "isKnownChangeKind ''session''" "isKnownChangeKind ''share''"
  by (simp_all add: isKnownChangeKind_def knownChangeKinds_def)

lemma session_area:
  "k = ''session'' \<or> k = ''share'' \<Longrightarrow> some_or (''undefined'', ''undefined'') (map_of CHANGE_CHECKPOINT_COVERAGE k)
     = (''sessions'', if k = ''session'' then ''sessions-and-session-messages'' else ''sessions'')"
  by (elim disjE) (simp_all add: CHANGE_CHECKPOINT_COVERAGE_def)

lemma session_kinds:
  "session_change ch \<Longrightarrow> kind ch = ''session'' \<or> kind ch = ''share''"
  "session_change ch \<Longrightarrow> isKnownChangeKind (kind ch)"
  "session_change ch \<Longrightarrow> \<not> folder_change ch"
  "folder_change ch \<Longrightarrow> isKnownChangeKind (kind ch)"
  by (auto simp: session_change_def folder_change_def known_sessions)

lemma classify_session:
  assumes "session_change ch"
  shows "\<exists>area. classifyChangeForCheckpoint ch ld =
     (if hasPendingHint ch then classified ch Critical ''sessions'' (Some area) (Some ''pending-queue-convergence'')
      else if \<not> ld (entityId ch) then classified ch SkippedByPolicy ''sessions'' (Some area) (Some ''session-open-catch-up'')
      else classified ch Critical ''sessions'' (Some area) (Some area))
     \<and> area \<noteq> ''pending-queue-convergence'' \<and> area \<noteq> ''session-folder-assignments''"
proof -
  have "\<not> (kind ch = ''session'' \<and> isSessionFolderAssignmentHint ch)"
    using assms by (auto simp: session_change_def)
  then show ?thesis
    using session_kinds(1,2) [OF assms]
    by (intro exI [of _ "if kind ch = ''session'' then ''sessions-and-session-messages'' else ''sessions''"])
      (auto simp: classifyChangeForCheckpoint_def session_area [OF session_kinds(1) [OF assms]])
qed

lemma classify_folder:
  "folder_change ch \<Longrightarrow> classifyChangeForCheckpoint ch ld =
     classified ch Critical ''session-folders'' (Some ''session-folder-assignments'') (Some ''session-folder-assignments'')"
  using session_kinds(4) [of ch] by (simp add: classifyChangeForCheckpoint_def folder_change_def case_prod_beta Let_def)

lemma classify_other:
  assumes "isKnownChangeKind (kind ch)" and "\<not> folder_change ch" and "\<not> session_change ch"
  shows "classifyChangeForCheckpoint ch ld =
      (let (owner, area) = some_or (''undefined'', ''undefined'') (map_of CHANGE_CHECKPOINT_COVERAGE (kind ch))
       in classified ch Critical owner (Some area) (Some area))"
    and "snd (some_or (''undefined'', ''undefined'') (map_of CHANGE_CHECKPOINT_COVERAGE (kind ch))) \<noteq> ''pending-queue-convergence''"
    and "snd (some_or (''undefined'', ''undefined'') (map_of CHANGE_CHECKPOINT_COVERAGE (kind ch))) \<noteq> ''session-folder-assignments''"
    and "kind ch \<noteq> ''session''" and "kind ch \<noteq> ''share''"
proof -
  show k: "kind ch \<noteq> ''session''" "kind ch \<noteq> ''share''"
    using assms by (auto simp: folder_change_def session_change_def)
  then show "classifyChangeForCheckpoint ch ld =
      (let (owner, area) = some_or (''undefined'', ''undefined'') (map_of CHANGE_CHECKPOINT_COVERAGE (kind ch))
       in classified ch Critical owner (Some area) (Some area))"
    using assms(1) by (simp add: classifyChangeForCheckpoint_def case_prod_beta)
  have "\<forall>a \<in> set (map (snd \<circ> snd) CHANGE_CHECKPOINT_COVERAGE). a \<noteq> ''pending-queue-convergence'' \<and> a \<noteq> ''session-folder-assignments''"
    by (simp add: CHANGE_CHECKPOINT_COVERAGE_def)
  then have "snd a \<noteq> ''pending-queue-convergence'' \<and> snd a \<noteq> ''session-folder-assignments''"
    if "map_of CHANGE_CHECKPOINT_COVERAGE k = Some a" for k a
    using map_of_SomeD [OF that] by force
  then show "snd (some_or (''undefined'', ''undefined'') (map_of CHANGE_CHECKPOINT_COVERAGE (kind ch))) \<noteq> ''pending-queue-convergence''"
    "snd (some_or (''undefined'', ''undefined'') (map_of CHANGE_CHECKPOINT_COVERAGE (kind ch))) \<noteq> ''session-folder-assignments''"
    by (cases "map_of CHANGE_CHECKPOINT_COVERAGE (kind ch)"; simp)+
qed

lemma pending_collected:
  assumes "ch \<in> set chs" and "session_change ch" and "hasPendingHint ch"
  shows "entityId ch \<in> set (pending_sessions ld chs)"
proof -
  from classify_session [OF assms(2), of ld] assms(3) obtain owner area where
    "classifyChangeForCheckpoint ch ld = classified ch Critical owner (Some area) (Some ''pending-queue-convergence'')"
    by auto
  then show ?thesis using assms(1) by (force simp: pending_sessions_def classified_def)
qed

lemmas planned_session = planned_has [unfolded planned_for_def]

lemma sessions_planned:
  assumes "ch \<in> set chs" and "session_change ch"
  shows "sessions_due chs"
    and "entityId ch \<noteq> [] \<Longrightarrow> entityId ch \<in> set (sessionIdsToCatchUp (planSyncActionsFromChanges chs))"
proof -
  have "\<not> bulk_change ch" using session_kinds(1) [OF assms(2)] by (auto simp: bulk_change_def)
  then show "entityId ch \<noteq> [] \<Longrightarrow> entityId ch \<in> set (sessionIdsToCatchUp (planSyncActionsFromChanges chs))"
    using planned_session [OF assms(1)] session_kinds(2,3) [OF assms(2)] assms(2) by simp
  show "sessions_due chs" using assms by (auto simp: sessions_due_def list_ex_iff)
qed

text \<open>The empty id is never caught up.\<close>

lemma no_empty_id_step: "[] \<notin> set (sessionIds a) \<Longrightarrow> [] \<notin> set (sessionIds (plan_change a ch))"
  by (auto simp add: plan_change_def plan_kv_def add_id_def split: jsval.split)

lemma no_empty_id: "[] \<notin> set (sessionIdsToCatchUp (planSyncActionsFromChanges chs))"
proof -
  have "[] \<notin> set (sessionIds (foldl plan_change a chs))" if "[] \<notin> set (sessionIds a)" for a
    using that by (induction chs arbitrary: a) (simp_all add: no_empty_id_step)
  then show ?thesis by (simp add: planned_fields(11) empty_plan_def)
qed

lemmas stop_fields = stops_at_def Let_def outcome_fields outcome_lists classified_def is_session_kind_def
  sessions_invalidated assignments_planned

lemma stops_exactly:
  assumes "ch \<in> set chs"
  shows "stops_at (run_refreshes r (planSyncActionsFromChanges chs)) ch
    = (if settled r chs ch then None else Some (stop_reason r ch))"
proof -
  let ?p = "planSyncActionsFromChanges chs"
  consider "\<not> isKnownChangeKind (kind ch)" | "folder_change ch" | "session_change ch"
    | "isKnownChangeKind (kind ch)" "\<not> folder_change ch" "\<not> session_change ch" by blast
  then show ?thesis
  proof cases
    case 1
    then show ?thesis
      by (simp add: stops_at_def classifyChangeForCheckpoint_def classified_def settled_def stop_reason_def)
  next
    case 2
    have "kind ch = ''session''" using 2 by (simp add: folder_change_def)
    moreover have "\<not> session_change ch" using 2 session_kinds(3) by blast
    ultimately show ?thesis
      using 2 session_kinds(4) [OF 2] by (simp add: stop_fields classify_folder settled_def stop_reason_def)
  next
    case 3
    note kinds = session_kinds(2,3) [OF 3] sessions_planned(1) [OF assms 3]
    from classify_session [OF 3, of "isLoadedAfter r"] obtain area where c: "classifyChangeForCheckpoint ch (isLoadedAfter r) =
     (if hasPendingHint ch then classified ch Critical ''sessions'' (Some area) (Some ''pending-queue-convergence'')
      else if \<not> isLoadedAfter r (entityId ch) then classified ch SkippedByPolicy ''sessions'' (Some area) (Some ''session-open-catch-up'')
      else classified ch Critical ''sessions'' (Some area) (Some area))"
      "area \<noteq> ''pending-queue-convergence''" "area \<noteq> ''session-folder-assignments''" by blast
    have caught: "entityId ch \<in> set (sessionIdsToCatchUp ?p) \<longleftrightarrow> entityId ch \<noteq> []"
      using sessions_planned(2) [OF assms 3] no_empty_id by metis
    show ?thesis
    proof (cases "hasPendingHint ch")
      case True
      then show ?thesis
        using session_kinds(1) [OF 3] pending_collected [OF assms 3 True] kinds 3
        by (simp add: stop_fields c(1) settled_def stop_reason_def planned_fields(14))
    next
      case False
      then show ?thesis
        using session_kinds(1) [OF 3] kinds 3 c(2,3)
        by (simp add: stop_fields c(1) caught settled_def stop_reason_def seq_reached_def split: option.splits)
    qed
  next
    case 4
    note other = classify_other [OF 4]
    show ?thesis
      using other(2-5) 4 by (simp add: stop_fields other(1) case_prod_beta settled_def)
  qed
qed

lemma checkpoint_exactly:
  assumes "\<And>ch. ch \<in> set chs \<Longrightarrow> stops_at out ch = (if P ch then None else Some (why ch))"
  defines "m \<equiv> length (takeWhile P chs)"
  shows "checkpoint_loop out chs safe k n =
     \<lparr>safeAdvanceCursor = (if m = 0 then safe else Some (string_of_nat (cursor (chs ! (m - 1))))),
      blocked = (if m = length chs then None else Some (string_of_nat (cursor (chs ! m)), why (chs ! m))),
      processedChanges = k + m,
      blockedChanges = (if m = length chs then 0 else n - (k + m))\<rparr>"
  using assms(1) unfolding m_def
proof (induction chs arbitrary: safe k)
  case (Cons ch chs)
  show ?case
  proof (cases "P ch")
    case True
    then have "stops_at out ch = None" using Cons.prems by simp
    then show ?thesis
      using Cons.IH [of "Some (string_of_nat (cursor ch))" "k + 1"] Cons.prems True by (simp add: nth_Cons')
  next
    case False
    then show ?thesis using Cons.prems [of ch] by simp
  qed
qed simp

lemma checkpoint_settles:
  assumes "applyPlannedChangeActions r (planSyncActionsFromChanges changes) = Some res"
  defines "m \<equiv> length (takeWhile (settled r changes) changes)"
  shows "processedChanges res = m"
    and "safeAdvanceCursor res = (if m = 0 then None else Some (string_of_nat (cursor (changes ! (m - 1)))))"
    and "blocked res = (if m = length changes then None
        else Some (string_of_nat (cursor (changes ! m)), stop_reason r (changes ! m)))"
    and "blockedChanges res = length changes - m"
proof -
  have res: "res = checkpoint_loop (run_refreshes r (planSyncActionsFromChanges changes)) changes None 0 (length changes)"
    using assms(1) by (simp add: applyPlannedChangeActions_def checkpoint_def planned_fields(14) split: if_splits)
  note run = checkpoint_exactly [where out = "run_refreshes r (planSyncActionsFromChanges changes)" and P = "settled r changes"
      and why = "stop_reason r" and chs = changes and safe = None and k = 0 and n = "length changes",
      OF stops_exactly, folded m_def res]
  show "processedChanges res = m"
    "safeAdvanceCursor res = (if m = 0 then None else Some (string_of_nat (cursor (changes ! (m - 1)))))"
    "blocked res = (if m = length changes then None
        else Some (string_of_nat (cursor (changes ! m)), stop_reason r (changes ! m)))"
    "blockedChanges res = length changes - m"
    using run by (simp_all split: if_splits)
qed

text \<open>C1: The cursor stops exactly at the first change that is not settled, and reports why. A change is
  settled when its kind is known and, for a folder assignment of a session, the planned refreshes of
  assignments and of the session list succeeded; for a session or share with a pending hint, the session
  list was refreshed and its pending queue converged (its messages are not asked for); for another change of a
  session loaded at the checkpoint, the session list and its messages were refreshed, which needs that it
  was loaded at planning time, and they reach the announced number. Nothing is asked of any other known
  change, a bulk assignment of the account included. When another refresh fails there is no result.\<close>

theorem cursor_stops_at_first_unsettled:
  assumes "applyPlannedChangeActions r (planSyncActionsFromChanges changes) = Some res"
  shows "let m = length (takeWhile (settled r changes) changes) in
      processedChanges res = m
    \<and> safeAdvanceCursor res = (if m = 0 then None else Some (string_of_nat (cursor (changes ! (m - 1)))))
    \<and> blocked res = (if m = length changes then None
        else Some (string_of_nat (cursor (changes ! m)), stop_reason r (changes ! m)))
    \<and> blockedChanges res = length changes - m"
  using checkpoint_settles [OF assms] by (simp add: Let_def)

definition demo_results :: "bool \<Rightarrow> call_results" where
  "demo_results folders = \<lparr>isLoaded = \<lambda>_. True, isLoadedAfter = \<lambda>_. True, sessionsOk = True, assignmentsOk = folders, messagesOk = \<lambda>_. True,
     pendingOk = \<lambda>s. s \<noteq> ''p'', restOk = True, maxSeq = \<lambda>_. Some 5\<rparr>"

definition demo_change :: "nat \<Rightarrow> string \<Rightarrow> string \<Rightarrow> (string \<times> jsval) list \<Rightarrow> change_entry" where
  "demo_change c k i h = \<lparr>cursor = c, kind = k, entityId = i, hint = JObj h\<rparr>"

lemma cursor_texts: "string_of_nat 7 = ''7''" "string_of_nat 8 = ''8''"
  by code_simp+

lemmas change_run = cursor_texts demo_results_def demo_change_def planSyncActionsFromChanges_def plan_change_def empty_plan_def
  isKnownChangeKind_def knownChangeKinds_def isSessionFolderAssignmentHint_def isBulkSessionFolderAssignmentsHint_def
  readHintFolderIds_def readHintFolderId_def fields_get_def trim_or_none_def trim_def js_ws_def oset_adds_def oset_add_def add_id_def map_filter_simps
  planned_kv_def planned_assignments_def invalidations_of_def applyPlannedChangeActions_def checkpoint_def
  run_refreshes_def catch_up_sessions_def pending_sessions_def classifyChangeForCheckpoint_def
  CHANGE_CHECKPOINT_COVERAGE_def classified_def hasPendingHint_def stops_at_def is_session_kind_def
  getChangeTargetMessageSeq_def Let_def

text \<open>A failed refresh of folder assignments holds the cursor back when a session announced it, but
  not when the account announced a bulk change: the plan asks for the refresh of the folder, the refresh
  fails, and the cursor advances past the change all the same.\<close>

theorem bulk_assignment_failure_is_passed:
  "sessionFolderAssignments (planSyncActionsFromChanges
      [demo_change 7 ''account'' ''a'' [(''sessionFolderAssignments'', JBool True), (''folderIds'', JArr [JStr ''f''])]])
     = AssignFolders [''f'']
   \<and> applyPlannedChangeActions (demo_results False) (planSyncActionsFromChanges
      [demo_change 7 ''account'' ''a'' [(''sessionFolderAssignments'', JBool True), (''folderIds'', JArr [JStr ''f''])]])
     = Some \<lparr>safeAdvanceCursor = Some ''7'', blocked = None, processedChanges = 1, blockedChanges = 0\<rparr>
   \<and> applyPlannedChangeActions (demo_results False) (planSyncActionsFromChanges
      [demo_change 7 ''session'' ''s'' [(''sessionFolderAssignment'', JBool True)]])
     = Some \<lparr>safeAdvanceCursor = None, blocked = Some (''7'', PartialMaterialization), processedChanges = 0, blockedChanges = 1\<rparr>"
  by (simp add: change_run)

theorem every_change_is_planned_witness:
  "''s'' \<in> set (sessionIdsToCatchUp (planSyncActionsFromChanges [demo_change 7 ''session'' ''s'' []]))"
proof -
  have "planned_for (planSyncActionsFromChanges [demo_change 7 ''session'' ''s'' []]) (demo_change 7 ''session'' ''s'' [])"
    by (rule every_change_is_planned) simp
  then show ?thesis
    by (simp add: planned_for_def demo_change_def plan_kinds isSessionFolderAssignmentHint_def fields_get_def)
qed

theorem cursor_stops_at_first_unsettled_witness:
  "takeWhile (settled (demo_results True)
       [demo_change 7 ''session'' ''s'' [(''pendingCount'', JNum (Fin 1))], demo_change 8 ''session'' ''p'' [(''pendingCount'', JNum (Fin 1))]])
      [demo_change 7 ''session'' ''s'' [(''pendingCount'', JNum (Fin 1))], demo_change 8 ''session'' ''p'' [(''pendingCount'', JNum (Fin 1))]]
     = [demo_change 7 ''session'' ''s'' [(''pendingCount'', JNum (Fin 1))]]"
proof -
  let ?chs = "[demo_change 7 ''session'' ''s'' [(''pendingCount'', JNum (Fin 1))], demo_change 8 ''session'' ''p'' [(''pendingCount'', JNum (Fin 1))]]"
  have run: "applyPlannedChangeActions (demo_results True) (planSyncActionsFromChanges ?chs)
      = Some \<lparr>safeAdvanceCursor = Some ''7'', blocked = Some (''8'', PendingNotConverged), processedChanges = 1, blockedChanges = 1\<rparr>"
    by (simp add: change_run code_unit_compare_def)
  have "length (takeWhile (settled (demo_results True) ?chs) ?chs) = 1"
    using cursor_stops_at_first_unsettled [OF run] by (simp add: Let_def)
  then have "takeWhile (settled (demo_results True) ?chs) ?chs = take 1 ?chs" using takeWhile_eq_take by metis
  then show ?thesis by simp
qed

end
