(* ===== verification/DeferredTranscript.thy ===== *)
theory DeferredTranscript
  imports JsBase
begin

text \<open>
  What a hidden session still has to catch up on, from
  \<open>apps/ui/sources/sync/domains/session/realtime/deferredTranscriptState.ts\<close>: per session the
  highest sequence number known to exist, the highest one deferred, the messages edited while
  hidden and the lowest sequence number among them. Sequence numbers are normalised to integers;
  the four objects are association lists.
\<close>

section \<open>State\<close>

datatype update_type = NewMessage | MessageUpdated

record deferred_marker =
  updateType :: update_type
  seq :: "jsnum option"
  messageId :: "string option"

record deferred_state =
  knownRemoteSeq :: "(string \<times> int) list"
  deferredDurableSeq :: "(string \<times> int) list"
  staleMessageIds :: "(string \<times> string list) list"
  staleMinSeq :: "(string \<times> int) list"

definition createDeferredTranscriptState :: deferred_state where
  "createDeferredTranscriptState =
     \<lparr>knownRemoteSeq = [], deferredDurableSeq = [], staleMessageIds = [], staleMinSeq = []\<rparr>"

definition normalizeSeq :: "jsnum option \<Rightarrow> int option" where
  "normalizeSeq v = map_option (\<lambda>r. max 0 (math_trunc r)) (finite_num v)"

text \<open>A stored number read back.\<close>

definition num_of :: "int option \<Rightarrow> jsnum option" where
  "num_of v = map_option (\<lambda>i. Fin (of_int i)) v"

section \<open>Operations\<close>

definition markDeferredTranscriptRemoteSeq :: "deferred_state \<Rightarrow> string \<Rightarrow> jsnum option \<Rightarrow> deferred_state" where
  "markDeferredTranscriptRemoteSeq st sid sq =
     (case normalizeSeq sq of None \<Rightarrow> st
      | Some n \<Rightarrow>
          (if sid = [] then st
           else if n \<le> some_or 0 (map_of (knownRemoteSeq st) sid) then st
           else st\<lparr>knownRemoteSeq := AList.update sid n (knownRemoteSeq st)\<rparr>))"

definition markTranscriptDeferred :: "deferred_state \<Rightarrow> string \<Rightarrow> deferred_marker \<Rightarrow> deferred_state" where
  "markTranscriptDeferred st sid mk =
     (case normalizeSeq (seq mk) of None \<Rightarrow> st
      | Some n \<Rightarrow>
          (if sid = [] then st
           else let remote = markDeferredTranscriptRemoteSeq st sid (num_of (Some n)) in
             if n \<le> some_or 0 (map_of (deferredDurableSeq remote) sid) then remote
             else remote\<lparr>deferredDurableSeq := AList.update sid n (deferredDurableSeq remote)\<rparr>))"

definition next_min :: "int option \<Rightarrow> int option \<Rightarrow> int option" where
  "next_min existing n =
     (case n of None \<Rightarrow> existing
      | Some v \<Rightarrow> (case existing of None \<Rightarrow> Some v | Some e \<Rightarrow> Some (min e v)))"

definition markTranscriptStale :: "deferred_state \<Rightarrow> string \<Rightarrow> deferred_marker \<Rightarrow> deferred_state" where
  "markTranscriptStale st sid mk =
     (let remote = markTranscriptDeferred st sid mk in
      case messageId mk of None \<Rightarrow> remote
      | Some m \<Rightarrow>
          (if sid = [] \<or> m = [] then remote
           else let existingMin = map_of (staleMinSeq remote) sid;
                    nextMin = next_min existingMin (normalizeSeq (seq mk));
                    mins = (if nextMin = existingMin then staleMinSeq remote
                            else case nextMin of None \<Rightarrow> staleMinSeq remote
                                 | Some v \<Rightarrow> AList.update sid v (staleMinSeq remote));
                    existing = some_or [] (map_of (staleMessageIds remote) sid)
                in if m \<in> set existing
                   then (if nextMin = existingMin then remote else remote\<lparr>staleMinSeq := mins\<rparr>)
                   else remote\<lparr>staleMessageIds := AList.update sid (existing @ [m]) (staleMessageIds remote),
                               staleMinSeq := mins\<rparr>))"

definition readStaleTranscriptMessageIds :: "deferred_state \<Rightarrow> string \<Rightarrow> string list" where
  "readStaleTranscriptMessageIds st sid = some_or [] (map_of (staleMessageIds st) sid)"

definition hasStaleTranscriptMarkers :: "deferred_state \<Rightarrow> string \<Rightarrow> bool" where
  "hasStaleTranscriptMarkers st sid \<longleftrightarrow> length (some_or [] (map_of (staleMessageIds st) sid)) > 0"

definition readStaleTranscriptMinSeq :: "deferred_state \<Rightarrow> string \<Rightarrow> int option" where
  "readStaleTranscriptMinSeq st sid = normalizeSeq (num_of (map_of (staleMinSeq st) sid))"

definition readDeferredTranscriptDurableSeq :: "deferred_state \<Rightarrow> string \<Rightarrow> int option" where
  "readDeferredTranscriptDurableSeq st sid = normalizeSeq (num_of (map_of (deferredDurableSeq st) sid))"

definition acknowledgeStaleTranscriptRepair ::
    "deferred_state \<Rightarrow> string \<Rightarrow> string list \<Rightarrow> int option \<Rightarrow> deferred_state" where
  "acknowledgeStaleTranscriptRepair st sid ids mn =
     (let current = some_or [] (map_of (staleMessageIds st) sid) in
      if current = [] then st
      else if current \<noteq> ids then st
      else if readStaleTranscriptMinSeq st sid \<noteq> mn then st
      else st\<lparr>staleMessageIds := AList.delete sid (staleMessageIds st),
              staleMinSeq := AList.delete sid (staleMinSeq st)\<rparr>)"

definition clearDeferredTranscriptStateForSession :: "deferred_state \<Rightarrow> string \<Rightarrow> deferred_state" where
  "clearDeferredTranscriptStateForSession st sid =
     (if sid \<notin> set (obj_keys (deferredDurableSeq st)) \<and> sid \<notin> set (obj_keys (staleMessageIds st))
         \<and> sid \<notin> set (obj_keys (staleMinSeq st)) then st
      else st\<lparr>deferredDurableSeq := AList.delete sid (deferredDurableSeq st),
              staleMessageIds := AList.delete sid (staleMessageIds st),
              staleMinSeq := AList.delete sid (staleMinSeq st)\<rparr>)"

datatype deferred_op =
    MarkRemote string "jsnum option"
  | MarkDeferred string deferred_marker
  | MarkStale string deferred_marker
  | Acknowledge string "string list" "int option"
  | ClearSession string

fun deferred_step :: "deferred_state \<Rightarrow> deferred_op \<Rightarrow> deferred_state" where
  "deferred_step st (MarkRemote sid n) = markDeferredTranscriptRemoteSeq st sid n"
| "deferred_step st (MarkDeferred sid mk) = markTranscriptDeferred st sid mk"
| "deferred_step st (MarkStale sid mk) = markTranscriptStale st sid mk"
| "deferred_step st (Acknowledge sid ids mn) = acknowledgeStaleTranscriptRepair st sid ids mn"
| "deferred_step st (ClearSession sid) = clearDeferredTranscriptStateForSession st sid"

section \<open>Marks\<close>

definition known :: "deferred_state \<Rightarrow> string \<Rightarrow> int" where
  "known st sid = some_or 0 (map_of (knownRemoteSeq st) sid)"

definition durable :: "deferred_state \<Rightarrow> string \<Rightarrow> int" where
  "durable st sid = some_or 0 (map_of (deferredDurableSeq st) sid)"

lemma normalizeSeq_num_of [simp]: "normalizeSeq (num_of v) = map_option (max 0) v"
  by (cases v) (simp_all add: normalizeSeq_def num_of_def)

lemma normalizeSeq_nonneg: "normalizeSeq v = Some n \<Longrightarrow> 0 \<le> n"
  by (auto simp: normalizeSeq_def)

text \<open>Each operation as its effect on the four components.\<close>

lemma remote_effect:
  "known (markDeferredTranscriptRemoteSeq st sid v) =
     (case normalizeSeq v of None \<Rightarrow> known st
      | Some n \<Rightarrow> if sid = [] then known st else (known st)(sid := max (known st sid) n))"
  "durable (markDeferredTranscriptRemoteSeq st sid v) = durable st"
  "staleMessageIds (markDeferredTranscriptRemoteSeq st sid v) = staleMessageIds st"
  "staleMinSeq (markDeferredTranscriptRemoteSeq st sid v) = staleMinSeq st"
  by (auto simp: markDeferredTranscriptRemoteSeq_def known_def durable_def update_conv' fun_eq_iff
      split: option.split)

lemma deferred_effect:
  "known (markTranscriptDeferred st sid mk) =
     (case normalizeSeq (seq mk) of None \<Rightarrow> known st
      | Some n \<Rightarrow> if sid = [] then known st else (known st)(sid := max (known st sid) n))"
  "durable (markTranscriptDeferred st sid mk) =
     (case normalizeSeq (seq mk) of None \<Rightarrow> durable st
      | Some n \<Rightarrow> if sid = [] then durable st else (durable st)(sid := max (durable st sid) n))"
  "staleMessageIds (markTranscriptDeferred st sid mk) = staleMessageIds st"
  "staleMinSeq (markTranscriptDeferred st sid mk) = staleMinSeq st"
proof -
  show "known (markTranscriptDeferred st sid mk) =
     (case normalizeSeq (seq mk) of None \<Rightarrow> known st
      | Some n \<Rightarrow> if sid = [] then known st else (known st)(sid := max (known st sid) n))"
  proof (cases "normalizeSeq (seq mk)")
    case (Some n)
    have "known (s\<lparr>deferredDurableSeq := x\<rparr>) = known s" for s x by (simp add: known_def fun_eq_iff)
    then show ?thesis
      using normalizeSeq_nonneg [OF Some] by (simp add: markTranscriptDeferred_def Some Let_def remote_effect)
  qed (simp add: markTranscriptDeferred_def)
  show "durable (markTranscriptDeferred st sid mk) =
     (case normalizeSeq (seq mk) of None \<Rightarrow> durable st
      | Some n \<Rightarrow> if sid = [] then durable st else (durable st)(sid := max (durable st sid) n))"
  proof (cases "normalizeSeq (seq mk)")
    case (Some n)
    let ?r = "markDeferredTranscriptRemoteSeq st sid (num_of (Some n))"
    have r: "durable ?r = durable st" by (rule remote_effect)
    have "durable (?r\<lparr>deferredDurableSeq := AList.update sid n (deferredDurableSeq ?r)\<rparr>) = (durable ?r)(sid := n)"
      by (simp add: durable_def update_conv' fun_eq_iff)
    moreover have "some_or 0 (map_of (deferredDurableSeq ?r) sid) = durable st sid"
      unfolding r [symmetric] by (simp add: durable_def)
    ultimately show ?thesis
      by (simp add: markTranscriptDeferred_def Some Let_def remote_effect max_def)
  qed (simp add: markTranscriptDeferred_def)
  show "staleMessageIds (markTranscriptDeferred st sid mk) = staleMessageIds st"
    "staleMinSeq (markTranscriptDeferred st sid mk) = staleMinSeq st"
    by (simp_all add: markTranscriptDeferred_def Let_def remote_effect split: option.split)
qed

definition marks_row :: "string \<Rightarrow> deferred_marker \<Rightarrow> bool" where
  "marks_row sid mk \<longleftrightarrow> sid \<noteq> [] \<and> messageId mk \<noteq> None \<and> messageId mk \<noteq> Some []"

lemma stale_effect:
  "known (markTranscriptStale st sid mk) = known (markTranscriptDeferred st sid mk)"
  "durable (markTranscriptStale st sid mk) = durable (markTranscriptDeferred st sid mk)"
  "readStaleTranscriptMessageIds (markTranscriptStale st sid mk) =
     (if marks_row sid mk then (readStaleTranscriptMessageIds st)
        (sid := oset_add (the (messageId mk)) (readStaleTranscriptMessageIds st sid))
      else readStaleTranscriptMessageIds st)"
  "map_of (staleMinSeq (markTranscriptStale st sid mk)) =
     (if marks_row sid mk then (map_of (staleMinSeq st))
        (sid := next_min (map_of (staleMinSeq st) sid) (normalizeSeq (seq mk)))
      else map_of (staleMinSeq st))"
proof -
  let ?r = "markTranscriptDeferred st sid mk"
  have upd: "known (s\<lparr>staleMinSeq := x\<rparr>) = known s" "durable (s\<lparr>staleMinSeq := x\<rparr>) = durable s"
    "known (s\<lparr>staleMessageIds := y\<rparr>) = known s" "durable (s\<lparr>staleMessageIds := y\<rparr>) = durable s" for s x y
    by (simp_all add: known_def durable_def fun_eq_iff)
  show "known (markTranscriptStale st sid mk) = known ?r" "durable (markTranscriptStale st sid mk) = durable ?r"
    by (simp_all add: markTranscriptStale_def Let_def upd split: option.split)
  show "readStaleTranscriptMessageIds (markTranscriptStale st sid mk) =
     (if marks_row sid mk then (readStaleTranscriptMessageIds st)
        (sid := oset_add (the (messageId mk)) (readStaleTranscriptMessageIds st sid))
      else readStaleTranscriptMessageIds st)"
    by (cases "messageId mk")
      (auto simp: markTranscriptStale_def marks_row_def Let_def readStaleTranscriptMessageIds_def fun_eq_iff
        update_conv' oset_add_def deferred_effect)
  have nm: "next_min e v \<noteq> None" if "next_min e v \<noteq> e" for e v
    using that by (auto simp: next_min_def split: option.splits)
  show "map_of (staleMinSeq (markTranscriptStale st sid mk)) =
     (if marks_row sid mk then (map_of (staleMinSeq st))
        (sid := next_min (map_of (staleMinSeq st) sid) (normalizeSeq (seq mk)))
      else map_of (staleMinSeq st))"
  proof (cases "marks_row sid mk")
    case True
    then obtain m where m: "messageId mk = Some m" "m \<noteq> []" "sid \<noteq> []" by (auto simp: marks_row_def)
    let ?e = "map_of (staleMinSeq st) sid" and ?n = "normalizeSeq (seq mk)"
    show ?thesis
    proof (cases "next_min ?e ?n = ?e")
      case same: True
      then have "staleMinSeq (markTranscriptStale st sid mk) = staleMinSeq st"
        using m by (simp add: markTranscriptStale_def Let_def deferred_effect)
      then show ?thesis using True same by simp
    next
      case False
      then obtain v where v: "next_min ?e ?n = Some v" using nm by blast
      then have "staleMinSeq (markTranscriptStale st sid mk) = AList.update sid v (staleMinSeq st)"
        using m False by (simp add: markTranscriptStale_def Let_def deferred_effect)
      then show ?thesis using True v by (simp add: update_conv')
    qed
  next
    case False
    then show ?thesis
      by (cases "messageId mk") (auto simp: markTranscriptStale_def marks_row_def Let_def deferred_effect)
  qed
qed

lemma ack_effect:
  "known (acknowledgeStaleTranscriptRepair st sid ids mn) = known st"
  "durable (acknowledgeStaleTranscriptRepair st sid ids mn) = durable st"
  "readStaleTranscriptMessageIds (acknowledgeStaleTranscriptRepair st sid ids mn) =
     (if readStaleTranscriptMessageIds st sid = ids \<and> readStaleTranscriptMinSeq st sid = mn
      then (readStaleTranscriptMessageIds st)(sid := []) else readStaleTranscriptMessageIds st)"
  "map_of (staleMinSeq (acknowledgeStaleTranscriptRepair st sid ids mn)) k =
     (if k = sid \<and> readStaleTranscriptMessageIds st sid \<noteq> [] \<and> readStaleTranscriptMessageIds st sid = ids
         \<and> readStaleTranscriptMinSeq st sid = mn
      then None else map_of (staleMinSeq st) k)"
  by (auto simp: acknowledgeStaleTranscriptRepair_def Let_def known_def durable_def fun_eq_iff
      readStaleTranscriptMessageIds_def delete_conv')

lemma clear_effect:
  "known (clearDeferredTranscriptStateForSession st sid) = known st"
  "durable (clearDeferredTranscriptStateForSession st sid) = (durable st)(sid := 0)"
  "readStaleTranscriptMessageIds (clearDeferredTranscriptStateForSession st sid) =
     (readStaleTranscriptMessageIds st)(sid := [])"
  "map_of (staleMinSeq (clearDeferredTranscriptStateForSession st sid)) = (map_of (staleMinSeq st))(sid := None)"
proof -
  have none: "map_of m k = None" if "k \<notin> set (obj_keys m)" for m :: "(string \<times> 'v) list" and k
    using that by (simp add: map_of_eq_None_iff)
  show "known (clearDeferredTranscriptStateForSession st sid) = known st"
    by (simp add: clearDeferredTranscriptStateForSession_def known_def fun_eq_iff)
  show "durable (clearDeferredTranscriptStateForSession st sid) = (durable st)(sid := 0)"
    by (auto simp: clearDeferredTranscriptStateForSession_def durable_def fun_eq_iff delete_conv' none)
  show "readStaleTranscriptMessageIds (clearDeferredTranscriptStateForSession st sid) =
     (readStaleTranscriptMessageIds st)(sid := [])"
    by (auto simp: clearDeferredTranscriptStateForSession_def readStaleTranscriptMessageIds_def fun_eq_iff
        delete_conv' none)
  show "map_of (staleMinSeq (clearDeferredTranscriptStateForSession st sid)) = (map_of (staleMinSeq st))(sid := None)"
    by (auto simp: clearDeferredTranscriptStateForSession_def fun_eq_iff delete_conv' none)
qed

section \<open>Invariant\<close>

definition session_ok :: "int \<Rightarrow> int \<Rightarrow> string list \<Rightarrow> int option \<Rightarrow> bool" where
  "session_ok k d ids mn \<longleftrightarrow> 0 \<le> d \<and> d \<le> k \<and> distinct ids \<and> (ids = [] \<longrightarrow> mn = None)
     \<and> (\<forall>v. mn = Some v \<longrightarrow> 0 \<le> v \<and> v \<le> k)"

definition deferred_inv :: "deferred_state \<Rightarrow> bool" where
  "deferred_inv st \<longleftrightarrow> (\<forall>sid. session_ok (known st sid) (durable st sid)
     (readStaleTranscriptMessageIds st sid) (map_of (staleMinSeq st) sid))"

lemma deferred_inv_created: "deferred_inv createDeferredTranscriptState"
  by (simp add: deferred_inv_def session_ok_def createDeferredTranscriptState_def known_def durable_def
      readStaleTranscriptMessageIds_def)

lemma ids_cong: "staleMessageIds s = staleMessageIds s' \<Longrightarrow> readStaleTranscriptMessageIds s = readStaleTranscriptMessageIds s'"
  by (simp add: readStaleTranscriptMessageIds_def fun_eq_iff)

lemma deferred_inv_remote: "deferred_inv st \<Longrightarrow> deferred_inv (markDeferredTranscriptRemoteSeq st sid v)"
  unfolding deferred_inv_def remote_effect ids_cong [OF remote_effect(3)]
  by (auto simp: session_ok_def le_max_iff_disj split: option.split)

lemma session_ok_max: "session_ok k d ids mn \<Longrightarrow> session_ok (max k n) (max d n) ids mn"
  unfolding session_ok_def by (auto simp: max_def)

lemma deferred_inv_deferred: "deferred_inv st \<Longrightarrow> deferred_inv (markTranscriptDeferred st sid mk)"
  unfolding deferred_inv_def deferred_effect ids_cong [OF deferred_effect(3)]
  by (simp add: session_ok_max split: option.split)

lemma next_min_bounds:
  assumes "next_min e n = Some v" and "\<And>w. e = Some w \<Longrightarrow> 0 \<le> w \<and> w \<le> k"
    and "\<And>w. n = Some w \<Longrightarrow> 0 \<le> w \<and> w \<le> k"
  shows "0 \<le> v \<and> v \<le> k"
  using assms by (auto simp: next_min_def min_def split: option.splits if_splits)

lemma deferred_inv_stale:
  assumes "deferred_inv st"
  shows "deferred_inv (markTranscriptStale st sid mk)"
proof (cases "marks_row sid mk")
  case False
  have "deferred_inv (markTranscriptDeferred st sid mk)" using assms by (rule deferred_inv_deferred)
  then show ?thesis
    using False unfolding deferred_inv_def stale_effect deferred_effect ids_cong [OF deferred_effect(3)] by simp
next
  case True
  have d: "deferred_inv (markTranscriptDeferred st sid mk)" using assms by (rule deferred_inv_deferred)
  let ?k = "known (markTranscriptDeferred st sid mk)"
  have k: "w \<le> ?k sid" if "normalizeSeq (seq mk) = Some w" for w
    using that True by (simp add: deferred_effect marks_row_def)
  have ids: "oset_add m xs \<noteq> []" for m and xs :: "string list" by (simp add: oset_add_def split: if_splits) auto
  have "session_ok (?k s) (durable (markTranscriptDeferred st sid mk) s)
      (readStaleTranscriptMessageIds (markTranscriptStale st sid mk) s)
      (map_of (staleMinSeq (markTranscriptStale st sid mk)) s)" for s
  proof -
    have ok: "session_ok (?k s) (durable (markTranscriptDeferred st sid mk) s)
        (readStaleTranscriptMessageIds st s) (map_of (staleMinSeq st) s)"
      using d unfolding deferred_inv_def deferred_effect(4) ids_cong [OF deferred_effect(3)] by blast
    show ?thesis
    proof (cases "s = sid")
      case same: True
      have "0 \<le> v \<and> v \<le> ?k sid"
        if "next_min (map_of (staleMinSeq st) sid) (normalizeSeq (seq mk)) = Some v" for v
        by (rule next_min_bounds [OF that]) (use ok same k normalizeSeq_nonneg in \<open>auto simp: session_ok_def\<close>)
      then show ?thesis
        using ok True ids unfolding stale_effect session_ok_def same by simp
    qed (use ok True in \<open>simp add: stale_effect\<close>)
  qed
  then show ?thesis unfolding deferred_inv_def stale_effect(1,2) by blast
qed

lemma deferred_inv_step: "deferred_inv st \<Longrightarrow> deferred_inv (deferred_step st op)"
proof (cases op)
  case (Acknowledge sid ids mn)
  assume "deferred_inv st"
  then show ?thesis
    unfolding Acknowledge deferred_step.simps deferred_inv_def session_ok_def ack_effect by auto
next
  case (ClearSession sid)
  assume "deferred_inv st"
  moreover from this have "0 \<le> known st sid" for sid
    unfolding deferred_inv_def session_ok_def by (meson order_trans)
  ultimately show ?thesis
    unfolding ClearSession deferred_step.simps deferred_inv_def session_ok_def clear_effect by simp
qed (simp_all add: deferred_inv_remote deferred_inv_deferred deferred_inv_stale)

lemma known_step: "known st \<le> known (deferred_step st op)"
  by (cases op) (auto simp: le_fun_def remote_effect deferred_effect stale_effect ack_effect clear_effect
      split: option.split)

interpretation deferred: monotone_reducer deferred_step deferred_inv known
  by unfold_locales (simp_all add: deferred_inv_step known_step)

section \<open>Properties\<close>

text \<open>An operation that does not forget row \<open>m\<close> of session \<open>sid\<close>: an acknowledgement only forgets what
  the repair it acknowledges had read.\<close>

fun keeps_row :: "string \<Rightarrow> string \<Rightarrow> deferred_op \<Rightarrow> bool" where
  "keeps_row sid m (ClearSession s) \<longleftrightarrow> s \<noteq> sid"
| "keeps_row sid m (Acknowledge s ids mn) \<longleftrightarrow> s \<noteq> sid \<or> m \<notin> set ids"
| "keeps_row sid m _ \<longleftrightarrow> True"

definition row_kept :: "string \<Rightarrow> string \<Rightarrow> int \<Rightarrow> deferred_state \<Rightarrow> bool" where
  "row_kept sid m s st \<longleftrightarrow> m \<in> set (readStaleTranscriptMessageIds st sid)
     \<and> (\<exists>v. map_of (staleMinSeq st) sid = Some v \<and> v \<le> s)"

lemma next_min_le: "e = Some v \<Longrightarrow> v \<le> s \<Longrightarrow> \<exists>w. next_min e n = Some w \<and> w \<le> s"
  by (cases n) (auto simp: next_min_def)

lemma row_kept_step:
  assumes "row_kept sid m s st" and "keeps_row sid m op"
  shows "row_kept sid m s (deferred_step st op)"
proof (cases op)
  case (MarkStale sd mk)
  then show ?thesis
    using assms(1) next_min_le [of "map_of (staleMinSeq st) sid" _ s "normalizeSeq (seq mk)"]
    unfolding row_kept_def by (auto simp: stale_effect)
next
  case (Acknowledge sd ids mn)
  then show ?thesis using assms unfolding row_kept_def by (auto simp: ack_effect)
next
  case (ClearSession sd)
  then show ?thesis using assms unfolding row_kept_def by (simp add: clear_effect)
qed (use assms in \<open>simp_all add: row_kept_def remote_effect deferred_effect
      ids_cong [OF remote_effect(3)] ids_cong [OF deferred_effect(3)]\<close>)

text \<open>C12: A row edited while its session is hidden stays marked for repair, inside the region that will
  be refetched, through any further marks, acknowledgements of repairs that had not read it, and
  operations on other sessions; the known sequence number reaches it and never falls, and what is
  deferred is known.\<close>

theorem edited_rows_are_refetched:
  assumes "st = foldl deferred_step createDeferredTranscriptState ops"
    and "sid \<noteq> []" and "messageId mk = Some m" and "m \<noteq> []" and "normalizeSeq (seq mk) = Some s"
    and "list_all (keeps_row sid m) later"
  shows "m \<in> set (readStaleTranscriptMessageIds (foldl deferred_step (markTranscriptStale st sid mk) later) sid)
    \<and> (\<exists>v. readStaleTranscriptMinSeq (foldl deferred_step (markTranscriptStale st sid mk) later) sid = Some v \<and> v \<le> s)
    \<and> s \<le> known (foldl deferred_step (markTranscriptStale st sid mk) later) sid
    \<and> distinct (readStaleTranscriptMessageIds (foldl deferred_step (markTranscriptStale st sid mk) later) sid)
    \<and> (\<forall>d. readDeferredTranscriptDurableSeq (foldl deferred_step (markTranscriptStale st sid mk) later) sid = Some d
         \<longrightarrow> d \<le> known (foldl deferred_step (markTranscriptStale st sid mk) later) sid)"
proof -
  let ?s1 = "markTranscriptStale st sid mk"
  let ?s2 = "foldl deferred_step ?s1 later"
  have row: "marks_row sid mk" using assms(2-4) by (simp add: marks_row_def)
  have inv1: "deferred_inv ?s1"
    unfolding assms(1) by (intro deferred_inv_stale deferred.run_inv deferred_inv_created)
  have inv2: "deferred_inv ?s2" using inv1 by (rule deferred.run_inv)
  have "row_kept sid m s ?s1"
    using row assms(3,5) unfolding row_kept_def stale_effect
    by (auto simp: next_min_def split: option.split)
  then have kept: "row_kept sid m s ?s2"
    using assms(6) by (induction later arbitrary: st rule: rev_induct) (simp_all add: row_kept_step)
  have "s \<le> known ?s1 sid" using assms(2,5) by (simp add: stale_effect deferred_effect)
  then have k: "s \<le> known ?s2 sid"
    using le_funD [OF deferred.run_mono [OF inv1, of later], of sid] by simp
  have ok: "session_ok (known ?s2 sid) (durable ?s2 sid) (readStaleTranscriptMessageIds ?s2 sid)
      (map_of (staleMinSeq ?s2) sid)"
    using inv2 unfolding deferred_inv_def by blast
  have d: "d \<le> known ?s2 sid" if "readDeferredTranscriptDurableSeq ?s2 sid = Some d" for d
    using that ok by (auto simp: readDeferredTranscriptDurableSeq_def durable_def session_ok_def)
  show ?thesis
    using kept k ok d normalizeSeq_nonneg [OF assms(5)]
    by (auto simp: row_kept_def session_ok_def readStaleTranscriptMinSeq_def)
qed

theorem edited_rows_are_refetched_witness:
  "''m1'' \<in> set (readStaleTranscriptMessageIds
     (foldl deferred_step
        (markTranscriptStale createDeferredTranscriptState ''s''
           \<lparr>updateType = MessageUpdated, seq = Some (Fin 7), messageId = Some ''m1''\<rparr>)
        [MarkStale ''s'' \<lparr>updateType = MessageUpdated, seq = Some (Fin 9), messageId = Some ''m2''\<rparr>,
         Acknowledge ''s'' [''m2''] (Some 9), ClearSession ''t'']) ''s'')"
  (is "_ \<in> set (readStaleTranscriptMessageIds (foldl _ (markTranscriptStale _ _ ?mk) ?later) _)")
proof -
  have "normalizeSeq (seq ?mk) = Some 7" by (simp add: normalizeSeq_def math_trunc_def)
  moreover have "list_all (keeps_row ''s'' ''m1'') ?later" by simp
  ultimately show ?thesis
    using edited_rows_are_refetched [of createDeferredTranscriptState "[]" "''s''" ?mk "''m1''" 7 ?later] by simp
qed

end
