(* ===== verification/JumpSeq.thy ===== *)
theory JumpSeq
  imports JsBase
begin

text \<open>
  Jumping to a sequence number of a transcript, from
  \<open>apps/ui/sources/components/sessions/transcript/transcriptJumpSeqIndexResolution.ts\<close>: which item
  of the loaded window shows the message with a given number, or the nearest one. The resolver of
  message ids is a parameter; a sequence number is a finite number or missing.
\<close>

section \<open>Items\<close>

datatype turn_content =
    ContentMessage jsval
  | ContentToolCalls jsval
  | ContentOther

record jump_turn =
  userMessageId :: jsval
  content :: "turn_content list option"

record jump_item =
  kind :: jsval
  messageId :: jsval
  toolMessageId :: jsval
  seq :: jsval
  turn :: "jump_turn option"

record found =
  exact :: "nat option"
  nextAfter :: "(nat \<times> int) option"
  prevBefore :: "(nat \<times> int) option"

definition nothing_found :: found where
  "nothing_found = \<lparr>exact = None, nextAfter = None, prevBefore = None\<rparr>"

section \<open>Resolution\<close>

fun resolveSeq :: "(string \<Rightarrow> jsnum option) \<Rightarrow> jsval \<Rightarrow> rat option" where
  "resolveSeq res (JStr s) = (if s = [] then None else finite_num (res s))"
| "resolveSeq res _ = None"

definition considerSeq :: "rat \<Rightarrow> nat \<Rightarrow> rat \<Rightarrow> found \<Rightarrow> found" where
  "considerSeq target idx sq f =
     (let n = math_trunc sq in
      if of_int n = target then f\<lparr>exact := Some idx\<rparr>
      else if of_int n > target then
        (case nextAfter f of
           None \<Rightarrow> f\<lparr>nextAfter := Some (idx, n)\<rparr>
         | Some (_, m) \<Rightarrow> (if n < m then f\<lparr>nextAfter := Some (idx, n)\<rparr> else f))
      else
        (case prevBefore f of
           None \<Rightarrow> f\<lparr>prevBefore := Some (idx, n)\<rparr>
         | Some (_, m) \<Rightarrow> (if n > m then f\<lparr>prevBefore := Some (idx, n)\<rparr> else f)))"

definition consider_opt :: "rat \<Rightarrow> nat \<Rightarrow> rat option \<Rightarrow> found \<Rightarrow> found" where
  "consider_opt target idx sq f = (case sq of None \<Rightarrow> f | Some r \<Rightarrow> considerSeq target idx r f)"

definition own_seq :: "(string \<Rightarrow> jsnum option) \<Rightarrow> jsval \<Rightarrow> jsval \<Rightarrow> rat option" where
  "own_seq res sq ident = (case sq of JNum (Fin r) \<Rightarrow> Some r | _ \<Rightarrow> resolveSeq res ident)"

definition consider_ids :: "rat \<Rightarrow> (string \<Rightarrow> jsnum option) \<Rightarrow> nat \<Rightarrow> jsval list \<Rightarrow> found \<Rightarrow> found" where
  "consider_ids target res idx ids f = foldl (\<lambda>g v. consider_opt target idx (resolveSeq res v) g) f ids"

fun consider_entry :: "rat \<Rightarrow> (string \<Rightarrow> jsnum option) \<Rightarrow> nat \<Rightarrow> turn_content \<Rightarrow> found \<Rightarrow> found" where
  "consider_entry target res idx (ContentMessage v) f = consider_opt target idx (resolveSeq res v) f"
| "consider_entry target res idx (ContentToolCalls (JArr ids)) f = consider_ids target res idx ids f"
| "consider_entry target res idx _ f = f"

fun entries_loop :: "rat \<Rightarrow> (string \<Rightarrow> jsnum option) \<Rightarrow> nat \<Rightarrow> turn_content list \<Rightarrow> found \<Rightarrow> found" where
  "entries_loop target res idx [] f = f"
| "entries_loop target res idx (e # es) f =
     (let g = consider_entry target res idx e f in
      if exact g \<noteq> None then g else entries_loop target res idx es g)"

definition consider_item :: "rat \<Rightarrow> (string \<Rightarrow> jsnum option) \<Rightarrow> nat \<Rightarrow> jump_item \<Rightarrow> found \<Rightarrow> found" where
  "consider_item target res idx it f =
     (if kind it = JStr ''message'' then consider_opt target idx (own_seq res (seq it) (messageId it)) f
      else if kind it = JStr ''tool-group-tool'' then
        consider_opt target idx (own_seq res (seq it) (toolMessageId it)) f
      else if kind it = JStr ''turn'' then
        (case turn it of None \<Rightarrow> f
         | Some t \<Rightarrow> entries_loop target res idx (some_or [] (content t))
                       (consider_opt target idx (resolveSeq res (userMessageId t)) f))
      else f)"

fun items_loop :: "rat \<Rightarrow> (string \<Rightarrow> jsnum option) \<Rightarrow> nat \<Rightarrow> jump_item list \<Rightarrow> found \<Rightarrow> found" where
  "items_loop target res idx [] f = f"
| "items_loop target res idx (it # its) f =
     (let g = consider_item target res idx it f in
      if exact g \<noteq> None then g else items_loop target res (Suc idx) its g)"

definition resolveTranscriptJumpSeqIndex ::
    "jsnum \<Rightarrow> jump_item list \<Rightarrow> (string \<Rightarrow> jsnum option) \<Rightarrow> bool \<Rightarrow> nat option" where
  "resolveTranscriptJumpSeqIndex target items res hasMoreOlder =
     (case target of
        Fin t \<Rightarrow>
          (if t < 0 then None
           else let f = items_loop t res 0 items nothing_found in
             case exact f of Some i \<Rightarrow> Some i
             | None \<Rightarrow>
                (if nextAfter f \<noteq> None \<and> prevBefore f = None \<and> hasMoreOlder then None
                 else case nextAfter f of Some (i, _) \<Rightarrow> Some i
                      | None \<Rightarrow> map_option fst (prevBefore f)))
      | _ \<Rightarrow> None)"

section \<open>Candidates\<close>

text \<open>The sequence numbers an item stands for.\<close>

definition trunc_set :: "rat option \<Rightarrow> int set" where
  "trunc_set sq = math_trunc ` set_option sq"

fun entry_seqs :: "(string \<Rightarrow> jsnum option) \<Rightarrow> turn_content \<Rightarrow> int set" where
  "entry_seqs res (ContentMessage v) = trunc_set (resolveSeq res v)"
| "entry_seqs res (ContentToolCalls (JArr ids)) = (\<Union>v \<in> set ids. trunc_set (resolveSeq res v))"
| "entry_seqs res _ = {}"

definition item_seqs :: "(string \<Rightarrow> jsnum option) \<Rightarrow> jump_item \<Rightarrow> int set" where
  "item_seqs res it =
     (if kind it = JStr ''message'' then trunc_set (own_seq res (seq it) (messageId it))
      else if kind it = JStr ''tool-group-tool'' then trunc_set (own_seq res (seq it) (toolMessageId it))
      else if kind it = JStr ''turn'' then
        (case turn it of None \<Rightarrow> {}
         | Some t \<Rightarrow> trunc_set (resolveSeq res (userMessageId t))
                      \<union> (\<Union>e \<in> set (some_or [] (content t)). entry_seqs res e))
      else {})"

text \<open>What is found, in terms of the candidates considered so far.\<close>

definition hits :: "rat \<Rightarrow> (nat \<times> int) set \<Rightarrow> nat option \<Rightarrow> bool" where
  "hits t S e \<longleftrightarrow> (\<forall>j n. (j, n) \<in> S \<longrightarrow> of_int n = t \<longrightarrow> e = Some j)
     \<and> (\<forall>j. e = Some j \<longrightarrow> (\<exists>n. (j, n) \<in> S \<and> of_int n = t))"

definition nearest_after :: "rat \<Rightarrow> (nat \<times> int) set \<Rightarrow> (nat \<times> int) option \<Rightarrow> bool" where
  "nearest_after t S a \<longleftrightarrow> (a = None \<longrightarrow> (\<forall>j n. (j, n) \<in> S \<longrightarrow> \<not> t < of_int n))
     \<and> (\<forall>i m. a = Some (i, m) \<longrightarrow> (i, m) \<in> S \<and> t < of_int m \<and> (\<forall>j n. (j, n) \<in> S \<longrightarrow> t < of_int n \<longrightarrow> m \<le> n))"

definition nearest_before :: "rat \<Rightarrow> (nat \<times> int) set \<Rightarrow> (nat \<times> int) option \<Rightarrow> bool" where
  "nearest_before t S b \<longleftrightarrow> (b = None \<longrightarrow> (\<forall>j n. (j, n) \<in> S \<longrightarrow> \<not> of_int n < t))
     \<and> (\<forall>i m. b = Some (i, m) \<longrightarrow> (i, m) \<in> S \<and> of_int m < t \<and> (\<forall>j n. (j, n) \<in> S \<longrightarrow> of_int n < t \<longrightarrow> n \<le> m))"

definition summary :: "rat \<Rightarrow> (nat \<times> int) set \<Rightarrow> found \<Rightarrow> bool" where
  "summary t S f \<longleftrightarrow> hits t S (exact f) \<and> nearest_after t S (nextAfter f) \<and> nearest_before t S (prevBefore f)"

definition only_at :: "found \<Rightarrow> nat \<Rightarrow> bool" where
  "only_at f idx \<longleftrightarrow> exact f = None \<or> exact f = Some idx"

lemma hits_insert_exact:
  assumes "hits t S e" and "e = None \<or> e = Some i" and "of_int n = t"
  shows "hits t (insert (i, n) S) (Some i)"
proof -
  have "j = i" if "(j, m) \<in> S" "of_int m = t" for j m
    using assms(1,2) that unfolding hits_def by (metis option.distinct(1) option.inject)
  then show ?thesis using assms(3) unfolding hits_def by blast
qed

lemma hits_insert_other: "hits t S e \<Longrightarrow> of_int n \<noteq> t \<Longrightarrow> hits t (insert (i, n) S) e"
  unfolding hits_def by blast

lemma after_insert:
  "nearest_after t S a \<Longrightarrow> \<not> t < of_int n \<Longrightarrow> nearest_after t (insert (i, n) S) a"
  "nearest_after t S None \<Longrightarrow> t < of_int n \<Longrightarrow> nearest_after t (insert (i, n) S) (Some (i, n))"
  "nearest_after t S (Some (j, m)) \<Longrightarrow> t < of_int n \<Longrightarrow> n < m \<Longrightarrow> nearest_after t (insert (i, n) S) (Some (i, n))"
  "nearest_after t S (Some (j, m)) \<Longrightarrow> \<not> n < m \<Longrightarrow> nearest_after t (insert (i, n) S) (Some (j, m))"
  unfolding nearest_after_def by (auto, fastforce+)

lemma before_insert:
  "nearest_before t S b \<Longrightarrow> \<not> of_int n < t \<Longrightarrow> nearest_before t (insert (i, n) S) b"
  "nearest_before t S None \<Longrightarrow> of_int n < t \<Longrightarrow> nearest_before t (insert (i, n) S) (Some (i, n))"
  "nearest_before t S (Some (j, m)) \<Longrightarrow> of_int n < t \<Longrightarrow> n > m \<Longrightarrow> nearest_before t (insert (i, n) S) (Some (i, n))"
  "nearest_before t S (Some (j, m)) \<Longrightarrow> \<not> n > m \<Longrightarrow> nearest_before t (insert (i, n) S) (Some (j, m))"
  unfolding nearest_before_def by (auto, fastforce+)

lemma summary_consider:
  assumes "summary t S f" and "only_at f idx"
  shows "summary t (insert (idx, math_trunc sq) S) (considerSeq t idx sq f) \<and> only_at (considerSeq t idx sq f) idx"
proof -
  let ?n = "math_trunc sq"
  have s: "hits t S (exact f)" "nearest_after t S (nextAfter f)" "nearest_before t S (prevBefore f)"
    using assms(1) by (simp_all add: summary_def)
  consider "of_int ?n = t" | "t < of_int ?n" | "of_int ?n < t" by linarith
  then show ?thesis
  proof cases
    case 1
    then show ?thesis
      using s assms(2) hits_insert_exact [OF s(1)] after_insert(1) [OF s(2)] before_insert(1) [OF s(3)]
      by (simp add: summary_def only_at_def considerSeq_def)
  next
    case 2
    let ?g = "considerSeq t idx sq f"
    have ne: "of_int ?n \<noteq> t" "\<not> of_int ?n < t" using 2 by simp_all
    then have "exact ?g = exact f" "prevBefore ?g = prevBefore f"
      using 2 by (simp_all add: considerSeq_def Let_def split: option.split)
    moreover have "nearest_after t (insert (idx, ?n) S) (nextAfter ?g)"
    proof (cases "nextAfter f")
      case None
      then show ?thesis using s(2) 2 ne by (simp add: considerSeq_def after_insert)
    next
      case (Some p)
      then show ?thesis using s(2) 2 ne by (cases p) (simp add: considerSeq_def Let_def after_insert)
    qed
    ultimately show ?thesis
      using assms(2) hits_insert_other [OF s(1) ne(1)] before_insert(1) [OF s(3) ne(2)]
      by (simp add: summary_def only_at_def)
  next
    case 3
    let ?g = "considerSeq t idx sq f"
    have ne: "of_int ?n \<noteq> t" "\<not> t < of_int ?n" using 3 by simp_all
    then have "exact ?g = exact f" "nextAfter ?g = nextAfter f"
      using 3 by (simp_all add: considerSeq_def Let_def split: option.split)
    moreover have "nearest_before t (insert (idx, ?n) S) (prevBefore ?g)"
    proof (cases "prevBefore f")
      case None
      then show ?thesis using s(3) 3 ne by (simp add: considerSeq_def before_insert)
    next
      case (Some p)
      then show ?thesis using s(3) 3 ne by (cases p) (simp add: considerSeq_def Let_def before_insert)
    qed
    ultimately show ?thesis
      using assms(2) hits_insert_other [OF s(1) ne(1)] after_insert(1) [OF s(2) ne(2)]
      by (simp add: summary_def only_at_def)
  qed
qed

text \<open>Considering optional numbers, lists of tool messages and turn entries.\<close>

definition pairs :: "nat \<Rightarrow> int set \<Rightarrow> (nat \<times> int) set" where
  "pairs i A = {i} \<times> A"

text \<open>\<open>stepwise t idx S A f g\<close>: from \<open>f\<close>, having considered \<open>S\<close>, the numbers \<open>A\<close> of item \<open>idx\<close> were considered
  to reach \<open>g\<close>, all of them unless an exact match cut the item short.\<close>

definition stepwise :: "rat \<Rightarrow> nat \<Rightarrow> (nat \<times> int) set \<Rightarrow> int set \<Rightarrow> found \<Rightarrow> bool" where
  "stepwise t idx S A g \<longleftrightarrow> only_at g idx
     \<and> (\<exists>B \<subseteq> A. summary t (pairs idx B \<union> S) g \<and> (exact g = None \<longrightarrow> B = A))"

lemma summary_opt:
  assumes "summary t S f" and "only_at f idx"
  shows "summary t (pairs idx (trunc_set sq) \<union> S) (consider_opt t idx sq f) \<and> only_at (consider_opt t idx sq f) idx"
  using assms summary_consider [OF assms]
  by (cases sq) (simp_all add: consider_opt_def trunc_set_def pairs_def insert_def [symmetric])

lemma summary_ids:
  assumes "summary t S f" and "only_at f idx"
  shows "summary t (pairs idx (\<Union>v \<in> set ids. trunc_set (resolveSeq res v)) \<union> S) (consider_ids t res idx ids f)
    \<and> only_at (consider_ids t res idx ids f) idx"
  using assms
proof (induction ids arbitrary: S f)
  case (Cons v ids)
  let ?S = "pairs idx (trunc_set (resolveSeq res v)) \<union> S"
  have "summary t ?S (consider_opt t idx (resolveSeq res v) f)" "only_at (consider_opt t idx (resolveSeq res v) f) idx"
    using summary_opt [OF Cons.prems] by blast+
  from Cons.IH [OF this] have
    "summary t (pairs idx (\<Union>v \<in> set ids. trunc_set (resolveSeq res v)) \<union> ?S) (consider_ids t res idx (v # ids) f)
     \<and> only_at (consider_ids t res idx (v # ids) f) idx"
    by (simp add: consider_ids_def)
  moreover have "pairs idx (\<Union>v \<in> set ids. trunc_set (resolveSeq res v)) \<union> ?S
      = pairs idx (\<Union>v \<in> set (v # ids). trunc_set (resolveSeq res v)) \<union> S"
    by (auto simp: pairs_def)
  ultimately show ?case by simp
qed (simp add: consider_ids_def pairs_def)

lemma summary_entry:
  assumes "summary t S f" and "only_at f idx"
  shows "summary t (pairs idx (entry_seqs res e) \<union> S) (consider_entry t res idx e f)
    \<and> only_at (consider_entry t res idx e f) idx"
  using assms summary_opt [OF assms] summary_ids [OF assms]
  by (cases "(t, res, idx, e, f)" rule: consider_entry.cases) (simp_all add: pairs_def)

lemma stepwiseI:
  assumes "only_at g idx" and "B \<subseteq> A" and "summary t (pairs idx B \<union> S) g" and "exact g = None \<Longrightarrow> B = A"
  shows "stepwise t idx S A g"
  unfolding stepwise_def by (intro conjI exI [of _ B] impI assms)

lemma stepwise_extend:
  assumes "stepwise t idx (pairs idx C \<union> S) A g"
  shows "stepwise t idx S (C \<union> A) g"
proof -
  from assms obtain B where B: "B \<subseteq> A" "summary t (pairs idx B \<union> (pairs idx C \<union> S)) g"
    "exact g = None \<longrightarrow> B = A" "only_at g idx"
    unfolding stepwise_def by (elim conjE exE)
  have "pairs idx B \<union> (pairs idx C \<union> S) = pairs idx (C \<union> B) \<union> S" unfolding pairs_def by blast
  then have "summary t (pairs idx (C \<union> B) \<union> S) g" using B(2) by simp
  moreover have "C \<union> B \<subseteq> C \<union> A" using B(1) by (rule Un_mono [OF subset_refl])
  moreover have "exact g = None \<Longrightarrow> C \<union> B = C \<union> A" using B(3) by simp
  ultimately show ?thesis using B(4) by (intro stepwiseI)
qed

lemma stepwise_entries:
  assumes "summary t S f" and "only_at f idx"
  shows "stepwise t idx S (\<Union>e \<in> set es. entry_seqs res e) (entries_loop t res idx es f)"
  using assms
proof (induction es arbitrary: S f)
  case Nil
  then show ?case by (simp add: stepwise_def pairs_def)
next
  case (Cons e es)
  let ?g = "consider_entry t res idx e f"
  have g: "summary t (pairs idx (entry_seqs res e) \<union> S) ?g" "only_at ?g idx"
    using summary_entry [OF Cons.prems] by blast+
  have un: "(\<Union>e \<in> set (e # es). entry_seqs res e) = entry_seqs res e \<union> (\<Union>e \<in> set es. entry_seqs res e)" by simp
  show ?case
  proof (cases "exact ?g = None")
    case False
    then have "entries_loop t res idx (e # es) f = ?g" by (simp add: Let_def)
    then show ?thesis
      unfolding un by (simp only:) (rule stepwiseI [OF g(2) Un_upper1 g(1)], use False in simp)
  next
    case True
    then have "entries_loop t res idx (e # es) f = entries_loop t res idx es ?g" by (simp add: Let_def)
    then show ?thesis unfolding un by (simp only:) (rule stepwise_extend [OF Cons.IH [OF g]])
  qed
qed

lemma stepwise_item:
  assumes "summary t S f" and "exact f = None"
  shows "stepwise t idx S (item_seqs res it) (consider_item t res idx it f)"
proof -
  have f: "only_at f idx" using assms(2) by (simp add: only_at_def)
  have opt: "stepwise t idx S (trunc_set sq) (consider_opt t idx sq f)" for sq
    using summary_opt [OF assms(1) f] unfolding stepwise_def by blast
  have none: "stepwise t idx S {} f" using assms f by (simp add: stepwise_def pairs_def)
  show ?thesis
  proof (cases "turn it")
    case None
    then show ?thesis using opt none by (simp add: consider_item_def item_seqs_def)
  next
    case (Some tn)
    let ?u = "trunc_set (resolveSeq res (userMessageId tn))"
    let ?g = "consider_opt t idx (resolveSeq res (userMessageId tn)) f"
    have "summary t (pairs idx ?u \<union> S) ?g" "only_at ?g idx" using summary_opt [OF assms(1) f] by blast+
    from stepwise_extend [OF stepwise_entries [OF this]]
    have "stepwise t idx S (?u \<union> (\<Union>e \<in> set (some_or [] (content tn)). entry_seqs res e))
        (entries_loop t res idx (some_or [] (content tn)) ?g)" .
    then show ?thesis using opt none Some by (simp add: consider_item_def item_seqs_def)
  qed
qed

text \<open>The candidates of a window, numbered from some index, and the loop over its items.\<close>

definition candidates :: "(string \<Rightarrow> jsnum option) \<Rightarrow> nat \<Rightarrow> jump_item list \<Rightarrow> (nat \<times> int) set" where
  "candidates res k its = (\<Union>i < length its. pairs (k + i) (item_seqs res (its ! i)))"

lemma candidates_Cons:
  "candidates res k (it # its) = pairs k (item_seqs res it) \<union> candidates res (Suc k) its"
  by (simp add: candidates_def lessThan_Suc_eq_insert_0)

lemma candidates_ge: "(i, n) \<in> candidates res k its \<Longrightarrow> k \<le> i"
  by (auto simp: candidates_def pairs_def)

lemma summary_items:
  assumes "summary t S f" and "exact f = None"
  shows "\<exists>B \<subseteq> candidates res k its. summary t (B \<union> S) (items_loop t res k its f)
    \<and> (exact (items_loop t res k its f) = None \<longrightarrow> B = candidates res k its)
    \<and> (\<forall>i. exact (items_loop t res k its f) = Some i \<longrightarrow>
         (\<forall>(j, n) \<in> candidates res k its. j < i \<longrightarrow> (j, n) \<in> B))"
  using assms
proof (induction its arbitrary: k S f)
  case Nil
  then show ?case by (simp add: candidates_def)
next
  case (Cons it its)
  let ?g = "consider_item t res k it f"
  let ?C = "candidates res (Suc k) its" and ?I = "pairs k (item_seqs res it)"
  obtain A where A: "A \<subseteq> item_seqs res it" "summary t (pairs k A \<union> S) ?g"
    "exact ?g = None \<longrightarrow> A = item_seqs res it" "only_at ?g k"
    using stepwise_item [OF Cons.prems, of k res it] unfolding stepwise_def by (elim conjE exE)
  show ?case
  proof (cases "exact ?g = None")
    case False
    then have run: "items_loop t res k (it # its) f = ?g" by (simp add: Let_def)
    have k: "exact ?g = Some k" using False A(4) unfolding only_at_def by metis
    have "pairs k A \<subseteq> candidates res k (it # its)" unfolding candidates_Cons pairs_def using A(1) by blast
    moreover have "\<forall>(j, n) \<in> candidates res k (it # its). j < k \<longrightarrow> (j, n) \<in> pairs k A"
      using candidates_ge by fastforce
    ultimately show ?thesis
      unfolding run using A(2) k by (intro exI [of _ "pairs k A"]) simp
  next
    case True
    then have run: "items_loop t res k (it # its) f = items_loop t res (Suc k) its ?g" by (simp add: Let_def)
    let ?h = "items_loop t res (Suc k) its ?g"
    have s: "summary t (?I \<union> S) ?g" using A True by simp
    from Cons.IH [OF s True, of "Suc k"] obtain B where B: "B \<subseteq> ?C" "summary t (B \<union> (?I \<union> S)) ?h"
      "exact ?h = None \<longrightarrow> B = ?C" "\<forall>i. exact ?h = Some i \<longrightarrow> (\<forall>(j, n) \<in> ?C. j < i \<longrightarrow> (j, n) \<in> B)"
      by (elim conjE exE)
    have "B \<union> (?I \<union> S) = (?I \<union> B) \<union> S" by (simp add: Un_ac)
    then have sm: "summary t ((?I \<union> B) \<union> S) ?h" using B(2) by simp
    have sub: "?I \<union> B \<subseteq> ?I \<union> ?C" using B(1) by (rule Un_mono [OF subset_refl])
    have all: "exact ?h = None \<longrightarrow> ?I \<union> B = ?I \<union> ?C" using B(3) by simp
    have low: "\<forall>i. exact ?h = Some i \<longrightarrow> (\<forall>(j, n) \<in> ?I \<union> ?C. j < i \<longrightarrow> (j, n) \<in> ?I \<union> B)"
      using B(4) by (simp add: ball_Un case_prod_unfold)
    show ?thesis
      unfolding run candidates_Cons by (rule exI [of _ "?I \<union> B"]) (intro conjI sub sm all low)
  qed
qed

lemma summary_nothing: "summary t {} nothing_found"
  by (simp add: summary_def nothing_found_def hits_def nearest_after_def nearest_before_def)

section \<open>Properties\<close>

lemma resolve_cases:
  assumes "0 \<le> t"
  shows "\<exists>f B. summary t B f \<and> B \<subseteq> candidates res 0 its \<and> (exact f = None \<longrightarrow> B = candidates res 0 its)
    \<and> (\<forall>i. exact f = Some i \<longrightarrow> (\<forall>(j, n) \<in> candidates res 0 its. j < i \<longrightarrow> (j, n) \<in> B))
    \<and> resolveTranscriptJumpSeqIndex (Fin t) its res older =
        (case exact f of Some i \<Rightarrow> Some i
         | None \<Rightarrow> (if nextAfter f \<noteq> None \<and> prevBefore f = None \<and> older then None
                   else case nextAfter f of Some (i, _) \<Rightarrow> Some i | None \<Rightarrow> map_option fst (prevBefore f)))"
proof -
  have e: "exact nothing_found = None" by (simp add: nothing_found_def)
  from summary_items [OF summary_nothing e, where t = t and res = res and k = 0 and its = its] obtain B where
    "B \<subseteq> candidates res 0 its" "summary t B (items_loop t res 0 its nothing_found)"
    "exact (items_loop t res 0 its nothing_found) = None \<longrightarrow> B = candidates res 0 its"
    "\<forall>i. exact (items_loop t res 0 its nothing_found) = Some i \<longrightarrow>
       (\<forall>(j, n) \<in> candidates res 0 its. j < i \<longrightarrow> (j, n) \<in> B)"
    unfolding Un_empty_right by (elim conjE exE)
  then show ?thesis
    using assms
    by (intro exI [of _ "items_loop t res 0 its nothing_found"] exI [of _ B])
      (simp add: resolveTranscriptJumpSeqIndex_def Let_def)
qed

lemma jump_nearest:
  assumes "nearest_after t C a" and "nearest_before t C b" and no: "\<forall>j n. (j, n) \<in> C \<longrightarrow> of_int n \<noteq> t"
    and r: "r = (if a \<noteq> None \<and> b = None \<and> older then None
                 else case a of Some (i, _) \<Rightarrow> Some i | None \<Rightarrow> map_option fst b)"
  shows "(r = None \<longleftrightarrow> C = {} \<or> (older \<and> (\<forall>(j, n) \<in> C. t < of_int n)))
    \<and> (\<forall>i. r = Some i \<longrightarrow> (\<exists>n. (i, n) \<in> C
          \<and> ((t < of_int n \<and> (\<forall>(j, m) \<in> C. t < of_int m \<longrightarrow> n \<le> m))
            \<or> (of_int n < t \<and> (\<forall>(j, m) \<in> C. of_int m < t \<and> m \<le> n)))))"
proof (cases a)
  case None
  have low: "of_int n < t" if "(j, n) \<in> C" for j n
    using assms(1) no that None unfolding nearest_after_def by (meson linorder_less_linear)
  show ?thesis
  proof (cases b)
    case bn: None
    have "C = {}" using assms(2) low unfolding nearest_before_def bn by auto
    then show ?thesis using r None bn by simp
  next
    case (Some p)
    obtain i m where p: "p = (i, m)" by (cases p)
    have im: "(i, m) \<in> C" "of_int m < t" and max: "\<And>j n. (j, n) \<in> C \<Longrightarrow> n \<le> m"
      using assms(2) low unfolding nearest_before_def Some p by blast+
    have "r = Some i" using r None Some p by simp
    moreover have "\<not> (\<forall>(j, n) \<in> C. t < of_int n)" using im by force
    ultimately show ?thesis using im max low by blast
  qed
next
  case (Some p)
  obtain i m where p: "p = (i, m)" by (cases p)
  have im: "(i, m) \<in> C" "t < of_int m" and min: "\<And>j n. (j, n) \<in> C \<Longrightarrow> t < of_int n \<Longrightarrow> m \<le> n"
    using assms(1) unfolding nearest_after_def Some p by blast+
  have ri: "r = (if b = None \<and> older then None else Some i)" using r Some p by simp
  have all: "b = None \<longleftrightarrow> (\<forall>(j, n) \<in> C. t < of_int n)"
  proof (cases b)
    case None
    have "t < of_int n" if "(j, n) \<in> C" for j n
      using assms(2) no that unfolding nearest_before_def None by (meson linorder_less_linear)
    then show ?thesis using None by blast
  next
    case (Some q)
    obtain k l where "q = (k, l)" by (cases q)
    then have "(k, l) \<in> C" "of_int l < t" using assms(2) Some unfolding nearest_before_def by blast+
    then show ?thesis using Some by fastforce
  qed
  show ?thesis
  proof (cases "b = None \<and> older")
    case True
    then show ?thesis using ri all by simp
  next
    case False
    then have "r = Some i" using ri by simp
    then show ?thesis using False all im min by blast
  qed
qed

text \<open>C21: A jump lands where it should: on the first item that stands for the target, and, when none does,
  on the item with the nearest later number or, if there is none, on the last earlier one; it stays
  unresolved only when the window stands for no number at all, or lies entirely after the target
  while older pages may exist.\<close>

theorem jump_finds_the_nearest:
  assumes "0 \<le> t"
  shows "((\<exists>(i, n) \<in> candidates res 0 its. of_int n = t) \<longrightarrow>
        (\<exists>i. resolveTranscriptJumpSeqIndex (Fin t) its res older = Some i
           \<and> (\<exists>n. (i, n) \<in> candidates res 0 its \<and> of_int n = t)
           \<and> (\<forall>(j, n) \<in> candidates res 0 its. of_int n = t \<longrightarrow> i \<le> j)))
    \<and> (\<not> (\<exists>(i, n) \<in> candidates res 0 its. of_int n = t) \<longrightarrow>
        (resolveTranscriptJumpSeqIndex (Fin t) its res older = None \<longleftrightarrow>
           candidates res 0 its = {} \<or> (older \<and> (\<forall>(j, n) \<in> candidates res 0 its. t < of_int n)))
        \<and> (\<forall>i. resolveTranscriptJumpSeqIndex (Fin t) its res older = Some i \<longrightarrow>
             (\<exists>n. (i, n) \<in> candidates res 0 its
               \<and> ((t < of_int n \<and> (\<forall>(j, m) \<in> candidates res 0 its. t < of_int m \<longrightarrow> n \<le> m))
                 \<or> (of_int n < t \<and> (\<forall>(j, m) \<in> candidates res 0 its. of_int m < t \<and> m \<le> n))))))"
proof -
  let ?C = "candidates res 0 its" and ?r = "resolveTranscriptJumpSeqIndex (Fin t) its res older"
  from resolve_cases [OF assms, of res its older] obtain f B where
    s: "summary t B f" and B: "B \<subseteq> ?C" "exact f = None \<longrightarrow> B = ?C"
    "\<forall>i. exact f = Some i \<longrightarrow> (\<forall>(j, n) \<in> ?C. j < i \<longrightarrow> (j, n) \<in> B)"
    and r: "?r = (case exact f of Some i \<Rightarrow> Some i
         | None \<Rightarrow> (if nextAfter f \<noteq> None \<and> prevBefore f = None \<and> older then None
                   else case nextAfter f of Some (i, _) \<Rightarrow> Some i | None \<Rightarrow> map_option fst (prevBefore f)))"
    by (elim conjE exE)
  have h: "hits t B (exact f)" "nearest_after t B (nextAfter f)" "nearest_before t B (prevBefore f)"
    using s by (simp_all add: summary_def)
  show ?thesis
  proof (cases "exact f")
    case (Some i)
    then obtain n where n: "(i, n) \<in> B" "of_int n = t" using h(1) unfolding hits_def by blast
    have least: "i \<le> j" if j: "(j, m) \<in> ?C" "of_int m = t" for j m
    proof (rule ccontr)
      assume "\<not> i \<le> j"
      then have "(j, m) \<in> B" using B(3) Some j(1) by auto
      then have "exact f = Some j" using h(1) j(2) unfolding hits_def by blast
      then show False using Some \<open>\<not> i \<le> j\<close> by simp
    qed
    have "?r = Some i" using r Some by simp
    then show ?thesis using n B(1) least by blast
  next
    case None
    then have BC: "B = ?C" using B(2) by blast
    have no: "\<forall>j n. (j, n) \<in> ?C \<longrightarrow> of_int n \<noteq> t"
      using h(1) None unfolding hits_def BC by auto
    have miss: "\<not> (\<exists>(i, n) \<in> ?C. of_int n = t)" using no by blast
    have "?r = (if nextAfter f \<noteq> None \<and> prevBefore f = None \<and> older then None
        else case nextAfter f of Some (i, _) \<Rightarrow> Some i | None \<Rightarrow> map_option fst (prevBefore f))"
      using r None by simp
    from jump_nearest [OF h(2,3) [unfolded BC] no this] miss show ?thesis by blast
  qed
qed

definition demo_message :: "rat \<Rightarrow> jump_item" where
  "demo_message n = \<lparr>kind = JStr ''message'', messageId = JUndef, toolMessageId = JUndef, seq = JNum (Fin n), turn = None\<rparr>"

theorem jump_finds_the_nearest_witness:
  "resolveTranscriptJumpSeqIndex (Fin 7) [demo_message 5, demo_message 7] (\<lambda>_. None) True = Some 1"
proof -
  have c: "candidates (\<lambda>_. None) 0 [demo_message 5, demo_message 7] = {(0, 5), (1, 7)}"
    by (auto simp: candidates_def pairs_def item_seqs_def demo_message_def own_seq_def trunc_set_def
        math_trunc_def lessThan_Suc numeral_2_eq_2)
  show ?thesis
    using jump_finds_the_nearest [of 7 "\<lambda>_. None" "[demo_message 5, demo_message 7]" True] unfolding c by auto
qed

end
