(* ===== verification/BottomFollow.thy ===== *)
theory BottomFollow
  imports JsBase
begin

text \<open>
  Following the bottom of a transcript, from
  \<open>apps/ui/sources/components/sessions/transcript/scroll/transcriptBottomFollowMode.ts\<close>: the
  state machine that decides whether the list sticks to its newest message while the user drags,
  flings and returns. Distances and thresholds are JavaScript numbers; they are normalised to
  natural pixels.
\<close>

section \<open>States and events\<close>

datatype follow_mode = Following | Escaping | Released

record drag_session =
  latestDistance :: "int option"
  returnedToBottom :: bool
  sawAway :: bool
  trusted :: bool

record follow_state =
  dragSession :: "drag_session option"
  mode :: follow_mode

datatype follow_event =
    SessionEntry bool
  | ListDragStart
  | TrustedAway jsnum jsnum bool
  | TrustedBottom jsnum jsnum bool
  | PassiveBottom jsnum jsnum
  | DragEnd "jsnum option" jsnum bool
  | MomentumSettle "jsnum option" jsnum
  | JumpToBottom
  | FollowBottomIntent
  | ContentGrowth

definition normalizeDistance :: "jsnum \<Rightarrow> int" where
  "normalizeDistance v = (case v of Fin r \<Rightarrow> max 0 (math_trunc r) | _ \<Rightarrow> 0)"

text \<open>\<open>state.dragSession?.f === true\<close> and \<open>state.dragSession?.f ?? d\<close>.\<close>

definition drag_flag :: "(drag_session \<Rightarrow> bool) \<Rightarrow> bool \<Rightarrow> follow_state \<Rightarrow> bool" where
  "drag_flag f d st = (case dragSession st of None \<Rightarrow> d | Some s \<Rightarrow> f s)"

text \<open>
  The distance an event ends at: its own or the latest one of the drag session (already
  normalised, and normalising it again changes nothing).
\<close>

definition end_distance :: "jsnum option \<Rightarrow> drag_session option \<Rightarrow> int option" where
  "end_distance d s = (case d of Some v \<Rightarrow> Some (normalizeDistance v) | None \<Rightarrow> Option.bind s latestDistance)"

definition near_bottom :: "int option \<Rightarrow> jsnum \<Rightarrow> bool" where
  "near_bottom d pin = (case d of None \<Rightarrow> False | Some v \<Rightarrow> v \<le> normalizeDistance pin)"

section \<open>Events\<close>

definition trusted_away :: "jsnum \<Rightarrow> jsnum \<Rightarrow> bool \<Rightarrow> follow_state \<Rightarrow> follow_state" where
  "trusted_away d pin moved st =
     (let dist = normalizeDistance d;
          saw = (moved \<and> dist > normalizeDistance pin);
          s = \<lparr>latestDistance = Some dist, returnedToBottom = drag_flag returnedToBottom False st,
               sawAway = (drag_flag sawAway False st \<or> saw), trusted = True\<rparr>
      in if mode st = Escaping \<and> saw then \<lparr>dragSession = Some s, mode = Released\<rparr>
         else \<lparr>dragSession = (if mode st = Escaping then Some s else dragSession st), mode = mode st\<rparr>)"

definition trusted_bottom :: "jsnum \<Rightarrow> jsnum \<Rightarrow> bool \<Rightarrow> follow_state \<Rightarrow> follow_state" where
  "trusted_bottom d pin moved st =
     (let dist = normalizeDistance d;
          near = (dist \<le> normalizeDistance pin);
          s = \<lparr>latestDistance = Some dist, returnedToBottom = (near \<or> drag_flag returnedToBottom False st),
               sawAway = drag_flag sawAway False st, trusted = True\<rparr>
      in if mode st = Released \<and> dragSession st = None \<and> moved \<and> near
         then \<lparr>dragSession = None, mode = Following\<rparr>
         else if mode st = Released \<and> dragSession st \<noteq> None then \<lparr>dragSession = Some s, mode = mode st\<rparr>
         else if mode st = Escaping then \<lparr>dragSession = Some s, mode = mode st\<rparr>
         else st)"

definition passive_bottom :: "jsnum \<Rightarrow> jsnum \<Rightarrow> follow_state \<Rightarrow> follow_state" where
  "passive_bottom d pin st =
     (if mode st \<noteq> Escaping \<and> \<not> (mode st = Released \<and> dragSession st \<noteq> None) then st
      else \<lparr>dragSession = Some
              \<lparr>latestDistance = Some (normalizeDistance d),
               returnedToBottom = (normalizeDistance d \<le> normalizeDistance pin \<or> drag_flag returnedToBottom False st),
               sawAway = drag_flag sawAway False st, trusted = drag_flag trusted False st\<rparr>,
            mode = mode st\<rparr>)"

definition drag_end :: "jsnum option \<Rightarrow> jsnum \<Rightarrow> bool \<Rightarrow> follow_state \<Rightarrow> follow_state" where
  "drag_end d pin away st =
     (let dist = end_distance d (dragSession st);
          near = near_bottom dist pin;
          saw = (away \<or> drag_flag sawAway False st);
          s = \<lparr>latestDistance = dist, returnedToBottom = drag_flag returnedToBottom False st,
               sawAway = saw, trusted = drag_flag trusted True st\<rparr>;
          confirmed = (near \<and> (\<not> saw \<or> drag_flag returnedToBottom False st))
      in if (mode st = Escaping \<or> mode st = Released) \<and> confirmed
         then \<lparr>dragSession = Some (s\<lparr>returnedToBottom := True\<rparr>), mode = Following\<rparr>
         else if mode st = Escaping \<or> (mode st = Released \<and> saw)
         then \<lparr>dragSession = Some s, mode = Released\<rparr>
         else st)"

definition momentum_settle :: "jsnum option \<Rightarrow> jsnum \<Rightarrow> follow_state \<Rightarrow> follow_state" where
  "momentum_settle d pin st =
     (if (mode st \<noteq> Released \<and> mode st \<noteq> Following) \<or> \<not> drag_flag trusted False st then st
      else \<lparr>dragSession = None,
            mode = (if near_bottom (end_distance d (dragSession st)) pin then Following else Released)\<rparr>)"

fun resolveTranscriptBottomFollowMode :: "follow_state \<Rightarrow> follow_event \<Rightarrow> follow_state" where
  "resolveTranscriptBottomFollowMode st (SessionEntry b) =
     \<lparr>dragSession = None, mode = (if b then Following else Released)\<rparr>"
| "resolveTranscriptBottomFollowMode st ListDragStart =
     \<lparr>dragSession = Some \<lparr>latestDistance = None, returnedToBottom = False, sawAway = False, trusted = True\<rparr>,
      mode = Escaping\<rparr>"
| "resolveTranscriptBottomFollowMode st (TrustedAway d p m) = trusted_away d p m st"
| "resolveTranscriptBottomFollowMode st (TrustedBottom d p m) = trusted_bottom d p m st"
| "resolveTranscriptBottomFollowMode st (PassiveBottom d p) = passive_bottom d p st"
| "resolveTranscriptBottomFollowMode st (DragEnd d p a) = drag_end d p a st"
| "resolveTranscriptBottomFollowMode st (MomentumSettle d p) = momentum_settle d p st"
| "resolveTranscriptBottomFollowMode st JumpToBottom = \<lparr>dragSession = None, mode = Following\<rparr>"
| "resolveTranscriptBottomFollowMode st FollowBottomIntent = \<lparr>dragSession = None, mode = Following\<rparr>"
| "resolveTranscriptBottomFollowMode st ContentGrowth = st"

section \<open>The contract\<close>

text \<open>
  When the mode may change, without the bookkeeping: entering a session and jumping decide it,
  starting a drag suspends following, an observation releases it only when it is a trusted movement
  past the threshold, and following resumes only near the bottom, on a trusted movement towards it,
  at the end of a drag that never left the bottom or came back to it, or when the fling of a trusted
  drag settles.
\<close>

definition pinned_at :: "jsnum \<Rightarrow> jsnum \<Rightarrow> bool" where
  "pinned_at d pin \<longleftrightarrow> normalizeDistance d \<le> normalizeDistance pin"

inductive follow_edge :: "follow_mode \<Rightarrow> drag_session option \<Rightarrow> follow_event \<Rightarrow> follow_mode \<Rightarrow> bool" where
  enter: "follow_edge m s (SessionEntry b) (if b then Following else Released)"
| drag: "follow_edge m s ListDragStart Escaping"
| escape: "\<not> pinned_at d pin \<Longrightarrow> follow_edge Escaping s (TrustedAway d pin True) Released"
| approach: "pinned_at d pin \<Longrightarrow> follow_edge Released None (TrustedBottom d pin True) Following"
| let_go_near: "m \<noteq> Following \<Longrightarrow> near_bottom (end_distance d s) pin
    \<Longrightarrow> away \<or> (\<exists>g. s = Some g \<and> sawAway g) \<longrightarrow> (\<exists>g. s = Some g \<and> returnedToBottom g)
    \<Longrightarrow> follow_edge m s (DragEnd d pin away) Following"
| let_go: "follow_edge Escaping s (DragEnd d pin away) Released"
| settle_near: "trusted g \<Longrightarrow> m \<noteq> Escaping \<Longrightarrow> near_bottom (end_distance d (Some g)) pin
    \<Longrightarrow> follow_edge m (Some g) (MomentumSettle d pin) Following"
| settle_far: "trusted g \<Longrightarrow> m \<noteq> Escaping \<Longrightarrow> \<not> near_bottom (end_distance d (Some g)) pin
    \<Longrightarrow> follow_edge m (Some g) (MomentumSettle d pin) Released"
| jump: "follow_edge m s JumpToBottom Following"
| intent: "follow_edge m s FollowBottomIntent Following"

lemma away_edge:
  "mode (trusted_away d pin moved st) = mode st
   \<or> follow_edge (mode st) (dragSession st) (TrustedAway d pin moved) (mode (trusted_away d pin moved st))"
  by (cases moved) (auto simp: trusted_away_def Let_def pinned_at_def intro: escape)

lemma bottom_edge:
  "mode (trusted_bottom d pin moved st) = mode st
   \<or> follow_edge (mode st) (dragSession st) (TrustedBottom d pin moved) (mode (trusted_bottom d pin moved st))"
  by (cases moved) (auto simp: trusted_bottom_def Let_def pinned_at_def intro: approach)

lemma drag_end_edge:
  "mode (drag_end d pin away st) = mode st
   \<or> follow_edge (mode st) (dragSession st) (DragEnd d pin away) (mode (drag_end d pin away st))"
proof -
  let ?returned = "away \<or> (\<exists>g. dragSession st = Some g \<and> sawAway g)
      \<longrightarrow> (\<exists>g. dragSession st = Some g \<and> returnedToBottom g)"
  have conf: "mode (drag_end d pin away st) = Following \<Longrightarrow> mode st \<noteq> Following
      \<Longrightarrow> near_bottom (end_distance d (dragSession st)) pin \<and> ?returned"
    by (cases "dragSession st") (auto simp: drag_end_def Let_def drag_flag_def split: if_splits)
  have rel: "mode (drag_end d pin away st) = Released \<Longrightarrow> mode st = Escaping \<or> mode st = Released"
    by (auto simp: drag_end_def Let_def split: if_splits)
  have esc: "mode (drag_end d pin away st) = Escaping \<Longrightarrow> mode st = Escaping"
    by (auto simp: drag_end_def Let_def split: if_splits)
  show ?thesis
  proof (cases "mode (drag_end d pin away st)")
    case Following
    show ?thesis
    proof (cases "mode st = Following")
      case False
      from conf [OF Following False] have "follow_edge (mode st) (dragSession st) (DragEnd d pin away) Following"
        by (intro let_go_near False) simp_all
      then show ?thesis using Following by simp
    qed (use Following in simp)
  qed (use rel esc let_go in auto)
qed

lemma settle_edge:
  "mode (momentum_settle d pin st) = mode st
   \<or> follow_edge (mode st) (dragSession st) (MomentumSettle d pin) (mode (momentum_settle d pin st))"
proof (cases "dragSession st")
  case (Some g)
  show ?thesis
  proof (cases "mode st \<noteq> Escaping \<and> trusted g")
    case True
    then have "mode (momentum_settle d pin st) = (if near_bottom (end_distance d (dragSession st)) pin then Following else Released)"
      by (cases "mode st") (simp_all add: momentum_settle_def drag_flag_def Some)
    then show ?thesis
      using True settle_near [of g "mode st" d pin] settle_far [of g "mode st" d pin]
      by (simp add: Some split: if_splits)
  next
    case False
    then show ?thesis by (cases "mode st") (auto simp: momentum_settle_def drag_flag_def Some)
  qed
qed (simp add: momentum_settle_def drag_flag_def)

lemma follow_step_edge:
  "mode (resolveTranscriptBottomFollowMode st ev) = mode st
   \<or> follow_edge (mode st) (dragSession st) ev (mode (resolveTranscriptBottomFollowMode st ev))"
proof (cases ev)
  case (SessionEntry b)
  then show ?thesis using enter [of "mode st" "dragSession st" b] by simp
next
  case (PassiveBottom d pin)
  then show ?thesis by (simp add: passive_bottom_def)
qed (use away_edge bottom_edge drag_end_edge settle_edge drag jump intent in auto)

text \<open>Only trusted drags are tracked, with distances that are not negative.\<close>

definition follow_inv :: "follow_state \<Rightarrow> bool" where
  "follow_inv st \<longleftrightarrow> (\<forall>g. dragSession st = Some g \<longrightarrow> trusted g \<and> (\<forall>v. latestDistance g = Some v \<longrightarrow> 0 \<le> v))
     \<and> (mode st = Escaping \<longrightarrow> dragSession st \<noteq> None)"

lemma normalizeDistance_nonneg [simp]: "0 \<le> normalizeDistance v"
  by (cases v) (simp_all add: normalizeDistance_def)

lemma end_distance_nonneg: "follow_inv st \<Longrightarrow> end_distance d (dragSession st) = Some v \<Longrightarrow> 0 \<le> v"
  by (cases "dragSession st") (auto simp: end_distance_def follow_inv_def split: option.splits)

lemma follow_inv_observed:
  assumes "follow_inv st"
  shows "follow_inv (trusted_away d pin m st)" "follow_inv (trusted_bottom d pin m st)"
    "follow_inv (passive_bottom d pin st)"
proof -
  have tr: "drag_flag trusted False st \<longleftrightarrow> dragSession st \<noteq> None"
    using assms by (cases "dragSession st") (auto simp: drag_flag_def follow_inv_def)
  show "follow_inv (trusted_away d pin m st)" "follow_inv (trusted_bottom d pin m st)"
    using assms by (auto simp: trusted_away_def trusted_bottom_def Let_def follow_inv_def)
  show "follow_inv (passive_bottom d pin st)"
    using assms unfolding passive_bottom_def tr by (auto simp: follow_inv_def)
qed

lemma follow_inv_ended:
  assumes "follow_inv st"
  shows "follow_inv (drag_end d pin a st)" "follow_inv (momentum_settle d pin st)"
proof -
  have "drag_flag trusted True st"
    using assms by (cases "dragSession st") (auto simp: drag_flag_def follow_inv_def)
  then show "follow_inv (drag_end d pin a st)"
    using assms end_distance_nonneg [OF assms, of d] by (auto simp: drag_end_def Let_def follow_inv_def)
  show "follow_inv (momentum_settle d pin st)"
    using assms by (auto simp: momentum_settle_def follow_inv_def)
qed

lemma follow_inv_step: "follow_inv st \<Longrightarrow> follow_inv (resolveTranscriptBottomFollowMode st ev)"
  by (cases ev) (simp_all add: follow_inv_observed follow_inv_ended, simp_all add: follow_inv_def)

interpretation follow: reducer resolveTranscriptBottomFollowMode follow_inv
  by unfold_locales (rule follow_inv_step)

section \<open>Properties\<close>

text \<open>Events that stand for something the user, or the opening of a session, did.\<close>

fun user_event :: "follow_event \<Rightarrow> bool" where
  "user_event (TrustedBottom d pin moved) = (moved \<and> pinned_at d pin)"
| "user_event (TrustedAway _ _ _) = False"
| "user_event (PassiveBottom _ _) = False"
| "user_event (MomentumSettle _ _) = False"
| "user_event ContentGrowth = False"
| "user_event _ = True"

lemma quiet_event:
  assumes "dragSession st = None" and "mode st \<noteq> Escaping" and "\<not> user_event ev"
  shows "resolveTranscriptBottomFollowMode st ev = st"
  using assms
  by (cases ev) (auto simp: trusted_away_def trusted_bottom_def passive_bottom_def momentum_settle_def
      drag_flag_def pinned_at_def Let_def)

text \<open>C40: The list never starts or stops following by itself: every change of the mode is one the
  contract allows for that event, only trusted drags are tracked, and once no drag is open, growing
  content, passive scrolling, momentum and untrusted movements change nothing, so that a reader who
  scrolled away is not pulled back to the bottom and a follower is not let go.\<close>

theorem follow_mode_is_attributed:
  assumes "st = foldl resolveTranscriptBottomFollowMode \<lparr>dragSession = None, mode = m\<rparr> evs"
    and "m \<noteq> Escaping"
  shows "(mode (resolveTranscriptBottomFollowMode st ev) = mode st
        \<or> follow_edge (mode st) (dragSession st) ev (mode (resolveTranscriptBottomFollowMode st ev)))
    \<and> (\<forall>g. dragSession st = Some g \<longrightarrow> trusted g) \<and> (mode st = Escaping \<longrightarrow> dragSession st \<noteq> None)
    \<and> (dragSession st = None \<longrightarrow> list_all (\<lambda>e. \<not> user_event e) later
        \<longrightarrow> foldl resolveTranscriptBottomFollowMode st later = st)"
proof -
  have "follow_inv \<lparr>dragSession = None, mode = m\<rparr>" using assms(2) by (simp add: follow_inv_def)
  then have inv: "follow_inv st" unfolding assms(1) by (rule follow.run_inv)
  have "foldl resolveTranscriptBottomFollowMode st later = st"
    if "dragSession st = None" "list_all (\<lambda>e. \<not> user_event e) later"
    using that inv by (induction later) (simp_all add: quiet_event follow_inv_def)
  then show ?thesis
    using follow_step_edge [of st ev] inv unfolding follow_inv_def by blast
qed

definition demo_follow :: "follow_event list" where
  "demo_follow = [ListDragStart, TrustedAway (Fin 300) (Fin 24) True, DragEnd None (Fin 24) True,
     MomentumSettle (Some (Fin 900)) (Fin 24)]"

theorem follow_mode_is_attributed_witness:
  "foldl resolveTranscriptBottomFollowMode
     (foldl resolveTranscriptBottomFollowMode \<lparr>dragSession = None, mode = Following\<rparr> demo_follow)
     [ContentGrowth, PassiveBottom (Fin 10) (Fin 24)] = \<lparr>dragSession = None, mode = Released\<rparr>"
proof -
  let ?st = "foldl resolveTranscriptBottomFollowMode \<lparr>dragSession = None, mode = Following\<rparr> demo_follow"
  have st: "?st = \<lparr>dragSession = None, mode = Released\<rparr>"
    by (simp add: demo_follow_def trusted_away_def drag_end_def momentum_settle_def drag_flag_def
        end_distance_def near_bottom_def normalizeDistance_def math_trunc_def Let_def)
  have "dragSession ?st = None" "list_all (\<lambda>e. \<not> user_event e) [ContentGrowth, PassiveBottom (Fin 10) (Fin 24)]"
    unfolding st by simp_all
  then have "foldl resolveTranscriptBottomFollowMode ?st [ContentGrowth, PassiveBottom (Fin 10) (Fin 24)] = ?st"
    using follow_mode_is_attributed [OF refl, of Following demo_follow] by blast
  then show ?thesis unfolding st .
qed

end
