(* ===== verification/CursorDetector.thy ===== *)
theory CursorDetector
  imports ChangesPlanner
begin

text \<open>
  The detector that rechecks an advanced cursor, from
  \<open>apps/ui/sources/sync/runtime/orchestration/cursorMaterializationDetector.ts\<close>, and how it agrees
  with the checkpoint of the applier. Its telemetry records, which repeat the result, are left out.
\<close>

section \<open>The detector\<close>

record missing_proof =
  m_cursor :: string
  m_kind :: string
  m_entityId :: string
  requiredSeq :: int
  materializedSeq :: int

datatype detector_result = ProofsOk | NotInBatch | Violation "missing_proof list"

fun prefix_through :: "string \<Rightarrow> change_entry list \<Rightarrow> change_entry list option" where
  "prefix_through adv [] = None"
| "prefix_through adv (ch # chs) =
     (if string_of_nat (cursor ch) = adv then Some [ch] else map_option ((#) ch) (prefix_through adv chs))"

definition changesThroughAdvancedCursor :: "change_entry list \<Rightarrow> string option \<Rightarrow> change_entry list option" where
  "changesThroughAdvancedCursor chs adv =
     (let a = trim (some_or [] adv) in if a = [] then Some [] else prefix_through a chs)"

definition missing_proof_of :: "(string \<Rightarrow> bool) \<Rightarrow> (string \<times> int) list \<Rightarrow> change_entry \<Rightarrow> missing_proof option" where
  "missing_proof_of ld seqs ch =
     (let c = classifyChangeForCheckpoint ch ld in
      if c_decision c \<noteq> Critical \<or> (c_kind c \<noteq> ''session'' \<and> c_kind c \<noteq> ''share'') \<or> \<not> ld (c_entityId c)
      then None
      else case getChangeTargetMessageSeq ch of None \<Rightarrow> None
           | Some req \<Rightarrow>
               (let have_seq = some_or 0 (map_of seqs (c_entityId c)) in
                if have_seq \<ge> req then None
                else Some \<lparr>m_cursor = c_cursor c, m_kind = c_kind c, m_entityId = c_entityId c,
                           requiredSeq = req, materializedSeq = have_seq\<rparr>))"

definition verifyChangesCursorMaterializationProofs ::
    "change_entry list \<Rightarrow> string option \<Rightarrow> (string \<Rightarrow> bool) \<Rightarrow> (string \<times> int) list \<Rightarrow> detector_result" where
  "verifyChangesCursorMaterializationProofs chs adv ld seqs =
     (case changesThroughAdvancedCursor chs adv of None \<Rightarrow> NotInBatch
      | Some safe \<Rightarrow>
          (let missing = List.map_filter (missing_proof_of ld seqs) safe in
           if missing \<noteq> [] then Violation missing else ProofsOk))"

section \<open>Agreement with the checkpoint\<close>

lemma prefix_through_take:
  assumes "i < length chs"
  shows "\<exists>k \<le> i. prefix_through (string_of_nat (cursor (chs ! i))) chs = Some (take (Suc k) chs)"
  using assms
proof (induction chs arbitrary: i)
  case (Cons ch chs)
  show ?case
  proof (cases "string_of_nat (cursor ch) = string_of_nat (cursor ((ch # chs) ! i))")
    case True
    then show ?thesis by (intro exI [of _ 0]) simp
  next
    case False
    then obtain j where j: "i = Suc j" by (cases i) auto
    with Cons.IH [of j] Cons.prems obtain k where
      "k \<le> j" "prefix_through (string_of_nat (cursor (chs ! j))) chs = Some (take (Suc k) chs)" by auto
    then show ?thesis using False j by (intro exI [of _ "Suc k"]) simp
  qed
qed simp

definition hint_free :: "change_entry \<Rightarrow> bool" where
  "hint_free ch \<longleftrightarrow> \<not> folder_change ch \<and> \<not> (session_change ch \<and> hasPendingHint ch)"

lemma settled_proof:
  assumes "settled r chs ch" and "hint_free ch" and seqs: "\<And>s v. maxSeq r s = Some v \<Longrightarrow> v \<le> some_or 0 (map_of seqs s)"
  shows "missing_proof_of (isLoadedAfter r) seqs ch = None"
proof (cases "kind ch = ''session'' \<or> kind ch = ''share''")
  case False
  have "c_kind (classifyChangeForCheckpoint ch (isLoadedAfter r)) = kind ch"
    by (simp add: classifyChangeForCheckpoint_def classified_def case_prod_beta Let_def)
  then show ?thesis using False by (simp add: missing_proof_of_def Let_def)
next
  case True
  have c: "c_entityId (classifyChangeForCheckpoint ch (isLoadedAfter r)) = entityId ch"
    by (simp add: classifyChangeForCheckpoint_def classified_def case_prod_beta Let_def)
  have s: "session_change ch" "\<not> hasPendingHint ch"
    using True assms(2) by (auto simp: hint_free_def session_change_def folder_change_def)
  show ?thesis
  proof (cases "isLoadedAfter r (entityId ch) \<and> getChangeTargetMessageSeq ch \<noteq> None")
    case True
    then obtain n where n: "getChangeTargetMessageSeq ch = Some n" by blast
    then obtain v where "maxSeq r (entityId ch) = Some v" "n \<le> v"
      using assms(1,2) s True
      by (auto simp: settled_def hint_free_def seq_reached_def split: option.splits)
    then have "n \<le> some_or 0 (map_of seqs (entityId ch))" using seqs by (meson order_trans)
    then show ?thesis using n by (simp add: missing_proof_of_def Let_def c)
  qed (auto simp: missing_proof_of_def Let_def c)
qed

text \<open>C2: The detector confirms the checkpoint: it never reports a violation, nor a cursor outside the
  batch, for the cursor the applier approved, when it sees the sessions the checkpoint saw loaded, reads
  materialised numbers at least as high and the changes passed carry no pending or folder hint.\<close>

theorem detector_confirms_checkpoint:
  assumes "applyPlannedChangeActions r (planSyncActionsFromChanges changes) = Some res"
    and "list_all hint_free (take (processedChanges res) changes)"
    and "\<And>s v. maxSeq r s = Some v \<Longrightarrow> v \<le> some_or 0 (map_of seqs s)"
  shows "verifyChangesCursorMaterializationProofs changes (safeAdvanceCursor res) (isLoadedAfter r) seqs = ProofsOk"
proof -
  note settled = checkpoint_settles [OF assms(1)]
  have passed: "set (take (processedChanges res) changes) \<subseteq> {ch. settled r changes ch}"
    unfolding settled(1) takeWhile_eq_take [symmetric] by (auto dest: set_takeWhileD)
  have upto: "processedChanges res \<le> length changes"
    unfolding settled(1) by (rule length_takeWhile_le)
  have none: "missing_proof_of (isLoadedAfter r) seqs ch = None" if "ch \<in> set (take (processedChanges res) changes)" for ch
    using that passed assms(2) by (intro settled_proof [where chs = changes] assms(3)) (auto simp: list_all_iff)
  obtain k where k: "k \<le> processedChanges res"
    "changesThroughAdvancedCursor changes (safeAdvanceCursor res) = Some (take k changes)"
  proof (cases "processedChanges res")
    case 0
    then have "changesThroughAdvancedCursor changes (safeAdvanceCursor res) = Some (take 0 changes)"
      using settled(2) by (simp add: changesThroughAdvancedCursor_def settled(1) [symmetric])
    then show ?thesis using that by blast
  next
    case (Suc i)
    then have "i < length changes" using upto by simp
    from prefix_through_take [OF this] obtain j where
      "j \<le> i" "prefix_through (string_of_nat (cursor (changes ! i))) changes = Some (take (Suc j) changes)" by blast
    then show ?thesis
      using that [of "Suc j"] Suc settled(2)
      by (simp add: changesThroughAdvancedCursor_def Let_def settled(1) [symmetric])
  qed
  have "set (take k changes) \<subseteq> set (take (processedChanges res) changes)" using k(1) by (rule set_take_subset_set_take)
  then have "List.map_filter (missing_proof_of (isLoadedAfter r) seqs) (take k changes) = []"
    using none unfolding map_filter_def by (auto simp: filter_empty_conv)
  then show ?thesis by (simp add: verifyChangesCursorMaterializationProofs_def k(2))
qed

lemma pending_failure_runs:
  "applyPlannedChangeActions ((demo_results True)\<lparr>messagesOk := \<lambda>_. False\<rparr>) (planSyncActionsFromChanges
      [demo_change 7 ''session'' ''s'' [(''pendingCount'', JNum (Fin 1)), (''lastMessageSeq'', JNum (Fin 9))]])
    = Some \<lparr>safeAdvanceCursor = Some ''7'', blocked = None, processedChanges = 1, blockedChanges = 0\<rparr>"
  "applyPlannedChangeActions ((demo_results True)\<lparr>messagesOk := \<lambda>_. False\<rparr>) (planSyncActionsFromChanges
      [demo_change 7 ''session'' ''s'' [(''lastMessageSeq'', JNum (Fin 9))]])
    = Some \<lparr>safeAdvanceCursor = None, blocked = Some (''7'', PartialMaterialization), processedChanges = 0, blockedChanges = 1\<rparr>"
  by (simp_all add: change_run)

text \<open>A pending hint hides a failed message refresh: when the messages of a loaded session could not be
  fetched and the change announces message 9 while 5 is materialised, the applier holds the cursor back;
  but if the same change also carries a pending count, and the pending queue converged, the applier
  advances the cursor past it and the detector then reports exactly this change as violated.\<close>

theorem pending_hint_hides_missing_messages:
  "(\<exists>res. applyPlannedChangeActions ((demo_results True)\<lparr>messagesOk := \<lambda>_. False\<rparr>) (planSyncActionsFromChanges
      [demo_change 7 ''session'' ''s'' [(''lastMessageSeq'', JNum (Fin 9))]]) = Some res \<and> safeAdvanceCursor res = None)
   \<and> (\<exists>res. applyPlannedChangeActions ((demo_results True)\<lparr>messagesOk := \<lambda>_. False\<rparr>) (planSyncActionsFromChanges
      [demo_change 7 ''session'' ''s'' [(''pendingCount'', JNum (Fin 1)), (''lastMessageSeq'', JNum (Fin 9))]]) = Some res
      \<and> safeAdvanceCursor res = Some ''7'')
   \<and> verifyChangesCursorMaterializationProofs
      [demo_change 7 ''session'' ''s'' [(''pendingCount'', JNum (Fin 1)), (''lastMessageSeq'', JNum (Fin 9))]]
      (Some ''7'') (\<lambda>_. True) [(''s'', 5)]
     = Violation [\<lparr>m_cursor = ''7'', m_kind = ''session'', m_entityId = ''s'', requiredSeq = 9, materializedSeq = 5\<rparr>]"
  unfolding pending_failure_runs
  by (simp add: change_run verifyChangesCursorMaterializationProofs_def changesThroughAdvancedCursor_def missing_proof_of_def
      math_trunc_def)

theorem detector_confirms_checkpoint_witness:
  "verifyChangesCursorMaterializationProofs [demo_change 7 ''session'' ''s'' []] (Some ''7'') (\<lambda>_. True) [(''s'', 5)] = ProofsOk"
proof -
  let ?r = "(demo_results True)\<lparr>maxSeq := map_of [(''s'', 5)]\<rparr>"
  let ?chs = "[demo_change 7 ''session'' ''s'' []]"
  have run: "applyPlannedChangeActions ?r (planSyncActionsFromChanges ?chs)
      = Some \<lparr>safeAdvanceCursor = Some ''7'', blocked = None, processedChanges = 1, blockedChanges = 0\<rparr>"
    by (simp add: change_run)
  have free: "list_all hint_free ?chs"
    by (simp add: hint_free_def folder_change_def session_change_def change_run)
  have "verifyChangesCursorMaterializationProofs ?chs
      (safeAdvanceCursor \<lparr>safeAdvanceCursor = Some ''7'', blocked = None, processedChanges = 1, blockedChanges = 0\<rparr>)
      (isLoadedAfter ?r) [(''s'', 5)] = ProofsOk"
    by (rule detector_confirms_checkpoint [OF run]) (use free in \<open>auto split: if_splits\<close>)
  then show ?thesis by (simp add: demo_results_def)
qed

end
