(* ===== verification/HypothesisTree.thy ===== *)
theory HypothesisTree
  imports
    ResearchRun
begin

text \<open>
  The tree of hypotheses that the client shows for a research run: \<open>selectHypothesisTree\<close> of
  \<open>packages/devpilot-research/src/selectors.ts\<close>. The recursion of \<open>build\<close> follows the parent ids of
  the data and has no guard of its own; it takes fuel here, and the number of hypotheses is proved enough.
\<close>

section \<open>The selector\<close>

datatype HypothesisTreeNode = TreeNode (tree_node: hypothesis_node) (tree_children: "HypothesisTreeNode list")

definition tree_key :: "(string \<times> hypothesis_node) list \<Rightarrow> hypothesis_node \<Rightarrow> string option" where
  "tree_key hs n = (if truthy (h_parentId n) \<and> map_of hs (the (h_parentId n)) \<noteq> None then h_parentId n else None)"

text \<open>The map of children: \<open>children.set(key, [...(children.get(key) ?? []), node])\<close>.\<close>

definition add_child ::
    "(string \<times> hypothesis_node) list \<Rightarrow> (string option \<times> hypothesis_node list) list \<Rightarrow> string
      \<Rightarrow> (string option \<times> hypothesis_node list) list" where
  "add_child hs m i =
     (case map_of hs i of None \<Rightarrow> m
      | Some n \<Rightarrow> AList.update (tree_key hs n) (some_or [] (map_of m (tree_key hs n)) @ [n]) m)"

definition child_map :: "run_state \<Rightarrow> (string option \<times> hypothesis_node list) list" where
  "child_map st = foldl (add_child (hypotheses st)) [] (hypothesisOrder st)"

fun build :: "nat \<Rightarrow> (string option \<times> hypothesis_node list) list \<Rightarrow> string option \<Rightarrow> HypothesisTreeNode list option" where
  "build 0 m key = None"
| "build (Suc fuel) m key =
     those (map (\<lambda>n. map_option (TreeNode n) (build fuel m (Some (h_id n)))) (some_or [] (map_of m key)))"

definition selectHypothesisTree :: "run_state \<Rightarrow> HypothesisTreeNode list option" where
  "selectHypothesisTree st = build (Suc (length (hypothesisOrder st))) (child_map st) None"

section \<open>Children by parent\<close>

definition listed :: "run_state \<Rightarrow> hypothesis_node list" where
  "listed st = List.map_filter (map_of (hypotheses st)) (hypothesisOrder st)"

lemma child_map_get:
  "some_or [] (map_of (child_map st) key) = filter (\<lambda>n. tree_key (hypotheses st) n = key) (listed st)"
proof -
  have "some_or [] (map_of (foldl (add_child hs) m is) key)
      = some_or [] (map_of m key) @ filter (\<lambda>n. tree_key hs n = key) (List.map_filter (map_of hs) is)" for hs m "is"
    by (induction "is" arbitrary: m) (simp_all add: add_child_def map_filter_simps update_conv split: option.split)
  from this [of _ "[]"] show ?thesis by (simp add: child_map_def listed_def)
qed

lemma listed_ids:
  assumes "research_inv st"
  shows "map h_id (listed st) = hypothesisOrder st" and "distinct (map h_id (listed st))"
proof -
  have wf: "dict_wf h_id (hypotheses st) (hypothesisOrder st)" using assms by (simp add: research_inv_def)
  then have keys: "set (hypothesisOrder st) = fst ` set (hypotheses st)" unfolding dict_wf_def by (metis set_map)
  have "h_id ` set_option (map_of (hypotheses st) i) = {i}" if i: "i \<in> set (hypothesisOrder st)" for i
  proof -
    obtain v where v: "map_of (hypotheses st) i = Some v"
      using i keys by (cases "map_of (hypotheses st) i") (auto simp: map_of_eq_None_iff)
    then have "(i, v) \<in> set (hypotheses st)" by (rule map_of_SomeD)
    then have "h_id v = i" using wf by (auto simp: dict_wf_def)
    then show ?thesis using v by simp
  qed
  then have "map h_id (List.map_filter (map_of (hypotheses st)) is) = is" if "set is \<subseteq> set (hypothesisOrder st)" for "is"
    using that by (induction "is") (force simp: map_filter_simps split: option.split)+
  then show ids: "map h_id (listed st) = hypothesisOrder st" by (simp add: listed_def)
  show "distinct (map h_id (listed st))"
    using wf unfolding ids by (auto simp: dict_wf_def obj_wf_def)
qed

section \<open>Depth\<close>

text \<open>A node lies at depth \<open>d\<close> when its parent links lead to a root in \<open>d\<close> steps.\<close>

definition parent_link :: "run_state \<Rightarrow> hypothesis_node \<Rightarrow> hypothesis_node \<Rightarrow> bool" where
  "parent_link st m n \<longleftrightarrow> m \<in> set (listed st) \<and> n \<in> set (listed st) \<and> tree_key (hypotheses st) n = Some (h_id m)"

fun at_depth :: "run_state \<Rightarrow> nat \<Rightarrow> hypothesis_node \<Rightarrow> bool" where
  "at_depth st 0 n \<longleftrightarrow> n \<in> set (listed st) \<and> tree_key (hypotheses st) n = None"
| "at_depth st (Suc d) n \<longleftrightarrow> (\<exists>m. at_depth st d m \<and> parent_link st m n)"

lemma parent_unique:
  assumes "research_inv st" "parent_link st m n" "parent_link st m' n"
  shows "m = m'"
  using assms listed_ids(2) [of st] by (auto simp: parent_link_def distinct_map dest: inj_onD)

lemma at_depth_listed: "at_depth st d n \<Longrightarrow> n \<in> set (listed st)"
  by (cases d) (auto simp: parent_link_def)

lemma depth_unique:
  assumes "research_inv st" "at_depth st d n" "at_depth st e n"
  shows "d = e"
  using assms(2,3)
proof (induction d arbitrary: e n)
  case 0
  then show ?case by (cases e) (auto simp: parent_link_def)
next
  case (Suc d)
  then obtain m where m: "at_depth st d m" "parent_link st m n" by auto
  with Suc.prems(2) obtain e' where e: "e = Suc e'" by (cases e) (auto simp: parent_link_def)
  then obtain m' where "at_depth st e' m'" "parent_link st m' n" using Suc.prems(2) by auto
  then show ?case using Suc.IH m parent_unique [OF assms(1) m(2)] e by blast
qed

text \<open>Depths are fewer than hypotheses: the nodes above a node have pairwise different depths.\<close>

lemma depth_below: "at_depth st d n \<Longrightarrow> e \<le> d \<Longrightarrow> \<exists>m. at_depth st e m"
proof (induction d arbitrary: n)
  case (Suc d)
  then show ?case by (cases "e = Suc d") (blast, metis at_depth.simps(2) le_Suc_eq)
qed auto

lemma depth_bounded:
  assumes inv: "research_inv st" and "at_depth st d n"
  shows "d < length (hypothesisOrder st)"
proof -
  have "\<forall>e \<in> {..d}. \<exists>m. at_depth st e m" using depth_below [OF assms(2)] by blast
  then obtain f where f: "\<And>e. e \<le> d \<Longrightarrow> at_depth st e (f e)" by (metis atMost_iff)
  have "inj_on f {..d}" by (rule inj_onI) (metis f depth_unique [OF inv] atMost_iff)
  moreover have "f ` {..d} \<subseteq> set (listed st)" using f at_depth_listed by blast
  ultimately have "card {..d} \<le> card (set (listed st))" by (rule card_inj_on_le) simp
  also have "\<dots> \<le> length (listed st)" by (rule card_length)
  also have "\<dots> = length (hypothesisOrder st)" using listed_ids(1) [OF inv] by (metis length_map)
  finally show ?thesis by simp
qed

section \<open>The tree\<close>

fun tree_nodes :: "HypothesisTreeNode \<Rightarrow> hypothesis_node list" where
  "tree_nodes (TreeNode n ts) = n # concat (map tree_nodes ts)"

definition forest_nodes :: "HypothesisTreeNode list \<Rightarrow> hypothesis_node list" where
  "forest_nodes ts = concat (map tree_nodes ts)"

text \<open>Every node hangs where its parent id says, siblings in the order of the run.\<close>

fun well_placed :: "run_state \<Rightarrow> HypothesisTreeNode \<Rightarrow> bool" where
  "well_placed st (TreeNode n ts) \<longleftrightarrow>
     map tree_node ts = filter (\<lambda>c. tree_key (hypotheses st) c = Some (h_id n)) (listed st)
     \<and> list_all (well_placed st) ts"

lemma those_map:
  "those (map f xs) = Some ys \<longleftrightarrow> list_all2 (\<lambda>x y. f x = Some y) xs ys"
  by (induction xs arbitrary: ys) (auto split: option.splits simp: list_all2_Cons1)

lemma those_exists: "(\<And>x. x \<in> set xs \<Longrightarrow> f x \<noteq> None) \<Longrightarrow> \<exists>ys. those (map f xs) = Some ys"
  by (induction xs) (force split: option.splits)+

lemma build_some:
  "build (Suc fuel) (child_map st) key = Some ts \<longleftrightarrow>
     list_all2 (\<lambda>n t. \<exists>cs. build fuel (child_map st) (Some (h_id n)) = Some cs \<and> t = TreeNode n cs)
       (filter (\<lambda>n. tree_key (hypotheses st) n = key) (listed st)) ts"
  by (auto simp: child_map_get those_map elim!: list_all2_mono)

lemma build_enough:
  assumes "research_inv st" "at_depth st d n" "length (hypothesisOrder st) \<le> fuel + d"
  shows "\<exists>ts. build fuel (child_map st) (Some (h_id n)) = Some ts"
  using assms(2,3)
proof (induction fuel arbitrary: d n)
  case 0
  then show ?case using depth_bounded [OF assms(1)] by fastforce
next
  case (Suc fuel)
  have "\<exists>cs. build fuel (child_map st) (Some (h_id c)) = Some cs"
    if "c \<in> set (listed st)" "tree_key (hypotheses st) c = Some (h_id n)" for c
  proof (rule Suc.IH)
    show "at_depth st (Suc d) c"
      using that Suc.prems(1) at_depth_listed by (auto simp: parent_link_def)
  qed (use Suc.prems in simp)
  then show ?case by (auto simp: child_map_get intro!: those_exists)
qed

lemma build_root:
  assumes "research_inv st"
  shows "\<exists>ts. selectHypothesisTree st = Some ts"
proof -
  have "\<exists>cs. build (length (hypothesisOrder st)) (child_map st) (Some (h_id c)) = Some cs"
    if "c \<in> set (listed st)" "tree_key (hypotheses st) c = None" for c
    by (rule build_enough [OF assms, of 0]) (use that in simp_all)
  then show ?thesis by (auto simp: selectHypothesisTree_def child_map_get intro!: those_exists)
qed

section \<open>What the tree holds\<close>

fun below :: "run_state \<Rightarrow> nat \<Rightarrow> hypothesis_node \<Rightarrow> hypothesis_node \<Rightarrow> bool" where
  "below st 0 n m \<longleftrightarrow> m = n"
| "below st (Suc j) n m \<longleftrightarrow> (\<exists>k. below st j n k \<and> parent_link st k m)"

lemma below_first: "below st (Suc j) n m \<longleftrightarrow> (\<exists>c. parent_link st n c \<and> below st j c m)"
  by (induction j arbitrary: m) (simp, metis below.simps(2))

lemma below_depth: "at_depth st d n \<Longrightarrow> below st j n m \<Longrightarrow> at_depth st (d + j) m"
  by (induction j arbitrary: m) auto

lemma below_unique:
  "research_inv st \<Longrightarrow> below st j n m \<Longrightarrow> below st j n' m \<Longrightarrow> n = n'"
  by (induction j arbitrary: m) (simp, metis below.simps(2) parent_unique)

definition tree_ok :: "run_state \<Rightarrow> hypothesis_node \<Rightarrow> HypothesisTreeNode \<Rightarrow> bool" where
  "tree_ok st n t \<longleftrightarrow> tree_node t = n \<and> distinct (tree_nodes t) \<and> set (tree_nodes t) = {m. \<exists>j. below st j n m}
     \<and> well_placed st t"

lemma forest_ok:
  assumes inv: "research_inv st" and "list_all2 (tree_ok st) ns ts"
    and "distinct ns" "\<And>n. n \<in> set ns \<Longrightarrow> at_depth st d n"
  shows "map tree_node ts = ns \<and> list_all (well_placed st) ts \<and> distinct (forest_nodes ts)
    \<and> set (forest_nodes ts) = {m. \<exists>n j. n \<in> set ns \<and> below st j n m}"
  using assms(2-4)
proof (induction ns ts rule: list_all2_induct)
  case (Cons n ns t ts)
  have False if "below st j n m" "k \<in> set ns" "below st i k m" for j i k m
  proof -
    have "at_depth st (d + j) m" "at_depth st (d + i) m" using that Cons.prems(2) by (metis below_depth list.set_intros)+
    then have "j = i" using depth_unique [OF inv] by fastforce
    then have "n = k" using below_unique [OF inv] that by blast
    then show False using Cons.prems(1) that(2) by simp
  qed
  then have "set (tree_nodes t) \<inter> set (forest_nodes ts) = {}" using Cons by (auto simp: tree_ok_def)
  then show ?case using Cons by (auto simp: tree_ok_def forest_nodes_def)
qed (simp add: forest_nodes_def)

lemma kids_distinct: "research_inv st \<Longrightarrow> distinct (filter P (listed st))"
  using listed_ids(2) [of st] by (simp add: distinct_map)

lemma build_ok:
  assumes inv: "research_inv st" and "build fuel (child_map st) key = Some ts"
    and "\<And>n. n \<in> set (listed st) \<Longrightarrow> tree_key (hypotheses st) n = key \<Longrightarrow> at_depth st d n"
  shows "list_all2 (tree_ok st) (filter (\<lambda>n. tree_key (hypotheses st) n = key) (listed st)) ts"
  using assms(2,3)
proof (induction fuel arbitrary: key ts d)
  case (Suc fuel)
  have "tree_ok st n (TreeNode n cs)"
    if n: "n \<in> set (listed st)" "tree_key (hypotheses st) n = key" and cs: "build fuel (child_map st) (Some (h_id n)) = Some cs" for n cs
  proof -
    let ?kids = "filter (\<lambda>c. tree_key (hypotheses st) c = Some (h_id n)) (listed st)"
    have dn: "at_depth st d n" using Suc.prems(2) n by blast
    have kid: "c \<in> set ?kids \<longleftrightarrow> parent_link st n c" for c using n(1) by (auto simp: parent_link_def)
    then have dk: "at_depth st (Suc d) c" if "c \<in> set ?kids" for c using that dn by (metis at_depth.simps(2))
    have "list_all2 (tree_ok st) ?kids cs" by (rule Suc.IH [OF cs, of "Suc d"]) (use dk in \<open>simp del: at_depth.simps\<close>)
    from forest_ok [OF inv this kids_distinct [OF inv] dk] have f:
      "map tree_node cs = ?kids" "list_all (well_placed st) cs" "distinct (forest_nodes cs)"
      "set (forest_nodes cs) = {m. \<exists>j. below st (Suc j) n m}"
      by (simp_all only: kid below_first) blast+
    have irr: "\<not> below st (Suc j) n n" for j
      using below_depth [OF dn] depth_unique [OF inv dn] by (metis add_cancel_right_right nat.distinct(1))
    then have "n \<notin> set (forest_nodes cs)" using f(4) by blast
    moreover have "{m. \<exists>j. below st j n m} = insert n {m. \<exists>j. below st (Suc j) n m}"
      by (auto simp del: below.simps(2)) (metis below.simps(1) not0_implies_Suc, metis below.simps(1))
    ultimately show ?thesis using f irr by (simp add: tree_ok_def forest_nodes_def del: below.simps)
  qed
  then show ?case using Suc.prems(1) unfolding build_some by (auto elim!: list.rel_mono_strong)
qed simp

section \<open>Properties\<close>

lemma reached_consistent: "research_inv (reduceResearchRunEvents sid evs)"
  unfolding reduceResearchRunEvents_def by (rule research.run_inv [OF initial_inv])

lemma tree_complete:
  assumes "research_inv st"
  shows "\<exists>ts. selectHypothesisTree st = Some ts \<and> map tree_node ts = filter (\<lambda>n. tree_key (hypotheses st) n = None) (listed st)
    \<and> list_all (well_placed st) ts \<and> distinct (forest_nodes ts) \<and> set (forest_nodes ts) = {m. \<exists>d. at_depth st d m}"
proof -
  let ?roots = "filter (\<lambda>n. tree_key (hypotheses st) n = None) (listed st)"
  obtain ts where ts: "selectHypothesisTree st = Some ts" using build_root [OF assms] by blast
  have at: "at_depth st 0 n" if "n \<in> set ?roots" for n using that by simp
  have "list_all2 (tree_ok st) ?roots ts"
    by (rule build_ok [OF assms ts [unfolded selectHypothesisTree_def], of 0]) simp
  note f = forest_ok [OF assms this kids_distinct [OF assms] at]
  have "at_depth st d m \<Longrightarrow> \<exists>n j. n \<in> set ?roots \<and> below st j n m" for d m
    by (induction d arbitrary: m) (simp, metis below.simps(1), metis at_depth.simps(2) below.simps(2))
  then have "{m. \<exists>n j. n \<in> set ?roots \<and> below st j n m} = {m. \<exists>d. at_depth st d m}"
    using below_depth [OF at] by blast
  then show ?thesis using ts f by (intro exI [of _ ts]) simp
qed

text \<open>C36: The tree selector always returns, and its tree shows exactly the hypotheses whose parent links
  reach a root, each of them once: the top level lists the hypotheses without a known parent and every
  other one hangs below its parent, siblings in the order of the run.\<close>

theorem hypothesis_tree_is_complete:
  "\<exists>ts. selectHypothesisTree (reduceResearchRunEvents sid evs) = Some ts
    \<and> map tree_node ts = filter (\<lambda>n. tree_key (hypotheses (reduceResearchRunEvents sid evs)) n = None)
        (listed (reduceResearchRunEvents sid evs))
    \<and> list_all (well_placed (reduceResearchRunEvents sid evs)) ts
    \<and> distinct (map h_id (forest_nodes ts))
    \<and> set (forest_nodes ts) = {n. \<exists>d. at_depth (reduceResearchRunEvents sid evs) d n}"
proof -
  let ?st = "reduceResearchRunEvents sid evs"
  obtain ts where ts: "selectHypothesisTree ?st = Some ts"
    "map tree_node ts = filter (\<lambda>n. tree_key (hypotheses ?st) n = None) (listed ?st)"
    "list_all (well_placed ?st) ts" "distinct (forest_nodes ts)" "set (forest_nodes ts) = {n. \<exists>d. at_depth ?st d n}"
    using tree_complete [OF reached_consistent] by blast
  have "inj_on h_id (set (listed ?st))" using listed_ids(2) [OF reached_consistent] by (simp add: distinct_map)
  then have "inj_on h_id (set (forest_nodes ts))"
    by (rule inj_on_subset) (use ts(5) at_depth_listed in blast)
  then show ?thesis using ts by (intro exI [of _ ts]) (simp add: distinct_map)
qed

text \<open>Hypotheses whose parent links form a cycle are recorded and listed by the run, and lead its best
  scoring path, but the tree does not show them at all.\<close>

theorem cyclic_hypotheses_vanish:
  "hypothesisOrder (reduceResearchRunEvents ''s'' cyclic_run) = [''h1'', ''h2'']
   \<and> selectBestScoringPath (reduceResearchRunEvents ''s'' cyclic_run) = [''h1'', ''h2'']
   \<and> selectHypothesisTree (reduceResearchRunEvents ''s'' cyclic_run) = Some []"
proof -
  let ?st = "reduceResearchRunEvents ''s'' cyclic_run"
  note run = reduceResearchRunEvents_def cyclic_run_def demo_event_def reduceResearchRun_def
        on_hypothesis_def text_defs createInitialResearchRunState_def run_base_def truthy_def
        hypothesis_from_def numberValue_def Let_def
  have order: "hypothesisOrder ?st = [''h1'', ''h2'']" by (simp add: run)
  have "selectBestScoringPath ?st = [''h1'', ''h2'']"
    by (simp add: selectBestScoringPath_def run map_filter_simps climb.simps parent_of_def)
  moreover have "selectHypothesisTree ?st = Some []"
    by (simp add: selectHypothesisTree_def run child_map_def add_child_def tree_key_def)
  ultimately show ?thesis using order by simp
qed

end
