(* ===== verification/TranscriptSegments.thy ===== *)
theory TranscriptSegments
  imports
    JsBase
begin

text \<open>
  The split of a transcript into a cold part, which the list recycles, and a hot tail, which is laid
  out for real: \<open>buildTranscriptHotColdSegments\<close> of
  \<open>apps/ui/sources/components/sessions/transcript/segments/buildTranscriptHotColdSegments.ts\<close>. The
  kinds of items are constructors; the four kinds of per-unit tool rows share one with a tag.
\<close>

section \<open>Items\<close>

datatype content_item =
    ContentMessage string
  | ContentToolCalls "string list"
  | ContentOther string

datatype list_item =
    MessageItem string string
  | ToolCallsGroup string "string list"
  | ToolGroupRow string string "string list"
  | PendingQueue string
  | PendingUserAction string
  | ActionDraft string
  | ForkDivider string
  | TurnItem string "string option" "content_item list"
  | OtherItem string string

definition NATIVE_LIVE_TAIL_SAFETY_CEILING_ITEMS :: nat where
  "NATIVE_LIVE_TAIL_SAFETY_CEILING_ITEMS = 48"

record segment_params =
  enabled :: bool
  hotTailItemCount :: jsnum
  segment_items :: "list_item list"
  activeThinkingMessageId :: "string option"
  liveTailAnchorMessageId :: "string option"
  expandedAnchors :: "string list"
  maxHotTailItems :: "jsnum option"
  liveTailOnly :: bool

record segments =
  coldItems :: "list_item list"
  hotItems :: "list_item list"
  splitIndex :: nat

definition all_cold :: "list_item list \<Rightarrow> segments" where
  "all_cold items = \<lparr>coldItems = items, hotItems = [], splitIndex = length items\<rparr>"

definition split_at :: "nat \<Rightarrow> list_item list \<Rightarrow> segments" where
  "split_at k items = \<lparr>coldItems = take k items, hotItems = drop k items, splitIndex = k\<rparr>"

section \<open>The live tail\<close>

fun content_streams :: "string \<Rightarrow> content_item \<Rightarrow> bool" where
  "content_streams anchor (ContentMessage m) = (m = anchor)"
| "content_streams anchor (ContentToolCalls ids) = list_ex (\<lambda>i. i = anchor) ids"
| "content_streams anchor (ContentOther _) = False"

fun item_streams :: "string \<Rightarrow> list_item \<Rightarrow> bool" where
  "item_streams anchor (MessageItem _ m) = (m = anchor)"
| "item_streams anchor (ToolCallsGroup _ ids) = list_ex (\<lambda>i. i = anchor) ids"
| "item_streams anchor (ToolGroupRow _ _ ids) = list_ex (\<lambda>i. i = anchor) ids"
| "item_streams anchor (TurnItem _ u content) = (u = Some anchor \<or> list_ex (content_streams anchor) content)"
| "item_streams anchor _ = False"

fun active_index :: "string \<Rightarrow> nat \<Rightarrow> list_item list \<Rightarrow> nat option" where
  "active_index anchor i [] = None"
| "active_index anchor i (it # its) = (if item_streams anchor it then Some i else active_index anchor (Suc i) its)"

definition configured_cap :: "jsnum option \<Rightarrow> nat" where
  "configured_cap mx = (case finite_num mx of Some r \<Rightarrow> nat (max 0 (math_trunc r)) | None \<Rightarrow> 0)"

definition live_split :: "jsnum option \<Rightarrow> nat \<Rightarrow> nat \<Rightarrow> nat" where
  "live_split mx n ai =
     (let ceiling = max (configured_cap mx) NATIVE_LIVE_TAIL_SAFETY_CEILING_ITEMS
      in if n - ai > ceiling then n - ceiling else ai)"

definition live_tail :: "segment_params \<Rightarrow> segments" where
  "live_tail p =
     (let items = segment_items p in
      case first_some [liveTailAnchorMessageId p, activeThinkingMessageId p] of None \<Rightarrow> all_cold items
      | Some anchor \<Rightarrow>
          (case active_index anchor 0 items of None \<Rightarrow> all_cold items
           | Some ai \<Rightarrow>
               (let liveSplit = live_split (maxHotTailItems p) (length items) ai
                in if liveSplit \<le> 0 then all_cold items
                   else split_at (min liveSplit (length items - 1)) items)))"

section \<open>The trailing window\<close>

definition any_expanded :: "segment_params \<Rightarrow> string list \<Rightarrow> bool" where
  "any_expanded p ids = list_ex (\<lambda>i. i \<in> set (expandedAnchors p)) ids"

fun content_hot :: "segment_params \<Rightarrow> content_item \<Rightarrow> bool" where
  "content_hot p (ContentMessage m) = (Some m = activeThinkingMessageId p)"
| "content_hot p (ContentToolCalls ids) = any_expanded p ids"
| "content_hot p (ContentOther _) = False"

fun item_pulls :: "segment_params \<Rightarrow> list_item \<Rightarrow> bool" where
  "item_pulls p (MessageItem _ m) = (Some m = activeThinkingMessageId p)"
| "item_pulls p (ToolCallsGroup _ ids) = any_expanded p ids"
| "item_pulls p (ToolGroupRow _ _ ids) = any_expanded p ids"
| "item_pulls p (PendingQueue _) = True"
| "item_pulls p (PendingUserAction _) = True"
| "item_pulls p (ActionDraft _) = True"
| "item_pulls p (ForkDivider _) = True"
| "item_pulls p (TurnItem _ u content) =
     ((case u of None \<Rightarrow> False | Some i \<Rightarrow> i \<noteq> [] \<and> u = activeThinkingMessageId p) \<or> list_ex (content_hot p) content)"
| "item_pulls p (OtherItem _ _) = False"

fun pull_loop :: "segment_params \<Rightarrow> nat \<Rightarrow> nat \<Rightarrow> list_item list \<Rightarrow> nat" where
  "pull_loop p split i [] = split"
| "pull_loop p split i (it # its) = pull_loop p (if item_pulls p it then min split i else split) (Suc i) its"

definition hot_tail_count :: "jsnum \<Rightarrow> nat" where
  "hot_tail_count c = (case finite_num (Some c) of Some r \<Rightarrow> nat (max 1 (math_trunc r)) | None \<Rightarrow> 1)"

definition trailing_window :: "segment_params \<Rightarrow> segments" where
  "trailing_window p =
     (let items = segment_items p;
          pulled = pull_loop p (length items - hot_tail_count (hotTailItemCount p)) 0 items;
          capped = (if finite_num (maxHotTailItems p) = None then pulled
                    else max pulled (length items - configured_cap (maxHotTailItems p)))
      in split_at (max 1 (min capped (length items - 1))) items)"

definition buildTranscriptHotColdSegments :: "segment_params \<Rightarrow> segments" where
  "buildTranscriptHotColdSegments p =
     (if \<not> enabled p \<or> segment_items p = [] then all_cold (segment_items p)
      else if length (segment_items p) = 1 then \<lparr>coldItems = segment_items p, hotItems = [], splitIndex = 1\<rparr>
      else if liveTailOnly p then live_tail p
      else trailing_window p)"

section \<open>Lemmas\<close>

lemma split_at_parts [simp]:
  "coldItems (split_at k items) = take k items" "hotItems (split_at k items) = drop k items"
  "splitIndex (split_at k items) = k"
  by (simp_all add: split_at_def)

lemma all_cold_parts [simp]:
  "coldItems (all_cold items) = items" "hotItems (all_cold items) = []"
  "splitIndex (all_cold items) = length items"
  by (simp_all add: all_cold_def)

lemma active_index_some:
  "active_index anchor i its = Some j \<Longrightarrow>
     i \<le> j \<and> j - i < length its \<and> item_streams anchor (its ! (j - i)) \<and> (\<forall>k < j - i. \<not> item_streams anchor (its ! k))"
proof (induction its arbitrary: i)
  case (Cons it its)
  show ?case
  proof (cases "item_streams anchor it")
    case False
    with Cons have IH: "Suc i \<le> j" "j - Suc i < length its" "item_streams anchor (its ! (j - Suc i))"
      "\<forall>k < j - Suc i. \<not> item_streams anchor (its ! k)" by fastforce+
    then have "j - i = Suc (j - Suc i)" by simp
    then show ?thesis using IH False by (auto simp: nth_Cons split: nat.split)
  qed (use Cons in auto)
qed simp

lemma active_index_less: "active_index anchor i its = Some j \<Longrightarrow> j < i + length its"
  by (induction its arbitrary: i) (fastforce split: if_splits)+

lemma active_index_none: "active_index anchor i its = None \<longleftrightarrow> \<not> list_ex (item_streams anchor) its"
  by (induction its arbitrary: i) auto

lemma pull_loop_spec:
  "pull_loop p s i its \<le> s \<and> (\<forall>k < length its. item_pulls p (its ! k) \<longrightarrow> pull_loop p s i its \<le> i + k)
    \<and> (pull_loop p s i its = s \<or> (\<exists>k < length its. item_pulls p (its ! k) \<and> pull_loop p s i its = i + k))"
proof (induction its arbitrary: s i)
  case (Cons it its)
  let ?s = "if item_pulls p it then min s i else s"
  from Cons.IH [of ?s "Suc i"] show ?case
    by (auto simp: nth_Cons split: nat.split)
qed simp

lemma live_split_bounds:
  assumes "ai < n"
  shows "live_split mx n ai < n" and "ai \<le> live_split mx n ai"
    and "n - live_split mx n ai \<le> max (configured_cap mx) NATIVE_LIVE_TAIL_SAFETY_CEILING_ITEMS"
    and "live_split mx n ai = ai \<or> live_split mx n ai = n - max (configured_cap mx) NATIVE_LIVE_TAIL_SAFETY_CEILING_ITEMS"
  using assms by (auto simp: live_split_def NATIVE_LIVE_TAIL_SAFETY_CEILING_ITEMS_def Let_def)

lemma live_tail_at:
  assumes "first_some [liveTailAnchorMessageId p, activeThinkingMessageId p] = Some anchor"
    and "active_index anchor 0 (segment_items p) = Some ai"
  shows "live_tail p = (let k = live_split (maxHotTailItems p) (length (segment_items p)) ai
           in if k = 0 then all_cold (segment_items p) else split_at k (segment_items p))"
proof -
  have "ai < length (segment_items p)" using active_index_less [OF assms(2)] by (simp only: add_0)
  from live_split_bounds(1) [OF this, of "maxHotTailItems p"]
  have "min (live_split (maxHotTailItems p) (length (segment_items p)) ai) (length (segment_items p) - 1)
    = live_split (maxHotTailItems p) (length (segment_items p)) ai" by linarith
  then show ?thesis unfolding live_tail_def Let_def assms option.case by (simp only: le_zero_eq)
qed

lemma live_tail_idle:
  assumes "first_some [liveTailAnchorMessageId p, activeThinkingMessageId p] = None
    \<or> (\<exists>anchor. first_some [liveTailAnchorMessageId p, activeThinkingMessageId p] = Some anchor
         \<and> active_index anchor 0 (segment_items p) = None)"
  shows "live_tail p = all_cold (segment_items p)"
  using assms unfolding live_tail_def Let_def by (elim disjE exE conjE) (simp_all only: option.case)

lemma build_short: "\<not> (enabled p \<and> 2 \<le> length (segment_items p)) \<Longrightarrow>
    buildTranscriptHotColdSegments p = all_cold (segment_items p)"
  by (cases "segment_items p" rule: remdups_adj.cases) (auto simp: buildTranscriptHotColdSegments_def all_cold_def)

lemma build_long:
  assumes "enabled p" "2 \<le> length (segment_items p)"
  shows "buildTranscriptHotColdSegments p = (if liveTailOnly p then live_tail p else trailing_window p)"
proof -
  have "segment_items p \<noteq> []" "length (segment_items p) \<noteq> 1" using assms(2) by auto
  then show ?thesis using assms(1) by (simp add: buildTranscriptHotColdSegments_def)
qed

text \<open>Either everything is cold, or the split lies strictly inside.\<close>

definition inner_split :: "list_item list \<Rightarrow> segments \<Rightarrow> bool" where
  "inner_split items r \<longleftrightarrow> r = all_cold items \<or> (\<exists>k. 0 < k \<and> k < length items \<and> r = split_at k items)"

lemma inner_trailing: "2 \<le> length (segment_items p) \<Longrightarrow> inner_split (segment_items p) (trailing_window p)"
  unfolding inner_split_def trailing_window_def Let_def
  by (intro disjI2, rule exI, rule conjI [rotated], rule conjI [rotated], rule refl) simp_all

lemma inner_live: "inner_split (segment_items p) (live_tail p)"
proof (cases "live_tail p = all_cold (segment_items p)")
  case False
  then obtain anchor ai where at: "first_some [liveTailAnchorMessageId p, activeThinkingMessageId p] = Some anchor"
    "active_index anchor 0 (segment_items p) = Some ai"
    using live_tail_idle [of p] by (metis not_None_eq)
  let ?k = "live_split (maxHotTailItems p) (length (segment_items p)) ai"
  have "?k < length (segment_items p)" by (rule live_split_bounds(1)) (use active_index_less [OF at(2)] in simp)
  moreover have "?k \<noteq> 0" "live_tail p = split_at ?k (segment_items p)"
    using False live_tail_at [OF at] unfolding Let_def by (metis (no_types, lifting))+
  ultimately show ?thesis unfolding inner_split_def by blast
qed (simp add: inner_split_def)

lemma inner_build: "inner_split (segment_items p) (buildTranscriptHotColdSegments p)"
proof (cases "enabled p \<and> 2 \<le> length (segment_items p)")
  case True
  then show ?thesis using inner_trailing inner_live by (simp only: build_long split: if_split) simp
next
  case False
  from build_short [OF this] show ?thesis by (simp only: inner_split_def simp_thms)
qed

lemma inner_split_partition:
  "inner_split items r \<Longrightarrow> coldItems r @ hotItems r = items \<and> splitIndex r = length (coldItems r)
    \<and> (coldItems r = [] \<longleftrightarrow> items = [])"
  unfolding inner_split_def by (elim disjE exE conjE) auto

lemma trailing_bounds:
  fixes n s c :: nat
  assumes "2 \<le> n" and k: "k = max 1 (min (if free then s else max s (n - c)) (n - 1))"
  shows "k < n" and "\<not> free \<Longrightarrow> n - k \<le> max 1 c"
    and "s \<le> j \<Longrightarrow> j < n \<Longrightarrow> k \<le> j \<or> j = 0 \<or> (\<not> free \<and> j < n - max 1 c)"
proof -
  show "k < n" using assms(1) unfolding k by simp
  show "n - k \<le> max 1 c" if "\<not> free"
  proof -
    have "min (n - c) (n - 1) \<le> k" using that unfolding k by (simp add: min.coboundedI1 max.coboundedI2)
    then show ?thesis by (cases "c \<le> 1") (simp_all add: min_def split: if_splits)
  qed
  assume "s \<le> j" "j < n"
  then show "k \<le> j \<or> j = 0 \<or> (\<not> free \<and> j < n - max 1 c)"
    unfolding k by (cases free; cases "j = 0"; cases "c = 0") (auto simp: max_def min_def)
qed

section \<open>Properties\<close>

text \<open>The split loses, repeats and reorders nothing: the cold part followed by the hot one is the
  transcript and the split index is the length of the cold part, which is empty for an empty transcript
  only. Without the live tail, at least one row is hot as soon as there are two, no more than the cap
  allows, and every row that has to be hot (streaming, expanded, pending, a draft or a fork) is hot
  unless it is the very first row or older than the cap reaches.\<close>

theorem segments_partition_the_transcript:
  assumes "r = buildTranscriptHotColdSegments p"
  shows "coldItems r @ hotItems r = segment_items p \<and> splitIndex r = length (coldItems r)
    \<and> (coldItems r = [] \<longleftrightarrow> segment_items p = [])
    \<and> (enabled p \<and> \<not> liveTailOnly p \<and> 2 \<le> length (segment_items p) \<longrightarrow>
        1 \<le> length (hotItems r)
        \<and> (finite_num (maxHotTailItems p) \<noteq> None \<longrightarrow> length (hotItems r) \<le> max 1 (configured_cap (maxHotTailItems p)))
        \<and> (\<forall>j < length (segment_items p). item_pulls p (segment_items p ! j) \<longrightarrow>
             splitIndex r \<le> j \<or> j = 0
             \<or> (finite_num (maxHotTailItems p) \<noteq> None
                 \<and> j < length (segment_items p) - max 1 (configured_cap (maxHotTailItems p)))))"
proof -
  let ?n = "length (segment_items p)"
  have shape: "coldItems r @ hotItems r = segment_items p \<and> splitIndex r = length (coldItems r)
    \<and> (coldItems r = [] \<longleftrightarrow> segment_items p = [])"
    unfolding assms by (rule inner_split_partition [OF inner_build])
  moreover have "1 \<le> length (hotItems r)
        \<and> (finite_num (maxHotTailItems p) \<noteq> None \<longrightarrow> length (hotItems r) \<le> max 1 (configured_cap (maxHotTailItems p)))
        \<and> (\<forall>j < ?n. item_pulls p (segment_items p ! j) \<longrightarrow> splitIndex r \<le> j \<or> j = 0
             \<or> (finite_num (maxHotTailItems p) \<noteq> None \<and> j < ?n - max 1 (configured_cap (maxHotTailItems p))))"
    if "enabled p \<and> \<not> liveTailOnly p \<and> 2 \<le> ?n"
  proof -
    define s where "s = pull_loop p (?n - hot_tail_count (hotTailItemCount p)) 0 (segment_items p)"
    have pulled: "s \<le> j" if "j < ?n" "item_pulls p (segment_items p ! j)" for j
      using that pull_loop_spec [of p "?n - hot_tail_count (hotTailItemCount p)" 0 "segment_items p"] by (simp add: s_def)
    define k where "k = max 1 (min (if finite_num (maxHotTailItems p) = None then s
        else max s (?n - configured_cap (maxHotTailItems p))) (?n - 1))"
    have r: "hotItems r = drop k (segment_items p)" "splitIndex r = k"
      using that by (simp_all add: assms build_long trailing_window_def s_def k_def Let_def)
    note b = trailing_bounds [OF that [THEN conjunct2, THEN conjunct2] k_def]
    show ?thesis unfolding r length_drop using b(1,2) b(3) [OF pulled]
      by (intro conjI allI impI) (simp, simp, blast)
  qed
  ultimately show ?thesis by blast
qed

text \<open>In live-tail mode the hot part is the streaming region. Nothing is hot while no row streams;
  otherwise the hot part has at most as many rows as the safety ceiling or the larger configured cap, it
  starts no earlier than the first streaming row, and every streaming row is hot unless it is older
  than the ceiling reaches, or the first streaming row is the top of a transcript within the ceiling,
  for which nothing is carved.\<close>

theorem live_tail_is_the_streaming_region:
  assumes "enabled p" and "liveTailOnly p" and "2 \<le> length (segment_items p)"
    and "r = buildTranscriptHotColdSegments p"
    and "anchor = first_some [liveTailAnchorMessageId p, activeThinkingMessageId p]"
    and "cap = max (configured_cap (maxHotTailItems p)) NATIVE_LIVE_TAIL_SAFETY_CEILING_ITEMS"
    and "streams = (\<lambda>it. \<exists>a \<in> set_option anchor. item_streams a it)"
  shows "length (hotItems r) \<le> cap
    \<and> (\<not> list_ex streams (segment_items p) \<longrightarrow> hotItems r = [])
    \<and> (\<forall>k < length (segment_items p). streams (segment_items p ! k) \<longrightarrow>
         splitIndex r \<le> k \<or> k < length (segment_items p) - cap
         \<or> (length (segment_items p) \<le> cap \<and> streams (segment_items p ! 0) \<and> hotItems r = []))
    \<and> (hotItems r \<noteq> [] \<longrightarrow> (\<exists>k \<le> splitIndex r. streams (segment_items p ! k)))"
proof -
  let ?n = "length (segment_items p)"
  have r: "r = live_tail p" using build_long [OF assms(1,3)] assms(2,4) by simp
  show ?thesis
  proof (cases "\<exists>a i. anchor = Some a \<and> active_index a 0 (segment_items p) = Some i")
    case False
    then have "\<not> list_ex streams (segment_items p)"
      unfolding assms(7) using active_index_none by (cases anchor) (fastforce simp: list_ex_iff)+
    moreover have "r = all_cold (segment_items p)"
      unfolding r by (rule live_tail_idle) (use False in \<open>metis not_None_eq assms(5)\<close>)
    ultimately show ?thesis by (simp add: list_ex_iff)
  next
    case True
    then obtain a i where at: "anchor = Some a" "active_index a 0 (segment_items p) = Some i" by blast
    have i: "i < ?n" "item_streams a (segment_items p ! i)" "\<And>k. k < i \<Longrightarrow> \<not> item_streams a (segment_items p ! k)"
      using active_index_some [OF at(2)] by simp_all
    let ?s = "live_split (maxHotTailItems p) ?n i"
    note b = live_split_bounds [OF i(1), of "maxHotTailItems p", folded assms(6)]
    have S: "streams it = item_streams a it" for it by (simp add: assms(7) at(1))
    have ex: "list_ex streams (segment_items p)" using i(1,2) by (auto simp: list_ex_iff S)
    have at_s: "r = (if ?s = 0 then all_cold (segment_items p) else split_at ?s (segment_items p))"
      using live_tail_at [OF at(1) [unfolded assms(5)] at(2)] r by (simp add: Let_def)
    show ?thesis
    proof (cases "?s = 0")
      case True
      then have "i = 0" "?n \<le> cap" using b by auto
      then show ?thesis using at_s True ex i(2) by (simp add: S)
    next
      case False
      then have r: "r = split_at ?s (segment_items p)" using at_s by simp
      have "?s \<le> k \<or> k < ?n - cap" if "item_streams a (segment_items p ! k)" for k
        using that i(3) [of k] b(4) by (metis not_le)
      then show ?thesis using b ex i(2) by (auto simp: r S)
    qed
  qed
qed

definition demo_segments :: "bool \<Rightarrow> segment_params" where
  "demo_segments live = \<lparr>enabled = True, hotTailItemCount = Fin 1,
     segment_items = [MessageItem ''r1'' ''m1'', MessageItem ''r2'' ''m2'', PendingQueue ''q''],
     activeThinkingMessageId = Some ''m2'', liveTailAnchorMessageId = None, expandedAnchors = [],
     maxHotTailItems = None, liveTailOnly = live\<rparr>"

lemmas segment_run = demo_segments_def buildTranscriptHotColdSegments_def trailing_window_def live_tail_def live_split_def
  hot_tail_count_def configured_cap_def NATIVE_LIVE_TAIL_SAFETY_CEILING_ITEMS_def split_at_def all_cold_def
  math_trunc_def Let_def

theorem segments_partition_the_transcript_witness:
  "hotItems (buildTranscriptHotColdSegments (demo_segments False)) = [MessageItem ''r2'' ''m2'', PendingQueue ''q'']
   \<and> coldItems (buildTranscriptHotColdSegments (demo_segments False))
       @ hotItems (buildTranscriptHotColdSegments (demo_segments False)) = segment_items (demo_segments False)"
  using segments_partition_the_transcript [OF refl, of "demo_segments False"] by (simp add: segment_run)

theorem live_tail_is_the_streaming_region_witness:
  "hotItems (buildTranscriptHotColdSegments (demo_segments True)) = [MessageItem ''r2'' ''m2'', PendingQueue ''q'']
   \<and> splitIndex (buildTranscriptHotColdSegments (demo_segments True)) \<le> 1"
  using live_tail_is_the_streaming_region [of "demo_segments True", OF _ _ _ refl refl refl refl]
  by (simp add: segment_run)

end
