(* ===== verification/GitStatus.thy ===== *)
theory GitStatus
  imports
    JsBase
begin

text \<open>
  The parsers of what git prints about a working tree: \<open>parseGitStatusPorcelainV2Z\<close> and
  \<open>parseNumStatZ\<close> of \<open>apps/cli/src/scm/backends/git/statusParser.ts\<close>,
  \<open>parseGitWorktreeListPorcelain\<close> of \<open>worktreeListParser.ts\<close> beside it and the line parser of
  \<open>apps/cli/src/scm/backends/sapling/statusParser.ts\<close>. The printed forms that git documents are
  written down as printers here, so that the parsers are proved to invert them.
\<close>

section \<open>Pieces of text\<close>

definition NUL :: char where
  "NUL = CHR 0x00"

definition TAB :: char where
  "TAB = CHR 0x09"

text \<open>\<open>s.split(c)\<close> for a single character.\<close>

fun split_on :: "char \<Rightarrow> string \<Rightarrow> string list" where
  "split_on c [] = [[]]"
| "split_on c (x # xs) =
     (if x = c then [] # split_on c xs
      else case split_on c xs of [] \<Rightarrow> [[x]] | w # ws \<Rightarrow> (x # w) # ws)"

text \<open>\<open>s.indexOf(' ', cursor)\<close> with the two slices around it.\<close>

fun cut_at_space :: "string \<Rightarrow> (string \<times> string) option" where
  "cut_at_space [] = None"
| "cut_at_space (x # xs) = (if x = CHR '' '' then Some ([], xs) else map_option (apfst ((#) x)) (cut_at_space xs))"

text \<open>\<open>tokens[i] || ''\<close>.\<close>

definition token_at :: "string list \<Rightarrow> nat \<Rightarrow> string" where
  "token_at ts i = (if i < length ts then ts ! i else [])"

section \<open>Status\<close>

record branch_info =
  oid :: "string option"
  head :: "string option"
  upstream :: "string option"
  ahead :: "int option"
  behind :: "int option"

record status_entry =
  s_path :: string
  s_from :: "string option"
  s_index :: string
  workingDir :: string

record git_status =
  branch :: branch_info
  stashCount :: rat
  s_files :: "status_entry list"
  notAdded :: "string list"

definition empty_status :: git_status where
  "empty_status = \<lparr>branch = \<lparr>oid = None, head = None, upstream = None, ahead = None, behind = None\<rparr>,
     stashCount = 0, s_files = [], notAdded = []\<rparr>"

fun take_fields :: "nat \<Rightarrow> string \<Rightarrow> (string list \<times> string) option" where
  "take_fields 0 s = Some ([], s)"
| "take_fields (Suc n) s =
     (case cut_at_space s of None \<Rightarrow> None
      | Some (w, rest) \<Rightarrow> map_option (apfst ((#) w)) (take_fields n rest))"

definition parsePorcelainEntryWithFixedFields :: "string \<Rightarrow> string \<Rightarrow> nat \<Rightarrow> (string list \<times> string) option" where
  "parsePorcelainEntryWithFixedFields token pre n =
     (if \<not> starts_with token pre then None else take_fields n (drop (length pre) token))"

text \<open>\<open>status[k] || d\<close>.\<close>

definition status_char :: "string \<Rightarrow> nat \<Rightarrow> string \<Rightarrow> string" where
  "status_char status k d = (if k < length status then [status ! k] else d)"

definition first_field :: "string list \<Rightarrow> string \<Rightarrow> string" where
  "first_field fs d = (if token_at fs 0 = [] then d else token_at fs 0)"

definition entry_of :: "string list \<times> string \<Rightarrow> string option \<Rightarrow> string \<Rightarrow> string \<Rightarrow> status_entry" where
  "entry_of fp from status_default d =
     (let status = first_field (fst fp) status_default
      in \<lparr>s_path = snd fp, s_from = from, s_index = status_char status 0 d, workingDir = status_char status 1 d\<rparr>)"

text \<open>\<open>/^# branch\\.ab \\+(\\d+) -(\\d+)$/\<close>.\<close>

definition parse_ab :: "string \<Rightarrow> (int \<times> int) option" where
  "parse_ab token =
     (if \<not> starts_with token ''# branch.ab +'' then None
      else let s = drop (length ''# branch.ab +'') token;
               a = takeWhile is_digit s; r = dropWhile is_digit s; b = drop 2 r
           in if a \<noteq> [] \<and> starts_with r '' -'' \<and> b \<noteq> [] \<and> list_all is_digit b
              then Some (digits_value a, digits_value b) else None)"

definition stash_count :: "string \<Rightarrow> rat" where
  "stash_count raw = (case js_number raw of Fin c \<Rightarrow> if 0 \<le> c then c else 0 | _ \<Rightarrow> 0)"

definition add_entry :: "status_entry \<Rightarrow> git_status \<Rightarrow> git_status" where
  "add_entry e st = st\<lparr>s_files := s_files st @ [e]\<rparr>"

text \<open>One token, with the token after it, and whether that one was consumed.\<close>

definition status_token :: "string \<Rightarrow> string \<Rightarrow> git_status \<Rightarrow> git_status \<times> bool" where
  "status_token token following st =
     (if starts_with token ''# branch.oid '' then
        (st\<lparr>branch := (branch st)\<lparr>oid := Some (drop 13 token)\<rparr>\<rparr>, False)
      else if starts_with token ''# branch.head '' then
        (st\<lparr>branch := (branch st)\<lparr>head := Some (drop 14 token)\<rparr>\<rparr>, False)
      else if starts_with token ''# branch.upstream '' then
        (st\<lparr>branch := (branch st)\<lparr>upstream := Some (drop 18 token)\<rparr>\<rparr>, False)
      else if starts_with token ''# branch.ab '' then
        (case parse_ab token of None \<Rightarrow> (st, False)
         | Some (a, b) \<Rightarrow> (st\<lparr>branch := (branch st)\<lparr>ahead := Some a, behind := Some b\<rparr>\<rparr>, False))
      else if starts_with token ''# stash '' then
        (st\<lparr>stashCount := stash_count (drop 8 token)\<rparr>, False)
      else if starts_with token ''1 '' then
        (case parsePorcelainEntryWithFixedFields token ''1 '' 7 of None \<Rightarrow> (st, False)
         | Some fp \<Rightarrow> (add_entry (entry_of fp None ''  '' '' '') st, False))
      else if starts_with token ''2 '' then
        (case parsePorcelainEntryWithFixedFields token ''2 '' 8 of None \<Rightarrow> (st, False)
         | Some fp \<Rightarrow> (add_entry (entry_of fp (if following = [] then None else Some following) ''  '' '' '') st, True))
      else if starts_with token ''u '' then
        (case parsePorcelainEntryWithFixedFields token ''u '' 9 of None \<Rightarrow> (st, False)
         | Some fp \<Rightarrow> (add_entry (entry_of fp None ''UU'' ''U'') st, False))
      else if starts_with token ''? '' then (st\<lparr>notAdded := notAdded st @ [drop 2 token]\<rparr>, False)
      else (st, False))"

fun status_loop :: "string list \<Rightarrow> git_status \<Rightarrow> git_status" where
  "status_loop [] st = st"
| "status_loop (token # rest) st =
     (let (st', used) = status_token token (token_at rest 0) st
      in status_loop (if used then drop 1 rest else rest) st')"

definition parseGitStatusPorcelainV2Z :: "string \<Rightarrow> git_status" where
  "parseGitStatusPorcelainV2Z out = status_loop (filter (\<lambda>t. 0 < length t) (split_on NUL out)) empty_status"

section \<open>Line counts\<close>

record numstat_file =
  n_file :: string
  insertions :: rat
  deletions :: rat
  n_binary :: bool

definition finite_or_zero :: "jsnum \<Rightarrow> rat" where
  "finite_or_zero x = some_or 0 (finite_num (Some x))"

definition or_text :: "string \<Rightarrow> string \<Rightarrow> string" where
  "or_text a b = (if a = [] then b else a)"

definition numstat_row :: "string list \<Rightarrow> string \<Rightarrow> numstat_file option" where
  "numstat_row parts file =
     (let ins = or_text (token_at parts 0) ''0''; del = or_text (token_at parts 1) ''0'';
          bin = (ins = ''-'' \<or> del = ''-'')
      in if file = [] then None
         else Some \<lparr>n_file = file,
                    insertions = (if bin then 0 else finite_or_zero (js_number ins)),
                    deletions = (if bin then 0 else finite_or_zero (js_number del)), n_binary = bin\<rparr>)"

fun numstat_loop :: "string list \<Rightarrow> numstat_file list" where
  "numstat_loop [] = []"
| "numstat_loop (row # rest) =
     (let parts = split_on TAB row; file = join [TAB] (drop 2 parts) in
      if row = [] \<or> length parts < 3 then numstat_loop rest
      else if file = [] then
        (case numstat_row parts (or_text (token_at rest 1) (token_at rest 0)) of
           None \<Rightarrow> numstat_loop (drop 2 rest) | Some f \<Rightarrow> f # numstat_loop (drop 2 rest))
      else (case numstat_row parts file of None \<Rightarrow> numstat_loop rest | Some f \<Rightarrow> f # numstat_loop rest))"

definition parseNumStatZ :: "string \<Rightarrow> numstat_file list" where
  "parseNumStatZ out = numstat_loop (split_on NUL out)"

section \<open>What git prints\<close>

text \<open>
  The lines of \<open>git status --porcelain=v2 --branch --show-stash -z\<close>, each ended by a zero byte; a
  renamed entry is followed by its original path in a token of its own.
\<close>

datatype git_line =
    OidLine string
  | HeadLine string
  | UpstreamLine string
  | AbLine nat nat
  | StashLine nat
  | ChangedLine char char "string list" string
  | RenamedLine char char "string list" string string
  | UnmergedLine char char "string list" string
  | UntrackedLine string
  | IgnoredLine string

definition spaced :: "string list \<Rightarrow> string" where
  "spaced fs = concat (map (\<lambda>f. f @ '' '') fs)"

fun line_tokens :: "git_line \<Rightarrow> string list" where
  "line_tokens (OidLine s) = [''# branch.oid '' @ s]"
| "line_tokens (HeadLine s) = [''# branch.head '' @ s]"
| "line_tokens (UpstreamLine s) = [''# branch.upstream '' @ s]"
| "line_tokens (AbLine a b) = [''# branch.ab +'' @ string_of_nat a @ '' -'' @ string_of_nat b]"
| "line_tokens (StashLine n) = [''# stash '' @ string_of_nat n]"
| "line_tokens (ChangedLine x y fs p) = [''1 '' @ spaced ([x, y] # fs) @ p]"
| "line_tokens (RenamedLine x y fs p q) = [''2 '' @ spaced ([x, y] # fs) @ p, q]"
| "line_tokens (UnmergedLine x y fs p) = [''u '' @ spaced ([x, y] # fs) @ p]"
| "line_tokens (UntrackedLine p) = [''? '' @ p]"
| "line_tokens (IgnoredLine p) = [''! '' @ p]"

definition terminated :: "string list \<Rightarrow> string" where
  "terminated ts = concat (map (\<lambda>t. t @ [NUL]) ts)"

definition print_status :: "git_line list \<Rightarrow> string" where
  "print_status ls = terminated (concat (map line_tokens ls))"

definition plain :: "string \<Rightarrow> bool" where
  "plain s \<longleftrightarrow> NUL \<notin> set s"

definition word :: "string \<Rightarrow> bool" where
  "word s \<longleftrightarrow> NUL \<notin> set s \<and> CHR '' '' \<notin> set s"

text \<open>Paths are not empty and hold no zero byte (spaces, quotes and line breaks are allowed); the fields
  before them hold no space either.\<close>

fun printable :: "git_line \<Rightarrow> bool" where
  "printable (OidLine s) = plain s"
| "printable (HeadLine s) = plain s"
| "printable (UpstreamLine s) = plain s"
| "printable (AbLine a b) = True"
| "printable (StashLine n) = True"
| "printable (ChangedLine x y fs p) = (length fs = 6 \<and> word [x, y] \<and> list_all word fs \<and> plain p)"
| "printable (RenamedLine x y fs p q) =
     (length fs = 7 \<and> word [x, y] \<and> list_all word fs \<and> plain p \<and> plain q \<and> q \<noteq> [])"
| "printable (UnmergedLine x y fs p) = (length fs = 8 \<and> word [x, y] \<and> list_all word fs \<and> plain p)"
| "printable (UntrackedLine p) = plain p"
| "printable (IgnoredLine p) = plain p"

definition xy_entry :: "char \<Rightarrow> char \<Rightarrow> string \<Rightarrow> string option \<Rightarrow> status_entry" where
  "xy_entry x y p from = \<lparr>s_path = p, s_from = from, s_index = [x], workingDir = [y]\<rparr>"

fun expect :: "git_status \<Rightarrow> git_line \<Rightarrow> git_status" where
  "expect st (OidLine s) = st\<lparr>branch := (branch st)\<lparr>oid := Some s\<rparr>\<rparr>"
| "expect st (HeadLine s) = st\<lparr>branch := (branch st)\<lparr>head := Some s\<rparr>\<rparr>"
| "expect st (UpstreamLine s) = st\<lparr>branch := (branch st)\<lparr>upstream := Some s\<rparr>\<rparr>"
| "expect st (AbLine a b) = st\<lparr>branch := (branch st)\<lparr>ahead := Some (int a), behind := Some (int b)\<rparr>\<rparr>"
| "expect st (StashLine n) = st\<lparr>stashCount := of_nat n\<rparr>"
| "expect st (ChangedLine x y fs p) = st\<lparr>s_files := s_files st @ [xy_entry x y p None]\<rparr>"
| "expect st (RenamedLine x y fs p q) = st\<lparr>s_files := s_files st @ [xy_entry x y p (Some q)]\<rparr>"
| "expect st (UnmergedLine x y fs p) = st\<lparr>s_files := s_files st @ [xy_entry x y p None]\<rparr>"
| "expect st (UntrackedLine p) = st\<lparr>notAdded := notAdded st @ [p]\<rparr>"
| "expect st (IgnoredLine p) = st"

section \<open>Splitting what was joined\<close>

lemma split_on_nonempty [simp]: "split_on c s \<noteq> []"
  by (induction s) (auto split: list.split)

lemma split_on_app: "c \<notin> set w \<Longrightarrow> split_on c (w @ c # s) = w # split_on c s"
  by (induction w) auto

lemma split_on_none: "c \<notin> set w \<Longrightarrow> split_on c w = [w]"
  by (induction w) auto

lemma split_terminated: "list_all plain ts \<Longrightarrow> split_on NUL (terminated ts) = ts @ [[]]"
  by (induction ts) (auto simp: terminated_def plain_def split_on_app)

lemma starts_with_app [simp]: "starts_with (p @ s) p"
  by (simp add: starts_with_iff)

lemma cut_at_space_app: "CHR '' '' \<notin> set w \<Longrightarrow> cut_at_space (w @ CHR '' '' # s) = Some (w, s)"
  by (induction w) auto

lemma take_fields_spaced: "list_all word fs \<Longrightarrow> take_fields (length fs) (spaced fs @ p) = Some (fs, p)"
  by (induction fs) (auto simp: spaced_def word_def cut_at_space_app)

lemma fixed_fields:
  "word [x, y] \<Longrightarrow> list_all word fs \<Longrightarrow> n = Suc (length fs) \<Longrightarrow>
    parsePorcelainEntryWithFixedFields (pre @ spaced ([x, y] # fs) @ p) pre n = Some ([x, y] # fs, p)"
  using take_fields_spaced [of "[x, y] # fs" p]
  by (simp add: parsePorcelainEntryWithFixedFields_def starts_with_iff del: take_fields.simps)

lemma takeWhile_digits:
  "takeWhile is_digit (string_of_nat n @ '' -'' @ s) = string_of_nat n"
  "dropWhile is_digit (string_of_nat n @ '' -'' @ s) = '' -'' @ s"
proof -
  have "\<not> is_digit CHR '' ''" by code_simp
  then show "takeWhile is_digit (string_of_nat n @ '' -'' @ s) = string_of_nat n"
    "dropWhile is_digit (string_of_nat n @ '' -'' @ s) = '' -'' @ s"
    using string_of_nat_digits [of n] by (simp_all add: takeWhile_append2 dropWhile_append2)
qed

lemma drop_length_app: "drop (length p) (p @ s) = s"
  by simp

lemma parse_ab_printed: "parse_ab (''# branch.ab +'' @ string_of_nat a @ '' -'' @ string_of_nat b) = Some (int a, int b)"
proof -
  have "drop 2 ('' -'' @ s) = s" for s by simp
  moreover have "list_all is_digit (string_of_nat b)" using string_of_nat_digits by (simp add: list_all_iff)
  ultimately show ?thesis
    unfolding parse_ab_def Let_def drop_length_app takeWhile_digits
    by (simp only: starts_with_app string_of_nat_nonempty digits_value_string_of_nat simp_thms if_True if_False)
qed

section \<open>One line\<close>

lemma entry_of_xy [simp]: "entry_of ([x, y] # fs, p) from dflt d = xy_entry x y p from"
  by (simp add: entry_of_def first_field_def token_at_def status_char_def xy_entry_def)

lemma status_header_tokens:
  "status_token (''# branch.oid '' @ s) f st = (expect st (OidLine s), False)"
  "status_token (''# branch.head '' @ s) f st = (expect st (HeadLine s), False)"
  "status_token (''# branch.upstream '' @ s) f st = (expect st (UpstreamLine s), False)"
  "status_token (''? '' @ s) f st = (expect st (UntrackedLine s), False)"
  "status_token (''! '' @ s) f st = (expect st (IgnoredLine s), False)"
  "status_token (''# stash '' @ string_of_nat n) f st = (expect st (StashLine n), False)"
  by (simp_all add: status_token_def stash_count_def)

lemma status_ab_token:
  "status_token (''# branch.ab +'' @ string_of_nat a @ '' -'' @ string_of_nat b) f st = (expect st (AbLine a b), False)"
proof -
  have "\<not> starts_with (''# branch.ab +'' @ s) ''# branch.oid ''" "\<not> starts_with (''# branch.ab +'' @ s) ''# branch.head ''"
    "\<not> starts_with (''# branch.ab +'' @ s) ''# branch.upstream ''" "starts_with (''# branch.ab +'' @ s) ''# branch.ab ''" for s
    by simp_all
  then show ?thesis unfolding status_token_def parse_ab_printed by simp
qed

lemma status_entry_tokens:
  assumes "word [x, y]" "list_all word fs"
  shows "length fs = 6 \<Longrightarrow> status_token (''1 '' @ spaced ([x, y] # fs) @ p) f st = (expect st (ChangedLine x y fs p), False)"
    and "length fs = 7 \<Longrightarrow> q \<noteq> [] \<Longrightarrow>
      status_token (''2 '' @ spaced ([x, y] # fs) @ p) q st = (expect st (RenamedLine x y fs p q), True)"
    and "length fs = 8 \<Longrightarrow> status_token (''u '' @ spaced ([x, y] # fs) @ p) f st = (expect st (UnmergedLine x y fs p), False)"
proof -
  have other: "\<not> starts_with (CHR ''1'' # t) (CHR ''#'' # u)" "\<not> starts_with (CHR ''2'' # t) (CHR ''#'' # u)"
    "\<not> starts_with (CHR ''u'' # t) (CHR ''#'' # u)" "\<not> starts_with (CHR ''2'' # t) (CHR ''1'' # u)"
    "\<not> starts_with (CHR ''u'' # t) (CHR ''1'' # u)" "\<not> starts_with (CHR ''u'' # t) (CHR ''2'' # u)" for t u by simp_all
  note ff = fixed_fields [OF assms, where p = p]
  show "status_token (''1 '' @ spaced ([x, y] # fs) @ p) f st = (expect st (ChangedLine x y fs p), False)" if "length fs = 6"
    using ff [of 7 "''1 ''"] that by (simp add: status_token_def other add_entry_def)
  show "status_token (''2 '' @ spaced ([x, y] # fs) @ p) q st = (expect st (RenamedLine x y fs p q), True)"
    if "length fs = 7" "q \<noteq> []"
    using ff [of 8 "''2 ''"] that by (simp add: status_token_def other add_entry_def)
  show "status_token (''u '' @ spaced ([x, y] # fs) @ p) f st = (expect st (UnmergedLine x y fs p), False)" if "length fs = 8"
    using ff [of 9 "''u ''"] that by (simp add: status_token_def other add_entry_def)
qed

lemma token_at_first [simp]: "token_at (q # rest) 0 = q"
  by (simp add: token_at_def)

lemma status_loop_line:
  assumes "printable l"
  shows "status_loop (line_tokens l @ rest) st = status_loop rest (expect st l)"
proof -
  have sing: "[q] @ r = q # r" "[t, q] @ r = t # q # r" for t q :: string and r by simp_all
  show ?thesis
    using assms
    by (cases l) (simp_all add: status_header_tokens status_ab_token status_entry_tokens sing
        del: append.simps append_Cons append_Nil expect.simps)
qed

lemma status_loop_lines:
  "list_all printable ls \<Longrightarrow> status_loop (concat (map line_tokens ls)) st = foldl expect st ls"
proof (induction ls arbitrary: st)
  case (Cons l ls)
  then show ?case by (simp add: status_loop_line del: expect.simps line_tokens.simps)
qed simp

lemma plain_app [simp]: "plain (a @ b) \<longleftrightarrow> plain a \<and> plain b" "plain (x # a) \<longleftrightarrow> x \<noteq> NUL \<and> plain a" "plain []"
  by (auto simp: plain_def)

lemma plain_number [simp]: "plain (string_of_nat n)"
proof -
  have "\<not> is_digit NUL" by code_simp
  then show ?thesis using string_of_nat_digits by (auto simp: plain_def)
qed

lemma plain_spaced: "list_all word fs \<Longrightarrow> plain (spaced fs)"
  by (induction fs) (auto simp: spaced_def word_def plain_def NUL_def)

lemma word_plain: "word s \<Longrightarrow> plain s"
  by (simp add: word_def plain_def)

lemma line_tokens_plain:
  assumes "printable l"
  shows "list_all (\<lambda>t. plain t \<and> 0 < length t) (line_tokens l)"
proof -
  have "plain (spaced ([x, y] # fs))" if "word [x, y]" "list_all word fs" for x y fs
    using that plain_spaced [of "[x, y] # fs"] by simp
  moreover have "NUL \<noteq> CHR ''#''" "NUL \<noteq> CHR '' ''" by (simp_all add: NUL_def)
  ultimately show ?thesis using assms by (cases l) (simp_all add: NUL_def)
qed

lemma parse_printed:
  assumes "list_all printable ls"
  shows "parseGitStatusPorcelainV2Z (print_status ls) = foldl expect empty_status ls"
proof -
  have toks: "list_all (\<lambda>t. plain t \<and> 0 < length t) (concat (map line_tokens ls))"
    using assms line_tokens_plain by (induction ls) auto
  then have "list_all plain (concat (map line_tokens ls))" "\<forall>t \<in> set (concat (map line_tokens ls)). 0 < length t"
    by (auto simp: list_all_iff)
  then have "filter (\<lambda>t. 0 < length t) (split_on NUL (print_status ls)) = concat (map line_tokens ls)"
    by (simp add: print_status_def split_terminated filter_id_conv)
  then show ?thesis using status_loop_lines [OF assms] by (simp add: parseGitStatusPorcelainV2Z_def)
qed

section \<open>Line counts, printed\<close>

text \<open>The lines of \<open>git diff --numstat -z\<close>: counts or a dash for binary files, then the path, or an empty
  path followed by the old and the new one.\<close>

datatype counts = Counts nat nat | BinaryFile

datatype numstat_line = PathLine counts string | MovedLine counts string string

fun counts_text :: "counts \<Rightarrow> string" where
  "counts_text (Counts a b) = string_of_nat a @ TAB # string_of_nat b @ [TAB]"
| "counts_text BinaryFile = ''-'' @ TAB # ''-'' @ [TAB]"

fun numstat_tokens :: "numstat_line \<Rightarrow> string list" where
  "numstat_tokens (PathLine c p) = [counts_text c @ p]"
| "numstat_tokens (MovedLine c p q) = [counts_text c, p, q]"

definition print_numstat :: "numstat_line list \<Rightarrow> string" where
  "print_numstat ls = terminated (concat (map numstat_tokens ls))"

fun numstat_printable :: "numstat_line \<Rightarrow> bool" where
  "numstat_printable (PathLine c p) = (plain p \<and> p \<noteq> [])"
| "numstat_printable (MovedLine c p q) = (plain p \<and> plain q \<and> q \<noteq> [])"

fun counted :: "counts \<Rightarrow> string \<Rightarrow> numstat_file" where
  "counted (Counts a b) p = \<lparr>n_file = p, insertions = of_nat a, deletions = of_nat b, n_binary = False\<rparr>"
| "counted BinaryFile p = \<lparr>n_file = p, insertions = 0, deletions = 0, n_binary = True\<rparr>"

fun numstat_expect :: "numstat_line \<Rightarrow> numstat_file" where
  "numstat_expect (PathLine c p) = counted c p"
| "numstat_expect (MovedLine c p q) = counted c q"

lemma join_split_on [simp]: "join [c] (split_on c s) = s"
proof (induction s)
  case (Cons x s)
  then show ?case by (cases "split_on c s") (auto, metis join.simps append_Cons list.exhaust)
qed simp

lemma tab_free: "TAB \<notin> set (string_of_nat n)" "TAB \<notin> set ''-''" "string_of_nat n \<noteq> ''-''"
proof -
  have "\<not> is_digit TAB" "\<not> is_digit CHR ''-''" by code_simp+
  then show "TAB \<notin> set (string_of_nat n)" "string_of_nat n \<noteq> ''-''"
    using string_of_nat_digits [of n] by (auto dest!: spec)
qed (simp add: TAB_def)

lemma counts_parts:
  "\<exists>a b. split_on TAB (counts_text c @ p) = a # b # split_on TAB p \<and> counts_text c \<noteq> []
    \<and> (\<forall>f. f \<noteq> [] \<longrightarrow> numstat_row (a # b # split_on TAB p) f = Some (counted c f))"
proof (cases c)
  case (Counts a b)
  have "split_on TAB (counts_text c @ p) = string_of_nat a # string_of_nat b # split_on TAB p"
    using tab_free(1) by (simp add: Counts split_on_app)
  then show ?thesis
    using tab_free(3) by (auto simp: Counts numstat_row_def token_at_def or_text_def finite_or_zero_def Let_def)
next
  case BinaryFile
  have "split_on TAB (counts_text c @ p) = ''-'' # ''-'' # split_on TAB p"
    using split_on_app [OF tab_free(2)] by (simp add: BinaryFile)
  then show ?thesis by (auto simp: BinaryFile numstat_row_def token_at_def or_text_def Let_def)
qed

lemma numstat_loop_line:
  assumes "numstat_printable l"
  shows "numstat_loop (numstat_tokens l @ rest) = numstat_expect l # numstat_loop rest"
proof (cases l)
  case (PathLine c p)
  obtain a b where "split_on TAB (counts_text c @ p) = a # b # split_on TAB p" "counts_text c \<noteq> []"
    "numstat_row (a # b # split_on TAB p) p = Some (counted c p)"
    using counts_parts [of c p] assms PathLine by auto
  moreover have "0 < length (split_on TAB p)" by simp
  ultimately show ?thesis using assms by (simp add: PathLine Let_def del: length_greater_0_conv)
next
  case (MovedLine c p q)
  obtain a b where "split_on TAB (counts_text c @ []) = a # b # split_on TAB []" "counts_text c \<noteq> []"
    "numstat_row (a # b # split_on TAB []) q = Some (counted c q)"
    using counts_parts [of c "[]"] assms MovedLine by (metis numstat_printable.simps(2))
  then show ?thesis using assms by (simp add: MovedLine token_at_def or_text_def)
qed

lemma numstat_loop_lines:
  "list_all numstat_printable ls \<Longrightarrow> numstat_loop (concat (map numstat_tokens ls) @ [[]]) = map numstat_expect ls"
  by (induction ls) (simp_all add: numstat_loop_line del: numstat_tokens.simps)

lemma numstat_tokens_plain: "numstat_printable l \<Longrightarrow> list_all plain (numstat_tokens l)"
proof -
  have "TAB \<noteq> NUL" "CHR ''-'' \<noteq> NUL" by (simp_all add: TAB_def NUL_def)
  then have "plain (counts_text c)" for c by (cases c) simp_all
  then show "numstat_printable l \<Longrightarrow> list_all plain (numstat_tokens l)" by (cases l) simp_all
qed

lemma parse_numstat_printed:
  assumes "list_all numstat_printable ls"
  shows "parseNumStatZ (print_numstat ls) = map numstat_expect ls"
proof -
  have "list_all plain (concat (map numstat_tokens ls))"
    using assms numstat_tokens_plain by (induction ls) auto
  then show ?thesis using numstat_loop_lines [OF assms]
    by (simp add: parseNumStatZ_def print_numstat_def split_terminated)
qed

section \<open>Worktrees\<close>

record worktree =
  w_path :: string
  w_branch :: "string option"
  isCurrent :: bool
  isMain :: bool

definition normalizeBranchRef :: "string option \<Rightarrow> string option" where
  "normalizeBranchRef raw =
     (case raw of None \<Rightarrow> None
      | Some r \<Rightarrow>
          (let t = trim r in
           if r = [] \<or> t = [] then None
           else if starts_with t ''refs/heads/'' then Some (drop (length ''refs/heads/'') t) else Some t))"

definition normalizeGitPathToken :: "string option \<Rightarrow> string option" where
  "normalizeGitPathToken p = (if p = None \<or> p = Some [] then None else p)"

record worktree_scan =
  activePath :: "string option"
  activeBranch :: "string option"
  worktrees :: "worktree list"

definition wt_flush :: "string option \<Rightarrow> string option \<Rightarrow> worktree_scan \<Rightarrow> worktree_scan" where
  "wt_flush cur main sc =
     (case normalizeGitPathToken (activePath sc) of None \<Rightarrow> sc
      | Some p \<Rightarrow>
          \<lparr>activePath = None, activeBranch = None,
           worktrees = worktrees sc @ [\<lparr>w_path = p, w_branch = normalizeBranchRef (activeBranch sc),
             isCurrent = (cur = Some p), isMain = (main = Some p)\<rparr>]\<rparr>)"

fun worktree_loop :: "string option \<Rightarrow> string option \<Rightarrow> string list \<Rightarrow> worktree_scan \<Rightarrow> worktree_scan" where
  "worktree_loop cur main [] sc = sc"
| "worktree_loop cur main (token # rest) sc =
     (if token = [] then worktree_loop cur main rest (wt_flush cur main sc)
      else if token = ''worktree'' then
        (case rest of [] \<Rightarrow> worktree_loop cur main [] (wt_flush cur main sc)
         | p # rest' \<Rightarrow> worktree_loop cur main rest' ((wt_flush cur main sc)\<lparr>activePath := Some p\<rparr>))
      else if starts_with token ''worktree '' then
        worktree_loop cur main rest ((wt_flush cur main sc)\<lparr>activePath := Some (drop 9 token)\<rparr>)
      else if starts_with token ''branch '' then worktree_loop cur main rest (sc\<lparr>activeBranch := Some (drop 7 token)\<rparr>)
      else worktree_loop cur main rest sc)"

definition parseGitWorktreeListPorcelain ::
    "(string \<Rightarrow> string \<Rightarrow> rat) \<Rightarrow> string \<Rightarrow> string option \<Rightarrow> string option \<Rightarrow> worktree list" where
  "parseGitWorktreeListPorcelain lc out current main =
     (let cur = normalizeGitPathToken current; mn = normalizeGitPathToken main in
      js_sort (\<lambda>l r. lc (w_path l) (w_path r))
        (worktrees (wt_flush cur mn
          (worktree_loop cur mn (split_on NUL out) \<lparr>activePath = None, activeBranch = None, worktrees = []\<rparr>))))"

text \<open>A printed record: the path in the same token or in a token of its own, the branch if there is one,
  other lines before and after it, and an empty line.\<close>

record worktree_lines =
  two_tokens :: bool
  wl_path :: string
  lines_before :: "string list"
  wl_branch :: "string option"
  lines_after :: "string list"

definition worktree_tokens :: "worktree_lines \<Rightarrow> string list" where
  "worktree_tokens w =
     (if two_tokens w then [''worktree'', wl_path w] else [''worktree '' @ wl_path w]) @ lines_before w
     @ (case wl_branch w of None \<Rightarrow> [] | Some b \<Rightarrow> [''branch refs/heads/'' @ b]) @ lines_after w @ [[]]"

definition print_worktrees :: "worktree_lines list \<Rightarrow> string" where
  "print_worktrees ws = terminated (concat (map worktree_tokens ws))"

definition other_line :: "string \<Rightarrow> bool" where
  "other_line t \<longleftrightarrow> plain t \<and> t \<noteq> [] \<and> t \<noteq> ''worktree'' \<and> \<not> starts_with t ''worktree '' \<and> \<not> starts_with t ''branch ''"

definition worktree_printable :: "worktree_lines \<Rightarrow> bool" where
  "worktree_printable w \<longleftrightarrow> plain (wl_path w) \<and> wl_path w \<noteq> []
     \<and> list_all other_line (lines_before w) \<and> list_all other_line (lines_after w)
     \<and> (case wl_branch w of None \<Rightarrow> True | Some b \<Rightarrow> plain b \<and> b \<noteq> [] \<and> (\<forall>c \<in> set b. \<not> js_ws c))"

definition worktree_expect :: "string option \<Rightarrow> string option \<Rightarrow> worktree_lines \<Rightarrow> worktree" where
  "worktree_expect cur main w = \<lparr>w_path = wl_path w, w_branch = wl_branch w,
     isCurrent = (cur = Some (wl_path w)), isMain = (main = Some (wl_path w))\<rparr>"

lemma skip_other: "list_all other_line ts \<Longrightarrow> worktree_loop cur main (ts @ rest) sc = worktree_loop cur main rest sc"
  by (induction ts) (auto simp: other_line_def)

lemma trim_no_ws: "\<forall>c \<in> set s. \<not> js_ws c \<Longrightarrow> trim s = s"
proof -
  assume s: "\<forall>c \<in> set s. \<not> js_ws c"
  have "dropWhile js_ws xs = xs" if "\<forall>c \<in> set xs. \<not> js_ws c" for xs using that by (cases xs) auto
  from this [of s] this [of "rev s"] s show ?thesis by (simp add: trim_def)
qed

lemma branch_ref: "\<forall>c \<in> set b. \<not> js_ws c \<Longrightarrow> b \<noteq> [] \<Longrightarrow> normalizeBranchRef (Some (''refs/heads/'' @ b)) = Some b"
proof -
  assume b: "\<forall>c \<in> set b. \<not> js_ws c" "b \<noteq> []"
  have "list_all (\<lambda>c. \<not> js_ws c) ''refs/heads/''" by code_simp
  then have "trim (''refs/heads/'' @ b) = ''refs/heads/'' @ b"
    using b(1) by (intro trim_no_ws) (auto simp: list_all_iff simp del: append.simps list.set)
  then show ?thesis by (simp add: normalizeBranchRef_def Let_def)
qed

lemma worktree_loop_record:
  assumes "worktree_printable w"
  shows "worktree_loop cur main (worktree_tokens w @ rest) \<lparr>activePath = None, activeBranch = None, worktrees = ws\<rparr>
    = worktree_loop cur main rest \<lparr>activePath = None, activeBranch = None, worktrees = ws @ [worktree_expect cur main w]\<rparr>"
proof (cases "wl_branch w")
  case None
  then show ?thesis using assms
    by (simp add: worktree_tokens_def worktree_printable_def skip_other wt_flush_def normalizeGitPathToken_def
        normalizeBranchRef_def worktree_expect_def)
next
  case (Some b)
  then show ?thesis using assms branch_ref [of b]
    by (simp add: worktree_tokens_def worktree_printable_def skip_other wt_flush_def normalizeGitPathToken_def
        worktree_expect_def)
qed

lemma worktree_loop_records:
  "list_all worktree_printable wls \<Longrightarrow>
    worktree_loop cur main (concat (map worktree_tokens wls) @ rest) \<lparr>activePath = None, activeBranch = None, worktrees = ws\<rparr>
    = worktree_loop cur main rest \<lparr>activePath = None, activeBranch = None, worktrees = ws @ map (worktree_expect cur main) wls\<rparr>"
  by (induction wls arbitrary: ws) (simp_all add: worktree_loop_record)

lemma worktree_tokens_plain: "worktree_printable w \<Longrightarrow> list_all plain (worktree_tokens w)"
  by (auto simp: worktree_printable_def worktree_tokens_def other_line_def NUL_def list_all_iff split: option.splits)

lemma parse_worktrees_printed:
  assumes "list_all worktree_printable wls"
  shows "parseGitWorktreeListPorcelain lc (print_worktrees wls) cur main
    = js_sort (\<lambda>l r. lc (w_path l) (w_path r))
        (map (worktree_expect (normalizeGitPathToken cur) (normalizeGitPathToken main)) wls)"
proof -
  have "list_all plain (concat (map worktree_tokens wls))"
    using assms worktree_tokens_plain by (induction wls) auto
  then show ?thesis
    by (simp add: parseGitWorktreeListPorcelain_def print_worktrees_def split_terminated Let_def
        worktree_loop_records [OF assms] wt_flush_def normalizeGitPathToken_def)
qed

section \<open>Properties\<close>

text \<open>C15: Reading inverts printing: from the status, the line counts and the list of worktrees as git
  documents their zero-terminated forms, the parsers recover every line, for all paths without a zero
  byte (spaces, tabs, quotes and line breaks included), renamed paths in their own token, and binary
  files; worktrees come sorted by path.\<close>

theorem git_output_roundtrip:
  assumes "list_all printable ls" and "list_all numstat_printable ns" and "list_all worktree_printable ws"
  shows "parseGitStatusPorcelainV2Z (print_status ls) = foldl expect empty_status ls
    \<and> parseNumStatZ (print_numstat ns) = map numstat_expect ns
    \<and> parseGitWorktreeListPorcelain lc (print_worktrees ws) cur main
        = js_sort (\<lambda>l r. lc (w_path l) (w_path r))
            (map (worktree_expect (normalizeGitPathToken cur) (normalizeGitPathToken main)) ws)"
  using parse_printed [OF assms(1)] parse_numstat_printed [OF assms(2)] parse_worktrees_printed [OF assms(3)]
  by blast

definition demo_lines :: "git_line list" where
  "demo_lines = [HeadLine ''main'', AbLine 2 1, StashLine 3,
     ChangedLine CHR ''M'' CHR ''.'' (replicate 6 ''f'') ''a b.ts'',
     RenamedLine CHR ''R'' CHR ''.'' (replicate 7 ''f'') ''new'' ''old'', UntrackedLine ''x y'']"

lemma demo_printable: "list_all printable demo_lines"
  by (simp add: demo_lines_def list_all_iff plain_def word_def NUL_def)

theorem git_output_roundtrip_witness:
  "s_files (parseGitStatusPorcelainV2Z (print_status demo_lines))
     = [xy_entry CHR ''M'' CHR ''.'' ''a b.ts'' None, xy_entry CHR ''R'' CHR ''.'' ''new'' (Some ''old'')]
   \<and> ahead (branch (parseGitStatusPorcelainV2Z (print_status demo_lines))) = Some 2
   \<and> map n_file (parseNumStatZ (print_numstat [PathLine (Counts 3 1) ''a b.ts'', MovedLine BinaryFile ''old'' ''new''])) = [''a b.ts'', ''new'']
   \<and> map w_branch (parseGitWorktreeListPorcelain code_unit_compare
        (print_worktrees [\<lparr>two_tokens = False, wl_path = ''/r'', lines_before = [''HEAD 1''], wl_branch = Some ''main'', lines_after = []\<rparr>])
        None None) = [Some ''main'']"
  using git_output_roundtrip [OF demo_printable, of "[PathLine (Counts 3 1) ''a b.ts'', MovedLine BinaryFile ''old'' ''new'']"
      "[\<lparr>two_tokens = False, wl_path = ''/r'', lines_before = [''HEAD 1''], wl_branch = Some ''main'', lines_after = []\<rparr>]"
      code_unit_compare None None]
  by (simp add: demo_lines_def empty_status_def worktree_printable_def worktree_expect_def other_line_def plain_def
      NUL_def js_ws_def)

end
