(* ===== verification/GitSnapshot.thy ===== *)
theory GitSnapshot
  imports
    GitStatus
begin

text \<open>
  The snapshot of a working tree that the client shows and the mutations of a repository check:
  \<open>buildGitSnapshot\<close> of \<open>apps/cli/src/scm/backends/git/statusSnapshot.ts\<close>. The entries, the branch, the
  conflicts and the totals are modelled; the remotes, the hosting provider and its pull request, which
  only come along in the snapshot, are not.
\<close>

section \<open>Entries\<close>

datatype entry_kind = Conflicted | Untracked | Renamed | Copied | Added | Deleted | Modified

definition detectEntryKind :: "string \<Rightarrow> string \<Rightarrow> entry_kind" where
  "detectEntryKind inc pend =
     (if inc = ''U'' \<or> pend = ''U'' then Conflicted
      else if inc = ''?'' \<or> pend = ''?'' then Untracked
      else if inc = ''R'' \<or> pend = ''R'' then Renamed
      else if inc = ''C'' \<or> pend = ''C'' then Copied
      else if inc = ''A'' \<or> pend = ''A'' then Added
      else if inc = ''D'' \<or> pend = ''D'' then Deleted
      else Modified)"

definition isMeaningfulStatus :: "string \<Rightarrow> bool" where
  "isMeaningfulStatus c \<longleftrightarrow> c \<noteq> '' '' \<and> c \<noteq> ''.''"

record entry_stats =
  includedAdded :: rat
  includedRemoved :: rat
  pendingAdded :: rat
  pendingRemoved :: rat
  isBinary :: bool

record working_entry =
  e_path :: string
  previousPath :: "string option"
  e_kind :: entry_kind
  includeStatus :: string
  pendingStatus :: string
  hasIncludedDelta :: bool
  hasPendingDelta :: bool
  stats :: entry_stats

type_synonym numstat_map = "(string \<times> numstat_file) list"

text \<open>\<open>new Map(files.map((item) => [item.file, item]))\<close>.\<close>

definition numstat_index :: "numstat_file list \<Rightarrow> numstat_map" where
  "numstat_index fs = foldl (\<lambda>m f. AList.update (n_file f) f m) [] fs"

definition stats_of :: "numstat_file option \<Rightarrow> numstat_file option \<Rightarrow> entry_stats" where
  "stats_of inc pend =
     \<lparr>includedAdded = some_or 0 (map_option insertions inc), includedRemoved = some_or 0 (map_option deletions inc),
      pendingAdded = some_or 0 (map_option insertions pend), pendingRemoved = some_or 0 (map_option deletions pend),
      isBinary = (some_or False (map_option n_binary inc) \<or> some_or False (map_option n_binary pend))\<rparr>"

definition status_working_entry :: "numstat_map \<Rightarrow> numstat_map \<Rightarrow> status_entry \<Rightarrow> working_entry" where
  "status_working_entry incl pend s =
     (let i = map_of incl (s_path s); p = map_of pend (s_path s) in
      \<lparr>e_path = s_path s, previousPath = s_from s, e_kind = detectEntryKind (s_index s) (workingDir s),
       includeStatus = s_index s, pendingStatus = workingDir s,
       hasIncludedDelta = (isMeaningfulStatus (s_index s) \<and> s_index s \<noteq> ''?'' \<or> i \<noteq> None),
       hasPendingDelta = (isMeaningfulStatus (workingDir s) \<or> workingDir s = ''?'' \<or> p \<noteq> None),
       stats = stats_of i p\<rparr>)"

definition untracked_entry :: "(string \<times> rat \<times> bool) list \<Rightarrow> string \<Rightarrow> working_entry" where
  "untracked_entry untracked path =
     \<lparr>e_path = path, previousPath = None, e_kind = Untracked, includeStatus = ''?'', pendingStatus = ''?'',
      hasIncludedDelta = False, hasPendingDelta = True,
      stats = \<lparr>includedAdded = 0, includedRemoved = 0,
        pendingAdded = (case map_of untracked path of None \<Rightarrow> 0 | Some (n, _) \<Rightarrow> max 0 n), pendingRemoved = 0,
        isBinary = (case map_of untracked path of None \<Rightarrow> False | Some (_, b) \<Rightarrow> b)\<rparr>\<rparr>"

definition numstat_entry :: "numstat_map \<Rightarrow> numstat_map \<Rightarrow> string \<Rightarrow> working_entry" where
  "numstat_entry incl pend path =
     (let i = map_of incl path; p = map_of pend path in
      \<lparr>e_path = path, previousPath = None, e_kind = Modified,
       includeStatus = (if i \<noteq> None then ''M'' else '' ''), pendingStatus = (if p \<noteq> None then ''M'' else '' ''),
       hasIncludedDelta = (i \<noteq> None), hasPendingDelta = (p \<noteq> None), stats = stats_of i p\<rparr>)"

type_synonym entries = "(string \<times> working_entry) list"

definition set_entry :: "entries \<Rightarrow> working_entry \<Rightarrow> entries" where
  "set_entry m e = AList.update (e_path e) e m"

definition ensure_entry :: "(string \<Rightarrow> working_entry) \<Rightarrow> entries \<Rightarrow> string \<Rightarrow> entries" where
  "ensure_entry mk m path = (if map_of m path \<noteq> None then m else set_entry m (mk path))"

section \<open>The snapshot\<close>

record snapshot_branch =
  b_head :: "string option"
  b_upstream :: "string option"
  b_ahead :: int
  b_behind :: int
  detached :: bool

record snapshot_totals =
  includedFiles :: nat
  pendingFiles :: nat
  untrackedFiles :: nat
  t_includedAdded :: rat
  t_includedRemoved :: rat
  t_pendingAdded :: rat
  t_pendingRemoved :: rat

record snapshot =
  snap_branch :: snapshot_branch
  snap_stashCount :: rat
  hasConflicts :: bool
  snap_entries :: "working_entry list"
  totals :: snapshot_totals

record snapshot_input =
  statusOutput :: string
  includedNumStatOutput :: string
  pendingNumStatOutput :: string
  untrackedStatsByPath :: "(string \<times> rat \<times> bool) list"

definition all_entries :: "snapshot_input \<Rightarrow> entries" where
  "all_entries i =
     (let st = parseGitStatusPorcelainV2Z (statusOutput i);
          incl = numstat_index (parseNumStatZ (includedNumStatOutput i));
          pend = numstat_index (parseNumStatZ (pendingNumStatOutput i));
          m1 = foldl set_entry [] (map (status_working_entry incl pend) (s_files st));
          m2 = foldl (ensure_entry (untracked_entry (untrackedStatsByPath i))) m1 (notAdded st)
      in foldl (ensure_entry (numstat_entry incl pend)) m2 (oset_of (obj_keys incl @ obj_keys pend)))"

definition is_detached :: "string option \<Rightarrow> bool" where
  "is_detached h = (case h of None \<Rightarrow> True
     | Some s \<Rightarrow> s = ''(unknown)'' \<or> s = ''(no branch)'' \<or> starts_with s ''(detached'')"

definition snapshot_totals_of :: "working_entry list \<Rightarrow> snapshot_totals" where
  "snapshot_totals_of es =
     \<lparr>includedFiles = length (filter hasIncludedDelta es), pendingFiles = length (filter hasPendingDelta es),
      untrackedFiles = length (filter (\<lambda>e. e_kind e = Untracked) es),
      t_includedAdded = foldl (\<lambda>acc e. acc + includedAdded (stats e)) 0 es,
      t_includedRemoved = foldl (\<lambda>acc e. acc + includedRemoved (stats e)) 0 es,
      t_pendingAdded = foldl (\<lambda>acc e. acc + pendingAdded (stats e)) 0 es,
      t_pendingRemoved = foldl (\<lambda>acc e. acc + pendingRemoved (stats e)) 0 es\<rparr>"

definition buildGitSnapshot :: "(string \<Rightarrow> string \<Rightarrow> rat) \<Rightarrow> snapshot_input \<Rightarrow> snapshot" where
  "buildGitSnapshot lc i =
     (let st = parseGitStatusPorcelainV2Z (statusOutput i);
          es = js_sort (\<lambda>a b. lc (e_path a) (e_path b)) (map snd (all_entries i));
          det = is_detached (head (branch st))
      in \<lparr>snap_branch = \<lparr>b_head = (if det then None else head (branch st)), b_upstream = upstream (branch st),
            b_ahead = some_or 0 (ahead (branch st)), b_behind = some_or 0 (behind (branch st)), detached = det\<rparr>,
          snap_stashCount = stashCount st, hasConflicts = list_ex (\<lambda>e. e_kind e = Conflicted) es,
          snap_entries = es, totals = snapshot_totals_of es\<rparr>)"

section \<open>How the entries come about\<close>

fun line_entry :: "git_line \<Rightarrow> status_entry option" where
  "line_entry (ChangedLine x y fs p) = Some (xy_entry x y p None)"
| "line_entry (RenamedLine x y fs p q) = Some (xy_entry x y p (Some q))"
| "line_entry (UnmergedLine x y fs p) = Some (xy_entry x y p None)"
| "line_entry _ = None"

fun line_untracked :: "git_line \<Rightarrow> string option" where
  "line_untracked (UntrackedLine p) = Some p"
| "line_untracked _ = None"

lemma expect_files:
  "s_files (foldl expect st ls) = s_files st @ List.map_filter line_entry ls"
  "notAdded (foldl expect st ls) = notAdded st @ List.map_filter line_untracked ls"
proof (induction ls arbitrary: st)
  case (Cons l ls)
  { case 1 show ?case using Cons(1) by (cases l) (simp_all add: map_filter_simps) next
    case 2 show ?case using Cons(2) by (cases l) (simp_all add: map_filter_simps) }
qed (simp_all add: map_filter_simps)

lemma update_new: "k \<notin> fst ` set m \<Longrightarrow> AList.update k v m = m @ [(k, v)]"
  by (induction m) auto

lemma set_entries:
  "distinct (map e_path es) \<Longrightarrow> e_path ` set es \<inter> fst ` set m = {} \<Longrightarrow>
    foldl set_entry m es = m @ map (\<lambda>e. (e_path e, e)) es"
  by (induction es arbitrary: m) (simp_all add: set_entry_def update_new image_Un)

lemma ensure_entries:
  assumes "\<And>p. e_path (mk p) = p"
  shows "\<exists>zs. foldl (ensure_entry mk) m ps = m @ map (\<lambda>p. (p, mk p)) zs \<and> distinct zs \<and> set zs = set ps - fst ` set m"
proof (induction ps arbitrary: m)
  case (Cons p ps)
  show ?case
  proof (cases "p \<in> fst ` set m")
    case True
    then have "ensure_entry mk m p = m" using map_of_eq_None_iff [of m p] by (simp add: ensure_entry_def)
    then have "foldl (ensure_entry mk) m (p # ps) = foldl (ensure_entry mk) m ps" by simp
    moreover have "set (p # ps) - fst ` set m = set ps - fst ` set m" using True by auto
    ultimately show ?thesis using Cons.IH [of m] by (simp only:)
  next
    case False
    then have step: "ensure_entry mk m p = m @ [(p, mk p)]"
      using map_of_eq_None_iff [of m p] by (simp add: ensure_entry_def set_entry_def assms update_new)
    obtain zs where zs: "foldl (ensure_entry mk) (m @ [(p, mk p)]) ps = (m @ [(p, mk p)]) @ map (\<lambda>p. (p, mk p)) zs"
      "distinct zs" "set zs = set ps - fst ` set (m @ [(p, mk p)])"
      using Cons.IH by blast
    have "foldl (ensure_entry mk) m (p # ps) = m @ map (\<lambda>p. (p, mk p)) (p # zs)" using zs(1) step by simp
    moreover have "distinct (p # zs)" "set (p # zs) = set (p # ps) - fst ` set m" using zs(2,3) False by auto
    ultimately show ?thesis by blast
  qed
qed simp

lemma entry_paths [simp]:
  "e_path (status_working_entry incl pend s) = s_path s" "e_path (untracked_entry u p) = p"
  "e_path (numstat_entry incl pend p) = p"
  by (simp_all add: status_working_entry_def untracked_entry_def numstat_entry_def Let_def)

lemma entry_kinds [simp]:
  "e_kind (status_working_entry incl pend s) = detectEntryKind (s_index s) (workingDir s)"
  "e_kind (untracked_entry u p) = Untracked" "e_kind (numstat_entry incl pend p) = Modified"
  by (simp_all add: status_working_entry_def untracked_entry_def numstat_entry_def Let_def)

lemma foldl_update_keys: "fst ` set (foldl (\<lambda>m f. AList.update (n_file f) f m) m fs) = fst ` set m \<union> n_file ` set fs"
  by (induction fs arbitrary: m) (auto simp: dom_update)

lemma numstat_index_keys: "fst ` set (numstat_index fs) = n_file ` set fs"
  using foldl_update_keys [of "[]" fs] by (simp add: numstat_index_def)

text \<open>The input when git prints it.\<close>

definition printed_input ::
    "git_line list \<Rightarrow> numstat_line list \<Rightarrow> numstat_line list \<Rightarrow> (string \<times> rat \<times> bool) list \<Rightarrow> snapshot_input" where
  "printed_input ls ns ms u =
     \<lparr>statusOutput = print_status ls, includedNumStatOutput = print_numstat ns,
      pendingNumStatOutput = print_numstat ms, untrackedStatsByPath = u\<rparr>"

definition numstat_path :: "numstat_line \<Rightarrow> string" where
  "numstat_path l = n_file (numstat_expect l)"

definition status_paths :: "git_line list \<Rightarrow> string list" where
  "status_paths ls = map s_path (List.map_filter line_entry ls)"

lemma all_entries_printed:
  assumes "list_all printable ls" "list_all numstat_printable ns" "list_all numstat_printable ms"
    and "distinct (status_paths ls)"
  shows "\<exists>us ps. map snd (all_entries (printed_input ls ns ms u))
      = map (status_working_entry (numstat_index (map numstat_expect ns)) (numstat_index (map numstat_expect ms)))
          (List.map_filter line_entry ls)
        @ map (untracked_entry u) us
        @ map (numstat_entry (numstat_index (map numstat_expect ns)) (numstat_index (map numstat_expect ms))) ps
    \<and> distinct (status_paths ls @ us @ ps)
    \<and> set us = set (List.map_filter line_untracked ls) - set (status_paths ls)
    \<and> set ps = numstat_path ` set ns \<union> numstat_path ` set ms - set (status_paths ls) - set us"
proof -
  let ?incl = "numstat_index (map numstat_expect ns)" and ?pend = "numstat_index (map numstat_expect ms)"
  let ?es = "map (status_working_entry ?incl ?pend) (List.map_filter line_entry ls)"
  let ?m1 = "map (\<lambda>e. (e_path e, e)) ?es"
  have paths: "map e_path ?es = status_paths ls" by (simp add: status_paths_def)
  have m1: "foldl set_entry [] ?es = ?m1" using set_entries [of ?es "[]"] assms(4) paths by simp
  have keys1: "fst ` set ?m1 = set (status_paths ls)" unfolding paths [symmetric] by force
  obtain us where us: "foldl (ensure_entry (untracked_entry u)) ?m1 (List.map_filter line_untracked ls)
      = ?m1 @ map (\<lambda>p. (p, untracked_entry u p)) us" "distinct us"
      "set us = set (List.map_filter line_untracked ls) - set (status_paths ls)"
    using ensure_entries [of "untracked_entry u" ?m1 "List.map_filter line_untracked ls"] keys1 by auto
  let ?m2 = "?m1 @ map (\<lambda>p. (p, untracked_entry u p)) us"
  have keys2: "fst ` set ?m2 = set (status_paths ls) \<union> set us"
    unfolding set_append image_Un keys1 by force
  obtain ps where ps: "foldl (ensure_entry (numstat_entry ?incl ?pend)) ?m2 (oset_of (obj_keys ?incl @ obj_keys ?pend))
      = ?m2 @ map (\<lambda>p. (p, numstat_entry ?incl ?pend p)) ps" "distinct ps"
      "set ps = set (oset_of (obj_keys ?incl @ obj_keys ?pend)) - fst ` set ?m2"
    using ensure_entries [of "numstat_entry ?incl ?pend" ?m2 "oset_of (obj_keys ?incl @ obj_keys ?pend)"] by auto
  have "set (oset_of (obj_keys ?incl @ obj_keys ?pend)) = numstat_path ` set ns \<union> numstat_path ` set ms"
    by (simp add: numstat_index_keys image_image numstat_path_def)
  then have sps: "set ps = numstat_path ` set ns \<union> numstat_path ` set ms - set (status_paths ls) - set us"
    using ps(3) keys2 by auto
  have "all_entries (printed_input ls ns ms u) = ?m2 @ map (\<lambda>p. (p, numstat_entry ?incl ?pend p)) ps"
    using m1 us(1) ps(1)
    by (simp add: all_entries_def printed_input_def parse_printed [OF assms(1)] parse_numstat_printed [OF assms(2)]
        parse_numstat_printed [OF assms(3)] expect_files empty_status_def Let_def)
  then have "map snd (all_entries (printed_input ls ns ms u))
      = ?es @ map (untracked_entry u) us @ map (numstat_entry ?incl ?pend) ps" by (simp add: o_def)
  moreover have "distinct (status_paths ls @ us @ ps)" using assms(4) us(2,3) ps(2) sps by auto
  ultimately show ?thesis using us(3) sps by blast
qed

section \<open>Properties\<close>

lemma conflicted_kind [simp]: "detectEntryKind x y = Conflicted \<longleftrightarrow> x = ''U'' \<or> y = ''U''"
  by (simp add: detectEntryKind_def)

lemma snapshot_fields:
  "snap_entries (buildGitSnapshot lc i) = js_sort (\<lambda>a b. lc (e_path a) (e_path b)) (map snd (all_entries i))"
  "hasConflicts (buildGitSnapshot lc i) = (\<exists>e \<in> snd ` set (all_entries i). e_kind e = Conflicted)"
  by (simp_all add: buildGitSnapshot_def Let_def list_ex_iff)

text \<open>C16: The snapshot shows exactly what git printed. When git lists each tracked path once, the entries
  have distinct paths, sorted by the path order, one for every changed, renamed, unmerged or untracked
  path and every path with line counts and none besides; each tracked line appears with its two status
  letters and its original path; and a conflict is reported exactly when one of the letters is U.\<close>

theorem snapshot_shows_the_tree:
  assumes "list_all printable ls" and "list_all numstat_printable ns" and "list_all numstat_printable ms"
    and "distinct (status_paths ls)" and "comparator lc"
    and "snap = buildGitSnapshot lc (printed_input ls ns ms u)"
  shows "distinct (map e_path (snap_entries snap))
    \<and> sorted_wrt (\<lambda>a b. lc (e_path a) (e_path b) \<le> 0) (snap_entries snap)
    \<and> e_path ` set (snap_entries snap)
        = set (status_paths ls) \<union> set (List.map_filter line_untracked ls) \<union> numstat_path ` set ns \<union> numstat_path ` set ms
    \<and> (\<forall>s \<in> set (List.map_filter line_entry ls). \<exists>e \<in> set (snap_entries snap). e_path e = s_path s
        \<and> previousPath e = s_from s \<and> includeStatus e = s_index s \<and> pendingStatus e = workingDir s)
    \<and> hasConflicts snap = list_ex (\<lambda>s. s_index s = ''U'' \<or> workingDir s = ''U'') (List.map_filter line_entry ls)"
proof -
  let ?incl = "numstat_index (map numstat_expect ns)" and ?pend = "numstat_index (map numstat_expect ms)"
  let ?tracked = "List.map_filter line_entry ls"
  obtain us ps where es: "map snd (all_entries (printed_input ls ns ms u))
      = map (status_working_entry ?incl ?pend) ?tracked @ map (untracked_entry u) us @ map (numstat_entry ?incl ?pend) ps"
    and d: "distinct (status_paths ls @ us @ ps)"
    and us: "set us = set (List.map_filter line_untracked ls) - set (status_paths ls)"
    and ps: "set ps = numstat_path ` set ns \<union> numstat_path ` set ms - set (status_paths ls) - set us"
    using all_entries_printed [OF assms(1-4)] by blast
  have sorted: "snap_entries snap = js_sort (\<lambda>a b. lc (e_path a) (e_path b))
      (map (status_working_entry ?incl ?pend) ?tracked @ map (untracked_entry u) us @ map (numstat_entry ?incl ?pend) ps)"
    unfolding assms(6) snapshot_fields es ..
  have paths: "map e_path (map (status_working_entry ?incl ?pend) ?tracked @ map (untracked_entry u) us
      @ map (numstat_entry ?incl ?pend) ps) = status_paths ls @ us @ ps"
    by (simp add: status_paths_def o_def)
  have "distinct (map e_path (snap_entries snap))" unfolding sorted distinct_map_js_sort paths by (rule d)
  moreover have "sorted_wrt (\<lambda>a b. lc (e_path a) (e_path b) \<le> 0) (snap_entries snap)"
    unfolding sorted by (rule comparator.sorted_js_sort [OF comparator_key [OF assms(5)]])
  moreover have "e_path ` set (snap_entries snap) = set (status_paths ls @ us @ ps)"
    unfolding sorted set_js_sort paths [symmetric] set_map ..
  then have "e_path ` set (snap_entries snap)
        = set (status_paths ls) \<union> set (List.map_filter line_untracked ls) \<union> numstat_path ` set ns \<union> numstat_path ` set ms"
    using us ps by auto
  moreover have "\<exists>e \<in> set (snap_entries snap). e_path e = s_path s
        \<and> previousPath e = s_from s \<and> includeStatus e = s_index s \<and> pendingStatus e = workingDir s"
    if "s \<in> set ?tracked" for s
    unfolding sorted set_js_sort using that
    by (intro bexI [of _ "status_working_entry ?incl ?pend s"]) (simp_all add: status_working_entry_def Let_def)
  moreover have "hasConflicts snap = list_ex (\<lambda>s. s_index s = ''U'' \<or> workingDir s = ''U'') ?tracked"
    unfolding assms(6) snapshot_fields set_map [symmetric] es by (simp add: list_ex_iff bex_Un)
  ultimately show ?thesis by blast
qed

text \<open>A conflict in which both sides added a path, or both deleted it, is no conflict for the snapshot:
  git prints such a path as an unmerged line with the letters AA or DD, and the snapshot calls it added or
  deleted and reports that the tree has no conflicts.\<close>

theorem same_letter_conflicts_are_missed:
  assumes "x = CHR ''A'' \<or> x = CHR ''D''" and "printable (UnmergedLine x x fs p)"
    and "snap = buildGitSnapshot lc (printed_input [UnmergedLine x x fs p] [] [] [])"
  shows "\<not> hasConflicts snap
    \<and> map e_kind (snap_entries snap) = [if x = CHR ''A'' then Added else Deleted]"
proof -
  have printed: "list_all printable [UnmergedLine x x fs p]" using assms(2) by simp
  have "distinct (status_paths [UnmergedLine x x fs p])" by (simp add: status_paths_def map_filter_simps)
  from all_entries_printed [OF printed _ _ this, of "[]" "[]" "[]"]
  have "map snd (all_entries (printed_input [UnmergedLine x x fs p] [] [] []))
      = [status_working_entry [] [] (xy_entry x x p None)]"
    by (auto simp: map_filter_simps numstat_index_def)
  then show ?thesis using assms(1) unfolding assms(3) snapshot_fields set_map [symmetric]
    by (auto simp: xy_entry_def detectEntryKind_def)
qed

theorem snapshot_shows_the_tree_witness:
  "hasConflicts (buildGitSnapshot code_unit_compare (printed_input [UnmergedLine CHR ''U'' CHR ''U'' (replicate 8 ''f'') ''p'', UntrackedLine ''q''] [] [] []))
   \<and> e_path ` set (snap_entries (buildGitSnapshot code_unit_compare
        (printed_input [UnmergedLine CHR ''U'' CHR ''U'' (replicate 8 ''f'') ''p'', UntrackedLine ''q''] [] [] []))) = {''p'', ''q''}"
  using snapshot_shows_the_tree [of "[UnmergedLine CHR ''U'' CHR ''U'' (replicate 8 ''f'') ''p'', UntrackedLine ''q'']" "[]" "[]",
      OF _ _ _ _ code_units.comparator_axioms refl, of "[]"]
  by (auto simp: list_all_iff plain_def word_def NUL_def status_paths_def map_filter_simps xy_entry_def)

theorem same_letter_conflicts_are_missed_witness:
  "\<not> hasConflicts (buildGitSnapshot code_unit_compare (printed_input [UnmergedLine CHR ''A'' CHR ''A'' (replicate 8 ''f'') ''p''] [] [] []))"
  using same_letter_conflicts_are_missed [of "CHR ''A''" "replicate 8 ''f''" "''p''", OF _ _ refl, of code_unit_compare]
  by (simp add: list_all_iff plain_def word_def NUL_def)

end
