(* ===== verification/ChangeSets.thy ===== *)
theory ChangeSets
  imports
    JsBase
begin

text \<open>
  What a session changed: the evidence of single turns (\<open>types.ts\<close>), the exclusion of rolled back turns
  (\<open>rollbacks.ts\<close>) and the merge into one set of files (\<open>mergeTurnChangeSets.ts\<close>), all of
  \<open>packages/protocol/src/sessionChanges/\<close>, and how the client derives a session's set from them
  (\<open>deriveSessionChangeSet.ts\<close> of \<open>apps/ui/sources/sync/domains/session/changes/derivation/\<close>).
  A missing optional field and \<open>null\<close> are both \<open>None\<close>, which the code treats alike.
\<close>

section \<open>Evidence\<close>

datatype evidence_source =
    ProviderNative | ProviderTool | CanonicalDiffTool | CanonicalPatchTool | ScmReconciled | Inferred

datatype confidence = Exact | Strong | BestEffort

datatype change_kind = KAdded | KModified | KDeleted | KRenamed | KCopied | KUnknown

record file_evidence =
  filePath :: string
  previousFilePath :: "string option"
  changeKind :: change_kind
  unifiedDiff :: "string option"
  oldText :: "string option"
  newText :: "string option"
  binary :: "bool option"
  source :: evidence_source
  confidence :: confidence
  provider :: string
  providerTurnId :: "string option"
  providerMessageId :: "string option"
  description :: "string option"

datatype turn_status = TCompleted | TAborted | TInterrupted | TUnknown

record turn_change_set =
  t_sessionId :: string
  turnId :: string
  startSeqInclusive :: int
  endSeqInclusive :: int
  t_status :: turn_status
  t_files :: "file_evidence list"
  t_provider :: string
  derivedAt :: int

record change_set_file = file_evidence +
  turns :: "string list"

record session_change_set =
  cs_sessionId :: string
  cs_turns :: "turn_change_set list"
  cs_files :: "change_set_file list"
  rolledBackTurnIds :: "string list"
  summarySource :: evidence_source
  summaryConfidence :: confidence

section \<open>Merging\<close>

fun SOURCE_PRECEDENCE :: "evidence_source \<Rightarrow> nat" where
  "SOURCE_PRECEDENCE ProviderNative = 0"
| "SOURCE_PRECEDENCE ProviderTool = 1"
| "SOURCE_PRECEDENCE CanonicalDiffTool = 2"
| "SOURCE_PRECEDENCE CanonicalPatchTool = 3"
| "SOURCE_PRECEDENCE ScmReconciled = 4"
| "SOURCE_PRECEDENCE Inferred = 5"

fun CONFIDENCE_PRECEDENCE :: "confidence \<Rightarrow> nat" where
  "CONFIDENCE_PRECEDENCE Exact = 0"
| "CONFIDENCE_PRECEDENCE Strong = 1"
| "CONFIDENCE_PRECEDENCE BestEffort = 2"

definition pickMoreSpecificSource :: "evidence_source \<Rightarrow> evidence_source \<Rightarrow> evidence_source" where
  "pickMoreSpecificSource l r = (if SOURCE_PRECEDENCE l \<le> SOURCE_PRECEDENCE r then l else r)"

definition pickWeakerConfidence :: "confidence \<Rightarrow> confidence \<Rightarrow> confidence" where
  "pickWeakerConfidence l r = (if CONFIDENCE_PRECEDENCE l \<ge> CONFIDENCE_PRECEDENCE r then l else r)"

definition mergeFileEvidence :: "change_set_file option \<Rightarrow> file_evidence \<Rightarrow> string \<Rightarrow> change_set_file" where
  "mergeFileEvidence current nxt tid =
     (case current of
        None \<Rightarrow> file_evidence.extend nxt \<lparr>turns = [tid]\<rparr>
      | Some c \<Rightarrow>
          c\<lparr>previousFilePath := first_some [previousFilePath c, previousFilePath nxt],
            changeKind := changeKind nxt,
            unifiedDiff := first_some [unifiedDiff nxt, unifiedDiff c],
            oldText := first_some [oldText c, oldText nxt],
            newText := first_some [newText nxt, newText c],
            binary := first_some [binary c, binary nxt],
            source := pickMoreSpecificSource (source c) (source nxt),
            confidence := pickWeakerConfidence (confidence c) (confidence nxt),
            provider := (if provider nxt = [] then provider c else provider nxt),
            providerTurnId := first_some [providerTurnId nxt, providerTurnId c],
            providerMessageId := first_some [providerMessageId nxt, providerMessageId c],
            description := first_some [description nxt, description c],
            turns := (if tid \<in> set (turns c) then turns c else turns c @ [tid])\<rparr>)"

type_synonym merge_state = "(string \<times> change_set_file) list \<times> evidence_source \<times> confidence"

definition merge_file :: "string \<Rightarrow> merge_state \<Rightarrow> file_evidence \<Rightarrow> merge_state" where
  "merge_file tid st f =
     (case st of (m, src, conf) \<Rightarrow>
        (AList.update (filePath f) (mergeFileEvidence (map_of m (filePath f)) f tid) m,
         pickMoreSpecificSource src (source f), pickWeakerConfidence conf (confidence f)))"

definition merge_turn :: "merge_state \<Rightarrow> turn_change_set \<Rightarrow> merge_state" where
  "merge_turn st t = foldl (merge_file (turnId t)) st (t_files t)"

definition mergeTurnChangeSets ::
    "(string \<Rightarrow> string \<Rightarrow> rat) \<Rightarrow> string \<Rightarrow> turn_change_set list \<Rightarrow> string list \<Rightarrow> session_change_set" where
  "mergeTurnChangeSets lc sid ts rolledBack =
     (case foldl merge_turn ([], ProviderNative, Exact) ts of (m, src, conf) \<Rightarrow>
        \<lparr>cs_sessionId = sid, cs_turns = ts,
         cs_files = js_sort (\<lambda>l r. lc (filePath l) (filePath r)) (map snd m),
         rolledBackTurnIds = rolledBack, summarySource = src, summaryConfidence = conf\<rparr>)"

section \<open>Rolled back turns\<close>

record rollback_range =
  r_start :: int
  r_end :: int

definition isTurnInsideRollbackRange :: "turn_change_set \<Rightarrow> rollback_range \<Rightarrow> bool" where
  "isTurnInsideRollbackRange t r \<longleftrightarrow> startSeqInclusive t \<ge> r_start r \<and> endSeqInclusive t \<le> r_end r"

definition excludeRolledBackTurns :: "turn_change_set list \<Rightarrow> rollback_range list \<Rightarrow> turn_change_set list" where
  "excludeRolledBackTurns ts rs =
     (if length rs = 0 then ts else filter (\<lambda>t. \<not> list_ex (isTurnInsideRollbackRange t) rs) ts)"

definition deriveSessionChangeSet ::
    "(string \<Rightarrow> string \<Rightarrow> rat) \<Rightarrow> string \<Rightarrow> rollback_range list \<Rightarrow> turn_change_set list \<Rightarrow> session_change_set option" where
  "deriveSessionChangeSet lc sid rs ts =
     (if length ts = 0 then None
      else let visible = excludeRolledBackTurns ts rs;
               gone = map turnId (filter (\<lambda>t. \<not> list_ex (\<lambda>v. turnId v = turnId t) visible) ts)
           in Some (mergeTurnChangeSets lc sid visible gone))"

definition deriveLatestTurnScopedChangeSet ::
    "(string \<Rightarrow> string \<Rightarrow> rat) \<Rightarrow> string \<Rightarrow> turn_change_set option \<Rightarrow> session_change_set option" where
  "deriveLatestTurnScopedChangeSet lc sid latest =
     (case latest of None \<Rightarrow> None | Some t \<Rightarrow> Some (mergeTurnChangeSets lc sid [t] []))"

section \<open>What a merged file combines\<close>

text \<open>The evidence in the order of the turns, each with the turn it comes from.\<close>

definition occurrences :: "turn_change_set list \<Rightarrow> (string \<times> file_evidence) list" where
  "occurrences ts = concat (map (\<lambda>t. map (Pair (turnId t)) (t_files t)) ts)"

definition of_path :: "string \<Rightarrow> (string \<times> file_evidence) list \<Rightarrow> (string \<times> file_evidence) list" where
  "of_path p os = filter (\<lambda>(_, f). filePath f = p) os"

text \<open>The first word wins for the old state of a file, the last word for its new state; the source is
  the most specific one, the confidence the weakest.\<close>

definition combines :: "(string \<times> file_evidence) list \<Rightarrow> change_set_file \<Rightarrow> bool" where
  "combines os x \<longleftrightarrow>
     changeKind x = changeKind (snd (last os))
     \<and> previousFilePath x = first_some (map (previousFilePath \<circ> snd) os)
     \<and> oldText x = first_some (map (oldText \<circ> snd) os)
     \<and> binary x = first_some (map (binary \<circ> snd) os)
     \<and> newText x = first_some (rev (map (newText \<circ> snd) os))
     \<and> unifiedDiff x = first_some (rev (map (unifiedDiff \<circ> snd) os))
     \<and> providerTurnId x = first_some (rev (map (providerTurnId \<circ> snd) os))
     \<and> providerMessageId x = first_some (rev (map (providerMessageId \<circ> snd) os))
     \<and> description x = first_some (rev (map (description \<circ> snd) os))
     \<and> source x \<in> (source \<circ> snd) ` set os
     \<and> list_all (\<lambda>o1. SOURCE_PRECEDENCE (source x) \<le> SOURCE_PRECEDENCE (source (snd o1))) os
     \<and> confidence x \<in> (confidence \<circ> snd) ` set os
     \<and> list_all (\<lambda>o1. CONFIDENCE_PRECEDENCE (confidence (snd o1)) \<le> CONFIDENCE_PRECEDENCE (confidence x)) os
     \<and> turns x = oset_of (map fst os)"

lemma first_some_Cons: "first_some (x # xs) = (case x of None \<Rightarrow> first_some xs | Some a \<Rightarrow> Some a)"
  by (cases x) simp_all

lemma first_some_single [simp]: "first_some [x] = x"
  by (cases x) simp_all

lemma oset_of_snoc: "oset_of (xs @ [x]) = (if x \<in> set xs then oset_of xs else oset_of xs @ [x])"
proof -
  have "oset_of (xs @ [x]) = oset_add x (oset_of xs)" by (simp add: oset_adds_def)
  then show ?thesis by (simp add: oset_add_def)
qed

lemma merge_first: "combines [(tid, f)] (mergeFileEvidence None f tid)"
  by (simp add: combines_def mergeFileEvidence_def file_evidence.defs oset_adds_def oset_add_def)

lemma merge_next:
  assumes "combines os c" "os \<noteq> []"
  shows "combines (os @ [(tid, f)]) (mergeFileEvidence (Some c) f tid)"
proof -
  let ?c = "mergeFileEvidence (Some c) f tid"
  have "changeKind ?c = changeKind f"
    "previousFilePath ?c = first_some (map (previousFilePath \<circ> snd) (os @ [(tid, f)]))"
    "oldText ?c = first_some (map (oldText \<circ> snd) (os @ [(tid, f)]))"
    "binary ?c = first_some (map (binary \<circ> snd) (os @ [(tid, f)]))"
    "newText ?c = first_some (rev (map (newText \<circ> snd) (os @ [(tid, f)])))"
    "unifiedDiff ?c = first_some (rev (map (unifiedDiff \<circ> snd) (os @ [(tid, f)])))"
    "providerTurnId ?c = first_some (rev (map (providerTurnId \<circ> snd) (os @ [(tid, f)])))"
    "providerMessageId ?c = first_some (rev (map (providerMessageId \<circ> snd) (os @ [(tid, f)])))"
    "description ?c = first_some (rev (map (description \<circ> snd) (os @ [(tid, f)])))"
    "turns ?c = oset_of (map fst (os @ [(tid, f)]))"
    using assms(1) by (simp_all add: combines_def mergeFileEvidence_def first_some_append first_some_Cons oset_of_snoc
        split: option.split)
  moreover have "source ?c = pickMoreSpecificSource (source c) (source f)"
    "confidence ?c = pickWeakerConfidence (confidence c) (confidence f)" by (simp_all add: mergeFileEvidence_def)
  ultimately show ?thesis using assms
    unfolding combines_def pickMoreSpecificSource_def pickWeakerConfidence_def
    by (auto simp: list_all_iff)
qed

section \<open>The fold\<close>

definition merge_all :: "merge_state \<Rightarrow> (string \<times> file_evidence) list \<Rightarrow> merge_state" where
  "merge_all st os = foldl (\<lambda>s (tid, f). merge_file tid s f) st os"

lemma merge_turns_flat: "foldl merge_turn st ts = merge_all st (occurrences ts)"
proof -
  have turn: "merge_turn s t = foldl (\<lambda>s (tid, f). merge_file tid s f) s (map (Pair (turnId t)) (t_files t))" for s t
    by (simp add: merge_turn_def foldl_map)
  show ?thesis
    by (induction ts arbitrary: st) (simp_all add: merge_all_def occurrences_def turn)
qed

lemma merge_all_snoc:
  "merge_all st (os @ [(tid, f)]) = merge_file tid (merge_all st os) f"
  by (simp add: merge_all_def)

lemma merge_state_spec:
  assumes "merge_all ([], ProviderNative, Exact) os = (m, src, conf)"
  shows "obj_wf m \<and> set (obj_keys m) = (filePath \<circ> snd) ` set os
    \<and> (\<forall>p x. map_of m p = Some x \<longrightarrow> filePath x = p \<and> combines (of_path p os) x)"
  using assms
proof (induction os arbitrary: m src conf rule: rev_induct)
  case (snoc tf os)
  obtain tid f where tf: "tf = (tid, f)" by (cases tf)
  obtain m0 s0 c0 where st: "merge_all ([], ProviderNative, Exact) os = (m0, s0, c0)" by (cases "merge_all ([], ProviderNative, Exact) os") auto
  note IH = snoc.IH [OF st]
  let ?p = "filePath f" and ?x = "mergeFileEvidence (map_of m0 (filePath f)) f tid"
  have m: "m = AList.update ?p ?x m0" using snoc.prems by (simp add: tf merge_all_snoc st merge_file_def)
  have last: "of_path ?p (os @ [tf]) = of_path ?p os @ [(tid, f)]" by (simp add: of_path_def tf)
  have other: "of_path p (os @ [tf]) = of_path p os" if "p \<noteq> ?p" for p using that by (simp add: of_path_def tf)
  have x: "filePath ?x = ?p \<and> combines (of_path ?p (os @ [tf])) ?x"
  proof (cases "map_of m0 ?p")
    case None
    then have "?p \<notin> (filePath \<circ> snd) ` set os" using IH by (metis map_of_eq_None_iff list.set_map)
    then have "of_path ?p os = []" by (force simp: of_path_def filter_empty_conv)
    then show ?thesis using merge_first [of tid f] by (simp add: None last) (simp add: mergeFileEvidence_def file_evidence.defs)
  next
    case (Some c)
    then have c: "filePath c = ?p" "combines (of_path ?p os) c" using IH by blast+
    have "?p \<in> (filePath \<circ> snd) ` set os" using IH Some by (metis map_of_eq_None_iff list.set_map not_None_eq)
    then have "of_path ?p os \<noteq> []" by (force simp: of_path_def filter_empty_conv)
    then show ?thesis using merge_next [OF c(2), of tid f] c(1) by (simp add: Some last) (simp add: mergeFileEvidence_def)
  qed
  have "obj_wf m" using IH by (simp add: m)
  moreover have "set (obj_keys m) = (filePath \<circ> snd) ` set (os @ [tf])"
    using IH by (auto simp: m dom_update tf)
  moreover have "filePath y = p \<and> combines (of_path p (os @ [tf])) y" if "map_of m p = Some y" for p y
    using that x IH other by (cases "p = ?p") (auto simp: m update_conv)
  ultimately show ?case by blast
qed (simp add: merge_all_def)

lemma merged_summary:
  assumes "merge_all ([], ProviderNative, Exact) os = (m, src, conf)"
  shows "src = ProviderNative"
    and "list_all (\<lambda>o1. CONFIDENCE_PRECEDENCE (confidence (snd o1)) \<le> CONFIDENCE_PRECEDENCE conf) os"
    and "conf = Exact \<or> conf \<in> (confidence \<circ> snd) ` set os"
proof -
  have "src = ProviderNative \<and> list_all (\<lambda>o1. CONFIDENCE_PRECEDENCE (confidence (snd o1)) \<le> CONFIDENCE_PRECEDENCE conf) os
      \<and> (conf = Exact \<or> conf \<in> (confidence \<circ> snd) ` set os)"
    using assms
  proof (induction os arbitrary: m src conf rule: rev_induct)
    case (snoc tf os)
    obtain tid f where tf: "tf = (tid, f)" by (cases tf)
    obtain m0 s0 c0 where st: "merge_all ([], ProviderNative, Exact) os = (m0, s0, c0)" by (cases "merge_all ([], ProviderNative, Exact) os") auto
    have "src = pickMoreSpecificSource s0 (source f)" "conf = pickWeakerConfidence c0 (confidence f)"
      using snoc.prems by (simp_all add: tf merge_all_snoc st merge_file_def)
    then show ?case using snoc.IH [OF st]
      by (auto simp: tf pickMoreSpecificSource_def pickWeakerConfidence_def list_all_iff)
  qed (simp add: merge_all_def)
  then show "src = ProviderNative"
    "list_all (\<lambda>o1. CONFIDENCE_PRECEDENCE (confidence (snd o1)) \<le> CONFIDENCE_PRECEDENCE conf) os"
    "conf = Exact \<or> conf \<in> (confidence \<circ> snd) ` set os" by blast+
qed

section \<open>Properties\<close>

text \<open>C18: The merged set of a session lists each changed path once, sorted, and for each path combines
  exactly the evidence of that path: the old text, the previous path and the binary flag come from the
  first turn that has them, the kind of change from the last turn and the new text, the diff and the
  description from the last one that has them, the source is the most specific and the confidence the
  weakest of the path, and the turns are those that touched it, in order. The confidence of the whole is
  at most that of any evidence, and only turns that no rollback range covers take part.\<close>

theorem session_changes_combine_the_evidence:
  assumes "deriveSessionChangeSet lc sid ranges ts = Some cs" and "comparator lc"
  shows "cs_turns cs = filter (\<lambda>t. \<not> list_ex (isTurnInsideRollbackRange t) ranges) ts
    \<and> distinct (map filePath (cs_files cs))
    \<and> sorted_wrt (\<lambda>a b. lc (filePath a) (filePath b) \<le> 0) (cs_files cs)
    \<and> filePath ` set (cs_files cs) = (filePath \<circ> snd) ` set (occurrences (cs_turns cs))
    \<and> list_all (\<lambda>x. combines (of_path (filePath x) (occurrences (cs_turns cs))) x) (cs_files cs)
    \<and> list_all (\<lambda>o1. CONFIDENCE_PRECEDENCE (confidence (snd o1)) \<le> CONFIDENCE_PRECEDENCE (summaryConfidence cs))
        (occurrences (cs_turns cs))"
proof -
  let ?vis = "excludeRolledBackTurns ts ranges"
  have vis: "?vis = filter (\<lambda>t. \<not> list_ex (isTurnInsideRollbackRange t) ranges) ts"
    by (cases ranges) (simp_all add: excludeRolledBackTurns_def)
  obtain m src conf where st: "merge_all ([], ProviderNative, Exact) (occurrences ?vis) = (m, src, conf)"
    by (cases "merge_all ([], ProviderNative, Exact) (occurrences ?vis)") auto
  have cs: "cs_turns cs = ?vis" "cs_files cs = js_sort (\<lambda>l r. lc (filePath l) (filePath r)) (map snd m)"
    "summaryConfidence cs = conf"
    using assms(1) st by (auto simp: deriveSessionChangeSet_def mergeTurnChangeSets_def merge_turns_flat Let_def split: if_splits)
  note spec = merge_state_spec [OF st]
  have x: "filePath x = p \<and> combines (of_path p (occurrences ?vis)) x" if "(p, x) \<in> set m" for p x
    using that spec map_of_is_SomeI [of m p x] by (auto simp: obj_wf_def)
  then have keys: "map filePath (map snd m) = obj_keys m" by (auto simp: o_def)
  then have "distinct (map filePath (cs_files cs))" using spec by (simp add: cs(2) obj_wf_def del: map_map)
  moreover have "filePath ` set (cs_files cs) = (filePath \<circ> snd) ` set (occurrences (cs_turns cs))"
    using spec by (simp add: cs flip: keys set_map)
  moreover have "list_all (\<lambda>x. combines (of_path (filePath x) (occurrences (cs_turns cs))) x) (cs_files cs)"
    using x by (fastforce simp: cs list_all_iff)
  moreover have "sorted_wrt (\<lambda>a b. lc (filePath a) (filePath b) \<le> 0) (cs_files cs)"
    unfolding cs(2) by (rule comparator.sorted_js_sort [OF comparator_key [OF assms(2)]])
  ultimately show ?thesis using merged_summary(2) [OF st] cs(1,3) vis by simp
qed

text \<open>The summary of the sources says nothing: it is the most specific source, provider native, for
  every list of turns, even when all the evidence is inferred, because the search for the most specific
  one starts from it.\<close>

theorem summary_source_is_constant:
  "summarySource (mergeTurnChangeSets lc sid ts gone) = ProviderNative"
proof -
  obtain m src conf where st: "merge_all ([], ProviderNative, Exact) (occurrences ts) = (m, src, conf)"
    by (cases "merge_all ([], ProviderNative, Exact) (occurrences ts)") auto
  then show ?thesis using merged_summary(1) [OF st] by (simp add: mergeTurnChangeSets_def merge_turns_flat)
qed

definition demo_evidence :: "string option \<Rightarrow> string option \<Rightarrow> file_evidence" where
  "demo_evidence before after = \<lparr>filePath = ''f'', previousFilePath = None, changeKind = KModified, unifiedDiff = None,
     oldText = before, newText = after, binary = None, source = Inferred, confidence = Strong, provider = ''p'',
     providerTurnId = None, providerMessageId = None, description = None\<rparr>"

definition demo_turn :: "string \<Rightarrow> int \<Rightarrow> file_evidence \<Rightarrow> turn_change_set" where
  "demo_turn i n f = \<lparr>t_sessionId = ''s'', turnId = i, startSeqInclusive = n, endSeqInclusive = n + 1, t_status = TCompleted,
     t_files = [f], t_provider = ''p'', derivedAt = 0\<rparr>"

theorem session_changes_combine_the_evidence_witness:
  "\<exists>cs. deriveSessionChangeSet code_unit_compare ''s'' [\<lparr>r_start = 9, r_end = 20\<rparr>]
       [demo_turn ''t1'' 1 (demo_evidence (Some ''a'') (Some ''b'')), demo_turn ''t2'' 3 (demo_evidence (Some ''b'') (Some ''c'')),
        demo_turn ''t3'' 10 (demo_evidence (Some ''c'') (Some ''d''))] = Some cs
     \<and> map turnId (cs_turns cs) = [''t1'', ''t2''] \<and> filePath ` set (cs_files cs) = {''f''}"
proof -
  let ?ts = "[demo_turn ''t1'' 1 (demo_evidence (Some ''a'') (Some ''b'')), demo_turn ''t2'' 3 (demo_evidence (Some ''b'') (Some ''c'')),
        demo_turn ''t3'' 10 (demo_evidence (Some ''c'') (Some ''d''))]"
  obtain cs where cs: "deriveSessionChangeSet code_unit_compare ''s'' [\<lparr>r_start = 9, r_end = 20\<rparr>] ?ts = Some cs"
    by (simp add: deriveSessionChangeSet_def Let_def)
  from session_changes_combine_the_evidence [OF cs code_units.comparator_axioms] cs show ?thesis
    by (simp add: demo_turn_def demo_evidence_def isTurnInsideRollbackRange_def occurrences_def)
qed

end
