(* ===== verification/WorkingTree.thy ===== *)
theory WorkingTree
  imports
    ChangeSets
    GitSnapshot
begin

text \<open>
  Which of the files a session changed are still changed in the working tree:
  \<open>reconcileWithScmSnapshot.ts\<close> of \<open>packages/protocol/src/sessionChanges/\<close>. The files come from the merged
  change set, the entries from the git snapshot; paths are compared after a normalisation of their
  spelling, which is modelled down to its regular expressions (a dot in those matches no line break).
\<close>

section \<open>Paths\<close>

abbreviation SLASH :: char where
  "SLASH \<equiv> CHR ''/''"

definition BACKSLASH :: char where
  "BACKSLASH = CHR 0x5C"

text \<open>The loop over the segments of a remainder.\<close>

definition seg_step :: "bool \<Rightarrow> string list \<Rightarrow> string \<Rightarrow> string list" where
  "seg_step absolute segs seg =
     (if seg = [] \<or> seg = ''.'' then segs
      else if seg = ''..'' then
        (if segs \<noteq> [] \<and> last segs \<noteq> ''..'' then butlast segs
         else if \<not> absolute then segs @ [''..''] else segs)
      else segs @ [seg])"

definition joinCanonicalPath :: "string \<Rightarrow> string \<Rightarrow> bool \<Rightarrow> string" where
  "joinCanonicalPath rt remainder absolute =
     (let segs = foldl (seg_step absolute) [] (split_on SLASH remainder) in
      if length segs = 0 then rt
      else if rt = [] then join [SLASH] segs
      else if rt = [SLASH] then SLASH # join [SLASH] segs
      else rt @ join [SLASH] segs)"

definition one_line :: "string \<Rightarrow> bool" where
  "one_line s \<longleftrightarrow> list_all (\<lambda>c. c \<noteq> CHR 0x0A \<and> c \<noteq> CHR 0x0D) s"

text \<open>\<open>/^(\/\/[^/]+\/[^/]+)(?:\/(.*))?$/\<close>: the share and what follows it.\<close>

definition unc_match :: "string \<Rightarrow> (string \<times> string) option" where
  "unc_match path =
     (if \<not> starts_with path ''//'' then None
      else let rest = drop 2 path;
               server = takeWhile (\<lambda>c. c \<noteq> SLASH) rest; r = dropWhile (\<lambda>c. c \<noteq> SLASH) rest;
               share = takeWhile (\<lambda>c. c \<noteq> SLASH) (tl r); r' = dropWhile (\<lambda>c. c \<noteq> SLASH) (tl r)
           in if server = [] \<or> r = [] \<or> share = [] \<or> \<not> one_line (tl r') then None
              else Some (''//'' @ server @ ''/'' @ share, tl r'))"

definition is_letter :: "char \<Rightarrow> bool" where
  "is_letter c \<longleftrightarrow> (CHR ''a'' \<le> c \<and> c \<le> CHR ''z'') \<or> (CHR ''A'' \<le> c \<and> c \<le> CHR ''Z'')"

definition starts_with_drive :: "string \<Rightarrow> bool" where
  "starts_with_drive s \<longleftrightarrow> (case s of a # b # c # _ \<Rightarrow> is_letter a \<and> b = CHR '':'' \<and> c = SLASH | _ \<Rightarrow> False)"

definition canonicalizePath :: "string \<Rightarrow> string" where
  "canonicalizePath path =
     (case unc_match path of Some (share, rest) \<Rightarrow> joinCanonicalPath share rest True
      | None \<Rightarrow>
          if starts_with_drive path \<and> one_line (drop 3 path) then
            joinCanonicalPath (lower_char (path ! 0) # take 2 (drop 1 path)) (drop 3 path) True
          else if starts_with path ''/'' then joinCanonicalPath ''/'' (drop 1 path) True
          else joinCanonicalPath [] path False)"

definition stripTrailingPathSeparator :: "string \<Rightarrow> string" where
  "stripTrailingPathSeparator path =
     (if path = ''/'' then path
      else if starts_with_drive path \<and> length path = 3 then path
      else if (case unc_match path of Some (share, _) \<Rightarrow> share = path | None \<Rightarrow> False) then path
      else rev (dropWhile (\<lambda>c. c = SLASH) (rev path)))"

definition normalizePathToken :: "string \<Rightarrow> string" where
  "normalizePathToken value =
     (if trim value = [] then []
      else let slashed = map (\<lambda>c. if c = BACKSLASH then SLASH else c) (trim value);
               drive = (case slashed of a # b # _ \<Rightarrow> CHR ''A'' \<le> a \<and> a \<le> CHR ''Z'' \<and> b = CHR '':'' | _ \<Rightarrow> False)
           in stripTrailingPathSeparator (canonicalizePath
                (if drive then lower_char (hd slashed) # tl slashed else slashed)))"

definition normalizeRepositoryPathToken :: "string \<Rightarrow> string" where
  "normalizeRepositoryPathToken value =
     (let normalized = (if starts_with (normalizePathToken value) ''./'' then drop 2 (normalizePathToken value)
                        else normalizePathToken value)
      in if normalized = ''.'' then [] else normalized)"

definition usesWindowsPathSemantics :: "string \<Rightarrow> bool" where
  "usesWindowsPathSemantics path \<longleftrightarrow> starts_with_drive path \<or> starts_with path ''//''"

text \<open>\<open>toLowerCase\<close> on the letters of Latin-1.\<close>

definition path_lower_char :: "char \<Rightarrow> char" where
  "path_lower_char c =
     (let n = of_char c :: nat in if (65 \<le> n \<and> n \<le> 90) \<or> (192 \<le> n \<and> n \<le> 222 \<and> n \<noteq> 215) then char_of (n + 32) else c)"

definition comparablePath :: "string \<Rightarrow> string" where
  "comparablePath path = (if usesWindowsPathSemantics path then map path_lower_char path else path)"

definition deriveRepositoryRelativePath :: "string \<Rightarrow> string option \<Rightarrow> string option" where
  "deriveRepositoryRelativePath file rt =
     (let rootPath = (case rt of None \<Rightarrow> [] | Some r \<Rightarrow> normalizePathToken r); filePath = normalizePathToken file in
      if rootPath = [] \<or> filePath = [] then None
      else if comparablePath filePath = comparablePath rootPath then Some []
      else if \<not> starts_with (comparablePath filePath) (comparablePath rootPath @ ''/'') then None
      else Some (normalizeRepositoryPathToken (drop (length rootPath + 1) filePath)))"

definition path_candidates_of :: "string option \<Rightarrow> string \<Rightarrow> string list" where
  "path_candidates_of rt value =
     filter (\<lambda>c. c \<noteq> []) ([trim value, normalizeRepositoryPathToken value]
       @ (case deriveRepositoryRelativePath value rt of None \<Rightarrow> [] | Some r \<Rightarrow> [r]))"

definition buildRepositoryPathCandidates :: "string \<Rightarrow> string option \<Rightarrow> string option \<Rightarrow> string list" where
  "buildRepositoryPathCandidates file previous rt =
     oset_of (concat (map (path_candidates_of rt)
       (filter (\<lambda>v. 0 < length (trim v)) (file # (case previous of None \<Rightarrow> [] | Some p \<Rightarrow> [p])))))"

section \<open>Reconciling\<close>

record matched_file =
  m_filePath :: string
  repositoryPath :: string
  sessionChange :: change_set_file
  r_path :: string
  r_previousPath :: "string option"
  r_kind :: entry_kind

record projection =
  pr_sessionId :: string
  matchedFiles :: "matched_file list"
  unmatchedSessionFiles :: "change_set_file list"
  repositoryOnlyFiles :: "(string \<times> string option \<times> entry_kind) list"
  projectionReliability :: confidence

definition entry_matches :: "string list \<Rightarrow> working_entry \<Rightarrow> bool" where
  "entry_matches cands e \<longleftrightarrow> e_path e \<in> set cands
     \<or> (case previousPath e of None \<Rightarrow> False | Some p \<Rightarrow> p \<noteq> [] \<and> p \<in> set cands)"

definition matched_of :: "change_set_file \<Rightarrow> working_entry \<Rightarrow> matched_file" where
  "matched_of f e = \<lparr>m_filePath = filePath f, repositoryPath = e_path e, sessionChange = f,
     r_path = e_path e, r_previousPath = previousPath e, r_kind = e_kind e\<rparr>"

definition find_entry :: "working_entry list \<Rightarrow> string option \<Rightarrow> change_set_file \<Rightarrow> working_entry option" where
  "find_entry es rt f = List.find (entry_matches (buildRepositoryPathCandidates (filePath f) (previousFilePath f) rt)) es"

fun reconcile_loop ::
    "working_entry list \<Rightarrow> string option \<Rightarrow> change_set_file list \<Rightarrow> string list \<Rightarrow> matched_file list \<Rightarrow> change_set_file list
      \<Rightarrow> string list \<times> matched_file list \<times> change_set_file list" where
  "reconcile_loop es rt [] consumed matched unmatched = (consumed, matched, unmatched)"
| "reconcile_loop es rt (f # fs) consumed matched unmatched =
     (case find_entry es rt f of
        None \<Rightarrow> reconcile_loop es rt fs consumed matched (unmatched @ [f])
      | Some e \<Rightarrow> reconcile_loop es rt fs (oset_add (e_path e) consumed) (matched @ [matched_of f e]) unmatched)"

definition reconcileWithScmSnapshot :: "session_change_set \<Rightarrow> (snapshot \<times> string option) option \<Rightarrow> projection" where
  "reconcileWithScmSnapshot cs snap =
     (let es = (case snap of None \<Rightarrow> [] | Some (s, _) \<Rightarrow> snap_entries s);
          rt = (case snap of None \<Rightarrow> None | Some (_, r) \<Rightarrow> r);
          (consumed, matched, unmatched) = reconcile_loop es rt (cs_files cs) [] [] []
      in \<lparr>pr_sessionId = cs_sessionId cs, matchedFiles = matched, unmatchedSessionFiles = unmatched,
          repositoryOnlyFiles = map (\<lambda>e. (e_path e, previousPath e, e_kind e)) (filter (\<lambda>e. e_path e \<notin> set consumed) es),
          projectionReliability = summaryConfidence cs\<rparr>)"

section \<open>Normalising a path\<close>


















section \<open>What the loop collects\<close>

definition found_files :: "working_entry list \<Rightarrow> string option \<Rightarrow> change_set_file list \<Rightarrow> (change_set_file \<times> working_entry) list" where
  "found_files es rt fs = List.map_filter (\<lambda>f. map_option (Pair f) (find_entry es rt f)) fs"

lemma reconcile_loop_spec:
  "reconcile_loop es rt fs c m u =
     (oset_adds c (map (e_path \<circ> snd) (found_files es rt fs)), m @ map (case_prod matched_of) (found_files es rt fs),
      u @ filter (\<lambda>f. find_entry es rt f = None) fs)"
proof (induction fs arbitrary: c m u)
  case (Cons f fs)
  then show ?case
    by (cases "find_entry es rt f") (simp_all add: found_files_def map_filter_simps oset_adds_def)
qed (simp add: found_files_def oset_adds_def map_filter_simps)

lemma found_in: "(f, e) \<in> set (found_files es rt fs) \<longleftrightarrow> f \<in> set fs \<and> find_entry es rt f = Some e"
  by (force simp: found_files_def List.map_filter_def)

lemma image_filter_out: "f ` {x \<in> A. f x \<notin> B} = f ` A - B"
  by auto

lemma found_fst: "map fst (found_files es rt fs) = filter (\<lambda>f. find_entry es rt f \<noteq> None) fs"
  by (induction fs) (auto simp: found_files_def map_filter_simps)

lemma projection_fields:
  "matchedFiles (reconcileWithScmSnapshot cs (Some (snap, rt)))
     = map (case_prod matched_of) (found_files (snap_entries snap) rt (cs_files cs))"
  "unmatchedSessionFiles (reconcileWithScmSnapshot cs (Some (snap, rt)))
     = filter (\<lambda>f. find_entry (snap_entries snap) rt f = None) (cs_files cs)"
  "repositoryOnlyFiles (reconcileWithScmSnapshot cs (Some (snap, rt)))
     = map (\<lambda>e. (e_path e, previousPath e, e_kind e))
         (filter (\<lambda>e. e_path e \<notin> (e_path \<circ> snd) ` set (found_files (snap_entries snap) rt (cs_files cs))) (snap_entries snap))"
  by (simp_all add: reconcileWithScmSnapshot_def reconcile_loop_spec Let_def)

section \<open>Properties\<close>

text \<open>The projection loses no change: every file of the session is either matched or unmatched, in its
  order; it is matched with an entry of the snapshot that carries one of its paths, now or before a
  rename, and unmatched only if no entry does; and every entry of the working tree is either matched by
  some file or listed as changed in the repository only.\<close>

theorem projection_partitions_changes:
  assumes "pr = reconcileWithScmSnapshot cs (Some (snap, rt))"
    and "cands = (\<lambda>f. buildRepositoryPathCandidates (filePath f) (previousFilePath f) rt)"
  shows "filter (\<lambda>f. f \<in> sessionChange ` set (matchedFiles pr)) (cs_files cs) = map sessionChange (matchedFiles pr)
    \<and> filter (\<lambda>f. f \<notin> sessionChange ` set (matchedFiles pr)) (cs_files cs) = unmatchedSessionFiles pr
    \<and> (\<forall>m \<in> set (matchedFiles pr). \<exists>e \<in> set (snap_entries snap). m = matched_of (sessionChange m) e \<and> entry_matches (cands (sessionChange m)) e)
    \<and> (\<forall>f \<in> set (unmatchedSessionFiles pr). \<forall>e \<in> set (snap_entries snap). \<not> entry_matches (cands f) e)
    \<and> fst ` set (repositoryOnlyFiles pr) = e_path ` set (snap_entries snap) - repositoryPath ` set (matchedFiles pr)"
proof -
  let ?es = "snap_entries snap"
  have m: "matchedFiles pr = map (case_prod matched_of) (found_files ?es rt (cs_files cs))"
    and u: "unmatchedSessionFiles pr = filter (\<lambda>f. find_entry ?es rt f = None) (cs_files cs)"
    and r: "repositoryOnlyFiles pr = map (\<lambda>e. (e_path e, previousPath e, e_kind e))
         (filter (\<lambda>e. e_path e \<notin> (e_path \<circ> snd) ` set (found_files ?es rt (cs_files cs))) ?es)"
    unfolding assms(1) by (rule projection_fields)+
  have found: "find_entry ?es rt f = Some e \<Longrightarrow> e \<in> set ?es \<and> entry_matches (cands f) e" for f e
    unfolding find_entry_def assms(2) by (rule find_SomeD)
  have changes: "map sessionChange (matchedFiles pr) = filter (\<lambda>f. find_entry ?es rt f \<noteq> None) (cs_files cs)"
    unfolding m found_fst [symmetric] by (simp add: o_def case_prod_beta matched_of_def)
  have in_matched: "f \<in> sessionChange ` set (matchedFiles pr) \<longleftrightarrow> f \<in> set (cs_files cs) \<and> find_entry ?es rt f \<noteq> None" for f
    unfolding set_map [symmetric] changes by auto
  have "filter (\<lambda>f. f \<in> sessionChange ` set (matchedFiles pr)) (cs_files cs) = map sessionChange (matchedFiles pr)"
    unfolding changes by (rule filter_cong) (simp_all add: in_matched)
  moreover have "filter (\<lambda>f. f \<notin> sessionChange ` set (matchedFiles pr)) (cs_files cs) = unmatchedSessionFiles pr"
    unfolding u by (rule filter_cong) (simp_all add: in_matched)
  moreover have "\<exists>e \<in> set ?es. x = matched_of (sessionChange x) e \<and> entry_matches (cands (sessionChange x)) e"
    if x_in: "x \<in> set (matchedFiles pr)" for x
  proof -
    obtain f e where x: "x = matched_of f e" "find_entry ?es rt f = Some e" using x_in found_in by (auto simp: m)
    then have "sessionChange x = f" by (simp add: matched_of_def)
    then show ?thesis using x found [OF x(2)] by blast
  qed
  moreover have "\<not> entry_matches (cands f) e" if "f \<in> set (unmatchedSessionFiles pr)" "e \<in> set ?es" for f e
    using that unfolding u find_entry_def assms(2) by (auto simp: find_None_iff)
  moreover have paths: "repositoryPath ` set (matchedFiles pr) = (e_path \<circ> snd) ` set (found_files ?es rt (cs_files cs))"
    unfolding m set_map image_image by (simp add: case_prod_beta matched_of_def)
  have "fst ` set (repositoryOnlyFiles pr) = e_path ` set ?es - repositoryPath ` set (matchedFiles pr)"
    unfolding paths r set_map set_filter image_image fst_conv by (rule image_filter_out)
  ultimately show ?thesis by blast
qed



text \<open>On a network share the separator after the share is lost: the normalisation joins the share and the
  first segment below it, so that paths of different shares coincide, and for a repository at the root of
  a share no relative path is found; the file is reported as not matched although its entry is there. At
  the root of a drive the same file is found.\<close>

theorem share_root_loses_the_separator:
  "normalizePathToken ''//s/a/bc'' = normalizePathToken ''//s/ab/c''
   \<and> deriveRepositoryRelativePath ''//server/share/a.ts'' (Some ''//server/share'') = None
   \<and> deriveRepositoryRelativePath ''z:/repo/a.ts'' (Some ''z:/repo'') = Some ''a.ts''
   \<and> buildRepositoryPathCandidates ''//server/share/a.ts'' None (Some ''//server/share'')
       = [''//server/share/a.ts'', ''//server/sharea.ts'']"
  by code_simp

definition demo_entry :: working_entry where
  "demo_entry = \<lparr>e_path = ''a/b.ts'', previousPath = None, e_kind = Modified, includeStatus = ''M'', pendingStatus = ''.'',
     hasIncludedDelta = True, hasPendingDelta = False,
     stats = \<lparr>includedAdded = 1, includedRemoved = 0, pendingAdded = 0, pendingRemoved = 0, isBinary = False\<rparr>\<rparr>"

definition demo_snapshot :: snapshot where
  "demo_snapshot = \<lparr>snap_branch = \<lparr>b_head = Some ''main'', b_upstream = None, b_ahead = 0, b_behind = 0, detached = False\<rparr>,
     snap_stashCount = 0, hasConflicts = False, snap_entries = [demo_entry], totals = snapshot_totals_of [demo_entry]\<rparr>"

definition demo_changes :: session_change_set where
  "demo_changes = mergeTurnChangeSets code_unit_compare ''s''
     [demo_turn ''t1'' 1 ((demo_evidence None None)\<lparr>filePath := ''/w/../repo/./a//b.ts''\<rparr>)] []"




theorem projection_partitions_changes_witness:
  "repositoryOnlyFiles (reconcileWithScmSnapshot (demo_changes\<lparr>cs_files := []\<rparr>) (Some (demo_snapshot, None))) = [(''a/b.ts'', None, Modified)]
   \<and> fst ` set (repositoryOnlyFiles (reconcileWithScmSnapshot (demo_changes\<lparr>cs_files := []\<rparr>) (Some (demo_snapshot, None)))) = {''a/b.ts''}"
proof -
  have "matchedFiles (reconcileWithScmSnapshot (demo_changes\<lparr>cs_files := []\<rparr>) (Some (demo_snapshot, None))) = []"
    "repositoryOnlyFiles (reconcileWithScmSnapshot (demo_changes\<lparr>cs_files := []\<rparr>) (Some (demo_snapshot, None))) = [(''a/b.ts'', None, Modified)]"
    by (simp_all add: projection_fields found_files_def map_filter_simps demo_snapshot_def demo_entry_def)
  then show ?thesis
    using projection_partitions_changes [OF refl refl, of "demo_changes\<lparr>cs_files := []\<rparr>" demo_snapshot None]
    by (simp add: demo_snapshot_def demo_entry_def)
qed

end
