(* ===== verification/TaskPool.thy ===== *)
theory TaskPool
  imports
    JsBase
    "HOL-Library.Multiset"
begin

text \<open>
  Running tasks with a bound on how many are in flight:
  \<open>apps/ui/sources/sync/runtime/orchestration/runTasksWithLimit.ts\<close>, by which the applier refreshes
  and the sync engine decrypts and fetches. Each worker is an asynchronous loop that suspends only while
  it awaits its task, so a state of the pool is determined by the tasks awaited, and every interleaving
  is a sequence of completions of awaited tasks.
\<close>

section \<open>The pool\<close>

record ('a, 'e) pool =
  taskCount :: nat
  nextIndex :: nat
  awaited :: "nat list"
  started :: "nat list"
  results :: "'a option list"
  rejection :: "'e option"

text \<open>\<open>Math.min(Math.max(1, Math.trunc(limit)), tasks.length)\<close> as the length of an array: \<open>NaN\<close> gives none.\<close>

definition workersCount :: "jsnum \<Rightarrow> nat \<Rightarrow> nat" where
  "workersCount limit n =
     (case limit of NaN \<Rightarrow> 0
      | PInf \<Rightarrow> n
      | NInf \<Rightarrow> min 1 n
      | Fin r \<Rightarrow> min (nat (max 1 (math_trunc r))) n)"

text \<open>A worker at the head of its loop: it takes the next index and awaits that task, or returns.\<close>

definition worker_takes :: "('a, 'e) pool \<Rightarrow> ('a, 'e) pool" where
  "worker_takes p =
     (let index = nextIndex p in
      if index \<ge> taskCount p then p\<lparr>nextIndex := index + 1\<rparr>
      else p\<lparr>nextIndex := index + 1, awaited := awaited p @ [index], started := started p @ [index]\<rparr>)"

definition runTasksWithLimit :: "jsnum \<Rightarrow> nat \<Rightarrow> ('a, 'e) pool" where
  "runTasksWithLimit limit n =
     (worker_takes ^^ workersCount limit n)
       \<lparr>taskCount = n, nextIndex = 0, awaited = [], started = [], results = replicate n None, rejection = None\<rparr>"

text \<open>An awaited task resolves, and its worker goes on, or rejects, and its worker ends; the rejection of
  the whole is the first one.\<close>

datatype ('a, 'e) completion = Resolved nat 'a | Rejected nat 'e

definition resolve_task :: "nat \<Rightarrow> 'a \<Rightarrow> ('a, 'e) pool \<Rightarrow> ('a, 'e) pool" where
  "resolve_task i v p = worker_takes (p\<lparr>awaited := remove1 i (awaited p), results := (results p)[i := Some v]\<rparr>)"

definition reject_task :: "nat \<Rightarrow> 'e \<Rightarrow> ('a, 'e) pool \<Rightarrow> ('a, 'e) pool" where
  "reject_task i e p =
     p\<lparr>awaited := remove1 i (awaited p), rejection := (if rejection p = None then Some e else rejection p)\<rparr>"

inductive pool_step :: "('a, 'e) pool \<Rightarrow> ('a, 'e) completion \<Rightarrow> ('a, 'e) pool \<Rightarrow> bool" where
  resolves: "i \<in> set (awaited p) \<Longrightarrow> pool_step p (Resolved i v) (resolve_task i v p)"
| rejects: "i \<in> set (awaited p) \<Longrightarrow> pool_step p (Rejected i e) (reject_task i e p)"

inductive_cases pool_step_resolved: "pool_step p (Resolved i v) q"
inductive_cases pool_step_rejected: "pool_step p (Rejected i e) q"

inductive pool_run :: "('a, 'e) pool \<Rightarrow> ('a, 'e) completion list \<Rightarrow> ('a, 'e) pool \<Rightarrow> bool" where
  begins: "pool_run p [] p"
| continues: "pool_run p cs q \<Longrightarrow> pool_step q c r \<Longrightarrow> pool_run p (cs @ [c]) r"

text \<open>The promise: rejected with the first error, or resolved with the results once no worker awaits.\<close>

definition outcome :: "('a, 'e) pool \<Rightarrow> ('e + 'a option list) option" where
  "outcome p =
     (case rejection p of Some e \<Rightarrow> Some (Inl e) | None \<Rightarrow> if awaited p = [] then Some (Inr (results p)) else None)"

section \<open>The invariant\<close>

fun completed_index :: "('a, 'e) completion \<Rightarrow> nat" where
  "completed_index (Resolved i _) = i"
| "completed_index (Rejected i _) = i"

fun rejection_error :: "('a, 'e) completion \<Rightarrow> 'e option" where
  "rejection_error (Rejected _ e) = Some e"
| "rejection_error (Resolved _ _) = None"

definition pool_inv :: "nat \<Rightarrow> nat \<Rightarrow> ('a, 'e) completion list \<Rightarrow> ('a, 'e) pool \<Rightarrow> bool" where
  "pool_inv n w cs p \<longleftrightarrow> taskCount p = n \<and> length (results p) = n
     \<and> started p = [0..<min n (nextIndex p)]
     \<and> mset (awaited p) + mset (map completed_index cs) = mset (started p)
     \<and> length (awaited p) \<le> w
     \<and> (\<forall>i < n. \<forall>v. (results p ! i = Some v) = (Resolved i v \<in> set cs))
     \<and> rejection p = first_some (map rejection_error cs)
     \<and> (rejection p = None \<longrightarrow> n \<le> nextIndex p \<or> length (awaited p) = w)"

lemma first_some_None: "first_some xs = None \<longleftrightarrow> (\<forall>x \<in> set xs. x = None)"
  by (induction xs rule: first_some.induct) auto

lemma takes_inv:
  assumes "taskCount p = n" "length (results p) = n" "started p = [0..<min n (nextIndex p)]"
    and "mset (awaited p) + M = mset (started p)" "length (awaited p) < w"
  shows "taskCount (worker_takes p) = n" "results (worker_takes p) = results p" "rejection (worker_takes p) = rejection p"
    "started (worker_takes p) = [0..<min n (nextIndex (worker_takes p))]"
    "mset (awaited (worker_takes p)) + M = mset (started (worker_takes p))"
    "length (awaited (worker_takes p)) \<le> w"
    "n \<le> nextIndex p \<or> Suc (length (awaited p)) = w \<Longrightarrow>
      n \<le> nextIndex (worker_takes p) \<or> length (awaited (worker_takes p)) = w"
proof -
  have upt: "[0..<Suc k] = [0..<k] @ [k]" for k by simp
  show "started (worker_takes p) = [0..<min n (nextIndex (worker_takes p))]"
  proof (cases "n \<le> nextIndex p")
    case False
    then have "min n (Suc (nextIndex p)) = Suc (nextIndex p)" by simp
    then show ?thesis using False assms(1,3) upt [of "nextIndex p"] by (simp add: worker_takes_def Let_def del: upt_Suc)
  qed (use assms in \<open>simp add: worker_takes_def Let_def\<close>)
qed (use assms in \<open>auto simp: worker_takes_def Let_def min_def\<close>)

lemma initial_takes:
  fixes n :: nat
  assumes "k \<le> n"
  shows "(worker_takes ^^ k) \<lparr>taskCount = n, nextIndex = 0, awaited = [], started = [], results = replicate n None, rejection = None\<rparr>
    = \<lparr>taskCount = n, nextIndex = k, awaited = [0..<k], started = [0..<k], results = replicate n None, rejection = None\<rparr>"
  using assms by (induction k) (simp_all add: worker_takes_def Let_def)

lemma workersCount_le: "workersCount limit n \<le> n"
  by (simp add: workersCount_def split: jsnum.split)

lemma pool_inv_start: "pool_inv n (workersCount limit n) [] (runTasksWithLimit limit n)"
  using workersCount_le [of limit n]
  by (simp add: runTasksWithLimit_def initial_takes pool_inv_def min_absorb2)

lemma awaited_is_open:
  assumes "pool_inv n w cs p" "i \<in> set (awaited p)"
  shows "i < n" "i \<notin> completed_index ` set cs"
proof -
  have m: "mset (awaited p) + mset (map completed_index cs) = mset (started p)"
    and st: "started p = [0..<min n (nextIndex p)]" using assms(1) by (simp_all add: pool_inv_def)
  have "i \<in># mset (started p)" unfolding m [symmetric] using assms(2) by simp
  then show "i < n" by (simp add: st)
  have "count (mset (started p)) i \<le> 1" using distinct_count_atmost_1 [of "started p"] by (simp add: st)
  then have "count (mset (awaited p)) i + count (mset (map completed_index cs)) i \<le> 1"
    unfolding m [symmetric] count_union .
  moreover have "count (mset (awaited p)) i \<noteq> 0" using assms(2) by (metis count_mset_0_iff)
  ultimately have "count (mset (map completed_index cs)) i = 0" by linarith
  then show "i \<notin> completed_index ` set cs" by (metis count_mset_0_iff list.set_map)
qed

lemma completed_moves:
  assumes "pool_inv n w cs p" "i \<in> set (awaited p)" "completed_index c = i"
  shows "mset (remove1 i (awaited p)) + mset (map completed_index (cs @ [c])) = mset (started p)"
proof -
  have "mset (awaited p) = add_mset i (mset (remove1 i (awaited p)))" using assms(2) by simp
  then show ?thesis using assms(1,3) by (simp add: pool_inv_def del: mset_remove1)
qed

lemma pool_inv_step:
  assumes inv: "pool_inv n w cs p" and step: "pool_step p c q"
  shows "pool_inv n w (cs @ [c]) q"
  using step
proof (cases rule: pool_step.cases)
  case (resolves i v)
  let ?p = "p\<lparr>awaited := remove1 i (awaited p), results := (results p)[i := Some v]\<rparr>"
  note i = awaited_is_open [OF inv resolves(3)]
  have w: "Suc (length (remove1 i (awaited p))) = length (awaited p)"
    using resolves(3) by (simp add: length_remove1) (metis Suc_pred length_pos_if_in_set)
  note rem = completed_moves [OF inv resolves(3), of c]
  note t = takes_inv [of ?p n "mset (map completed_index (cs @ [c]))" w]
  have no: "Resolved i u \<notin> set cs" for u using i(2) by force
  have res: "(results ?p ! j = Some u) = (Resolved j u \<in> set (cs @ [c]))" if "j < n" for j u
    using inv that no by (cases "j = i") (auto simp: pool_inv_def resolves(1))
  show ?thesis
    unfolding pool_inv_def resolves(2) resolve_task_def
    using t inv w rem res by (simp add: pool_inv_def resolves(1) first_some_append del: mset_remove1 split: option.split)
next
  case (rejects i e)
  have w: "length (remove1 i (awaited p)) \<le> length (awaited p)" by (simp add: length_remove1)
  note rem = completed_moves [OF inv rejects(3), of c]
  have "taskCount q = n \<and> length (results q) = n \<and> started q = [0..<min n (nextIndex q)] \<and> length (awaited q) \<le> w
    \<and> mset (awaited q) + mset (map completed_index (cs @ [c])) = mset (started q)"
    using inv w rem by (simp add: pool_inv_def rejects(1,2) reject_task_def del: mset_remove1)
  then show ?thesis using inv by (auto simp: pool_inv_def rejects(1,2) reject_task_def first_some_append split: option.split)
qed

lemma pool_run_inv:
  "pool_run p cs q \<Longrightarrow> pool_inv n w [] p \<Longrightarrow> pool_inv n w cs q"
  by (induction rule: pool_run.induct) (auto intro: pool_inv_step)

section \<open>Properties\<close>

lemma workers_positive: "limit \<noteq> NaN \<Longrightarrow> 0 < n \<Longrightarrow> 0 < workersCount limit n"
  by (cases limit) (auto simp: workersCount_def)

text \<open>C22: However the tasks interleave, at most as many are in flight as the limit allows, they are started
  in order and each once, and started tasks are exactly those awaited and those completed. The whole is
  rejected with the first rejection. When it resolves, for a limit that is a number, every task has
  resolved and its value stands at its own index; and once all tasks have completed it is settled.\<close>

theorem tasks_run_once_within_the_limit:
  assumes "pool_run (runTasksWithLimit limit n) cs p"
  shows "length (awaited p) \<le> workersCount limit n
    \<and> started p = [0..<length (started p)] \<and> length (started p) \<le> n
    \<and> mset (awaited p) + mset (map completed_index cs) = mset (started p)
    \<and> (\<forall>e. outcome p = Some (Inl e) \<longleftrightarrow> first_some (map rejection_error cs) = Some e)
    \<and> (\<forall>rs. limit \<noteq> NaN \<longrightarrow> outcome p = Some (Inr rs) \<longrightarrow>
         length rs = n \<and> (\<forall>i < n. \<exists>v. rs ! i = Some v \<and> Resolved i v \<in> set cs))
    \<and> (length cs = n \<longrightarrow> outcome p \<noteq> None)"
proof -
  have inv: "pool_inv n (workersCount limit n) cs p" using pool_run_inv [OF assms pool_inv_start] .
  then have st: "started p = [0..<min n (nextIndex p)]"
    and m: "mset (awaited p) + mset (map completed_index cs) = mset (started p)"
    and rej: "rejection p = first_some (map rejection_error cs)" by (simp_all add: pool_inv_def)
  have "size (mset (awaited p)) + size (mset (map completed_index cs)) = size (mset (started p))"
    unfolding m [symmetric] size_union ..
  then have size: "length (awaited p) + length cs = min n (nextIndex p)" by (simp add: st)
  have "length rs = n \<and> (\<forall>i < n. \<exists>v. rs ! i = Some v \<and> Resolved i v \<in> set cs)"
    if "limit \<noteq> NaN" "outcome p = Some (Inr rs)" for rs
  proof -
    have none: "rejection p = None" "awaited p = []" "rs = results p"
      using that(2) by (auto simp: outcome_def split: option.splits if_splits)
    have full: "min n (nextIndex p) = n"
      using inv none(1,2) workers_positive [OF that(1), of n] by (cases "n = 0") (auto simp: pool_inv_def)
    have "\<exists>v. Resolved i v \<in> set cs" if "i < n" for i
    proof -
      have "i \<in> completed_index ` set cs"
        using m that by (simp add: none(2) st full flip: set_mset_mset) (metis atLeastLessThan_iff finite_atLeastLessThan finite_set_mset_mset_set imageE le0 list.set_map set_image_mset set_mset_mset)
      then obtain c where c: "c \<in> set cs" "completed_index c = i" by blast
      have "rejection_error c = None" using rej none(1) c(1) first_some_None [of "map rejection_error cs"] by (metis image_eqI list.set_map)
      then show ?thesis using c by (cases c) auto
    qed
    then show ?thesis using inv none(3) by (auto simp: pool_inv_def)
  qed
  moreover have "outcome p \<noteq> None" if "length cs = n"
  proof -
    have "min n (nextIndex p) \<le> n" by simp
    then have "length (awaited p) = 0" using size that by linarith
    then show ?thesis by (simp add: outcome_def split: option.split)
  qed
  moreover have "outcome p = Some (Inl e) \<longleftrightarrow> first_some (map rejection_error cs) = Some e" for e
    by (auto simp: outcome_def rej split: option.split)
  moreover have "length (awaited p) \<le> workersCount limit n" using inv by (simp add: pool_inv_def)
  ultimately show ?thesis using st m by simp
qed

text \<open>Two workers on three tasks, the second of which ends first.\<close>

definition demo_completions :: "(nat, string) completion list" where
  "demo_completions = [Resolved 1 11, Resolved 2 12, Resolved 0 10]"

lemma demo_pool_run: "pool_run (runTasksWithLimit (Fin 2) 3) demo_completions
    \<lparr>taskCount = 3, nextIndex = 5, awaited = [], started = [0, 1, 2], results = [Some 10, Some 11, Some 12], rejection = None\<rparr>"
proof -
  let ?p = "\<lambda>k aw st rs. \<lparr>taskCount = 3, nextIndex = k, awaited = aw, started = st, results = rs, rejection = None\<rparr> :: (nat, string) pool"
  have start: "runTasksWithLimit (Fin 2) 3 = ?p 2 [0, 1] [0, 1] [None, None, None]" by code_simp
  have steps: "pool_step (?p 2 [0, 1] [0, 1] [None, None, None]) (Resolved 1 11) (?p 3 [0, 2] [0, 1, 2] [None, Some 11, None])"
    "pool_step (?p 3 [0, 2] [0, 1, 2] [None, Some 11, None]) (Resolved 2 12) (?p 4 [0] [0, 1, 2] [None, Some 11, Some 12])"
    "pool_step (?p 4 [0] [0, 1, 2] [None, Some 11, Some 12]) (Resolved 0 10) (?p 5 [] [0, 1, 2] [Some 10, Some 11, Some 12])"
    by (simp_all add: pool_step.simps resolve_task_def worker_takes_def)
  show ?thesis
    using pool_run.continues [OF pool_run.continues [OF pool_run.continues [OF pool_run.begins steps(1)] steps(2)] steps(3)]
    by (simp add: demo_completions_def start)
qed

theorem tasks_run_once_within_the_limit_witness:
  "length demo_completions = 3
   \<and> (\<exists>v. [Some 10, Some 11, Some (12 :: nat)] ! 1 = Some v \<and> Resolved 1 v \<in> set demo_completions)"
  using tasks_run_once_within_the_limit [OF demo_pool_run] by (simp add: outcome_def demo_completions_def)

end
