(* ===== verification/TranscriptOrder.thy ===== *)
theory TranscriptOrder
  imports
    JsBase
    "HOL-Library.Multiset"
begin

text \<open>
  The order of a transcript: \<open>apps/ui/sources/sync/domains/messages/transcriptOrdering.ts\<close>, the
  ordering of an incoming batch in \<open>apps/ui/sources/sync/reducer/reducer.ts\<close>, and the two ways
  \<open>apps/ui/sources/sync/store/domains/messages.ts\<close> adds ids to the ordered list of a session.
  \<open>localeCompare\<close> is the parameter \<open>lc\<close>; a field that is not a number is \<open>None\<close>.
\<close>

section \<open>Coordinates\<close>

record order_row =
  rowId :: string
  rowSeq :: "jsnum option"
  rowCreatedAt :: rat
  rowBlock :: "jsnum option"

record incoming_row =
  inId :: string
  inSeq :: "jsnum option"
  inCreatedAt :: "jsnum option"
  inputIndex :: nat

definition normalizeTranscriptSeq :: "jsnum option \<Rightarrow> int option" where
  "normalizeTranscriptSeq s = (case finite_num s of None \<Rightarrow> None | Some r \<Rightarrow> Some (math_trunc r))"

definition normalizeTranscriptBlockIndex :: "jsnum option \<Rightarrow> int option" where
  "normalizeTranscriptBlockIndex i =
     (case finite_num i of None \<Rightarrow> None
      | Some r \<Rightarrow> (let normalized = math_trunc r in if 0 \<le> normalized then Some normalized else None))"

definition transcriptBlockIndexFromContentIndex :: "nat \<Rightarrow> int" where
  "transcriptBlockIndexFromContentIndex i = some_or 0 (normalizeTranscriptBlockIndex (Some (Fin (of_nat i))))"

definition normalizeTranscriptCreatedAt :: "jsnum option \<Rightarrow> rat option" where
  "normalizeTranscriptCreatedAt v = finite_num v"

section \<open>The two comparisons\<close>

text \<open>\<open>aBlock !== null && bBlock !== null && aBlock !== bBlock\<close>, with the difference.\<close>

definition block_difference :: "order_row \<Rightarrow> order_row \<Rightarrow> rat option" where
  "block_difference a b =
     (case (normalizeTranscriptBlockIndex (rowBlock a), normalizeTranscriptBlockIndex (rowBlock b)) of
        (Some x, Some y) \<Rightarrow> if x \<noteq> y then Some (of_int (x - y)) else None
      | _ \<Rightarrow> None)"

definition compareTranscriptMessagesOldestFirst :: "(string \<Rightarrow> string \<Rightarrow> rat) \<Rightarrow> order_row \<Rightarrow> order_row \<Rightarrow> rat" where
  "compareTranscriptMessagesOldestFirst lc a b =
     (let bySeq = (case (normalizeTranscriptSeq (rowSeq a), normalizeTranscriptSeq (rowSeq b)) of
                     (Some x, Some y) \<Rightarrow> if x \<noteq> y then Some (of_int (x - y)) else block_difference a b
                   | _ \<Rightarrow> None)
      in case bySeq of Some d \<Rightarrow> d
         | None \<Rightarrow>
             if rowCreatedAt a \<noteq> rowCreatedAt b then rowCreatedAt a - rowCreatedAt b
             else (case block_difference a b of Some d \<Rightarrow> d | None \<Rightarrow> lc (rowId a) (rowId b)))"

definition compareIncomingTranscriptRowsOldestFirst :: "incoming_row \<Rightarrow> incoming_row \<Rightarrow> rat" where
  "compareIncomingTranscriptRowsOldestFirst a b =
     (let byIndex = of_nat (inputIndex a) - of_nat (inputIndex b);
          byTime = (case (normalizeTranscriptCreatedAt (inCreatedAt a), normalizeTranscriptCreatedAt (inCreatedAt b)) of
                      (Some s, Some t) \<Rightarrow> if s \<noteq> t then s - t else byIndex
                    | (Some _, None) \<Rightarrow> -1
                    | (None, Some _) \<Rightarrow> 1
                    | (None, None) \<Rightarrow> byIndex)
      in case (normalizeTranscriptSeq (inSeq a), normalizeTranscriptSeq (inSeq b)) of
           (Some x, Some y) \<Rightarrow> if x \<noteq> y then of_int (x - y) else byTime
         | (Some _, None) \<Rightarrow> -1
         | (None, Some _) \<Rightarrow> 1
         | (None, None) \<Rightarrow> byTime)"

definition hasTranscriptMessageOrderChanged :: "order_row \<Rightarrow> order_row \<Rightarrow> bool" where
  "hasTranscriptMessageOrderChanged prev nxt \<longleftrightarrow>
     rowCreatedAt prev \<noteq> rowCreatedAt nxt
     \<or> normalizeTranscriptSeq (rowSeq prev) \<noteq> normalizeTranscriptSeq (rowSeq nxt)
     \<or> normalizeTranscriptBlockIndex (rowBlock prev) \<noteq> normalizeTranscriptBlockIndex (rowBlock nxt)"

text \<open>The reducer's normalisation of a batch; the fields it reads of a message are arguments.\<close>

definition orderedIncomingMessages ::
  "('m \<Rightarrow> string) \<Rightarrow> ('m \<Rightarrow> jsnum option) \<Rightarrow> ('m \<Rightarrow> jsnum option) \<Rightarrow> 'm list \<Rightarrow> 'm list" where
  "orderedIncomingMessages mid mseq mtime messages =
     (if length messages \<le> 1 then messages
      else let indexed = map (\<lambda>(index, msg).
                 (\<lparr>inId = mid msg,
                   inSeq = map_option (\<lambda>n. Fin (of_int n)) (normalizeTranscriptSeq (mseq msg)),
                   inCreatedAt = mtime msg, inputIndex = index\<rparr>, msg)) (enumerate 0 messages)
           in map snd (js_sort (\<lambda>a b. compareIncomingTranscriptRowsOldestFirst (fst a) (fst b)) indexed))"

section \<open>Adding ids to the ordered list\<close>

definition compare_ids :: "(string \<Rightarrow> string \<Rightarrow> rat) \<Rightarrow> (string \<Rightarrow> order_row option) \<Rightarrow> string \<Rightarrow> string \<Rightarrow> rat" where
  "compare_ids lc messagesById aId bId =
     (if aId = bId then 0
      else case (messagesById aId, messagesById bId) of
             (None, None) \<Rightarrow> lc aId bId
           | (None, Some _) \<Rightarrow> -1
           | (Some _, None) \<Rightarrow> 1
           | (Some a, Some b) \<Rightarrow> compareTranscriptMessagesOldestFirst lc a b)"

text \<open>The loop over the two lists; \<open>out\<close> holds what was pushed, which is also what \<open>seen\<close> holds.\<close>

function merge_loop :: "('i \<Rightarrow> 'i \<Rightarrow> rat) \<Rightarrow> 'i list \<Rightarrow> 'i list \<Rightarrow> 'i list \<Rightarrow> 'i list" where
  "merge_loop cmp out [] [] = out"
| "merge_loop cmp out (a # as) [] = merge_loop cmp (oset_add a out) as []"
| "merge_loop cmp out [] (b # bs) = merge_loop cmp (oset_add b out) [] bs"
| "merge_loop cmp out (a # as) (b # bs) =
     (let nextId = (if cmp a b \<le> 0 then a else b)
      in merge_loop cmp (oset_add nextId out)
           (if nextId = a then as else a # as) (if nextId = b then bs else b # bs))"
  by pat_completeness auto
termination
  by (relation "measure (\<lambda>(cmp, out, as, bs). length as + length bs)") (auto simp: Let_def)

definition mergeSortedMessageIdsOldestFirst ::
  "(string \<Rightarrow> string \<Rightarrow> rat) \<Rightarrow> string list \<Rightarrow> string list \<Rightarrow> (string \<Rightarrow> order_row option) \<Rightarrow> string list" where
  "mergeSortedMessageIdsOldestFirst lc existing inserted messagesById =
     merge_loop (compare_ids lc messagesById) [] existing inserted"

text \<open>The fast path: \<open>None\<close> sends the caller to the merge. An empty id is falsy.\<close>

definition appendSortedMessageIdsOldestFirst ::
  "(string \<Rightarrow> string \<Rightarrow> rat) \<Rightarrow> string list \<Rightarrow> string list \<Rightarrow> (string \<Rightarrow> order_row option) \<Rightarrow> string list option" where
  "appendSortedMessageIdsOldestFirst lc existing inserted messagesById =
     (if inserted = [] then Some existing
      else if existing = [] then Some inserted
      else let lastExistingId = last existing; firstInsertId = hd inserted
           in if lastExistingId = [] \<or> firstInsertId = [] then None
              else case (messagesById lastExistingId, messagesById firstInsertId) of
                     (Some x, Some y) \<Rightarrow>
                       if compareTranscriptMessagesOldestFirst lc x y \<le> 0 then Some (existing @ inserted) else None
                   | _ \<Rightarrow> None)"

section \<open>Ordered lists and their merge\<close>

lemma set_merge_loop [simp]: "set (merge_loop cmp out xs ys) = set out \<union> set xs \<union> set ys"
  by (induction cmp out xs ys rule: merge_loop.induct) (auto simp: Let_def)

lemma distinct_merge_loop [simp]: "distinct (merge_loop cmp out xs ys) \<longleftrightarrow> distinct out"
  by (induction cmp out xs ys rule: merge_loop.induct) (simp_all add: Let_def)

lemma merge_loop_cong:
  "(\<And>a b. a \<in> set xs \<Longrightarrow> b \<in> set ys \<Longrightarrow> c a b = d a b) \<Longrightarrow> merge_loop c out xs ys = merge_loop d out xs ys"
proof (induction c out xs ys rule: merge_loop.induct)
  case (4 c out a as b bs)
  let ?n = "if c a b \<le> 0 then a else b"
  have "c a b = d a b" using "4.prems" by simp
  moreover have "merge_loop c (oset_add ?n out) (if ?n = a then as else a # as) (if ?n = b then bs else b # bs)
      = merge_loop d (oset_add ?n out) (if ?n = a then as else a # as) (if ?n = b then bs else b # bs)"
    by (rule "4.IH" [OF refl]) (auto intro: "4.prems" split: if_splits)
  ultimately show ?case by (simp add: Let_def)
qed simp_all

lemma js_sort_cong:
  "(\<And>a b. a \<in> set xs \<Longrightarrow> b \<in> set xs \<Longrightarrow> c a b = d a b) \<Longrightarrow> js_sort c xs = js_sort d xs"
proof (induction xs)
  case (Cons x xs)
  have "js_insert c x ys = js_insert d x ys" if "set ys \<subseteq> set xs" for ys
    using that Cons.prems by (induction ys) auto
  then show ?case using Cons by simp
qed simp

lemma mset_js_insert [simp]: "mset (js_insert cmp x ys) = add_mset x (mset ys)"
  by (induction ys) auto

lemma mset_js_sort [simp]: "mset (js_sort cmp xs) = mset xs"
  by (induction xs) auto

abbreviation ordered_by :: "('a \<Rightarrow> 'a \<Rightarrow> rat) \<Rightarrow> 'a list \<Rightarrow> bool" where
  "ordered_by cmp \<equiv> sorted_wrt (\<lambda>a b. cmp a b \<le> 0)"

lemma ordered_merge_loop:
  "comparator cmp \<Longrightarrow> ordered_by cmp out \<Longrightarrow> ordered_by cmp xs \<Longrightarrow> ordered_by cmp ys \<Longrightarrow>
   (\<forall>x\<in>set out. \<forall>y\<in>set xs \<union> set ys. cmp x y \<le> 0) \<Longrightarrow> ordered_by cmp (merge_loop cmp out xs ys)"
proof (induction cmp out xs ys rule: merge_loop.induct)
  case (4 cmp out a as b bs)
  define n where "n = (if cmp a b \<le> 0 then a else b)"
  have least: "cmp n y \<le> 0" if "y \<in> set (a # as) \<union> set (b # bs)" for y
  proof -
    note total = comparator.cmp_total [OF "4.prems"(1)] and refl = comparator.cmp_refl [OF "4.prems"(1)]
      and trans = comparator.cmp_trans [OF "4.prems"(1)]
    have "cmp n a \<le> 0" "cmp n b \<le> 0" using total [of a b] by (auto simp: n_def refl)
    moreover have "cmp a y \<le> 0 \<or> cmp b y \<le> 0"
      using that "4.prems"(3,4) refl [of a] refl [of b] by auto
    ultimately show ?thesis using trans [of n] by blast
  qed
  have "ordered_by cmp (merge_loop cmp (oset_add n out) (if n = a then as else a # as) (if n = b then bs else b # bs))"
  proof (rule "4.IH" [OF n_def "4.prems"(1)])
    show "ordered_by cmp (oset_add n out)"
      using "4.prems"(2,5) by (auto simp: oset_add_def sorted_wrt_append n_def)
    show "\<forall>x\<in>set (oset_add n out). \<forall>y\<in>set (if n = a then as else a # as) \<union> set (if n = b then bs else b # bs). cmp x y \<le> 0"
      using "4.prems"(5) least by (auto split: if_splits)
  qed (use "4.prems"(3,4) in auto)
  then show ?case by (simp add: n_def Let_def)
qed (auto simp: oset_add_def sorted_wrt_append)

lemma merge_loop_append:
  "comparator cmp \<Longrightarrow> ordered_by cmp xs \<Longrightarrow> ordered_by cmp ys \<Longrightarrow> distinct (out @ xs @ ys) \<Longrightarrow>
   (xs \<noteq> [] \<Longrightarrow> ys \<noteq> [] \<Longrightarrow> cmp (last xs) (hd ys) \<le> 0) \<Longrightarrow> merge_loop cmp out xs ys = out @ xs @ ys"
proof (induction cmp out xs ys rule: merge_loop.induct)
  case (4 cmp out a as b bs)
  have "cmp a (last (a # as)) \<le> 0"
    using "4.prems"(2) comparator.cmp_refl [OF "4.prems"(1)] by (cases "as = []") auto
  moreover have "cmp (last (a # as)) b \<le> 0" using "4.prems"(5) by simp
  ultimately have le: "cmp a b \<le> 0" by (rule comparator.cmp_trans [OF "4.prems"(1)])
  moreover have "a \<noteq> b" using "4.prems"(4) by auto
  moreover have "merge_loop cmp (oset_add a out) as (b # bs) = oset_add a out @ as @ b # bs"
    using "4.IH" [of a] le \<open>a \<noteq> b\<close> "4.prems" by (auto simp: oset_add_def split: if_splits)
  ultimately show ?case using "4.prems"(4) by (simp add: oset_add_def)
qed (auto simp: oset_add_def)

lemma ordered_unique:
  assumes "comparator cmp" and "ordered_by cmp xs" and "ordered_by cmp ys" and "mset xs = mset ys"
    and "\<And>x y. x \<in> set xs \<Longrightarrow> y \<in> set xs \<Longrightarrow> cmp x y = 0 \<Longrightarrow> x = y"
  shows "xs = ys"
  using assms(2-5)
proof (induction xs arbitrary: ys)
  case (Cons x xs)
  then obtain y ys' where ys: "ys = y # ys'" by (cases ys) auto
  have "y \<in> set (x # xs)" "x \<in> set ys"
    using Cons.prems(3) ys by (metis list.set_intros(1) set_mset_mset)+
  then have "cmp x y \<le> 0" "cmp y x \<le> 0"
    using Cons.prems(1,2) ys comparator.cmp_refl [OF assms(1)] by auto
  then have "cmp x y = 0" using comparator.cmp_anti [OF assms(1), of y x] by linarith
  then have "x = y" using Cons.prems(4) \<open>y \<in> set (x # xs)\<close> by auto
  moreover have "xs = ys'"
    using Cons.prems ys \<open>x = y\<close> by (intro Cons.IH) auto
  ultimately show ?case using ys by simp
qed simp

section \<open>The incoming order is a comparison\<close>

definition present_first :: "('a \<Rightarrow> 'a \<Rightarrow> rat) \<Rightarrow> 'a option \<Rightarrow> 'a option \<Rightarrow> rat" where
  "present_first c x y =
     (case (x, y) of (Some a, Some b) \<Rightarrow> c a b | (Some _, None) \<Rightarrow> -1 | (None, Some _) \<Rightarrow> 1 | (None, None) \<Rightarrow> 0)"

lemma comparator_present_first:
  assumes "comparator c"
  shows "comparator (present_first c)"
proof
  fix x y z
  show "0 < present_first c x y \<longleftrightarrow> present_first c y x < 0"
    using comparator.cmp_anti [OF assms] by (auto simp: present_first_def split: option.splits)
  show "present_first c x y \<le> 0 \<Longrightarrow> present_first c y z \<le> 0 \<Longrightarrow> present_first c x z \<le> 0"
    by (cases x; cases y; cases z) (auto simp: present_first_def intro: comparator.cmp_trans [OF assms])
qed

definition arrival_key :: "incoming_row \<Rightarrow> int option \<times> rat option" where
  "arrival_key r = (normalizeTranscriptSeq (inSeq r), normalizeTranscriptCreatedAt (inCreatedAt r))"

definition key_compare :: "int option \<times> rat option \<Rightarrow> int option \<times> rat option \<Rightarrow> rat" where
  "key_compare k l = cmp_or (present_first (\<lambda>x y. of_int x - of_int y) (fst k) (fst l))
     (present_first (-) (snd k) (snd l))"

lemma compare_incoming_alt:
  "compareIncomingTranscriptRowsOldestFirst a b =
     cmp_or (key_compare (arrival_key a) (arrival_key b)) (of_nat (inputIndex a) - of_nat (inputIndex b))"
  by (auto simp: compareIncomingTranscriptRowsOldestFirst_def key_compare_def arrival_key_def cmp_or_def
      present_first_def Let_def split: option.splits)

interpretation arrival: comparator key_compare
  unfolding key_compare_def
  by (intro comparator_or comparator_key [where f = fst] comparator_key [where f = snd]
      comparator_present_first comparator_key [where f = of_int, OF comparator_minus [where f = "\<lambda>x. x"], simplified])
     (unfold_locales, auto)

interpretation incoming: comparator compareIncomingTranscriptRowsOldestFirst
proof -
  have "comparator (\<lambda>a b. cmp_or (key_compare (arrival_key a) (arrival_key b))
          (of_nat (inputIndex a) - of_nat (inputIndex b)))"
    by (intro comparator_or comparator_key [where f = arrival_key] arrival.comparator_axioms comparator_minus)
  then show "comparator compareIncomingTranscriptRowsOldestFirst"
    by (simp add: compare_incoming_alt [abs_def])
qed

lemma key_compare_zero: "key_compare k l = 0 \<Longrightarrow> k = l"
  by (cases k; cases l) (auto simp: key_compare_def cmp_or_def present_first_def split: option.splits if_splits)

text \<open>What a batch is ordered by, for messages given by the three fields the reducer reads.\<close>

definition message_key :: "('m \<Rightarrow> jsnum option) \<Rightarrow> ('m \<Rightarrow> jsnum option) \<Rightarrow> 'm \<Rightarrow> int option \<times> rat option" where
  "message_key mseq mtime m = (normalizeTranscriptSeq (mseq m), normalizeTranscriptCreatedAt (mtime m))"

lemma normalize_again [simp]:
  "normalizeTranscriptSeq (map_option (\<lambda>n. Fin (of_int n)) (normalizeTranscriptSeq s)) = normalizeTranscriptSeq s"
  by (simp add: normalizeTranscriptSeq_def split: option.splits)

lemma mset_ordered_incoming [simp]: "mset (orderedIncomingMessages mid mseq mtime ms) = mset ms"
proof -
  have "mset (map snd (js_sort c (map (\<lambda>(i, m). (f i m, m)) (enumerate 0 ms)))) = mset ms" for c f
  proof -
    have "mset (map snd (js_sort c (map (\<lambda>(i, m). (f i m, m)) (enumerate 0 ms))))
        = mset (map snd (map (\<lambda>(i, m). (f i m, m)) (enumerate 0 ms)))"
      by (simp only: mset_map mset_js_sort)
    also have "map snd (map (\<lambda>(i, m). (f i m, m)) (enumerate 0 ms)) = ms"
      by (simp add: case_prod_beta comp_def)
    finally show ?thesis .
  qed
  then show ?thesis
    by (auto simp only: orderedIncomingMessages_def Let_def split: if_splits)
qed

lemma ordered_incoming_ordered:
  "ordered_by (\<lambda>a b. key_compare (message_key mseq mtime a) (message_key mseq mtime b))
     (orderedIncomingMessages mid mseq mtime ms)"
proof (cases "length ms \<le> 1")
  case True
  then show ?thesis
    by (cases ms rule: list.exhaust [case_product list.exhaust]) (auto simp: orderedIncomingMessages_def length_Suc_conv le_Suc_eq)
next
  case False
  let ?row = "\<lambda>(index, msg). (\<lparr>inId = mid msg, inSeq = map_option (\<lambda>n. Fin (of_int n)) (normalizeTranscriptSeq (mseq msg)),
                   inCreatedAt = mtime msg, inputIndex = index\<rparr>, msg)"
  let ?rows = "map ?row (enumerate 0 ms)"
  let ?c = "\<lambda>a b. compareIncomingTranscriptRowsOldestFirst (fst a) (fst b)"
  have "ordered_by ?c (js_sort ?c ?rows)"
    by (rule comparator.sorted_js_sort) (rule comparator_key [OF incoming.comparator_axioms])
  then have "sorted_wrt (\<lambda>a b. key_compare (message_key mseq mtime (snd a)) (message_key mseq mtime (snd b)) \<le> 0) (js_sort ?c ?rows)"
    by (rule sorted_wrt_mono_rel [rotated])
       (auto simp: compare_incoming_alt arrival_key_def message_key_def cmp_or_def split: if_splits)
  with False show ?thesis by (simp add: orderedIncomingMessages_def Let_def sorted_wrt_map)
qed

lemma enumerate_ordered: "sorted_wrt (\<lambda>a b. fst a < fst b) (enumerate n xs)"
  by (induction xs arbitrary: n) (auto dest!: in_set_enumerate_eq [THEN iffD1])

lemma sort_keeps_classes:
  assumes "comparator c" and "comparator d" and "ordered_by d rows"
    and "\<And>a b. a \<in> set rows \<Longrightarrow> b \<in> set rows \<Longrightarrow> P a \<Longrightarrow> P b \<Longrightarrow> c a b \<le> 0 \<Longrightarrow> d a b \<le> 0"
    and "\<And>a b. a \<in> set rows \<Longrightarrow> b \<in> set rows \<Longrightarrow> d a b = 0 \<Longrightarrow> a = b"
  shows "filter P (js_sort c rows) = filter P rows"
proof (rule ordered_unique [OF assms(2)])
  have "ordered_by c (filter P (js_sort c rows))"
    by (rule sorted_wrt_filter [OF comparator.sorted_js_sort [OF assms(1)]])
  then show "ordered_by d (filter P (js_sort c rows))"
    by (rule sorted_wrt_mono_rel [rotated]) (simp add: assms(4))
  show "ordered_by d (filter P rows)" by (rule sorted_wrt_filter [OF assms(3)])
  show "mset (filter P (js_sort c rows)) = mset (filter P rows)" by (simp only: mset_filter mset_js_sort)
qed (simp add: assms(5))

definition incoming_of :: "('m \<Rightarrow> string) \<Rightarrow> ('m \<Rightarrow> jsnum option) \<Rightarrow> ('m \<Rightarrow> jsnum option) \<Rightarrow> nat \<times> 'm \<Rightarrow> incoming_row \<times> 'm" where
  "incoming_of mid mseq mtime = (\<lambda>(index, msg).
     (\<lparr>inId = mid msg, inSeq = map_option (\<lambda>n. Fin (of_int n)) (normalizeTranscriptSeq (mseq msg)),
       inCreatedAt = mtime msg, inputIndex = index\<rparr>, msg))"

lemma incoming_of_fields [simp]:
  "inputIndex (fst (incoming_of mid mseq mtime p)) = fst p" "snd (incoming_of mid mseq mtime p) = snd p"
  "arrival_key (fst (incoming_of mid mseq mtime p)) = message_key mseq mtime (snd p)"
  by (simp_all add: incoming_of_def case_prod_beta arrival_key_def message_key_def)

lemma ordered_incoming_stable:
  "filter (\<lambda>m. message_key mseq mtime m = k) (orderedIncomingMessages mid mseq mtime ms)
     = filter (\<lambda>m. message_key mseq mtime m = k) ms"
proof (cases "length ms \<le> 1")
  case False
  let ?rows = "map (incoming_of mid mseq mtime) (enumerate 0 ms)"
  let ?c = "\<lambda>a b. compareIncomingTranscriptRowsOldestFirst (fst a) (fst b)"
  let ?i = "\<lambda>a b. rat_of_nat (inputIndex (fst a)) - rat_of_nat (inputIndex (fst b))"
  let ?P = "\<lambda>a. message_key mseq mtime (snd a) = k"
  have "filter ?P (js_sort ?c ?rows) = filter ?P ?rows"
  proof (rule sort_keeps_classes [where d = ?i])
    show "comparator ?c" by (rule comparator_key [OF incoming.comparator_axioms])
    show "comparator ?i" by (rule comparator_minus)
    have "sorted_wrt (\<lambda>a b. rat_of_nat (fst a) - rat_of_nat (fst b) \<le> 0) (enumerate 0 ms)"
      by (rule sorted_wrt_mono_rel [OF _ enumerate_ordered]) simp
    then show "ordered_by ?i ?rows" by (simp add: sorted_wrt_map)
  next
    fix a b
    assume rows: "a \<in> set ?rows" "b \<in> set ?rows" and P: "?P a" "?P b" and le: "?c a b \<le> 0"
    from rows obtain p q where "a = incoming_of mid mseq mtime p" "b = incoming_of mid mseq mtime q"
      unfolding set_map by blast
    then show "?i a b \<le> 0"
      using P le by (simp add: compare_incoming_alt arrival.cmp_refl cmp_or_def)
  next
    fix a b
    assume rows: "a \<in> set ?rows" "b \<in> set ?rows" and same: "?i a b = 0"
    from rows obtain p q where pq: "a = incoming_of mid mseq mtime p" "b = incoming_of mid mseq mtime q"
      "p \<in> set (enumerate 0 ms)" "q \<in> set (enumerate 0 ms)"
      unfolding set_map by blast
    then have "fst p = fst q" using same by simp
    then have "p = q" using pq(3,4) by (simp add: in_set_enumerate_eq prod_eq_iff)
    then show "a = b" using pq(1,2) by simp
  qed
  then have "map snd (filter ?P (js_sort ?c ?rows)) = map snd (filter ?P ?rows)" by (rule arg_cong)
  then have "filter (\<lambda>m. message_key mseq mtime m = k) (map snd (js_sort ?c ?rows))
      = filter (\<lambda>m. message_key mseq mtime m = k) (map snd ?rows)"
    by (simp only: filter_map comp_def)
  moreover have "map snd ?rows = ms" by (simp add: comp_def)
  moreover have "orderedIncomingMessages mid mseq mtime ms = map snd (js_sort ?c ?rows)"
    using False by (simp add: orderedIncomingMessages_def incoming_of_def)
  ultimately show ?thesis by simp
qed (simp add: orderedIncomingMessages_def)

lemma ordered_by_classes:
  assumes "comparator c" and zero: "\<And>a b. c a b = 0 \<Longrightarrow> a = b"
    and "ordered_by (\<lambda>a b. c (f a) (f b)) xs" and "ordered_by (\<lambda>a b. c (f a) (f b)) ys"
    and "\<And>k. filter (\<lambda>m. f m = k) xs = filter (\<lambda>m. f m = k) ys"
  shows "xs = ys"
  using assms(3-5)
proof (induction xs arbitrary: ys)
  case Nil
  have "y \<notin> set ys" for y
    using Nil.prems(3) [of "f y"] filter_empty_conv [of "\<lambda>m. f m = f y" ys] by auto
  then show ?case by (cases ys) auto
next
  case (Cons x xs)
  have "set (filter (\<lambda>m. f m = k) (x # xs)) = set (filter (\<lambda>m. f m = k) ys)" for k
    using Cons.prems(3) [of k] by (rule arg_cong)
  then have mem: "m \<in> set (x # xs) \<longleftrightarrow> m \<in> set ys" for m
    using set_filter [of "\<lambda>n. f n = f m"] by blast
  have "x \<in> set ys" by (rule mem [THEN iffD1]) simp
  then obtain y ys' where ys: "ys = y # ys'" "x \<in> set ys" by (cases ys) auto
  have "y \<in> set (x # xs)" by (rule mem [THEN iffD2]) (simp add: ys(1))
  then have "c (f x) (f y) \<le> 0" "c (f y) (f x) \<le> 0"
    using Cons.prems(1,2) ys comparator.cmp_refl [OF assms(1)] by auto
  then have "f x = f y" using comparator.cmp_anti [OF assms(1), of "f y" "f x"] zero by force
  then have "x = y" using Cons.prems(3) [of "f x"] ys(1) by simp
  moreover have "xs = ys'"
  proof (rule Cons.IH)
    fix k show "filter (\<lambda>m. f m = k) xs = filter (\<lambda>m. f m = k) ys'"
      using Cons.prems(3) [of k] ys(1) \<open>x = y\<close> by (simp split: if_splits)
  qed (use Cons.prems(1,2) ys(1) in auto)
  ultimately show ?case using ys(1) by simp
qed

text \<open>C39: Two batches are processed in the same order exactly when, for every pair of sequence number
  and creation time, they have the same messages with this pair in the same relative order: numbers and
  times decide first, and only messages that agree in both keep the order in which they came.\<close>

theorem batch_order_ignores_arrival:
  "orderedIncomingMessages mid mseq mtime ms = orderedIncomingMessages mid mseq mtime ms'
     \<longleftrightarrow> (\<forall>k. filter (\<lambda>m. message_key mseq mtime m = k) ms = filter (\<lambda>m. message_key mseq mtime m = k) ms')"
  (is "?same \<longleftrightarrow> ?classes")
proof
  show "?same \<Longrightarrow> ?classes" by (metis ordered_incoming_stable)
  assume classes: ?classes
  show ?same
    by (rule ordered_by_classes [OF arrival.comparator_axioms key_compare_zero ordered_incoming_ordered ordered_incoming_ordered])
       (simp_all only: ordered_incoming_stable classes)
qed

section \<open>The transcript order of the rows of a session\<close>

text \<open>
  The comparison of rows is total and antisymmetric, but it may run in a circle: rows with sequence
  numbers are compared by them, all others by time. The rows of a session are coherent when it does not.
\<close>

definition coherent :: "(string \<Rightarrow> string \<Rightarrow> rat) \<Rightarrow> (string \<Rightarrow> order_row option) \<Rightarrow> bool" where
  "coherent lc byId \<longleftrightarrow> (\<forall>x \<in> ran byId. \<forall>y \<in> ran byId. \<forall>z \<in> ran byId.
     compareTranscriptMessagesOldestFirst lc x y \<le> 0 \<longrightarrow> compareTranscriptMessagesOldestFirst lc y z \<le> 0 \<longrightarrow>
     compareTranscriptMessagesOldestFirst lc x z \<le> 0)"

lemma compare_anti:
  assumes "comparator lc"
  shows "0 < compareTranscriptMessagesOldestFirst lc a b \<longleftrightarrow> compareTranscriptMessagesOldestFirst lc b a < 0"
  using comparator.cmp_anti [OF assms, of "rowId a" "rowId b"]
  by (auto simp: compareTranscriptMessagesOldestFirst_def block_difference_def Let_def split: option.splits)

lemma compare_self:
  "comparator lc \<Longrightarrow> compareTranscriptMessagesOldestFirst lc a a = 0"
  using compare_anti [of lc a a] by force

lemma compare_unchanged:
  assumes "\<not> hasTranscriptMessageOrderChanged p n" and "rowId p = rowId n"
  shows "compareTranscriptMessagesOldestFirst lc n x = compareTranscriptMessagesOldestFirst lc p x"
    and "compareTranscriptMessagesOldestFirst lc x n = compareTranscriptMessagesOldestFirst lc x p"
proof -
  have same: "normalizeTranscriptSeq (rowSeq n) = normalizeTranscriptSeq (rowSeq p)" "rowCreatedAt n = rowCreatedAt p" "rowId n = rowId p"
    "block_difference n x = block_difference p x" "block_difference x n = block_difference x p"
    using assms by (simp_all add: block_difference_def hasTranscriptMessageOrderChanged_def)
  show "compareTranscriptMessagesOldestFirst lc n x = compareTranscriptMessagesOldestFirst lc p x"
    "compareTranscriptMessagesOldestFirst lc x n = compareTranscriptMessagesOldestFirst lc x p"
    unfolding compareTranscriptMessagesOldestFirst_def same by (rule refl)+
qed

text \<open>Ids are compared through the rows they name.\<close>

definition id_compare :: "(string \<Rightarrow> string \<Rightarrow> rat) \<Rightarrow> (string \<Rightarrow> order_row option) \<Rightarrow> string \<Rightarrow> string \<Rightarrow> rat" where
  "id_compare lc byId a b = present_first (compareTranscriptMessagesOldestFirst lc) (byId a) (byId b)"

lemma coherentD:
  "coherent lc byId \<Longrightarrow> byId i = Some x \<Longrightarrow> byId j = Some y \<Longrightarrow> byId k = Some z \<Longrightarrow>
   compareTranscriptMessagesOldestFirst lc x y \<le> 0 \<Longrightarrow> compareTranscriptMessagesOldestFirst lc y z \<le> 0 \<Longrightarrow>
   compareTranscriptMessagesOldestFirst lc x z \<le> 0"
  unfolding coherent_def by (meson ranI)

lemma id_comparator:
  assumes "comparator lc" and "coherent lc byId"
  shows "comparator (id_compare lc byId)"
proof
  fix x y z
  show "0 < id_compare lc byId x y \<longleftrightarrow> id_compare lc byId y x < 0"
    by (cases "byId x"; cases "byId y") (simp_all add: id_compare_def present_first_def compare_anti [OF assms(1)])
  show "id_compare lc byId x y \<le> 0 \<Longrightarrow> id_compare lc byId y z \<le> 0 \<Longrightarrow> id_compare lc byId x z \<le> 0"
    by (cases "byId x"; cases "byId y"; cases "byId z")
       (use coherentD [OF assms(2), of x _ y _ z] in \<open>simp_all add: id_compare_def present_first_def\<close>)
qed

text \<open>Rows with numbers are coherent when rows that share a number all have a block or all have none;
  rows of any kind are when their numbers follow their times.\<close>

lemma coherent_by:
  assumes "comparator c"
    and "\<And>x y. x \<in> ran byId \<Longrightarrow> y \<in> ran byId \<Longrightarrow> compareTranscriptMessagesOldestFirst lc x y \<le> 0 \<longleftrightarrow> c x y \<le> 0"
  shows "coherent lc byId"
proof -
  have "compareTranscriptMessagesOldestFirst lc x z \<le> 0"
    if "x \<in> ran byId" "y \<in> ran byId" "z \<in> ran byId"
      "compareTranscriptMessagesOldestFirst lc x y \<le> 0" "compareTranscriptMessagesOldestFirst lc y z \<le> 0" for x y z
    using that comparator.cmp_trans [OF assms(1), of x y z] by (simp add: assms(2))
  then show ?thesis unfolding coherent_def by blast
qed

definition row_number :: "order_row \<Rightarrow> int option" where
  "row_number r = normalizeTranscriptSeq (rowSeq r)"

definition row_block :: "order_row \<Rightarrow> int option" where
  "row_block r = normalizeTranscriptBlockIndex (rowBlock r)"

lemmas block_order = comparator_key [where f = row_block, OF comparator_present_first
    [OF comparator_minus [where f = rat_of_int]]]

lemma coherent_numbered:
  assumes "comparator lc" and "\<And>x. x \<in> ran byId \<Longrightarrow> row_number x \<noteq> None"
    and "\<And>x y. x \<in> ran byId \<Longrightarrow> y \<in> ran byId \<Longrightarrow> row_number x = row_number y \<Longrightarrow> row_block x = None \<longleftrightarrow> row_block y = None"
  shows "coherent lc byId"
proof (rule coherent_by)
  let ?c = "\<lambda>a b. cmp_or (rat_of_int (the (row_number a)) - rat_of_int (the (row_number b)))
      (cmp_or (present_first (\<lambda>x y. rat_of_int x - rat_of_int y) (row_block a) (row_block b))
        (cmp_or (rowCreatedAt a - rowCreatedAt b) (lc (rowId a) (rowId b))))"
  show "comparator ?c"
    by (intro comparator_or comparator_minus block_order comparator_key [where f = rowId, OF assms(1)])
  fix x y
  assume "x \<in> ran byId" "y \<in> ran byId"
  then obtain n m where "row_number x = Some n" "row_number y = Some m" "n = m \<longrightarrow> (row_block x = None \<longleftrightarrow> row_block y = None)"
    using assms(2) [of x] assms(2) [of y] assms(3) [of x y] by auto
  then have "compareTranscriptMessagesOldestFirst lc x y = ?c x y"
    by (auto simp: row_number_def row_block_def compareTranscriptMessagesOldestFirst_def block_difference_def
        present_first_def cmp_or_def Let_def split: option.splits)
  then show "compareTranscriptMessagesOldestFirst lc x y \<le> 0 \<longleftrightarrow> ?c x y \<le> 0" by simp
qed

definition by_time :: "(string \<Rightarrow> string \<Rightarrow> rat) \<Rightarrow> order_row \<Rightarrow> order_row \<Rightarrow> rat" where
  "by_time lc x y = (if rowCreatedAt x \<noteq> rowCreatedAt y then rowCreatedAt x - rowCreatedAt y
     else (case block_difference x y of Some d \<Rightarrow> d | None \<Rightarrow> lc (rowId x) (rowId y)))"

lemma compare_by_time:
  "row_number x = None \<or> row_number y = None \<Longrightarrow> compareTranscriptMessagesOldestFirst lc x y = by_time lc x y"
  "row_number x = Some n \<Longrightarrow> row_number y = Some m \<Longrightarrow> compareTranscriptMessagesOldestFirst lc x y
     = (if n \<noteq> m then of_int (n - m) else case block_difference x y of Some d \<Rightarrow> d | None \<Rightarrow> by_time lc x y)"
  unfolding compareTranscriptMessagesOldestFirst_def row_number_def by_time_def Let_def
  by (elim disjE; simp split: option.split) (simp split: option.split)

lemma coherent_clocks:
  assumes "comparator lc"
    and "\<And>x y n m. x \<in> ran byId \<Longrightarrow> y \<in> ran byId \<Longrightarrow> row_number x = Some n \<Longrightarrow> row_number y = Some m \<Longrightarrow>
      (n < m \<longrightarrow> rowCreatedAt x < rowCreatedAt y) \<and> (n = m \<longrightarrow> rowCreatedAt x = rowCreatedAt y)"
    and "\<And>x y. x \<in> ran byId \<Longrightarrow> y \<in> ran byId \<Longrightarrow> rowCreatedAt x = rowCreatedAt y \<Longrightarrow> row_block x = None \<longleftrightarrow> row_block y = None"
  shows "coherent lc byId"
proof (rule coherent_by)
  let ?c = "\<lambda>a b. cmp_or (rowCreatedAt a - rowCreatedAt b)
      (cmp_or (present_first (\<lambda>x y. rat_of_int x - rat_of_int y) (row_block a) (row_block b)) (lc (rowId a) (rowId b)))"
  show "comparator ?c"
    by (intro comparator_or comparator_minus block_order comparator_key [where f = rowId, OF assms(1)])
  fix x y
  assume xy: "x \<in> ran byId" "y \<in> ran byId"
  have time: "by_time lc x y = ?c x y"
    using assms(3) [OF xy]
    by (cases "row_block x"; cases "row_block y")
      (auto simp: by_time_def row_block_def block_difference_def present_first_def cmp_or_def)
  show "compareTranscriptMessagesOldestFirst lc x y \<le> 0 \<longleftrightarrow> ?c x y \<le> 0"
  proof (cases "row_number x = None \<or> row_number y = None")
    case True
    then show ?thesis by (simp only: compare_by_time(1) time)
  next
    case False
    then obtain n m where nm: "row_number x = Some n" "row_number y = Some m" by auto
    note order = assms(2) [OF xy nm] assms(2) [OF xy(2,1) nm(2,1)]
    show ?thesis
    proof (cases n m rule: linorder_cases)
      case equal
      then have "compareTranscriptMessagesOldestFirst lc x y = by_time lc x y"
        using order(1) by (simp add: compare_by_time(2) [OF nm] by_time_def split: option.split)
      then show ?thesis by (simp only: time)
    qed (use order in \<open>simp_all add: compare_by_time(2) [OF nm] cmp_or_def\<close>)
  qed
qed

lemma compare_ids_known:
  assumes "comparator lc" and "a \<in> dom byId" and "b \<in> dom byId"
  shows "compare_ids lc byId a b = id_compare lc byId a b"
  using assms(2,3) compare_self [OF assms(1)] by (auto simp: compare_ids_def id_compare_def present_first_def)

lemma merge_known:
  assumes "comparator lc" and "set xs \<subseteq> dom byId" and "set ys \<subseteq> dom byId"
  shows "mergeSortedMessageIdsOldestFirst lc xs ys byId = merge_loop (id_compare lc byId) [] xs ys"
  unfolding mergeSortedMessageIdsOldestFirst_def
  by (rule merge_loop_cong) (use assms in \<open>blast intro: compare_ids_known\<close>)

lemma ordered_merge_known:
  assumes "comparator lc" and "coherent lc byId" and "set xs \<subseteq> dom byId" and "set ys \<subseteq> dom byId"
    and "ordered_by (id_compare lc byId) xs" and "ordered_by (id_compare lc byId) ys"
  shows "ordered_by (id_compare lc byId) (mergeSortedMessageIdsOldestFirst lc xs ys byId)"
  unfolding merge_known [OF assms(1,3,4)]
  by (rule ordered_merge_loop [OF id_comparator [OF assms(1,2)]]) (use assms(5,6) in auto)

lemma append_known:
  assumes "comparator lc" and "coherent lc byId" and "set existing \<subseteq> dom byId" and "set inserted \<subseteq> dom byId"
    and "ordered_by (id_compare lc byId) existing" and "ordered_by (id_compare lc byId) inserted"
    and "distinct (existing @ inserted)"
    and "appendSortedMessageIdsOldestFirst lc existing inserted byId = Some ids"
  shows "ids = mergeSortedMessageIdsOldestFirst lc existing inserted byId"
proof -
  have le: "id_compare lc byId (last existing) (hd inserted) \<le> 0" if "existing \<noteq> []" "inserted \<noteq> []"
    using assms(8) that
    by (auto simp: appendSortedMessageIdsOldestFirst_def id_compare_def present_first_def Let_def split: if_splits option.splits)
  have "ids = existing @ inserted"
    using assms(8) by (auto simp: appendSortedMessageIdsOldestFirst_def Let_def split: if_splits option.splits)
  then show ?thesis
    using merge_loop_append [OF id_comparator [OF assms(1,2)] assms(5,6), of "[]"] assms(7) le
    by (simp add: merge_known [OF assms(1,3,4)])
qed

text \<open>The append fast path is the merge: whenever appending is allowed for two lists of known ids that
  are in transcript order and name no row twice, it gives the list the full merge gives, as long as the
  comparison does not run in a circle among the rows.\<close>

theorem append_is_the_merge:
  assumes "comparator lc" and "coherent lc byId" and "set existing \<subseteq> dom byId" and "set inserted \<subseteq> dom byId"
    and "ordered_by (id_compare lc byId) existing" and "ordered_by (id_compare lc byId) inserted"
    and "distinct (existing @ inserted)"
    and "appendSortedMessageIdsOldestFirst lc existing inserted byId = Some ids"
  shows "ids = mergeSortedMessageIdsOldestFirst lc existing inserted byId"
  by (rule append_known [OF assms])

theorem append_is_the_merge_witness:
  "(let row = (\<lambda>i n. order_row.make i (Some (Fin n)) 0 None);
        byId = [''a'' \<mapsto> row ''a'' 1, ''b'' \<mapsto> row ''b'' 2]
    in [''a'', ''b''] = mergeSortedMessageIdsOldestFirst code_unit_compare [''a''] [''b''] byId)"
  unfolding Let_def
  by (rule append_is_the_merge [OF code_units.comparator_axioms coherent_numbered [OF code_units.comparator_axioms]])
     (auto simp: order_row.defs row_number_def row_block_def appendSortedMessageIdsOldestFirst_def compareTranscriptMessagesOldestFirst_def
        normalizeTranscriptSeq_def normalizeTranscriptBlockIndex_def Let_def math_trunc_def ran_def split: if_splits)

section \<open>Rows without a number\<close>

text \<open>Among rows of which some have no sequence number (the placeholder of a permission
  request) the comparison may run in circles: the numbered rows follow their numbers, the placeholder
  is compared by time, and when clocks disagree with the numbers each of the three rows is older
  than the next. How the merge lists such rows depends on the order in which they arrived.\<close>

lemma transcript_order_is_cyclic:
  "(let first = order_row.make ''a'' (Some (Fin 1)) 30 (Some (Fin 0));
        second = order_row.make ''b'' (Some (Fin 2)) 10 (Some (Fin 0));
        placeholder = order_row.make ''p'' None 20 None;
        cmp = compareTranscriptMessagesOldestFirst lc;
        byId = [''a'' \<mapsto> first, ''b'' \<mapsto> second, ''p'' \<mapsto> placeholder];
        merge = (\<lambda>xs ys. mergeSortedMessageIdsOldestFirst lc xs ys byId)
    in cmp first second < 0 \<and> cmp second placeholder < 0 \<and> cmp placeholder first < 0
       \<and> merge (merge [''a''] [''b'']) [''p''] = [''p'', ''a'', ''b'']
       \<and> merge (merge [''b''] [''p'']) [''a''] = [''a'', ''b'', ''p''])"
  by (simp add: order_row.defs compareTranscriptMessagesOldestFirst_def normalizeTranscriptSeq_def
      normalizeTranscriptBlockIndex_def math_trunc_def mergeSortedMessageIdsOldestFirst_def compare_ids_def oset_add_def)

end
