(* ===== verification/SessionIndex.thy ===== *)
theory SessionIndex
  imports
    TranscriptOrder
begin

text \<open>
  The message index of a session in \<open>apps/ui/sources/sync/store/domains/messages.ts\<close>: how the
  messages a reducer call reports enter the map by id, the ordered id list, the revisions and the
  latest thinking message, in \<open>applyMessages\<close> and in \<open>applyAgentStateUpdateToSessionMessages\<close>,
  with the watermarks of ready events, the pending items a transcript row clears and the permission
  mode inferred from user rows.
\<close>

section \<open>Messages and the index\<close>

datatype message_kind = UserText | AgentText | ToolCallMessage | AgentEventMessage

record thread_message = order_row +
  kindOf :: message_kind
  isThinking :: bool
  messageText :: string
  localIdOf :: "string option"
  permissionModeOf :: "string option"

abbreviation row_of :: "thread_message \<Rightarrow> order_row" where
  "row_of m \<equiv> order_row.truncate m"

record session_messages =
  messageIdsOldestFirst :: "string list"
  messagesById :: "string \<Rightarrow> thread_message option"
  messageRevisionsById :: "string \<Rightarrow> nat"
  latestThinkingMessageId :: "string option"
  latestThinkingMessageActivityAtMs :: "rat option"
  latestReadySeq :: "int option"
  latestReadyAt :: "rat option"
  messagesVersion :: nat
  subagentSourceVersion :: nat

definition createEmptySessionMessages :: session_messages where
  "createEmptySessionMessages =
     \<lparr>messageIdsOldestFirst = [], messagesById = Map.empty, messageRevisionsById = (\<lambda>_. 0),
      latestThinkingMessageId = None, latestThinkingMessageActivityAtMs = None,
      latestReadySeq = None, latestReadyAt = None, messagesVersion = 0, subagentSourceVersion = 0\<rparr>"

text \<open>The variables of one pass over the processed messages.\<close>

record index_run =
  byId :: "string \<Rightarrow> thread_message option"
  revisions :: "string \<Rightarrow> nat"
  idsToRemove :: "string list"
  idsToInsert :: "string list"
  latestThinking :: "string option"
  recomputeThinking :: bool
  thinkingTextChange :: bool
  sourceChange :: bool

definition thinking_row :: "thread_message \<Rightarrow> bool" where
  "thinking_row m \<longleftrightarrow> kindOf m = AgentText \<and> isThinking m"

definition start_run :: "session_messages \<Rightarrow> index_run" where
  "start_run st = \<lparr>byId = messagesById st, revisions = messageRevisionsById st, idsToRemove = [], idsToInsert = [],
     latestThinking = latestThinkingMessageId st, recomputeThinking = False, thinkingTextChange = False, sourceChange = False\<rparr>"

text \<open>One processed message; \<open>src\<close> is \<open>shouldIncludeSubagentSourceMessage\<close>.\<close>

definition index_message ::
  "(string \<Rightarrow> string \<Rightarrow> rat) \<Rightarrow> (thread_message \<Rightarrow> bool) \<Rightarrow> index_run \<Rightarrow> thread_message \<Rightarrow> index_run" where
  "index_message lc src run m =
     (let i = rowId m; prev = byId run i;
          moved = (case prev of None \<Rightarrow> False | Some p \<Rightarrow> hasTranscriptMessageOrderChanged (row_of p) (row_of m));
          textChanged = (thinking_row m
            \<and> (case prev of None \<Rightarrow> True | Some p \<Rightarrow> kindOf p \<noteq> AgentText \<or> \<not> isThinking p \<or> messageText p \<noteq> messageText m));
          byId' = (byId run)(i \<mapsto> m);
          (latest', recompute') =
            (if thinking_row m then
               (case latestThinking run of None \<Rightarrow> (Some i, recomputeThinking run)
                | Some l \<Rightarrow>
                    (case byId' l of None \<Rightarrow> (Some i, recomputeThinking run)
                     | Some current \<Rightarrow>
                         (if compareTranscriptMessagesOldestFirst lc (row_of current) (row_of m) < 0 then Some i else Some l,
                          recomputeThinking run)))
             else if latestThinking run = Some i then (latestThinking run, True)
             else (latestThinking run, recomputeThinking run))
      in run\<lparr>byId := byId',
             revisions := (revisions run)(i := revisions run i + 1),
             idsToRemove := (if moved then oset_add i (idsToRemove run) else idsToRemove run),
             idsToInsert := (if prev = None \<or> moved then idsToInsert run @ [i] else idsToInsert run),
             latestThinking := latest', recomputeThinking := recompute',
             thinkingTextChange := (thinkingTextChange run \<or> textChanged),
             sourceChange := (sourceChange run \<or> src m \<or> (case prev of None \<Rightarrow> False | Some p \<Rightarrow> src p))\<rparr>)"

text \<open>The next ordered list; only \<open>applyMessages\<close> tries to append (\<open>fast\<close>).\<close>

definition nextMessageIds :: "bool \<Rightarrow> (string \<Rightarrow> string \<Rightarrow> rat) \<Rightarrow> string list \<Rightarrow> index_run \<Rightarrow> string list" where
  "nextMessageIds fast lc existingIds run =
     (if idsToInsert run = [] \<and> idsToRemove run = [] then existingIds
      else let rows = (\<lambda>i. map_option row_of (byId run i));
               filtered = filter (\<lambda>i. i \<notin> set (idsToRemove run)) existingIds;
               uniqueInsertIds = js_sort (\<lambda>a b. compareTranscriptMessagesOldestFirst lc (the (rows a)) (the (rows b)))
                                   (oset_of (idsToInsert run));
               appended = (if fast \<and> idsToRemove run = []
                           then appendSortedMessageIdsOldestFirst lc existingIds uniqueInsertIds rows else None)
           in case appended of Some ids \<Rightarrow> ids
              | None \<Rightarrow> mergeSortedMessageIdsOldestFirst lc filtered uniqueInsertIds rows)"

definition findLatestThinkingMessageId :: "string list \<Rightarrow> (string \<Rightarrow> thread_message option) \<Rightarrow> string option" where
  "findLatestThinkingMessageId ids messagesById' =
     (case List.find (\<lambda>i. case messagesById' i of None \<Rightarrow> False | Some m \<Rightarrow> thinking_row m) (rev ids) of
        None \<Rightarrow> None
      | Some i \<Rightarrow> map_option rowId (messagesById' i))"

text \<open>The watermark of ready events: the highest sequence number, with the time of its event.\<close>

definition next_ready :: "int option \<times> rat option \<Rightarrow> (int \<times> rat) option \<Rightarrow> int option \<times> rat option" where
  "next_ready existing event =
     (case event of None \<Rightarrow> existing
      | Some (s, time) \<Rightarrow>
          (let next = (case fst existing of None \<Rightarrow> s | Some e \<Rightarrow> max e s)
           in (Some next, if next = s then Some time else snd existing)))"

text \<open>
  The whole update: the processed messages, whether the input held a thinking block, the ready
  event the reducer reported and the clock.
\<close>

definition applyProcessedMessages ::
  "bool \<Rightarrow> (string \<Rightarrow> string \<Rightarrow> rat) \<Rightarrow> (thread_message \<Rightarrow> bool) \<Rightarrow> rat \<Rightarrow> bool \<Rightarrow> (int \<times> rat) option \<Rightarrow>
   session_messages \<Rightarrow> thread_message list \<Rightarrow> session_messages" where
  "applyProcessedMessages fast lc src now sawThinking ready st ms =
     (let run = foldl (index_message lc src) (start_run st) ms;
          ids = nextMessageIds fast lc (messageIdsOldestFirst st) run;
          latest = (if recomputeThinking run then findLatestThinkingMessageId ids (byId run) else latestThinking run);
          activity = (if latest = None then None
                      else if sawThinking \<or> thinkingTextChange run then Some now
                      else latestThinkingMessageActivityAtMs st);
          (readySeq, readyAt) = next_ready (latestReadySeq st, latestReadyAt st) ready
      in st\<lparr>messageIdsOldestFirst := ids, messagesById := byId run, messageRevisionsById := revisions run,
            latestThinkingMessageId := latest, latestThinkingMessageActivityAtMs := activity,
            latestReadySeq := readySeq, latestReadyAt := readyAt,
            messagesVersion := messagesVersion st + (if ms = [] then 0 else 1),
            subagentSourceVersion := subagentSourceVersion st + (if sourceChange run then 1 else 0)\<rparr>)"

text \<open>\<open>applyMessages\<close> appends when it can; the agent-state update has no ready event and no input rows.\<close>

definition applyMessages_index ::
  "(string \<Rightarrow> string \<Rightarrow> rat) \<Rightarrow> (thread_message \<Rightarrow> bool) \<Rightarrow> rat \<Rightarrow> bool \<Rightarrow> (int \<times> rat) option \<Rightarrow>
   session_messages \<Rightarrow> thread_message list \<Rightarrow> session_messages" where
  "applyMessages_index = applyProcessedMessages True"

definition applyAgentStateUpdateToSessionMessages ::
  "(string \<Rightarrow> string \<Rightarrow> rat) \<Rightarrow> (thread_message \<Rightarrow> bool) \<Rightarrow> rat \<Rightarrow> session_messages \<Rightarrow> thread_message list \<Rightarrow> session_messages" where
  "applyAgentStateUpdateToSessionMessages lc src now st ms = applyProcessedMessages False lc src now False None st ms"

text \<open>\<open>applyMessagesLoaded\<close>: a session seen for the first time starts with the rows of its agent
  state; \<open>Object.vals\<close> lists the rows by first insertion.\<close>

definition first_load :: "(string \<Rightarrow> string \<Rightarrow> rat) \<Rightarrow> (thread_message \<Rightarrow> bool) \<Rightarrow> rat \<Rightarrow> thread_message list \<Rightarrow> session_messages" where
  "first_load lc src now ms =
     (let byId' = foldl (\<lambda>acc m. acc(rowId m \<mapsto> m)) Map.empty ms;
          vals = map (\<lambda>i. the (byId' i)) (oset_of (map rowId ms));
          ids = map rowId (js_sort (\<lambda>a b. compareTranscriptMessagesOldestFirst lc (row_of a) (row_of b)) vals);
          latest = findLatestThinkingMessageId ids byId'
      in createEmptySessionMessages\<lparr>messageIdsOldestFirst := ids, messagesById := byId',
           messageRevisionsById := (\<lambda>i. if byId' i = None then 0 else 1),
           latestThinkingMessageId := latest,
           latestThinkingMessageActivityAtMs := (if latest = None then None else Some now),
           messagesVersion := (if ms = [] then 0 else 1),
           subagentSourceVersion := (if list_ex src ms then 1 else 0)\<rparr>)"

definition applyMessagesLoaded ::
  "(string \<Rightarrow> string \<Rightarrow> rat) \<Rightarrow> (thread_message \<Rightarrow> bool) \<Rightarrow> rat \<Rightarrow> thread_message list \<Rightarrow>
   session_messages option \<Rightarrow> session_messages option" where
  "applyMessagesLoaded lc src now agentMessages existing =
     (case existing of Some st \<Rightarrow> Some st | None \<Rightarrow> Some (first_load lc src now agentMessages))"

definition resetSessionMessages :: "session_messages option \<Rightarrow> session_messages option" where
  "resetSessionMessages existing = map_option (\<lambda>_. createEmptySessionMessages) existing"

section \<open>What the changed rows tell the session\<close>

text \<open>\<open>parse\<close> is \<open>parsePermissionIntentAlias\<close>. The first of the newest user rows with a known mode.\<close>

definition infer_mode_step :: "(string \<Rightarrow> 'mode option) \<Rightarrow> ('mode \<times> rat) option \<Rightarrow> thread_message \<Rightarrow> ('mode \<times> rat) option" where
  "infer_mode_step parse best m =
     (if kindOf m \<noteq> UserText then best
      else case permissionModeOf m of
             None \<Rightarrow> best
           | Some s \<Rightarrow>
               if s = [] then best
               else (case parse s of None \<Rightarrow> best
                     | Some mode \<Rightarrow>
                         (case best of None \<Rightarrow> Some (mode, rowCreatedAt m)
                          | Some (_, t) \<Rightarrow> if t < rowCreatedAt m then Some (mode, rowCreatedAt m) else best)))"

definition inferLatestUserPermissionModeFromChangedMessages ::
  "(string \<Rightarrow> 'mode option) \<Rightarrow> thread_message list \<Rightarrow> ('mode \<times> rat) option" where
  "inferLatestUserPermissionModeFromChangedMessages parse ms = foldl (infer_mode_step parse) None ms"

definition deriveLatestCommittedMessageSeq :: "thread_message list \<Rightarrow> int option" where
  "deriveLatestCommittedMessageSeq ms =
     foldl (\<lambda>latest m. case normalizeTranscriptSeq (rowSeq m) of None \<Rightarrow> latest
              | Some s \<Rightarrow> Some (case latest of None \<Rightarrow> s | Some l \<Rightarrow> max l s)) None ms"

text \<open>Server-pending items leave once a user row with their local id is in the transcript.\<close>

definition clear_pending :: "('p \<Rightarrow> string option) \<Rightarrow> thread_message list \<Rightarrow> 'p list \<Rightarrow> 'p list" where
  "clear_pending localId ms pending =
     (let localIdsToClear = oset_of (concat (map (\<lambda>m. case localIdOf m of
              Some l \<Rightarrow> if kindOf m = UserText \<and> l \<noteq> [] then [l] else [] | None \<Rightarrow> []) ms))
      in if localIdsToClear = [] then pending
         else filter (\<lambda>p. case localId p of None \<Rightarrow> True | Some l \<Rightarrow> l = [] \<or> l \<notin> set localIdsToClear) pending)"

section \<open>The index is ordered\<close>

definition rows_by_id :: "(string \<Rightarrow> thread_message option) \<Rightarrow> string \<Rightarrow> order_row option" where
  "rows_by_id m i = map_option row_of (m i)"

definition keyed :: "(string \<Rightarrow> thread_message option) \<Rightarrow> bool" where
  "keyed m \<longleftrightarrow> (\<forall>i x. m i = Some x \<longrightarrow> rowId x = i)"

definition index_ok :: "(string \<Rightarrow> string \<Rightarrow> rat) \<Rightarrow> session_messages \<Rightarrow> bool" where
  "index_ok lc st \<longleftrightarrow>
     keyed (messagesById st)
     \<and> distinct (messageIdsOldestFirst st)
     \<and> set (messageIdsOldestFirst st) = dom (messagesById st)
     \<and> ordered_by (id_compare lc (rows_by_id (messagesById st))) (messageIdsOldestFirst st)"

text \<open>What holds of a pass that started from the map \<open>m0\<close>.\<close>

definition same_place :: "thread_message option \<Rightarrow> thread_message option \<Rightarrow> bool" where
  "same_place p n \<longleftrightarrow> (\<exists>x y. p = Some x \<and> n = Some y \<and> \<not> hasTranscriptMessageOrderChanged (row_of x) (row_of y))"

definition run_ok :: "(string \<Rightarrow> thread_message option) \<Rightarrow> index_run \<Rightarrow> bool" where
  "run_ok m0 run \<longleftrightarrow>
     keyed (byId run)
     \<and> dom (byId run) = dom m0 \<union> set (idsToInsert run)
     \<and> set (idsToRemove run) \<subseteq> set (idsToInsert run)
     \<and> set (idsToInsert run) \<inter> dom m0 \<subseteq> set (idsToRemove run)
     \<and> (\<forall>i\<in>dom m0 - set (idsToRemove run). same_place (m0 i) (byId run i))"

lemma same_place_refl: "x \<noteq> None \<Longrightarrow> same_place x x"
  by (auto simp: same_place_def hasTranscriptMessageOrderChanged_def)

lemma same_place_trans: "same_place x y \<Longrightarrow> same_place y z \<Longrightarrow> same_place x z"
  by (auto simp: same_place_def hasTranscriptMessageOrderChanged_def)

lemma row_of_fields [simp]:
  "rowId (row_of m) = rowId m" "rowSeq (row_of m) = rowSeq m"
  "rowCreatedAt (row_of m) = rowCreatedAt m" "rowBlock (row_of m) = rowBlock m"
  by (simp_all add: order_row.defs)

lemma index_message_fields:
  "byId (index_message lc src run m) = (byId run)(rowId m \<mapsto> m)"
  "idsToInsert (index_message lc src run m) =
     (if same_place (byId run (rowId m)) (Some m) then idsToInsert run else idsToInsert run @ [rowId m])"
  "set (idsToRemove (index_message lc src run m)) =
     (if byId run (rowId m) = None \<or> same_place (byId run (rowId m)) (Some m) then set (idsToRemove run)
      else insert (rowId m) (set (idsToRemove run)))"
  by (auto simp: index_message_def Let_def same_place_def split: option.splits prod.splits)

lemma run_ok_start: "keyed (messagesById st) \<Longrightarrow> run_ok (messagesById st) (start_run st)"
  by (auto simp: run_ok_def start_run_def intro: same_place_refl)

lemma run_ok_index_message:
  assumes "run_ok m0 run"
  shows "run_ok m0 (index_message lc src run m)"
proof -
  let ?i = "rowId m"
  have "same_place (m0 j) (((byId run)(?i \<mapsto> m)) j)"
    if "j \<in> dom m0" "j \<notin> set (idsToRemove (index_message lc src run m))" for j
  proof (cases "j = ?i")
    case True
    have "?i \<in> dom (byId run)" using assms that True by (auto simp: run_ok_def)
    then have "same_place (byId run ?i) (Some m)" "j \<notin> set (idsToRemove run)"
      using that(2) True by (auto simp: index_message_fields split: if_splits)
    then show ?thesis using assms that True by (auto simp: run_ok_def intro: same_place_trans)
  next
    case False
    then show ?thesis using assms that by (auto simp: run_ok_def index_message_fields split: if_splits)
  qed
  moreover have "?i \<in> dom (byId run)" if "same_place (byId run ?i) (Some m)"
    using that by (auto simp: same_place_def)
  moreover have "byId run ?i \<noteq> None" if "m0 ?i \<noteq> None"
    using that assms by (auto simp: run_ok_def)
  ultimately show ?thesis
    using assms by (auto simp: run_ok_def index_message_fields keyed_def split: if_splits)
qed

lemma run_ok_fold: "run_ok m0 run \<Longrightarrow> run_ok m0 (foldl (index_message lc src) run ms)"
  by (induction ms arbitrary: run) (auto intro: run_ok_index_message)

lemma rows_by_id_Some [simp]: "m i = Some x \<Longrightarrow> rows_by_id m i = Some (row_of x)"
  by (simp add: rows_by_id_def)

lemma dom_rows_by_id [simp]: "dom (rows_by_id m) = dom m"
  by (auto simp: rows_by_id_def)

lemma id_compare_same_place:
  assumes "same_place (m i) (n i)" and "same_place (m j) (n j)" and "keyed m" and "keyed n"
  shows "id_compare lc (rows_by_id n) i j = id_compare lc (rows_by_id m) i j"
proof -
  obtain x x' y y' where xy: "m i = Some x" "n i = Some x'" "m j = Some y" "n j = Some y'"
    and still: "\<not> hasTranscriptMessageOrderChanged (row_of x) (row_of x')" "\<not> hasTranscriptMessageOrderChanged (row_of y) (row_of y')"
    using assms(1,2) by (auto simp: same_place_def)
  have "rowId x = rowId x'" "rowId y = rowId y'" using xy assms(3,4) by (auto simp: keyed_def)
  then show ?thesis
    using xy compare_unchanged(1) [OF still(1), of lc "row_of y'"] compare_unchanged(2) [OF still(2), of lc "row_of x"]
    by (simp add: id_compare_def present_first_def)
qed

text \<open>The rows of a session are coherent when the comparison runs in no circle among them.\<close>

abbreviation coherent_rows :: "(string \<Rightarrow> string \<Rightarrow> rat) \<Rightarrow> (string \<Rightarrow> thread_message option) \<Rightarrow> bool" where
  "coherent_rows lc m \<equiv> coherent lc (rows_by_id m)"

lemma id_compare_known:
  "byId' i = Some x \<Longrightarrow> byId' j = Some y \<Longrightarrow> id_compare lc byId' i j = compareTranscriptMessagesOldestFirst lc x y"
  by (simp add: id_compare_def present_first_def)

lemma coherent_idsD:
  assumes "coherent lc b" and "i \<in> dom b" "j \<in> dom b" "k \<in> dom b"
    and "id_compare lc b i j \<le> 0" "id_compare lc b j k \<le> 0"
  shows "id_compare lc b i k \<le> 0"
  using assms(2-6) coherentD [OF assms(1), of i _ j _ k] by (auto simp: id_compare_known)

lemma coherent_idsI:
  assumes "\<And>i j k. i \<in> dom b \<Longrightarrow> j \<in> dom b \<Longrightarrow> k \<in> dom b \<Longrightarrow>
      id_compare lc b i j \<le> 0 \<Longrightarrow> id_compare lc b j k \<le> 0 \<Longrightarrow> id_compare lc b i k \<le> 0"
  shows "coherent lc b"
  unfolding coherent_def
proof (intro ballI impI)
  fix x y z
  assume "x \<in> ran b" "y \<in> ran b" "z \<in> ran b"
    and le: "compareTranscriptMessagesOldestFirst lc x y \<le> 0" "compareTranscriptMessagesOldestFirst lc y z \<le> 0"
  then obtain i j k where ijk: "b i = Some x" "b j = Some y" "b k = Some z" by (auto simp: ran_def)
  then show "compareTranscriptMessagesOldestFirst lc x z \<le> 0"
    using le assms [of i j k] by (simp add: id_compare_known domI)
qed

lemma coherent_same_place:
  assumes "coherent_rows lc n" and "\<And>i. i \<in> dom m \<Longrightarrow> same_place (m i) (n i)" and "keyed m" and "keyed n"
  shows "coherent_rows lc m"
proof (rule coherent_idsI)
  fix i j k
  assume "i \<in> dom (rows_by_id m)" "j \<in> dom (rows_by_id m)" "k \<in> dom (rows_by_id m)"
    and le: "id_compare lc (rows_by_id m) i j \<le> 0" "id_compare lc (rows_by_id m) j k \<le> 0"
  then have place: "same_place (m i) (n i)" "same_place (m j) (n j)" "same_place (m k) (n k)"
    using assms(2) by auto
  then have "i \<in> dom (rows_by_id n)" "j \<in> dom (rows_by_id n)" "k \<in> dom (rows_by_id n)"
    by (auto simp: same_place_def)
  moreover note same = id_compare_same_place [OF _ _ assms(3,4)]
  ultimately show "id_compare lc (rows_by_id m) i k \<le> 0"
    using le coherent_idsD [OF assms(1), of i j k] same [OF place(1,2)] same [OF place(2,3)] same [OF place(1,3)] by simp
qed

lemma index_ok_next_ids:
  fixes fast :: bool
  assumes "comparator lc" and "index_ok lc st" and "run_ok (messagesById st) run" and "coherent_rows lc (byId run)"
  defines "ids \<equiv> nextMessageIds fast lc (messageIdsOldestFirst st) run"
  shows "distinct ids \<and> set ids = dom (byId run) \<and> ordered_by (id_compare lc (rows_by_id (byId run))) ids"
proof -
  let ?old = "messageIdsOldestFirst st" and ?rows = "rows_by_id (byId run)"
  define kept where "kept = filter (\<lambda>i. i \<notin> set (idsToRemove run)) ?old"
  define fresh where "fresh = js_sort (\<lambda>a b. compareTranscriptMessagesOldestFirst lc (the (?rows a)) (the (?rows b)))
                                   (oset_of (idsToInsert run))"
  note st = assms(2) [unfolded index_ok_def] and run = assms(3) [unfolded run_ok_def]
  have kept: "ordered_by (id_compare lc ?rows) kept" "distinct kept" "set kept = dom (messagesById st) - set (idsToRemove run)"
  proof -
    have "ordered_by (id_compare lc (rows_by_id (messagesById st))) kept"
      using st by (simp add: kept_def sorted_wrt_filter)
    then show "ordered_by (id_compare lc ?rows) kept"
      by (rule sorted_wrt_mono_rel [rotated])
         (use st run in \<open>simp add: kept_def id_compare_same_place [of "messagesById st" _ "byId run"]\<close>)
  qed (use st in \<open>auto simp: kept_def\<close>)
  have known: "set kept \<subseteq> dom ?rows" "set fresh \<subseteq> dom ?rows"
    using st run by (auto simp: kept(3) fresh_def)
  have fresh: "ordered_by (id_compare lc ?rows) fresh" "distinct fresh" "set fresh = set (idsToInsert run)"
  proof -
    have "fresh = js_sort (id_compare lc ?rows) (oset_of (idsToInsert run))"
      unfolding fresh_def
    proof (rule js_sort_cong)
      fix a b
      assume "a \<in> set (oset_of (idsToInsert run))" "b \<in> set (oset_of (idsToInsert run))"
      then have "a \<in> set fresh" "b \<in> set fresh" by (simp_all add: fresh_def)
      then have "a \<in> dom ?rows" "b \<in> dom ?rows" using known(2) by blast+
      then show "compareTranscriptMessagesOldestFirst lc (the (?rows a)) (the (?rows b)) = id_compare lc ?rows a b"
        by (auto simp: id_compare_def present_first_def simp del: dom_rows_by_id)
    qed
    then show "ordered_by (id_compare lc ?rows) fresh"
      by (simp add: comparator.sorted_js_sort [OF id_comparator [OF assms(1,4)]])
  qed (simp_all add: fresh_def distinct_map_js_sort [where f = "\<lambda>x. x", simplified])
  define merged where "merged = mergeSortedMessageIdsOldestFirst lc kept fresh ?rows"
  have merged: "distinct merged" "set merged = dom (byId run)" "ordered_by (id_compare lc ?rows) merged"
    using run kept(3) fresh(3) ordered_merge_known [OF assms(1,4) known kept(1) fresh(1)]
    by (auto simp: merged_def mergeSortedMessageIdsOldestFirst_def)
  have unchanged: "kept = ?old" "set kept = dom (byId run)" if "idsToInsert run = []" "idsToRemove run = []"
    using that kept(3) run by (auto simp: kept_def)
  have appended: "appendSortedMessageIdsOldestFirst lc ?old fresh ?rows = Some js \<Longrightarrow> js = merged" if "idsToRemove run = []" for js
  proof -
    assume "appendSortedMessageIdsOldestFirst lc ?old fresh ?rows = Some js"
    moreover have "kept = ?old" using that by (simp add: kept_def)
    moreover have "distinct (kept @ fresh)" using run kept(2,3) fresh(2,3) by auto
    ultimately show "js = merged"
      using append_known [OF assms(1,4) known kept(1) fresh(1)] by (simp add: merged_def)
  qed
  have rows: "(\<lambda>i. map_option row_of (byId run i)) = ?rows" by (simp add: rows_by_id_def fun_eq_iff)
  have "ids = (if idsToInsert run = [] \<and> idsToRemove run = [] then ?old else merged)"
    using appended unfolding ids_def nextMessageIds_def Let_def rows fresh_def [symmetric] kept_def [symmetric]
    by (auto simp: merged_def split: option.splits)
  then show ?thesis using merged unchanged kept by (auto simp: st)
qed

abbreviation pass :: "(string \<Rightarrow> string \<Rightarrow> rat) \<Rightarrow> (thread_message \<Rightarrow> bool) \<Rightarrow> session_messages \<Rightarrow> thread_message list \<Rightarrow> index_run" where
  "pass lc src st ms \<equiv> foldl (index_message lc src) (start_run st) ms"

lemma applied_fields:
  "messagesById (applyProcessedMessages fast lc src now saw ready st ms) = byId (pass lc src st ms)"
  "messageIdsOldestFirst (applyProcessedMessages fast lc src now saw ready st ms)
     = nextMessageIds fast lc (messageIdsOldestFirst st) (pass lc src st ms)"
  "latestThinkingMessageId (applyProcessedMessages fast lc src now saw ready st ms) =
     (if recomputeThinking (pass lc src st ms)
      then findLatestThinkingMessageId (nextMessageIds fast lc (messageIdsOldestFirst st) (pass lc src st ms)) (byId (pass lc src st ms))
      else latestThinking (pass lc src st ms))"
  by (simp_all add: applyProcessedMessages_def Let_def split: prod.splits)

lemma index_ok_apply:
  assumes "comparator lc" and "index_ok lc st"
    and "coherent_rows lc (messagesById (applyProcessedMessages fast lc src now saw ready st ms))"
  shows "index_ok lc (applyProcessedMessages fast lc src now saw ready st ms)"
proof -
  have run: "run_ok (messagesById st) (pass lc src st ms)"
    using assms(2) by (intro run_ok_fold run_ok_start) (auto simp: index_ok_def)
  then have "keyed (byId (pass lc src st ms))" by (simp add: run_ok_def)
  then show ?thesis
    using index_ok_next_ids [OF assms(1,2) run, of fast] assms(3) by (simp add: index_ok_def applied_fields)
qed

lemma index_ok_empty: "index_ok lc createEmptySessionMessages"
  by (simp add: index_ok_def createEmptySessionMessages_def keyed_def)

lemma first_rows: "foldl (\<lambda>acc m. acc(rowId m \<mapsto> m)) m0 ms i = Some x \<Longrightarrow> m0 i = Some x \<or> (x \<in> set ms \<and> rowId x = i)"
  by (induction ms arbitrary: m0) (fastforce split: if_splits)+

lemma first_rows_dom: "dom (foldl (\<lambda>acc m. acc(rowId m \<mapsto> m)) m0 ms) = dom m0 \<union> rowId ` set ms"
  by (induction ms arbitrary: m0) auto

lemma index_ok_first_load:
  assumes lc: "comparator lc" and coh: "coherent_rows lc (messagesById (first_load lc src now ms))"
  shows "index_ok lc (first_load lc src now ms)"
proof -
  define m where "m = foldl (\<lambda>acc m. acc(rowId m \<mapsto> m)) Map.empty ms"
  define vals where "vals = map (\<lambda>i. the (m i)) (oset_of (map rowId ms))"
  define rows where "rows = js_sort (\<lambda>a b. compareTranscriptMessagesOldestFirst lc (row_of a) (row_of b)) vals"
  have coherent: "coherent_rows lc m" using coh by (simp add: first_load_def Let_def m_def)
  have keyed: "keyed m"
    using first_rows [of Map.empty ms] by (fastforce simp: keyed_def m_def)
  have dom_m: "dom m = rowId ` set ms" by (simp add: m_def first_rows_dom)
  have good: "m (rowId v) = Some v" if "v \<in> set vals" for v
  proof -
    obtain i where "i \<in> dom m" "v = the (m i)" using \<open>v \<in> set vals\<close> by (auto simp: vals_def dom_m)
    then obtain x where "m i = Some x" "v = x" by auto
    with keyed show ?thesis by (auto simp: keyed_def)
  qed
  have ids: "map rowId vals = oset_of (map rowId ms)"
    unfolding vals_def map_map
  proof (rule map_idI)
    fix i
    assume "i \<in> set (oset_of (map rowId ms))"
    then have "i \<in> dom m" by (simp add: dom_m)
    with keyed show "(rowId \<circ> (\<lambda>i. the (m i))) i = i" by (auto simp: keyed_def)
  qed
  have "distinct (map rowId rows)" by (simp only: rows_def distinct_map_js_sort ids distinct_oset_adds distinct.simps)
  moreover have "set (map rowId rows) = dom m"
    using arg_cong [OF ids, of set] by (simp add: rows_def dom_m)
  moreover have "ordered_by (id_compare lc (rows_by_id m)) (map rowId rows)"
  proof -
    have "rows = js_sort (\<lambda>a b. id_compare lc (rows_by_id m) (rowId a) (rowId b)) vals"
      unfolding rows_def by (rule js_sort_cong) (simp add: good id_compare_known)
    then show ?thesis
      by (simp only: sorted_wrt_map comparator.sorted_js_sort [OF comparator_key [OF id_comparator [OF lc coherent], where f = rowId]])
  qed
  ultimately show ?thesis
    using keyed unfolding index_ok_def first_load_def Let_def m_def [symmetric] vals_def [symmetric] rows_def [symmetric]
    by simp
qed

text \<open>The updates of a session's transcript, in the order the store makes them.\<close>

datatype index_update =
    MessagesApplied bool "(int \<times> rat) option" rat "thread_message list"
  | AgentStateApplied rat "thread_message list"
  | MessagesLoaded rat "thread_message list"
  | MessagesReset

fun apply_update ::
  "(string \<Rightarrow> string \<Rightarrow> rat) \<Rightarrow> (thread_message \<Rightarrow> bool) \<Rightarrow> session_messages option \<Rightarrow> index_update \<Rightarrow> session_messages option" where
  "apply_update lc src st (MessagesApplied saw ready now ms) =
     Some (applyMessages_index lc src now saw ready (some_or createEmptySessionMessages st) ms)"
| "apply_update lc src st (AgentStateApplied now ms) =
     map_option (\<lambda>s. applyAgentStateUpdateToSessionMessages lc src now s ms) st"
| "apply_update lc src st (MessagesLoaded now ms) = applyMessagesLoaded lc src now ms st"
| "apply_update lc src st MessagesReset = resetSessionMessages st"

text \<open>What is asked of the updates: after each of them the comparison runs in no circle among the rows.\<close>

definition stays_coherent ::
  "(string \<Rightarrow> string \<Rightarrow> rat) \<Rightarrow> (thread_message \<Rightarrow> bool) \<Rightarrow> index_update list \<Rightarrow> bool" where
  "stays_coherent lc src us \<longleftrightarrow> (\<forall>n \<le> length us.
     case foldl (apply_update lc src) None (take n us) of None \<Rightarrow> True | Some s \<Rightarrow> coherent_rows lc (messagesById s))"

lemma stays_coherent_snoc:
  "stays_coherent lc src (us @ [u]) \<longleftrightarrow> stays_coherent lc src us
     \<and> (case apply_update lc src (foldl (apply_update lc src) None us) u of None \<Rightarrow> True
        | Some s \<Rightarrow> coherent_rows lc (messagesById s))"
  by (auto simp: stays_coherent_def le_Suc_eq)

lemma index_ok_update:
  assumes "comparator lc" and "case so of None \<Rightarrow> True | Some s \<Rightarrow> index_ok lc s"
    and "apply_update lc src so u = Some s" and "coherent_rows lc (messagesById s)"
  shows "index_ok lc s"
  using assms
  by (cases u; cases so)
     (auto simp: index_ok_apply index_ok_empty index_ok_first_load applyMessages_index_def
        applyAgentStateUpdateToSessionMessages_def applyMessagesLoaded_def resetSessionMessages_def)

lemma index_ok_updates:
  "comparator lc \<Longrightarrow> stays_coherent lc src us \<Longrightarrow>
   (case foldl (apply_update lc src) None us of None \<Rightarrow> True | Some s \<Rightarrow> index_ok lc s)"
proof (induction us rule: rev_induct)
  case (snoc u us)
  then show ?case
    using index_ok_update [of lc "foldl (apply_update lc src) None us" src u]
    by (auto simp: stays_coherent_snoc split: option.split option.splits)
qed simp

text \<open>C4: After any sequence of batches, agent state updates, loads and resets of a session, with rows of
  any kind, with and without numbers, that may be renumbered in between, the id list has every message of the map exactly
  once, in transcript order, provided the id comparison is consistent and after each update the
  transcript comparison does not run in a circle among the rows then present.\<close>

theorem session_index_is_sorted:
  fixes src :: "thread_message \<Rightarrow> bool"
  assumes "comparator lc" and "stays_coherent lc src us"
    and "foldl (apply_update lc src) None us = Some st"
  shows "distinct (messageIdsOldestFirst st)
    \<and> set (messageIdsOldestFirst st) = dom (messagesById st)
    \<and> ordered_by (compareTranscriptMessagesOldestFirst lc) (map (\<lambda>i. row_of (the (messagesById st i))) (messageIdsOldestFirst st))"
proof -
  have ok: "index_ok lc st"
    using index_ok_updates [OF assms(1,2)] assms(3) by simp
  then have ordered: "ordered_by (id_compare lc (rows_by_id (messagesById st))) (messageIdsOldestFirst st)"
    and ids: "set (messageIdsOldestFirst st) = dom (messagesById st)" by (auto simp: index_ok_def)
  have "ordered_by (compareTranscriptMessagesOldestFirst lc) (map (\<lambda>i. row_of (the (messagesById st i))) (messageIdsOldestFirst st))"
    unfolding sorted_wrt_map
    by (rule sorted_wrt_mono_rel [OF _ ordered]) (use ids in \<open>auto simp: id_compare_known\<close>)
  with ok show ?thesis by (auto simp: index_ok_def)
qed

section \<open>The latest thinking message\<close>

definition newest_thinking :: "(string \<Rightarrow> string \<Rightarrow> rat) \<Rightarrow> (string \<Rightarrow> thread_message option) \<Rightarrow> string option \<Rightarrow> bool" where
  "newest_thinking lc m latest \<longleftrightarrow>
     (case latest of
        None \<Rightarrow> (\<forall>i x. m i = Some x \<longrightarrow> \<not> thinking_row x)
      | Some l \<Rightarrow> (\<exists>x. m l = Some x \<and> thinking_row x)
          \<and> (\<forall>i y. m i = Some y \<longrightarrow> thinking_row y \<longrightarrow> id_compare lc (rows_by_id m) i l \<le> 0))"

definition thinking_kept :: "(string \<Rightarrow> string \<Rightarrow> rat) \<Rightarrow> index_run \<Rightarrow> bool" where
  "thinking_kept lc run \<longleftrightarrow> recomputeThinking run \<or> newest_thinking lc (byId run) (latestThinking run)"

lemma thinking_step:
  assumes "newest_thinking lc (byId run) (latestThinking run)"
  shows "\<not> thinking_row m \<Longrightarrow> latestThinking (index_message lc src run m) = latestThinking run"
    and "thinking_row m \<Longrightarrow> latestThinking run = None \<Longrightarrow> latestThinking (index_message lc src run m) = Some (rowId m)"
    and "thinking_row m \<Longrightarrow> latestThinking run = Some l \<Longrightarrow>
      latestThinking (index_message lc src run m)
        = (if id_compare lc (rows_by_id ((byId run)(rowId m \<mapsto> m))) l (rowId m) < 0 then Some (rowId m) else Some l)"
  using assms
  by (auto simp: index_message_def newest_thinking_def Let_def id_compare_def present_first_def rows_by_id_def split: option.splits)

lemma thinking_kept_index_message:
  assumes lc: "comparator lc" and keyed: "keyed (byId run)" and coh: "coherent_rows lc ((byId run)(rowId m \<mapsto> m))"
    and still: "byId run (rowId m) = None \<or> same_place (byId run (rowId m)) (Some m)"
    and kept: "thinking_kept lc run"
  shows "thinking_kept lc (index_message lc src run m)"
proof (cases "recomputeThinking run \<or> recomputeThinking (index_message lc src run m)")
  case True
  then show ?thesis
    by (auto simp: thinking_kept_def index_message_def Let_def split: option.splits prod.splits if_splits)
next
  case False
  let ?i = "rowId m" and ?m' = "(byId run)(rowId m \<mapsto> m)" and ?l' = "latestThinking (index_message lc src run m)"
  let ?c = "id_compare lc (rows_by_id ?m')"
  have newest: "newest_thinking lc (byId run) (latestThinking run)" using kept False by (simp add: thinking_kept_def)
  note step = thinking_step [OF newest, where m = m and src = src]
  have old: "?c j l = id_compare lc (rows_by_id (byId run)) j l" if "j \<in> dom (byId run)" "l \<in> dom (byId run)" for j l
  proof (rule id_compare_same_place)
    show "same_place (byId run j) (?m' j)" "same_place (byId run l) (?m' l)"
      using that still by (auto intro: same_place_refl)
    show "keyed ?m'" using keyed by (simp add: keyed_def)
  qed (rule keyed)
  have "newest_thinking lc ?m' ?l'"
  proof (cases "latestThinking run")
    case None
    then show ?thesis
      using newest step comparator.cmp_refl [OF id_comparator [OF lc coh]]
      by (cases "thinking_row m") (auto simp: newest_thinking_def)
  next
    case (Some l)
    then obtain x where x: "byId run l = Some x" "thinking_row x"
      using newest by (auto simp: newest_thinking_def)
    have below: "?c j l \<le> 0" if "byId run j = Some y" "thinking_row y" for j y
      using newest Some that old [OF domI domI, OF that(1) x(1)] by (simp add: newest_thinking_def)
    show ?thesis
    proof (cases "thinking_row m")
      case False
      have "l \<noteq> ?i"
        using False \<open>\<not> (recomputeThinking run \<or> recomputeThinking (index_message lc src run m))\<close> Some
        by (auto simp: index_message_def Let_def)
      then show ?thesis using x below step(1) [OF False] Some False by (auto simp: newest_thinking_def)
    next
      case thinking: True
      note refl = comparator.cmp_refl [OF id_comparator [OF lc coh]]
        and trans = comparator.cmp_trans [OF id_comparator [OF lc coh]]
        and anti = comparator.cmp_anti [OF id_comparator [OF lc coh]]
      have l: "\<exists>x. ?m' l = Some x \<and> thinking_row x" using x thinking by simp
      show ?thesis
      proof (cases "?c l ?i < 0")
        case True
        have "?c j ?i \<le> 0" if "?m' j = Some y" "thinking_row y" for j y
          using that below [of j y] refl [of ?i] trans [of j l ?i] True by (cases "j = ?i") auto
        then show ?thesis using thinking step(3) [OF thinking Some] True by (simp add: newest_thinking_def)
      next
        case False
        have "?c j l \<le> 0" if "?m' j = Some y" "thinking_row y" for j y
          using that below [of j y] anti [of ?i l] False by (cases "j = ?i") auto
        then show ?thesis using l step(3) [OF thinking Some] False by (simp add: newest_thinking_def)
      qed
    qed
  qed
  then show ?thesis by (simp add: thinking_kept_def index_message_fields)
qed

lemma removed_stays_removed:
  "set (idsToRemove run) \<subseteq> set (idsToRemove (foldl (index_message lc src) run ms))"
  by (induction ms arbitrary: run) (fastforce simp: index_message_fields)+

lemma still_step:
  assumes "idsToRemove (foldl (index_message lc src) (index_message lc src run m) ms) = []"
  shows "byId run (rowId m) = None \<or> same_place (byId run (rowId m)) (Some m)"
proof -
  have "idsToRemove (index_message lc src run m) = []"
    using removed_stays_removed [of "index_message lc src run m" lc src ms] assms by simp
  then show ?thesis using index_message_fields(3) [of lc src run m] by (auto split: if_splits)
qed

text \<open>A pass that moves no row leaves every row at its place.\<close>

lemma still_fold:
  "idsToRemove (foldl (index_message lc src) run ms) = [] \<Longrightarrow> i \<in> dom (byId run) \<Longrightarrow>
   same_place (byId run i) (byId (foldl (index_message lc src) run ms) i)"
proof (induction ms arbitrary: run)
  case Nil
  then show ?case by (auto intro: same_place_refl)
next
  case (Cons m ms)
  let ?run = "index_message lc src run m"
  have rest: "same_place (byId ?run i) (byId (foldl (index_message lc src) ?run ms) i)"
    using Cons.prems by (intro Cons.IH [of ?run]) (auto simp: index_message_fields)
  have "same_place (byId run i) (byId ?run i)"
    using still_step [of lc src run m ms] Cons.prems by (auto simp: index_message_fields intro: same_place_refl)
  then show ?case using rest by (auto intro: same_place_trans)
qed

lemma keyed_index_message: "keyed (byId run) \<Longrightarrow> keyed (byId (index_message lc src run m))"
  by (simp add: keyed_def index_message_fields)

lemma keyed_fold: "keyed (byId run) \<Longrightarrow> keyed (byId (foldl (index_message lc src) run ms))"
  by (induction ms arbitrary: run) (simp_all add: keyed_index_message)

lemma thinking_kept_fold:
  "comparator lc \<Longrightarrow> keyed (byId run) \<Longrightarrow> thinking_kept lc run \<Longrightarrow>
   idsToRemove (foldl (index_message lc src) run ms) = [] \<Longrightarrow>
   coherent_rows lc (byId (foldl (index_message lc src) run ms)) \<Longrightarrow>
   thinking_kept lc (foldl (index_message lc src) run ms)"
proof (induction ms arbitrary: run)
  case (Cons m ms)
  let ?run = "index_message lc src run m"
  have keyed: "keyed (byId ?run)" using Cons.prems(2) by (rule keyed_index_message)
  have "coherent_rows lc (byId ?run)"
    by (rule coherent_same_place [OF Cons.prems(5)])
       (use Cons.prems(4) keyed keyed_fold [OF keyed] in \<open>simp_all add: still_fold\<close>)
  then have "thinking_kept lc ?run"
    using Cons.prems still_step [of lc src run m ms]
    by (intro thinking_kept_index_message) (simp_all add: index_message_fields)
  then show ?case
    using Cons.IH [of ?run] Cons.prems keyed by simp
qed simp

text \<open>A search from the end of the ordered list finds a newest thinking row, and there is only one.\<close>

lemma find_from_end:
  assumes "ordered_by c ids" and "\<And>x. c x x = 0"
  shows "case List.find P (rev ids) of None \<Rightarrow> \<forall>i \<in> set ids. \<not> P i
     | Some l \<Rightarrow> l \<in> set ids \<and> P l \<and> (\<forall>i \<in> set ids. P i \<longrightarrow> c i l \<le> 0)"
  using assms(1)
proof (induction ids rule: rev_induct)
  case (snoc i ids)
  then show ?case
    using assms(2) by (auto simp: sorted_wrt_append split: option.splits)
qed simp

lemma found_is_newest:
  assumes lc: "comparator lc" and ok: "index_ok lc st" and coh: "coherent_rows lc (messagesById st)"
  shows "newest_thinking lc (messagesById st) (findLatestThinkingMessageId (messageIdsOldestFirst st) (messagesById st))"
proof -
  let ?P = "\<lambda>i. case messagesById st i of None \<Rightarrow> False | Some x \<Rightarrow> thinking_row x"
  have ids: "i \<in> set (messageIdsOldestFirst st)" if "messagesById st i = Some x" for i x
    using ok that by (auto simp: index_ok_def)
  have found: "case List.find ?P (rev (messageIdsOldestFirst st)) of None \<Rightarrow> \<forall>i \<in> set (messageIdsOldestFirst st). \<not> ?P i
     | Some l \<Rightarrow> l \<in> set (messageIdsOldestFirst st) \<and> ?P l
         \<and> (\<forall>i \<in> set (messageIdsOldestFirst st). ?P i \<longrightarrow> id_compare lc (rows_by_id (messagesById st)) i l \<le> 0)"
    using ok comparator.cmp_refl [OF id_comparator [OF lc coh]] by (intro find_from_end) (auto simp: index_ok_def)
  show ?thesis
  proof (cases "List.find ?P (rev (messageIdsOldestFirst st))")
    case None
    then show ?thesis using found ids by (fastforce simp: findLatestThinkingMessageId_def newest_thinking_def)
  next
    case (Some l)
    then obtain x where x: "messagesById st l = Some x" "thinking_row x" using found by (auto split: option.splits)
    then have "rowId x = l" using ok by (auto simp: index_ok_def keyed_def)
    then show ?thesis
      using found ids Some x by (fastforce simp: findLatestThinkingMessageId_def newest_thinking_def)
  qed
qed

lemma newest_unique:
  assumes lc: "comparator lc" "\<And>a b. lc a b = 0 \<Longrightarrow> a = b" and keyed: "keyed m" and coh: "coherent_rows lc m"
    and "newest_thinking lc m k" and "newest_thinking lc m l"
  shows "k = l"
proof (cases "k = None \<or> l = None")
  case True
  then show ?thesis using assms(5,6) by (auto simp: newest_thinking_def split: option.splits)
next
  case False
  then obtain i j where ij: "k = Some i" "l = Some j" by auto
  then obtain x y where xy: "m i = Some x" "m j = Some y" "thinking_row x" "thinking_row y"
    using assms(5,6) by (auto simp: newest_thinking_def)
  then have "id_compare lc (rows_by_id m) i j \<le> 0" "id_compare lc (rows_by_id m) j i \<le> 0"
    using assms(5,6) ij by (auto simp: newest_thinking_def)
  then have "compareTranscriptMessagesOldestFirst lc (row_of x) (row_of y) = 0"
    using xy compare_anti [OF lc(1), of "row_of y" "row_of x"] by (simp add: id_compare_known)
  then have "rowId x = rowId y"
    using lc(2) [of "rowId x" "rowId y"]
    by (auto simp: compareTranscriptMessagesOldestFirst_def block_difference_def Let_def split: option.splits if_splits)
  then show ?thesis using xy keyed ij by (auto simp: keyed_def)
qed

text \<open>Does an update move a row that is already listed?\<close>

fun moves_rows :: "(string \<Rightarrow> string \<Rightarrow> rat) \<Rightarrow> (thread_message \<Rightarrow> bool) \<Rightarrow> session_messages option \<Rightarrow> index_update \<Rightarrow> bool" where
  "moves_rows lc src so (MessagesApplied _ _ _ ms) =
     (idsToRemove (pass lc src (some_or createEmptySessionMessages so) ms) \<noteq> [])"
| "moves_rows lc src so (AgentStateApplied _ ms) =
     (case so of None \<Rightarrow> False | Some st \<Rightarrow> idsToRemove (pass lc src st ms) \<noteq> [])"
| "moves_rows lc src so _ = False"

lemma newest_apply:
  fixes fast saw :: bool and now :: rat and ready :: "(int \<times> rat) option"
  assumes "comparator lc" and "index_ok lc st" and "newest_thinking lc (messagesById st) (latestThinkingMessageId st)"
    and "idsToRemove (pass lc src st ms) = []"
  defines "st' \<equiv> applyProcessedMessages fast lc src now saw ready st ms"
  assumes "coherent_rows lc (messagesById st')"
  shows "newest_thinking lc (messagesById st') (latestThinkingMessageId st')"
proof -
  have "keyed (byId (start_run st))" "thinking_kept lc (start_run st)"
    using assms(2,3) by (simp_all add: index_ok_def start_run_def thinking_kept_def)
  then have kept: "thinking_kept lc (pass lc src st ms)"
    using assms(1,4,6) by (intro thinking_kept_fold) (simp_all add: st'_def applied_fields)
  have ok: "index_ok lc st'"
    unfolding st'_def by (rule index_ok_apply [OF assms(1,2) assms(6) [unfolded st'_def]])
  show ?thesis
    using found_is_newest [OF assms(1) ok assms(6)] kept
    by (auto simp: st'_def applied_fields thinking_kept_def)
qed

lemma newest_update:
  assumes "comparator lc" and "case so of None \<Rightarrow> True | Some s \<Rightarrow> index_ok lc s \<and> newest_thinking lc (messagesById s) (latestThinkingMessageId s)"
    and "apply_update lc src so u = Some s" and "coherent_rows lc (messagesById s)" and "\<not> moves_rows lc src so u"
  shows "newest_thinking lc (messagesById s) (latestThinkingMessageId s)"
proof -
  have empty: "newest_thinking lc (messagesById createEmptySessionMessages) (latestThinkingMessageId createEmptySessionMessages)"
    by (simp add: newest_thinking_def createEmptySessionMessages_def)
  have load: "newest_thinking lc (messagesById (first_load lc src now ms)) (latestThinkingMessageId (first_load lc src now ms))"
    if "coherent_rows lc (messagesById (first_load lc src now ms))" for now ms
    using found_is_newest [OF assms(1) index_ok_first_load [OF assms(1) that] that]
    by (simp add: first_load_def Let_def)
  show ?thesis
    using assms(2-5) empty load
    by (cases u; cases so)
       (auto simp: newest_apply [OF assms(1)] index_ok_empty applyMessages_index_def
          applyAgentStateUpdateToSessionMessages_def applyMessagesLoaded_def resetSessionMessages_def)
qed

definition moves_nothing :: "(string \<Rightarrow> string \<Rightarrow> rat) \<Rightarrow> (thread_message \<Rightarrow> bool) \<Rightarrow> index_update list \<Rightarrow> bool" where
  "moves_nothing lc src us \<longleftrightarrow>
     (\<forall>n < length us. \<not> moves_rows lc src (foldl (apply_update lc src) None (take n us)) (us ! n))"

lemma newest_updates:
  "comparator lc \<Longrightarrow> stays_coherent lc src us \<Longrightarrow> moves_nothing lc src us \<Longrightarrow>
   foldl (apply_update lc src) None us = Some s \<Longrightarrow> newest_thinking lc (messagesById s) (latestThinkingMessageId s)"
proof (induction us arbitrary: s rule: rev_induct)
  case (snoc u us)
  have "moves_nothing lc src us" "\<not> moves_rows lc src (foldl (apply_update lc src) None us) u"
    using snoc.prems(3) by (auto simp: moves_nothing_def nth_append less_Suc_eq split: if_splits)
  then show ?case
    using snoc index_ok_updates [OF snoc.prems(1), of src us]
    by (intro newest_update [of lc "foldl (apply_update lc src) None us" src u])
       (auto simp: stays_coherent_snoc split: option.split)
qed simp

text \<open>C23: The latest thinking message is kept without a search: after any updates of a session, none of
  which moves a row that is already listed, it is the one a search from the end of the list finds, whether thinking
  rows are added, extended or turned into plain text, provided different ids never compare as equal
  and after each update the comparison does not run in a circle among the rows.\<close>

theorem latest_thinking_is_found:
  fixes src :: "thread_message \<Rightarrow> bool"
  assumes "comparator lc" and "\<And>a b. lc a b = 0 \<Longrightarrow> a = b"
    and "stays_coherent lc src us" and "moves_nothing lc src us"
    and "foldl (apply_update lc src) None us = Some st"
  shows "latestThinkingMessageId st = findLatestThinkingMessageId (messageIdsOldestFirst st) (messagesById st)"
proof -
  have ok: "index_ok lc st" using index_ok_updates [OF assms(1,3)] assms(5) by simp
  have coh: "coherent_rows lc (messagesById st)"
    using assms(3,5) by (auto simp: stays_coherent_def dest: spec [of _ "length us"])
  show ?thesis
    by (rule newest_unique [OF assms(1,2) _ coh newest_updates [OF assms(1,3-5)] found_is_newest [OF assms(1) ok coh]])
       (use ok in \<open>simp_all add: index_ok_def\<close>)
qed

definition sample_message :: "string \<Rightarrow> jsnum option \<Rightarrow> rat \<Rightarrow> thread_message" where
  "sample_message i seq time = \<lparr>rowId = i, rowSeq = seq, rowCreatedAt = time, rowBlock = Some (Fin 0),
     kindOf = AgentText, isThinking = True, messageText = ''...'', localIdOf = None, permissionModeOf = None\<rparr>"

lemmas sample_defs = sample_message_def order_row.defs normalizeTranscriptSeq_def
  normalizeTranscriptBlockIndex_def math_trunc_def

text \<open>
  Sample updates: a placeholder without a number between two numbered rows, whose numbers follow their
  times; the last one comes in a second update.
\<close>

definition sample_updates :: "index_update list" where
  "sample_updates =
     [MessagesLoaded 0 [sample_message ''b'' (Some (Fin 2)) 5, sample_message ''p'' None 3],
      MessagesApplied False None 1 [sample_message ''a'' (Some (Fin 1)) 2]]"

lemma coherent_sample:
  assumes "\<And>x. x \<in> ran m \<Longrightarrow> x \<in> {sample_message ''b'' (Some (Fin 2)) 5, sample_message ''p'' None 3, sample_message ''a'' (Some (Fin 1)) 2}"
  shows "coherent_rows code_unit_compare m"
proof -
  have ran: "x \<in> row_of ` {sample_message ''b'' (Some (Fin 2)) 5, sample_message ''p'' None 3, sample_message ''a'' (Some (Fin 1)) 2}"
    if "x \<in> ran (rows_by_id m)" for x
    using that assms by (auto simp: rows_by_id_def ran_def)
  show ?thesis
  proof (rule coherent_clocks [OF code_units.comparator_axioms])
    fix x y n k
    assume "x \<in> ran (rows_by_id m)" "y \<in> ran (rows_by_id m)" "row_number x = Some n" "row_number y = Some k"
    then show "(n < k \<longrightarrow> rowCreatedAt x < rowCreatedAt y) \<and> (n = k \<longrightarrow> rowCreatedAt x = rowCreatedAt y)"
      using ran [of x] ran [of y] by (auto simp: row_number_def sample_defs)
  next
    fix x y
    assume "x \<in> ran (rows_by_id m)" "y \<in> ran (rows_by_id m)"
    then show "(row_block x = None) = (row_block y = None)"
      using ran [of x] ran [of y] by (auto simp: row_block_def sample_defs)
  qed
qed

lemma sample_run:
  "foldl (apply_update code_unit_compare (\<lambda>m. False)) None [] = None"
  "messagesById (the (foldl (apply_update code_unit_compare (\<lambda>m. False)) None (take 1 sample_updates)))
     = [''b'' \<mapsto> sample_message ''b'' (Some (Fin 2)) 5, ''p'' \<mapsto> sample_message ''p'' None 3]"
  "messagesById (the (foldl (apply_update code_unit_compare (\<lambda>m. False)) None sample_updates))
     = [''b'' \<mapsto> sample_message ''b'' (Some (Fin 2)) 5, ''p'' \<mapsto> sample_message ''p'' None 3, ''a'' \<mapsto> sample_message ''a'' (Some (Fin 1)) 2]"
  by (simp_all add: sample_updates_def applyMessagesLoaded_def first_load_def Let_def applyMessages_index_def applied_fields
      start_run_def index_message_fields) (simp_all add: sample_message_def)

lemma sample_coherent: "stays_coherent code_unit_compare (\<lambda>m. False) sample_updates"
proof -
  let ?st = "\<lambda>n. foldl (apply_update code_unit_compare (\<lambda>m. False)) None (take n sample_updates)"
  have one: "coherent_rows code_unit_compare (messagesById (the (?st 1)))"
    unfolding sample_run(2) by (rule coherent_sample) (auto split: if_splits)
  have "coherent_rows code_unit_compare (messagesById (the (foldl (apply_update code_unit_compare (\<lambda>m. False)) None sample_updates)))"
    unfolding sample_run(3) by (rule coherent_sample) (auto split: if_splits)
  moreover have "take 2 sample_updates = sample_updates" by (simp add: sample_updates_def)
  ultimately have two: "coherent_rows code_unit_compare (messagesById (the (?st 2)))" by simp
  have "case ?st n of None \<Rightarrow> True | Some s \<Rightarrow> coherent_rows code_unit_compare (messagesById s)"
    if "n \<le> length sample_updates" for n
  proof -
    have "n = 0 \<or> n = 1 \<or> n = 2" using that by (auto simp: sample_updates_def)
    then have "?st n = None \<or> coherent_rows code_unit_compare (messagesById (the (?st n)))"
      using one two by (elim disjE) simp_all
    then show ?thesis by (cases "?st n") simp_all
  qed
  then show ?thesis unfolding stays_coherent_def by blast
qed

theorem session_index_is_sorted_witness:
  "(let st = the (foldl (apply_update code_unit_compare (\<lambda>m. False)) None sample_updates)
    in distinct (messageIdsOldestFirst st)
       \<and> set (messageIdsOldestFirst st) = dom (messagesById st)
       \<and> ordered_by (compareTranscriptMessagesOldestFirst code_unit_compare)
           (map (\<lambda>i. row_of (the (messagesById st i))) (messageIdsOldestFirst st)))"
  unfolding Let_def
  by (rule session_index_is_sorted [OF code_units.comparator_axioms sample_coherent])
     (simp add: sample_updates_def applyMessagesLoaded_def)

theorem latest_thinking_is_found_witness:
  "(let st = the (foldl (apply_update code_unit_compare (\<lambda>m. False)) None sample_updates)
    in latestThinkingMessageId st = findLatestThinkingMessageId (messageIdsOldestFirst st) (messagesById st))"
  unfolding Let_def
proof (rule latest_thinking_is_found [OF code_units.comparator_axioms _ sample_coherent])
  have fresh: "set (idsToRemove (pass code_unit_compare (\<lambda>m. False) st [m])) = {}" if "messagesById st (rowId m) = None" for st m
    using that by (simp only: foldl.simps index_message_fields) (simp add: start_run_def)
  have "moves_nothing code_unit_compare (\<lambda>m. False) sample_updates \<longleftrightarrow>
      idsToRemove (pass code_unit_compare (\<lambda>m. False) (first_load code_unit_compare (\<lambda>m. False) 0
        [sample_message ''b'' (Some (Fin 2)) 5, sample_message ''p'' None 3]) [sample_message ''a'' (Some (Fin 1)) 2]) = []"
    by (simp add: moves_nothing_def sample_updates_def less_Suc_eq applyMessagesLoaded_def)
  then show "moves_nothing code_unit_compare (\<lambda>m. False) sample_updates"
    by (simp only: set_empty [symmetric]) (rule fresh, simp add: first_load_def Let_def sample_message_def)
  show "code_unit_compare a b = 0 \<Longrightarrow> a = b" for a b by (simp add: code_unit_compare_def split: if_splits)
qed (simp add: sample_updates_def applyMessagesLoaded_def)

text \<open>
  When the latest thinking row is itself moved before another one (it gets its number late), it is
  compared with itself and stays the latest.
\<close>

lemma moved_thinking_stays_latest:
  "(let early = sample_message ''a'' (Some (Fin 2)) 20; late = sample_message ''b'' None 30;
        numbered = sample_message ''b'' (Some (Fin 1)) 30;
        st = applyMessages_index code_unit_compare (\<lambda>m. False) 0 False None createEmptySessionMessages [early, late];
        st' = applyMessages_index code_unit_compare (\<lambda>m. False) 0 False None st [numbered]
    in messageIdsOldestFirst st = [''a'', ''b''] \<and> latestThinkingMessageId st = Some ''b''
       \<and> messageIdsOldestFirst st' = [''b'', ''a''] \<and> latestThinkingMessageId st' = Some ''b''
       \<and> findLatestThinkingMessageId (messageIdsOldestFirst st') (messagesById st') = Some ''a'')"
  by code_simp

section \<open>Watermarks\<close>

lemma next_ready_monotone:
  "next_ready e ev = (Some s, a) \<Longrightarrow> (case fst e of None \<Rightarrow> True | Some o' \<Rightarrow> o' \<le> s)"
  by (auto simp: next_ready_def Let_def split: option.splits prod.splits)

lemma committed_seq_max:
  "deriveLatestCommittedMessageSeq ms =
     (let ns = List.map_filter (\<lambda>m. normalizeTranscriptSeq (rowSeq m)) ms in if ns = [] then None else Some (Max (set ns)))"
proof (induction ms rule: rev_induct)
  case (snoc m ms)
  have "List.map_filter f (xs @ [x]) = List.map_filter f xs @ (case f x of None \<Rightarrow> [] | Some y \<Rightarrow> [y])"
    for f :: "thread_message \<Rightarrow> int option" and xs x
    by (simp add: List.map_filter_def split: option.splits)
  with snoc show ?case
    by (auto simp: deriveLatestCommittedMessageSeq_def Let_def max.commute split: option.splits if_splits)
qed (simp add: deriveLatestCommittedMessageSeq_def List.map_filter_def)

end
