(* ===== verification/OrphanResults.thy ===== *)
theory OrphanResults
  imports
    TranscriptOrder
begin

text \<open>
  The buffer of tool results that arrive before their tool call:
  \<open>apps/ui/sources/sync/reducer/helpers/orphanToolResults.ts\<close>. The payload of a result and its
  metadata are abstract here; the buffer is a \<open>Map\<close> in insertion order.
\<close>

section \<open>Buckets\<close>

record 'r buffered =
  bufferKey :: string
  bufferedAt :: rat
  payload :: 'r

record 'r bucket =
  updatedAt :: rat
  bucketResults :: "'r buffered list"

type_synonym 'r orphans = "(string \<times> 'r bucket) list"

definition ORPHAN_TOOL_RESULT_TTL_MS :: rat where
  "ORPHAN_TOOL_RESULT_TTL_MS = 10 * 60000"

definition MAX_ORPHAN_TOOL_RESULTS_PER_TOOL :: nat where
  "MAX_ORPHAN_TOOL_RESULTS_PER_TOOL = 100"

definition MAX_TOTAL_ORPHAN_TOOL_RESULTS :: nat where
  "MAX_TOTAL_ORPHAN_TOOL_RESULTS = 1000"

definition bucket_size :: "string \<times> 'r bucket \<Rightarrow> nat" where
  "bucket_size kb = length (bucketResults (snd kb))"

definition buffered_total :: "'r orphans \<Rightarrow> nat" where
  "buffered_total m = sum_list (map bucket_size m)"

text \<open>The loop over the buckets, oldest first, that deletes until the total fits.\<close>

fun drop_oldest :: "nat \<Rightarrow> 'r orphans \<Rightarrow> 'r orphans \<Rightarrow> 'r orphans" where
  "drop_oldest remaining [] m = m"
| "drop_oldest remaining (kb # kbs) m =
     (let m' = AList.delete (fst kb) m; remaining' = remaining - bucket_size kb
      in if remaining' \<le> MAX_TOTAL_ORPHAN_TOOL_RESULTS then m' else drop_oldest remaining' kbs m')"

definition pruneOrphanToolResults :: "rat \<Rightarrow> 'r orphans \<Rightarrow> 'r orphans" where
  "pruneOrphanToolResults now m =
     (let m1 = filter (\<lambda>kb. \<not> now - updatedAt (snd kb) > ORPHAN_TOOL_RESULT_TTL_MS) m
      in if buffered_total m1 \<le> MAX_TOTAL_ORPHAN_TOOL_RESULTS then m1
         else drop_oldest (buffered_total m1)
                (js_sort (\<lambda>a b. updatedAt (snd a) - updatedAt (snd b)) m1) m1)"

definition add_to_bucket :: "rat \<Rightarrow> 'r buffered \<Rightarrow> 'r bucket option \<Rightarrow> 'r bucket" where
  "add_to_bucket now result existing =
     (let bucket = some_or \<lparr>updatedAt = now, bucketResults = []\<rparr> existing;
          alreadyBuffered = list_ex (\<lambda>r. bufferKey r = bufferKey result) (bucketResults bucket);
          results = (if alreadyBuffered then bucketResults bucket else bucketResults bucket @ [result])
      in \<lparr>updatedAt = now, bucketResults = drop (length results - MAX_ORPHAN_TOOL_RESULTS_PER_TOOL) results\<rparr>)"

definition bufferOrphanToolResult :: "rat \<Rightarrow> string \<Rightarrow> 'r buffered \<Rightarrow> 'r orphans \<Rightarrow> 'r orphans" where
  "bufferOrphanToolResult now toolUseId result m =
     (let m1 = pruneOrphanToolResults now m
      in pruneOrphanToolResults now (AList.update toolUseId (add_to_bucket now result (map_of m1 toolUseId)) m1))"

definition compare_buffered :: "(string \<Rightarrow> string \<Rightarrow> rat) \<Rightarrow> 'r buffered \<Rightarrow> 'r buffered \<Rightarrow> rat" where
  "compare_buffered lc a b =
     (if bufferedAt a \<noteq> bufferedAt b then bufferedAt a - bufferedAt b else lc (bufferKey a) (bufferKey b))"

definition drainOrphanToolResults ::
  "(string \<Rightarrow> string \<Rightarrow> rat) \<Rightarrow> string \<Rightarrow> 'r orphans \<Rightarrow> 'r orphans \<times> 'r buffered list option" where
  "drainOrphanToolResults lc toolUseId m =
     (case map_of m toolUseId of
        None \<Rightarrow> (m, None)
      | Some bucket \<Rightarrow> (AList.delete toolUseId m, Some (js_sort (compare_buffered lc) (bucketResults bucket))))"

section \<open>Bounds\<close>

definition bucket_ok :: "'r bucket \<Rightarrow> bool" where
  "bucket_ok b \<longleftrightarrow> bucketResults b \<noteq> [] \<and> length (bucketResults b) \<le> MAX_ORPHAN_TOOL_RESULTS_PER_TOOL
     \<and> distinct (map bufferKey (bucketResults b))"

definition buckets_ok :: "'r orphans \<Rightarrow> bool" where
  "buckets_ok m \<longleftrightarrow> obj_wf m \<and> (\<forall>kb\<in>set m. bucket_ok (snd kb))"

definition orphans_ok :: "'r orphans \<Rightarrow> bool" where
  "orphans_ok m \<longleftrightarrow> buckets_ok m \<and> buffered_total m \<le> MAX_TOTAL_ORPHAN_TOOL_RESULTS"

lemma buffered_total_simps [simp]:
  "buffered_total [] = 0" "buffered_total (kb # m) = bucket_size kb + buffered_total m"
  "buffered_total (m @ n) = buffered_total m + buffered_total n"
  by (simp_all add: buffered_total_def)

lemma buffered_total_mset: "mset m = mset n \<Longrightarrow> buffered_total m = buffered_total n"
  unfolding buffered_total_def by (metis mset_map sum_mset_sum_list)

lemma delete_not_key: "k \<notin> set (obj_keys m) \<Longrightarrow> AList.delete k m = m"
  by (induction m) auto

lemma buffered_total_split:
  "obj_wf m \<Longrightarrow> map_of m k = Some b \<Longrightarrow> buffered_total m = bucket_size (k, b) + buffered_total (AList.delete k m)"
  by (induction m) (auto simp: obj_wf_def delete_not_key)

lemma buffered_total_delete:
  "obj_wf m \<Longrightarrow> map_of m k = Some b \<Longrightarrow> buffered_total (AList.delete k m) = buffered_total m - bucket_size (k, b)"
  using buffered_total_split by fastforce

lemma buffered_total_delete_le: "buffered_total (AList.delete k m) \<le> buffered_total m"
  by (induction m) auto

lemma set_delete_subset: "set (AList.delete k m) \<subseteq> set m"
  by (auto simp: AList.delete_eq)

lemma buckets_ok_subset: "buckets_ok m \<Longrightarrow> obj_wf n \<Longrightarrow> set n \<subseteq> set m \<Longrightarrow> buckets_ok n"
  by (auto simp: buckets_ok_def)

lemma buckets_ok_delete: "buckets_ok m \<Longrightarrow> buckets_ok (AList.delete k m)"
  by (rule buckets_ok_subset [OF _ _ set_delete_subset]) (simp_all add: buckets_ok_def)

lemma drop_oldest_ok:
  "buckets_ok m \<Longrightarrow> buckets_ok (drop_oldest n kbs m)"
  by (induction n kbs m rule: drop_oldest.induct) (simp_all add: Let_def buckets_ok_delete)

text \<open>When the loop has seen every bucket nothing is left, so it ends with a total that fits.\<close>

lemma drop_oldest_fits:
  "obj_wf m \<Longrightarrow> distinct (map fst kbs) \<Longrightarrow> set kbs = set m \<Longrightarrow>
   buffered_total (drop_oldest (buffered_total m) kbs m) \<le> MAX_TOTAL_ORPHAN_TOOL_RESULTS"
proof (induction kbs arbitrary: m)
  case (Cons kb kbs)
  obtain k b where kb: "kb = (k, b)" by (cases kb)
  then have "map_of m k = Some b"
    using Cons.prems by (intro map_of_is_SomeI) (auto simp: obj_wf_def)
  then have rest: "buffered_total (AList.delete k m) = buffered_total m - bucket_size kb"
    using Cons.prems(1) buffered_total_delete kb by blast
  have "set kbs = set (AList.delete k m)"
    using Cons.prems(2,3) kb by (auto simp: AList.delete_eq image_iff)
  then show ?case
    using Cons.IH [of "AList.delete k m"] Cons.prems rest kb by (simp add: Let_def)
qed simp

lemma prune_ok:
  assumes "buckets_ok m"
  shows "orphans_ok (pruneOrphanToolResults now m)"
proof -
  let ?m1 = "filter (\<lambda>kb. \<not> now - updatedAt (snd kb) > ORPHAN_TOOL_RESULT_TTL_MS) m"
  have m1: "buckets_ok ?m1" "obj_wf ?m1"
    using assms by (auto simp: buckets_ok_def)
  then show ?thesis
    using drop_oldest_ok [OF m1(1)] drop_oldest_fits [OF m1(2)]
    by (auto simp: orphans_ok_def pruneOrphanToolResults_def Let_def obj_wf_def)
qed

lemma bucket_ok_add:
  "(case existing of None \<Rightarrow> True | Some b \<Rightarrow> bucket_ok b) \<Longrightarrow> bucket_ok (add_to_bucket now r existing)"
proof -
  assume old: "case existing of None \<Rightarrow> True | Some b \<Rightarrow> bucket_ok b"
  define rs where "rs = (case existing of None \<Rightarrow> [] | Some b \<Rightarrow> bucketResults b)"
  define all where "all = (if list_ex (\<lambda>x. bufferKey x = bufferKey r) rs then rs else rs @ [r])"
  have "distinct (map bufferKey all)" "all \<noteq> []"
    using old by (auto simp: all_def rs_def bucket_ok_def list_ex_iff split: option.splits)
  then have "bucket_ok \<lparr>updatedAt = now, bucketResults = drop (length all - MAX_ORPHAN_TOOL_RESULTS_PER_TOOL) all\<rparr>"
    by (cases all) (auto simp: bucket_ok_def MAX_ORPHAN_TOOL_RESULTS_PER_TOOL_def drop_map [symmetric] simp del: drop_Cons)
  moreover have "add_to_bucket now r existing = \<lparr>updatedAt = now, bucketResults = drop (length all - MAX_ORPHAN_TOOL_RESULTS_PER_TOOL) all\<rparr>"
    by (cases existing) (simp_all add: add_to_bucket_def Let_def all_def rs_def)
  ultimately show ?thesis by simp
qed

lemma bucket_update_subset: "set (AList.update k v m) \<subseteq> insert (k, v) (set m)"
  by (induction m) auto

lemma buffer_ok:
  assumes "orphans_ok m"
  shows "orphans_ok (bufferOrphanToolResult now k r m)"
proof -
  let ?m1 = "pruneOrphanToolResults now m"
  have "buckets_ok ?m1" using prune_ok assms by (auto simp: orphans_ok_def)
  then have "bucket_ok (add_to_bucket now r (map_of ?m1 k))"
    by (intro bucket_ok_add) (fastforce simp: buckets_ok_def dest: map_of_SomeD split: option.splits)
  then have "buckets_ok (AList.update k (add_to_bucket now r (map_of ?m1 k)) ?m1)"
    using \<open>buckets_ok ?m1\<close> bucket_update_subset [of k _ ?m1] by (fastforce simp: buckets_ok_def)
  then show ?thesis by (simp add: bufferOrphanToolResult_def Let_def prune_ok)
qed

lemma drain_ok: "orphans_ok m \<Longrightarrow> orphans_ok (fst (drainOrphanToolResults lc k m))"
  using buffered_total_delete_le [of k m] buckets_ok_delete [of m k]
  by (simp add: orphans_ok_def drainOrphanToolResults_def split: option.splits)

text \<open>Buffering for one call adds no bucket for another.\<close>

lemma drop_oldest_subset: "set (drop_oldest n kbs m) \<subseteq> set m"
proof (induction n kbs m rule: drop_oldest.induct)
  case (2 n kb kbs m)
  then show ?case
    using set_delete_subset [of "fst kb" m] by (auto simp: Let_def dest: subsetD)
qed simp

lemma prune_subset: "set (pruneOrphanToolResults now m) \<subseteq> set m"
  unfolding pruneOrphanToolResults_def Let_def by (auto dest: drop_oldest_subset [THEN subsetD])

lemma map_of_subset_None: "set m \<subseteq> set n \<Longrightarrow> map_of n j = None \<Longrightarrow> map_of m j = None"
  by (auto simp: map_of_eq_None_iff)

lemma buffer_other:
  assumes "map_of m j = None" and "j \<noteq> k"
  shows "map_of (bufferOrphanToolResult now k r m) j = None"
proof -
  let ?m1 = "pruneOrphanToolResults now m"
  have "map_of ?m1 j = None" by (rule map_of_subset_None [OF prune_subset assms(1)])
  then have "map_of (AList.update k b ?m1) j = None" for b using assms(2) by (simp add: update_conv')
  then show ?thesis
    unfolding bufferOrphanToolResult_def Let_def by (rule map_of_subset_None [OF prune_subset])
qed

text \<open>The operations of the reducer on the buffer, with the clock at each.\<close>

datatype 'r buffer_op = Buffer rat string "'r buffered" | Drain string

fun buffer_step :: "(string \<Rightarrow> string \<Rightarrow> rat) \<Rightarrow> 'r orphans \<Rightarrow> 'r buffer_op \<Rightarrow> 'r orphans" where
  "buffer_step lc m (Buffer now k r) = bufferOrphanToolResult now k r m"
| "buffer_step lc m (Drain k) = fst (drainOrphanToolResults lc k m)"

interpretation orphan_buffer: reducer "buffer_step lc" orphans_ok for lc
proof
  fix m :: "'r orphans" and op
  show "orphans_ok m \<Longrightarrow> orphans_ok (buffer_step lc m op)"
    by (cases op) (simp_all add: buffer_ok drain_ok)
qed

text \<open>C33: Whatever results arrive early and whenever calls fetch theirs, the buffer stays bounded: at most
  1000 results in all, at most 100 and at least one per call, no call twice and no result twice.\<close>

theorem orphan_buffer_is_bounded:
  fixes ops :: "'r buffer_op list" and lc :: "string \<Rightarrow> string \<Rightarrow> rat"
  defines "m \<equiv> foldl (buffer_step lc) [] ops"
  shows "buffered_total m \<le> 1000 \<and> distinct (map fst m)
    \<and> list_all (\<lambda>kb. bucket_size kb \<in> {1..100} \<and> distinct (map bufferKey (bucketResults (snd kb)))) m"
proof -
  have "orphans_ok m" unfolding m_def by (rule orphan_buffer.run_inv) (simp add: orphans_ok_def buckets_ok_def)
  then show ?thesis
    by (auto simp: orphans_ok_def buckets_ok_def bucket_ok_def bucket_size_def list_all_iff obj_wf_def Suc_le_eq
        MAX_TOTAL_ORPHAN_TOOL_RESULTS_def MAX_ORPHAN_TOOL_RESULTS_PER_TOOL_def)
qed

section \<open>Delivery\<close>

definition fresh_bucket :: "rat \<Rightarrow> 'r orphans \<Rightarrow> string \<Rightarrow> 'r buffered list" where
  "fresh_bucket now m k =
     (case map_of m k of None \<Rightarrow> []
      | Some b \<Rightarrow> if now - updatedAt b > ORPHAN_TOOL_RESULT_TTL_MS then [] else bucketResults b)"

lemma map_of_filter_distinct:
  "obj_wf m \<Longrightarrow> map_of (filter (\<lambda>kb. P (snd kb)) m) k = (case map_of m k of None \<Rightarrow> None | Some b \<Rightarrow> if P b then Some b else None)"
proof (induction m)
  case (Cons kb m)
  have "map_of (filter (\<lambda>kb. P (snd kb)) m) (fst kb) = None"
    using Cons.prems by (auto simp: map_of_eq_None_iff obj_wf_def image_iff)
  with Cons show ?case by (cases kb) (auto simp: obj_wf_def)
qed simp

lemma buffered_total_filter_le: "buffered_total (filter P m) \<le> buffered_total m"
  by (induction m) auto

lemma prune_below_cap:
  "buffered_total m \<le> MAX_TOTAL_ORPHAN_TOOL_RESULTS \<Longrightarrow>
   pruneOrphanToolResults now m = filter (\<lambda>kb. \<not> now - updatedAt (snd kb) > ORPHAN_TOOL_RESULT_TTL_MS) m"
  using buffered_total_filter_le [of "\<lambda>kb. \<not> now - updatedAt (snd kb) > ORPHAN_TOOL_RESULT_TTL_MS" m]
  by (simp add: pruneOrphanToolResults_def Let_def)

lemma buffered_total_update:
  "buffered_total (AList.update k v m) + (case map_of m k of None \<Rightarrow> 0 | Some b \<Rightarrow> bucket_size (k, b))
     = bucket_size (k, v) + buffered_total m"
  by (induction m) (auto simp: bucket_size_def)

lemma buffered_comparator: "comparator lc \<Longrightarrow> comparator (compare_buffered lc)"
  using comparator_or [OF comparator_minus comparator_key, of lc bufferedAt bufferKey]
  by (simp add: compare_buffered_def [abs_def] cmp_or_def)

lemma delivered_bucket:
  assumes "orphans_ok m" and "buffered_total m < MAX_TOTAL_ORPHAN_TOOL_RESULTS"
    and "length (fresh_bucket now m k) < MAX_ORPHAN_TOOL_RESULTS_PER_TOOL"
    and "bufferKey r \<notin> bufferKey ` set (fresh_bucket now m k)"
  shows "map_of (bufferOrphanToolResult now k r m) k = Some \<lparr>updatedAt = now, bucketResults = fresh_bucket now m k @ [r]\<rparr>"
proof -
  let ?P = "\<lambda>b. \<not> now - updatedAt b > ORPHAN_TOOL_RESULT_TTL_MS"
  let ?m1 = "filter (\<lambda>kb. ?P (snd kb)) m"
  have m: "obj_wf m" "obj_wf ?m1" using assms(1) by (auto simp: orphans_ok_def buckets_ok_def)
  have m1: "pruneOrphanToolResults now m = ?m1"
    using assms(2) by (intro prune_below_cap) simp
  have look: "map_of ?m1 k = (case map_of m k of None \<Rightarrow> None | Some b \<Rightarrow> if ?P b then Some b else None)"
    by (rule map_of_filter_distinct [OF m(1)])
  then have found: "fresh_bucket now m k = (case map_of ?m1 k of None \<Rightarrow> [] | Some b \<Rightarrow> bucketResults b)"
    by (auto simp: fresh_bucket_def split: option.splits)
  define b where "b = \<lparr>updatedAt = now, bucketResults = fresh_bucket now m k @ [r]\<rparr>"
  have b: "add_to_bucket now r (map_of ?m1 k) = b"
    using assms(3,4) by (cases "map_of ?m1 k"; auto simp: b_def add_to_bucket_def Let_def found list_ex_iff image_iff)
  let ?m2 = "AList.update k b ?m1"
  have "buffered_total ?m2 \<le> MAX_TOTAL_ORPHAN_TOOL_RESULTS"
    using buffered_total_update [of k b ?m1] assms(2) buffered_total_filter_le [of "\<lambda>kb. ?P (snd kb)" m]
    by (cases "map_of ?m1 k") (simp_all add: bucket_size_def found b_def)
  then have "bufferOrphanToolResult now k r m = filter (\<lambda>kb. ?P (snd kb)) ?m2"
    by (simp add: bufferOrphanToolResult_def Let_def m1 prune_below_cap b)
  moreover have "map_of (filter (\<lambda>kb. ?P (snd kb)) ?m2) k = Some b"
    using map_of_filter_distinct [of ?m2 ?P k] m(2) by (simp add: update_conv' ORPHAN_TOOL_RESULT_TTL_MS_def b_def)
  ultimately show ?thesis by (simp add: b_def)
qed

text \<open>As long as the buffer has room, no early result is lost: the call that arrives next gets
  exactly the results buffered for it within the time to live and the new one, in order of creation,
  and nothing stays behind for it.\<close>

theorem early_result_is_delivered:
  assumes "orphans_ok m" and "buffered_total m < 1000" and "length (fresh_bucket now m k) < 100"
    and "bufferKey r \<notin> bufferKey ` set (fresh_bucket now m k)" and "comparator lc"
  defines "drained \<equiv> drainOrphanToolResults lc k (bufferOrphanToolResult now k r m)"
  shows "\<exists>rs. snd drained = Some rs \<and> mset rs = mset (r # fresh_bucket now m k)
    \<and> ordered_by (compare_buffered lc) rs \<and> map_of (fst drained) k = None"
  using delivered_bucket [OF assms(1) _ _ assms(4)] assms(2,3)
  by (simp add: drained_def drainOrphanToolResults_def delete_conv' MAX_TOTAL_ORPHAN_TOOL_RESULTS_def
      MAX_ORPHAN_TOOL_RESULTS_PER_TOOL_def comparator.sorted_js_sort [OF buffered_comparator [OF assms(5)]])

theorem early_result_is_delivered_witness:
  "(let late = \<lparr>bufferKey = ''m1:0'', bufferedAt = 5, payload = ()\<rparr>; early = \<lparr>bufferKey = ''m0:0'', bufferedAt = 2, payload = ()\<rparr>;
        m = bufferOrphanToolResult 1000 ''tool'' late [];
        drained = drainOrphanToolResults code_unit_compare ''tool'' (bufferOrphanToolResult 2000 ''tool'' early m)
    in snd drained = Some [early, late])"
proof -
  define late where "late = \<lparr>bufferKey = ''m1:0'', bufferedAt = 5, payload = ()\<rparr>"
  define early where "early = \<lparr>bufferKey = ''m0:0'', bufferedAt = 2, payload = ()\<rparr>"
  let ?m = "bufferOrphanToolResult 1000 ''tool'' late []"
  let ?d = "drainOrphanToolResults code_unit_compare ''tool'' (bufferOrphanToolResult 2000 ''tool'' early ?m)"
  have m: "?m = [(''tool'', \<lparr>updatedAt = 1000, bucketResults = [late]\<rparr>)]"
    by (simp add: bufferOrphanToolResult_def prune_below_cap add_to_bucket_def bucket_size_def
        ORPHAN_TOOL_RESULT_TTL_MS_def MAX_TOTAL_ORPHAN_TOOL_RESULTS_def MAX_ORPHAN_TOOL_RESULTS_PER_TOOL_def)
  have fresh: "fresh_bucket 2000 ?m ''tool'' = [late]"
    by (simp add: m fresh_bucket_def ORPHAN_TOOL_RESULT_TTL_MS_def)
  have "orphans_ok ?m" by (rule buffer_ok) (simp add: orphans_ok_def buckets_ok_def)
  then have "\<exists>rs. snd ?d = Some rs \<and> mset rs = mset (early # fresh_bucket 2000 ?m ''tool'')
      \<and> ordered_by (compare_buffered code_unit_compare) rs \<and> map_of (fst ?d) ''tool'' = None"
    by (rule early_result_is_delivered [OF _ _ _ _ code_units.comparator_axioms])
       (simp_all only: fresh, simp_all only: m, simp_all add: bucket_size_def early_def late_def)
  then obtain rs where rs: "snd ?d = Some rs" "mset rs = mset [early, late]"
      "ordered_by (compare_buffered code_unit_compare) rs"
    by (auto simp: fresh)
  then have "rs = [early, late] \<or> rs = [late, early]"
    using mset_eq_length [OF rs(2)] by (auto simp: length_Suc_conv add_eq_conv_ex)
  with rs(3) have "rs = [early, late]"
    by (auto simp: compare_buffered_def early_def late_def)
  with rs(1) show ?thesis by (simp add: early_def late_def)
qed

end
