(* ===== verification/ToolComparison.thy ===== *)
theory ToolComparison
  imports
    JsBase
begin

text \<open>
  Deep comparison of tool calls: \<open>apps/ui/sources/utils/tools/toolComparison.ts\<close>. The compared inputs
  come from JSON, so two objects are compared by content alone; \<open>NaN\<close> equals nothing, as in the code.
\<close>

section \<open>The comparison\<close>

text \<open>\<open>Object.keys\<close> of an object or an array, with the values behind them.\<close>

definition array_fields :: "jsval list \<Rightarrow> (string \<times> jsval) list" where
  "array_fields ys = map (\<lambda>(i, y). (string_of_nat i, y)) (enumerate 0 ys)"

fun object_fields :: "jsval \<Rightarrow> (string \<times> jsval) list" where
  "object_fields (JObj m) = m"
| "object_fields (JArr ys) = array_fields ys"
| "object_fields _ = []"

text \<open>\<open>a === b\<close> on values that are not objects.\<close>

fun strict_equal :: "jsval \<Rightarrow> jsval \<Rightarrow> bool" where
  "strict_equal (JNum x) (JNum y) = (x = y \<and> x \<noteq> NaN)"
| "strict_equal JUndef JUndef = True"
| "strict_equal JNull JNull = True"
| "strict_equal (JBool x) (JBool y) = (x = y)"
| "strict_equal (JStr x) (JStr y) = (x = y)"
| "strict_equal _ _ = False"

lemma size_fields_get: "(k, w) \<in> set m \<Longrightarrow> size (fields_get m k) < Suc (size_list (size_prod (\<lambda>_. 0) size) m)"
proof -
  assume "(k, w) \<in> set m"
  then obtain v where v: "map_of m k = Some v" by (meson weak_map_of_SomeI)
  then have "(k, v) \<in> set m" by (rule map_of_SomeD)
  then have "size v < size_list (size_prod (\<lambda>_. 0) size) m + 1"
    by (induction m) auto
  with v show ?thesis by (simp add: fields_get_def)
qed

function deepEqual :: "jsval \<Rightarrow> jsval \<Rightarrow> bool" where
  "deepEqual a b =
     (case a of
        JArr xs \<Rightarrow> (case b of JArr ys \<Rightarrow> length xs = length ys \<and> list_all2 deepEqual xs ys | _ \<Rightarrow> False)
      | JObj m \<Rightarrow>
          (case b of
             JObj _ \<Rightarrow>
               (let keysA = sort (obj_keys m); keysB = sort (obj_keys (object_fields b))
                in keysA = keysB \<and> list_all (\<lambda>k. deepEqual (fields_get m k) (fields_get (object_fields b) k)) keysA)
           | JArr _ \<Rightarrow>
               (let keysA = sort (obj_keys m); keysB = sort (obj_keys (object_fields b))
                in keysA = keysB \<and> list_all (\<lambda>k. deepEqual (fields_get m k) (fields_get (object_fields b) k)) keysA)
           | _ \<Rightarrow> False)
      | _ \<Rightarrow> strict_equal a b)"
  by pat_completeness auto
termination
proof (relation "measure (\<lambda>(a, b). size a)", goal_cases)
  case (2 a b xs ys x y)
  then show ?case by (auto dest: size_list_estimation' [of _ _ _ size, OF _ order_refl] simp: less_Suc_eq_le)
qed (auto intro: size_fields_get)

definition compareToolCalls :: "string \<times> jsval \<Rightarrow> string \<times> jsval \<Rightarrow> bool" where
  "compareToolCalls tool1 tool2 = (if fst tool1 \<noteq> fst tool2 then False else deepEqual (snd tool1) (snd tool2))"

section \<open>Content equality\<close>

declare deepEqual.simps [simp del]

text \<open>Values as JSON gives them: no \<open>NaN\<close>, every key once.\<close>

fun json :: "jsval \<Rightarrow> bool" where
  "json (JNum x) = (x \<noteq> NaN)"
| "json (JArr xs) = list_all json xs"
| "json (JObj m) = (distinct (obj_keys m) \<and> list_all (\<lambda>kv. json (snd kv)) m)"
| "json _ = True"

text \<open>The content of a value: its fields in the order of the keys, at every level.\<close>

function content :: "jsval \<Rightarrow> jsval" where
  "content v =
     (case v of JArr xs \<Rightarrow> JArr (map content xs)
      | JObj m \<Rightarrow> JObj (map (\<lambda>k. (k, content (fields_get m k))) (sort (obj_keys m)))
      | _ \<Rightarrow> v)"
  by pat_completeness auto
termination
proof (relation "measure size", goal_cases)
  case (2 v xs x)
  then show ?case by (auto dest: size_list_estimation' [of _ _ _ size, OF _ order_refl] simp: less_Suc_eq_le)
qed (auto intro: size_fields_get)

declare content.simps [simp del]

lemma content_plain: "\<not> is_record v \<Longrightarrow> (\<forall>xs. v \<noteq> JArr xs) \<Longrightarrow> content v = v"
  by (cases v; subst content.simps; simp)

lemma content_array: "(\<exists>xs. content v = JArr xs) \<longleftrightarrow> (\<exists>xs. v = JArr xs)"
  by (cases v; subst content.simps; simp)

lemma content_record [simp]: "is_record (content v) \<longleftrightarrow> is_record v"
  by (cases v; subst content.simps; simp)

lemma json_field: "json (JObj m) \<Longrightarrow> k \<in> set (obj_keys m) \<Longrightarrow> json (fields_get m k)"
  by (auto simp: fields_get_def list_all_iff)

lemma deepEqual_plain:
  "json a \<Longrightarrow> \<not> is_record a \<Longrightarrow> (\<forall>xs. a \<noteq> JArr xs) \<Longrightarrow> deepEqual a b \<longleftrightarrow> a = b"
  by (subst deepEqual.simps) (cases a; cases b; simp)

lemma deepEqual_arrays:
  "deepEqual (JArr xs) (JArr ys) \<longleftrightarrow> list_all2 deepEqual xs ys"
  by (subst deepEqual.simps) (auto dest: list_all2_lengthD)

lemma deepEqual_objects:
  "deepEqual (JObj m) (JObj n) \<longleftrightarrow> sort (obj_keys m) = sort (obj_keys n)
     \<and> (\<forall>k\<in>set (obj_keys m). deepEqual (fields_get m k) (fields_get n k))"
  by (subst deepEqual.simps) (auto simp: Let_def list_all_iff)

lemma content_objects:
  "content (JObj m) = content (JObj n) \<longleftrightarrow> sort (obj_keys m) = sort (obj_keys n)
     \<and> (\<forall>k\<in>set (obj_keys m). content (fields_get m k) = content (fields_get n k))"
proof -
  have "map (\<lambda>k. (k, f k)) ks = map (\<lambda>k. (k, g k)) ls \<longleftrightarrow> ks = ls \<and> (\<forall>k\<in>set ks. f k = g k)"
    for f g :: "string \<Rightarrow> jsval" and ks ls
    by (induction ks arbitrary: ls) (auto simp: Cons_eq_map_conv)
  then show ?thesis by (simp add: content.simps)
qed

lemma content_arrays:
  "content (JArr xs) = content (JArr ys) \<longleftrightarrow> list_all2 (\<lambda>x y. content x = content y) xs ys"
  by (simp add: content.simps [of "JArr _"] list_all2_conv_all_nth) (auto simp: list_eq_iff_nth_eq)

lemma both_ways_iff_content:
  "json a \<Longrightarrow> json b \<Longrightarrow> (deepEqual a b \<and> deepEqual b a) \<longleftrightarrow> content a = content b"
proof (induction a b rule: deepEqual.induct)
  case (1 a b)
  consider (arrays) xs ys where "a = JArr xs" "b = JArr ys" | (objects) m n where "a = JObj m" "b = JObj n"
    | (array) xs where "a = JArr xs" "\<And>ys. b \<noteq> JArr ys" | (object) m where "a = JObj m" "\<not> is_record b"
    | (plain) "\<not> is_record a" "\<And>xs. a \<noteq> JArr xs"
    by (cases a; cases b) auto
  then show ?case
  proof cases
    case arrays
    have "(deepEqual x y \<and> deepEqual y x) \<longleftrightarrow> content x = content y" if "x \<in> set xs" "y \<in> set ys" for x y
      using "1.IH"(1) [OF arrays that] "1.prems" arrays that by (auto simp: list_all_iff)
    then show ?thesis
      unfolding arrays deepEqual_arrays content_arrays list_all2_conv_all_nth by (metis nth_mem)
  next
    case objects
    show ?thesis
    proof (cases "sort (obj_keys m) = sort (obj_keys n)")
      case True
      then have keys: "set (obj_keys m) = set (obj_keys n)" by (metis set_sort)
      have "(deepEqual (fields_get m k) (fields_get n k) \<and> deepEqual (fields_get n k) (fields_get m k))
          \<longleftrightarrow> content (fields_get m k) = content (fields_get n k)" if "k \<in> set (obj_keys m)" for k
        using "1.IH"(3) [OF objects refl refl, of k] True that keys json_field "1.prems" objects by auto
      with True keys show ?thesis
        unfolding objects deepEqual_objects content_objects by auto
    qed (auto simp: objects deepEqual_objects content_objects)
  next
    case array
    then have "\<not> deepEqual a b" by (subst deepEqual.simps) (auto split: jsval.splits)
    moreover have "content a \<noteq> content b"
      using array content_array [of a] content_array [of b] by auto
    ultimately show ?thesis by simp
  next
    case object
    then have "\<not> (deepEqual a b \<and> deepEqual b a)"
      by (cases b) (simp_all add: deepEqual.simps [of "JObj _"] deepEqual.simps [of "JArr _"])
    moreover have "content a \<noteq> content b"
      using object content_record [of a] content_record [of b] by (metis is_record.simps(1))
    ultimately show ?thesis by simp
  next
    case plain
    have "deepEqual a b \<longleftrightarrow> a = b"
      using plain "1.prems" deepEqual_plain by blast
    moreover have "deepEqual b a \<longleftrightarrow> a = b"
    proof (cases "is_record b \<or> (\<exists>xs. b = JArr xs)")
      case True
      then show ?thesis using plain by (cases a; cases b) (simp_all add: deepEqual.simps [of "JObj _"] deepEqual.simps [of "JArr _"])
    next
      case False
      then show ?thesis using "1.prems" deepEqual_plain [of b a] by auto
    qed
    moreover have "content a = content b \<longleftrightarrow> a = b"
    proof (cases "is_record b \<or> (\<exists>xs. b = JArr xs)")
      case True
      then have "content b \<noteq> content a" "a \<noteq> b"
        using plain content_plain [of a] content_array [of b] content_record [of b] by (cases b; auto)+
      then show ?thesis by auto
    next
      case False
      then show ?thesis using plain content_plain [of a] content_plain [of b] by simp
    qed
    ultimately show ?thesis by simp
  qed
qed

text \<open>Comparing both ways is equality of content: on JSON values two calls are each found equal to the
  other exactly when their names agree and their arguments have the same content at every level,
  whatever the order of the keys.\<close>

theorem comparison_is_content_equality:
  assumes "json a" and "json b"
  shows "(compareToolCalls (n, a) (l, b) \<and> compareToolCalls (l, b) (n, a)) \<longleftrightarrow> n = l \<and> content a = content b"
  using both_ways_iff_content [OF assms] by (auto simp: compareToolCalls_def)

theorem comparison_is_content_equality_witness:
  "(let a = JObj [(''x'', JNum (Fin 1)), (''y'', JArr [JNull])]; b = JObj [(''y'', JArr [JNull]), (''x'', JNum (Fin 1))]
    in (compareToolCalls (''Bash'', a) (''Bash'', b) \<and> compareToolCalls (''Bash'', b) (''Bash'', a))
       \<longleftrightarrow> ''Bash'' = ''Bash'' \<and> content a = content b)"
  unfolding Let_def by (rule comparison_is_content_equality) simp_all

text \<open>One way alone is not: an object is compared with an array by its keys, an array with an object is not.\<close>

lemma empty_object_equals_empty_array:
  "deepEqual (JObj []) (JArr []) \<and> \<not> deepEqual (JArr []) (JObj [])"
  by (simp add: deepEqual.simps array_fields_def)

end
