(* ===== verification/ToolLifecycle.thy ===== *)
theory ToolLifecycle
  imports
    "HOL-Library.Word"
    OrphanResults
    ToolComparison
begin

text \<open>
  The life of a tool call in the message reducer of the client, \<open>apps/ui/sources/sync/reducer/\<close>: creation
  and update by tool calls (\<open>phases/toolCalls.ts\<close>), results and their streaming
  (\<open>phases/toolResults.ts\<close>, \<open>helpers/applyToolResultUpdateToReducerMessage.ts\<close>,
  \<open>helpers/streamingToolResult.ts\<close>), results that come first
  (\<open>helpers/drainAndApplyOrphanToolResultsToMessage.ts\<close>) and calls whose turn ended
  (\<open>helpers/markRunningToolsUnavailable.ts\<close>). Ids come from the supply \<open>alloc\<close>, the clock is read once
  per batch, \<open>localeCompare\<close> is \<open>lc\<close>.
\<close>

section \<open>Messages and state\<close>

datatype tool_state = Running | Completed | Errored | Unavailable

datatype permission_status = Pending | Approved | Denied | Canceled

datatype permission_decision =
    DecidedApproved | DecidedForSession | DecidedExecpolicy | DecidedDenied | DecidedAbort

text \<open>Suggestions are opaque to the reducer, which compares them by identity: a token stands for one.\<close>

record tool_permission =
  permId :: string
  permStatus :: permission_status
  permKind :: "string option"
  permReason :: "string option"
  permMode :: "string option"
  permAllowedTools :: "string list option"
  permDecision :: "permission_decision option"
  permDate :: "rat option"
  permSuggestions :: "nat option"

definition new_permission :: "string \<Rightarrow> permission_status \<Rightarrow> tool_permission" where
  "new_permission i s = \<lparr>permId = i, permStatus = s, permKind = None, permReason = None, permMode = None,
     permAllowedTools = None, permDecision = None, permDate = None, permSuggestions = None\<rparr>"

record tool_call =
  toolId :: "string option"
  toolName :: string
  toolState :: tool_state
  toolInput :: jsval
  toolCreatedAt :: rat
  toolStartedAt :: "rat option"
  toolCompletedAt :: "rat option"
  toolDescription :: "string option"
  toolResult :: jsval
  toolPermission :: "tool_permission option"

datatype message_role = UserRole | AgentRole

text \<open>What an event says, as far as the reducer reads it; the events it only shows are values.\<close>

datatype agent_event =
    ReadyEvent | TextEvent string | CompactionEvent string | LifecycleEvent string | LimitReached int | OtherEvent jsval

record reducer_message =
  messageId :: string
  realId :: "string option"
  messageSeq :: "int option"
  blockIndex :: "int option"
  messageLocalId :: "string option"
  messageCreatedAt :: rat
  messageRole :: message_role
  messageBody :: "string option"
  messageThinking :: bool
  messageEvent :: "agent_event option"
  messageTool :: "tool_call option"
  messageMeta :: "(string \<times> jsval) list option"

record stored_permission =
  storedTool :: string
  storedArguments :: jsval
  storedCreatedAt :: rat
  storedCompletedAt :: "rat option"
  storedStatus :: permission_status
  storedReason :: "string option"
  storedMode :: "string option"
  storedAllowedTools :: "string list option"
  storedSuggestions :: "nat option"
  storedDecision :: "permission_decision option"

record result_permissions =
  rpDate :: rat
  rpApproved :: bool
  rpMode :: "string option"
  rpAllowedTools :: "string list option"
  rpDecision :: "permission_decision option"

record tool_result_update =
  resultToolId :: string
  resultContent :: jsval
  resultIsError :: bool
  resultPermissions :: "result_permissions option"

type_synonym buffered_result = "(string \<times> jsval) list option \<times> tool_result_update"

record usage_totals =
  usedInput :: rat
  usedOutput :: rat
  usedCacheCreation :: rat
  usedCacheRead :: rat
  usedContext :: rat
  usedWindow :: "rat option"
  usedAt :: rat

datatype message_content =
    ToolCallContent string string jsval "string option"
  | ToolResultContent tool_result_update
  | TextContent string
  | ThinkingContent string "string option"
  | SidechainContent string
  | OtherContent

record usage_data =
  inputTokens :: rat
  outputTokens :: rat
  cacheCreationTokens :: "rat option"
  cacheReadTokens :: "rat option"
  contextWindowTokens :: jsval
  contextUsedTokens :: jsval

datatype traced_payload = FromUser string | FromAgent "message_content list" | FromEvent agent_event

text \<open>
  A normalized message. Its \<open>uuid\<close> and \<open>parentUUID\<close> are those of its first content; \<open>isSidechain\<close> and
  \<open>sidechainId\<close> are what the provider says, the tracer fills in \<open>sidechainId\<close> where it finds the owner.
\<close>

record traced_message =
  tracedId :: string
  tracedSeq :: "jsnum option"
  tracedLocalId :: "string option"
  tracedCreatedAt :: rat
  tracedPayload :: traced_payload
  tracedMeta :: "(string \<times> jsval) list option"
  tracedUsage :: "usage_data option"
  tracedUuid :: "string option"
  tracedParentUuid :: "string option"
  tracedIsSidechain :: bool
  tracedSidechainId :: "string option"

text \<open>
  The state of the tracer, without its counters for logs and the \<open>taskTools\<close> nobody reads. The key of a
  processed message is kept as its parts, where the code joins them with colons.
\<close>

datatype stream_fingerprint = SegmentAt rat | TextHash "32 word" nat | ThinkingHash "32 word" nat | NoStream

datatype processed_key =
    IdKey string
  | AgentKey string string "string option" stream_fingerprint

record orphan_bucket =
  orphansAt :: rat
  orphanRows :: "traced_message list"

record tracer_state =
  promptToTaskId :: "(string \<times> string) list"
  uuidToSidechainId :: "(string \<times> string) list"
  orphanMessages :: "(string \<times> orphan_bucket) list"
  processedIds :: "processed_key list"

definition createTracer :: tracer_state where
  "createTracer = \<lparr>promptToTaskId = [], uuidToSidechainId = [], orphanMessages = [], processedIds = []\<rparr>"

text \<open>
  \<open>ReducerState\<close>, with the ids handed out so far and the set \<open>changed\<close> of the current call. A sidechain
  is the list of the ids of its messages: the objects are those of \<open>messages\<close>, which are only changed in
  place.
\<close>

record reducer_state =
  toolIdToMessageId :: "(string \<times> string) list"
  permissions :: "(string \<times> stored_permission) list"
  orphanToolResults :: "buffered_result orphans"
  localIds :: "(string \<times> string) list"
  messageIds :: "(string \<times> string) list"
  messages :: "(string \<times> reducer_message) list"
  sidechains :: "(string \<times> string list) list"
  sidechainToolIdToMessageId :: "(string \<times> string) list"
  sidechainThinkingMergeCursors :: "(string \<times> string) list"
  tracerState :: tracer_state
  latestTodos :: "(jsval \<times> rat) option"
  latestUsage :: "usage_totals option"
  streamMergeCursor :: "(string \<times> string) option"
  thinkingMergeCursor :: "string option"
  thinkingSegments :: "(string \<times> string) list"
  allocated :: nat
  changed :: "string list"

definition chain_of :: "reducer_state \<Rightarrow> string \<Rightarrow> string list" where
  "chain_of st k = some_or [] (map_of (sidechains st) k)"

definition sidechainLengths :: "reducer_state \<Rightarrow> string \<Rightarrow> nat" where
  "sidechainLengths st k = length (chain_of st k)"

definition mark_changed :: "string \<Rightarrow> reducer_state \<Rightarrow> reducer_state" where
  "mark_changed i st = st\<lparr>changed := oset_add i (changed st)\<rparr>"

definition put_message :: "string \<Rightarrow> reducer_message \<Rightarrow> reducer_state \<Rightarrow> reducer_state" where
  "put_message i m st = st\<lparr>messages := AList.update i m (messages st)\<rparr>"

section \<open>Dynamic values\<close>

fun truthy :: "jsval \<Rightarrow> bool" where
  "truthy JUndef = False"
| "truthy JNull = False"
| "truthy (JBool b) = b"
| "truthy (JNum n) = (n \<noteq> NaN \<and> n \<noteq> Fin 0)"
| "truthy (JStr s) = (s \<noteq> [])"
| "truthy _ = True"

text \<open>\<open>{ ...a, ...b }\<close>.\<close>

definition obj_spread :: "(string \<times> jsval) list \<Rightarrow> (string \<times> jsval) list \<Rightarrow> (string \<times> jsval) list" where
  "obj_spread a b = foldl (\<lambda>acc kv. AList.update (fst kv) (snd kv) acc) a b"

fun str_of :: "jsval \<Rightarrow> string option" where
  "str_of (JStr s) = Some s"
| "str_of _ = None"

definition falsy_str :: "string option \<Rightarrow> bool" where
  "falsy_str s \<longleftrightarrow> s = None \<or> s = Some []"

text \<open>\<open>firstString\<close>: a string that is not blank, trimmed.\<close>

definition firstString :: "jsval \<Rightarrow> string option" where
  "firstString v = (case str_of v of None \<Rightarrow> None | Some s \<Rightarrow> trim_or_none s)"

definition extractPermissionRequestId :: "jsval \<Rightarrow> string option" where
  "extractPermissionRequestId input =
     (if \<not> is_record input then None
      else let direct = first_some [firstString (prop_get input ''permissionId''), firstString (prop_get input ''toolCallId'')]
           in if direct \<noteq> None then direct
              else let toolCall = prop_get input ''toolCall''
                   in if \<not> is_record toolCall then None
                      else first_some [firstString (prop_get toolCall ''permissionId''), firstString (prop_get toolCall ''toolCallId'')])"

definition isPermissionRequestToolCall :: "string \<Rightarrow> jsval \<Rightarrow> bool" where
  "isPermissionRequestToolCall toolId' input =
     (case extractPermissionRequestId input of
        None \<Rightarrow> False
      | Some extracted \<Rightarrow>
          (if extracted \<noteq> toolId' then False
           else let toolCall = prop_get input ''toolCall'';
                    status = first_some [if is_record toolCall then firstString (prop_get toolCall ''status'') else None,
                                         firstString (prop_get input ''status'')]
                in status = Some ''pending'' \<or> is_record toolCall))"

section \<open>Results\<close>

definition coerceStreamingToolResultChunk :: "jsval \<Rightarrow> (string option \<times> string option) option" where
  "coerceStreamingToolResultChunk v =
     (if \<not> is_record v then None
      else let streamFlag = (prop_get v ''_stream'' = JBool True);
               stdoutChunk = str_of (prop_get v ''stdoutChunk'');
               stderrChunk = str_of (prop_get v ''stderrChunk'')
           in if \<not> streamFlag \<and> falsy_str stdoutChunk \<and> falsy_str stderrChunk then None
              else if falsy_str stdoutChunk \<and> falsy_str stderrChunk then None
              else Some (stdoutChunk, stderrChunk))"

definition append_stream :: "string \<Rightarrow> string option \<Rightarrow> (string \<times> jsval) list \<Rightarrow> (string \<times> jsval) list" where
  "append_stream key chunk base =
     (case chunk of None \<Rightarrow> base
      | Some c \<Rightarrow> AList.update key (JStr (some_or [] (str_of (fields_get base key)) @ c)) base)"

definition mergeStreamingChunkIntoResult :: "jsval \<Rightarrow> string option \<times> string option \<Rightarrow> jsval" where
  "mergeStreamingChunkIntoResult existing chunk =
     JObj (append_stream ''stderr'' (snd chunk)
       (append_stream ''stdout'' (fst chunk) (case existing of JObj m \<Rightarrow> m | _ \<Rightarrow> [])))"

definition keep_stream :: "string \<Rightarrow> (string \<times> jsval) list \<Rightarrow> (string \<times> jsval) list \<Rightarrow> (string \<times> jsval) list" where
  "keep_stream key prev out =
     (if str_of (fields_get out key) = None \<and> str_of (fields_get prev key) \<noteq> None
      then AList.update key (fields_get prev key) out else out)"

definition mergeExistingStdStreamsIntoFinalResultIfMissing :: "jsval \<Rightarrow> jsval \<Rightarrow> jsval" where
  "mergeExistingStdStreamsIntoFinalResultIfMissing existing nxt =
     (case (existing, nxt) of
        (JObj prev, JObj out) \<Rightarrow> JObj (keep_stream ''stderr'' prev (keep_stream ''stdout'' prev out))
      | _ \<Rightarrow> nxt)"

definition REQUEST_INTERRUPTED_REASON :: string where
  "REQUEST_INTERRUPTED_REASON = ''Request interrupted''"

definition isLegacyRequestInterruptedPlaceholder :: "tool_call \<Rightarrow> bool" where
  "isLegacyRequestInterruptedPlaceholder tool \<longleftrightarrow>
     toolState tool = Errored
     \<and> (prop_get (toolResult tool) ''error'' = JStr REQUEST_INTERRUPTED_REASON
        \<or> (case toolPermission tool of None \<Rightarrow> False | Some p \<Rightarrow> permReason p = Some REQUEST_INTERRUPTED_REASON))"

definition clearSyntheticInterruptionPermission :: "tool_call \<Rightarrow> tool_call" where
  "clearSyntheticInterruptionPermission tool =
     (case toolPermission tool of
        None \<Rightarrow> tool
      | Some p \<Rightarrow>
          if permReason p \<noteq> Some REQUEST_INTERRUPTED_REASON then tool
          else tool\<lparr>toolPermission := Some (p\<lparr>permStatus := Approved, permReason := None,
                 permDecision := (if permDecision p = Some DecidedAbort then None else permDecision p)\<rparr>)\<rparr>)"

definition isApprovedPlaceholder :: "tool_call \<Rightarrow> bool" where
  "isApprovedPlaceholder tool \<longleftrightarrow>
     toolState tool = Completed \<and> toolResult tool = JStr ''Approved''
     \<and> (case toolPermission tool of None \<Rightarrow> False | Some p \<Rightarrow> permStatus p = Approved)"

text \<open>A placeholder is set running again before a result is applied to it.\<close>

definition reopen :: "tool_call \<Rightarrow> tool_call" where
  "reopen tool =
     (let approved = isApprovedPlaceholder tool; unavailable = (toolState tool = Unavailable);
          interrupted = isLegacyRequestInterruptedPlaceholder tool
      in if \<not> (approved \<or> unavailable \<or> interrupted) then tool
         else let t1 = tool\<lparr>toolState := Running, toolCompletedAt := None\<rparr>;
                  t2 = (if approved \<or> interrupted then t1\<lparr>toolResult := JUndef\<rparr> else t1)
              in if interrupted then clearSyntheticInterruptionPermission t2 else t2)"

definition accepts_result :: "tool_call \<Rightarrow> bool" where
  "accepts_result tool \<longleftrightarrow> toolState tool = Running \<or> isApprovedPlaceholder tool
     \<or> toolState tool = Unavailable \<or> isLegacyRequestInterruptedPlaceholder tool"

definition result_permission :: "tool_result_update \<Rightarrow> tool_permission option \<Rightarrow> tool_permission option" where
  "result_permission upd existing =
     (case resultPermissions upd of
        None \<Rightarrow> existing
      | Some rp \<Rightarrow>
          let base = some_or (new_permission (resultToolId upd) Pending) existing
          in Some (base\<lparr>permId := resultToolId upd,
               permStatus := (if rpApproved rp then Approved else Denied),
               permDate := Some (rpDate rp), permMode := rpMode rp, permAllowedTools := rpAllowedTools rp,
               permDecision := (case rpDecision rp of Some d \<Rightarrow> Some d | None \<Rightarrow> permDecision base)\<rparr>))"

definition finish_tool :: "tool_result_update \<Rightarrow> rat \<Rightarrow> tool_call \<Rightarrow> tool_call" where
  "finish_tool upd at_time tool =
     tool\<lparr>toolState := (if resultIsError upd then Errored else Completed),
          toolResult := mergeExistingStdStreamsIntoFinalResultIfMissing (toolResult tool) (resultContent upd),
          toolCompletedAt := Some at_time,
          toolPermission := result_permission upd (toolPermission tool)\<rparr>"

text \<open>The tool after a result, or \<open>None\<close> if the result is ignored.\<close>

definition apply_result_to_tool :: "tool_result_update \<Rightarrow> rat \<Rightarrow> tool_call \<Rightarrow> tool_call option" where
  "apply_result_to_tool upd at_time tool =
     (if \<not> accepts_result tool then None
      else let open_tool = reopen tool
           in case coerceStreamingToolResultChunk (resultContent upd) of
                Some chunk \<Rightarrow> Some (open_tool\<lparr>toolResult := mergeStreamingChunkIntoResult (toolResult open_tool) chunk\<rparr>)
              | None \<Rightarrow> Some (finish_tool upd at_time open_tool))"

definition merge_meta :: "(string \<times> jsval) list option \<Rightarrow> reducer_message \<Rightarrow> reducer_message" where
  "merge_meta meta m =
     (case meta of None \<Rightarrow> m | Some new \<Rightarrow> m\<lparr>messageMeta := Some (obj_spread (some_or [] (messageMeta m)) new)\<rparr>)"

definition applyToolResultUpdateToReducerMessage ::
  "string \<Rightarrow> tool_result_update \<Rightarrow> rat \<Rightarrow> (string \<times> jsval) list option \<Rightarrow> reducer_state \<Rightarrow> reducer_state" where
  "applyToolResultUpdateToReducerMessage mid upd at_time meta st =
     (case map_of (messages st) mid of
        None \<Rightarrow> st
      | Some m \<Rightarrow>
          (case messageTool m of
             None \<Rightarrow> st
           | Some tool \<Rightarrow>
               (let m' = merge_meta meta m
                in case apply_result_to_tool upd at_time tool of
                     None \<Rightarrow> put_message mid m' st
                   | Some tool' \<Rightarrow> mark_changed mid (put_message mid (m'\<lparr>messageTool := Some tool'\<rparr>) st))))"

text \<open>The results buffered for a call are applied to its new message, oldest first.\<close>

definition drainAndApplyOrphanToolResultsToMessage ::
  "(string \<Rightarrow> string \<Rightarrow> rat) \<Rightarrow> string \<Rightarrow> string \<Rightarrow> reducer_state \<Rightarrow> reducer_state" where
  "drainAndApplyOrphanToolResultsToMessage lc toolUseId mid st =
     (let (rest, drained) = drainOrphanToolResults lc toolUseId (orphanToolResults st)
      in case drained of
           None \<Rightarrow> st
         | Some rs \<Rightarrow>
             foldl (\<lambda>s r. applyToolResultUpdateToReducerMessage mid (snd (payload r)) (bufferedAt r) (fst (payload r)) s)
               (st\<lparr>orphanToolResults := rest\<rparr>) rs)"

section \<open>Tool calls\<close>

text \<open>The numbered contents of an agent's message; other messages have none.\<close>

definition agent_content :: "traced_message \<Rightarrow> (nat \<times> message_content) list" where
  "agent_content msg = (case tracedPayload msg of FromAgent cs \<Rightarrow> enumerate 0 cs | _ \<Rightarrow> [])"

text \<open>Existing fields win, but the agent protocol's own metadata \<open>_acp\<close> follows the update.\<close>

definition merge_input :: "jsval \<Rightarrow> jsval \<Rightarrow> jsval" where
  "merge_input existing incoming =
     (case (existing, incoming) of
        (JObj existingObj, JObj incomingObj) \<Rightarrow>
          (let base = obj_spread incomingObj existingObj
           in case fields_get incomingObj ''_acp'' of
                JObj incomingAcp \<Rightarrow>
                  JObj (AList.update ''_acp''
                    (JObj (obj_spread (case fields_get existingObj ''_acp'' of JObj e \<Rightarrow> e | _ \<Rightarrow> []) incomingAcp)) base)
              | _ \<Rightarrow> JObj base)
      | _ \<Rightarrow> incoming)"

text \<open>The list of todos a running \<open>TodoWrite\<close> carries, if it is newer than the one known.\<close>

definition track_todos :: "tool_call \<Rightarrow> reducer_state \<Rightarrow> reducer_state" where
  "track_todos tool st =
     (if toolName tool = ''TodoWrite'' \<and> toolState tool = Running \<and> truthy (prop_get (toolInput tool) ''todos'')
         \<and> (case latestTodos st of None \<Rightarrow> True | Some (_, t) \<Rightarrow> t < toolCreatedAt tool)
      then st\<lparr>latestTodos := Some (prop_get (toolInput tool) ''todos'', toolCreatedAt tool)\<rparr> else st)"

definition rename_tool :: "string \<Rightarrow> string \<Rightarrow> string option \<Rightarrow> tool_call \<Rightarrow> tool_call" where
  "rename_tool cid name description tool =
     tool\<lparr>toolId := (if falsy_str (toolId tool) then Some cid else toolId tool),
          toolName := (if name \<noteq> [] \<and> toolName tool \<noteq> name then name else toolName tool),
          toolDescription := description\<rparr>"

definition take_input :: "string \<Rightarrow> jsval \<Rightarrow> tool_call \<Rightarrow> tool_call" where
  "take_input name input tool =
     (if input = JUndef then tool
      else let merged = merge_input (toolInput tool) input
           in if compareToolCalls (name, toolInput tool) (name, merged) then tool else tool\<lparr>toolInput := merged\<rparr>)"

text \<open>A call that asks for a permission waits for it; any other has started.\<close>

definition start_tool :: "rat \<Rightarrow> string \<Rightarrow> tool_call \<Rightarrow> tool_call" where
  "start_tool created cid tool =
     (if isPermissionRequestToolCall cid (toolInput tool)
      then (if toolPermission tool = None then tool\<lparr>toolPermission := Some (new_permission cid Pending)\<rparr> else tool)\<lparr>toolStartedAt := None\<rparr>
      else tool\<lparr>toolStartedAt := Some created\<rparr>)"

definition approved_tool :: "tool_call \<Rightarrow> bool" where
  "approved_tool tool \<longleftrightarrow> (case toolPermission tool of None \<Rightarrow> False | Some p \<Rightarrow> permStatus p = Approved)"

text \<open>If the permission was approved and shown as completed (no tool), now it is running.\<close>

definition restart_approved :: "tool_call \<Rightarrow> tool_call" where
  "restart_approved tool =
     (if approved_tool tool \<and> toolState tool = Completed
      then tool\<lparr>toolState := Running, toolCompletedAt := None, toolResult := JUndef\<rparr> else tool)"

definition update_tool ::
  "rat \<Rightarrow> string \<Rightarrow> string \<Rightarrow> jsval \<Rightarrow> string option \<Rightarrow> tool_call \<Rightarrow> tool_call" where
  "update_tool created cid name input description tool =
     restart_approved (start_tool created cid (take_input name input (rename_tool cid name description tool)))"

definition update_tool_message ::
  "traced_message \<Rightarrow> nat \<Rightarrow> string \<Rightarrow> string \<Rightarrow> string \<Rightarrow> jsval \<Rightarrow> string option \<Rightarrow> reducer_state \<Rightarrow> reducer_state" where
  "update_tool_message msg contentIndex mid cid name input description st =
     (case map_of (messages st) mid of
        None \<Rightarrow> st
      | Some m \<Rightarrow>
          (case messageTool m of
             None \<Rightarrow> st
           | Some tool \<Rightarrow>
               (let tool' = update_tool (tracedCreatedAt msg) cid name input description tool;
                    m' = m\<lparr>realId := Some (tracedId msg),
                           messageSeq := (case messageSeq m of None \<Rightarrow> normalizeTranscriptSeq (tracedSeq msg) | Some s \<Rightarrow> Some s),
                           blockIndex := (case blockIndex m of None \<Rightarrow> Some (transcriptBlockIndexFromContentIndex contentIndex) | Some b \<Rightarrow> Some b),
                           messageTool := Some tool'\<rparr>;
                    st1 = put_message mid m' (st\<lparr>messageIds := AList.update (tracedId msg) mid (messageIds st)\<rparr>)
                in track_todos tool' (mark_changed mid st1))))"

text \<open>A stored permission as it is shown at the tool, and what it makes of the tool.\<close>

definition permission_of_stored :: "string \<Rightarrow> stored_permission \<Rightarrow> tool_permission" where
  "permission_of_stored cid p =
     \<lparr>permId = cid, permStatus = storedStatus p, permKind = None, permReason = storedReason p, permMode = storedMode p,
      permAllowedTools = storedAllowedTools p, permDecision = storedDecision p, permDate = None,
      permSuggestions = storedSuggestions p\<rparr>"

definition new_tool ::
  "rat \<Rightarrow> string \<Rightarrow> string \<Rightarrow> jsval \<Rightarrow> string option \<Rightarrow> stored_permission option \<Rightarrow> tool_call" where
  "new_tool created cid name input description permission =
     (let base = \<lparr>toolId = Some cid, toolName = name, toolState = Running,
            toolInput = (case permission of None \<Rightarrow> input | Some p \<Rightarrow> storedArguments p),
            toolCreatedAt = (case permission of None \<Rightarrow> created | Some p \<Rightarrow> storedCreatedAt p),
            toolStartedAt = Some created, toolCompletedAt = None, toolDescription = description,
            toolResult = JUndef, toolPermission = None\<rparr>
      in case permission of
           None \<Rightarrow>
             if isPermissionRequestToolCall cid input
             then base\<lparr>toolStartedAt := None, toolPermission := Some (new_permission cid Pending)\<rparr> else base
         | Some p \<Rightarrow>
             (let shown = base\<lparr>toolPermission := Some (permission_of_stored cid p)\<rparr>
              in if storedStatus p = Approved then shown
                 else let failed = shown\<lparr>toolState := Errored,
                            toolCompletedAt := Some (case storedCompletedAt p of Some t \<Rightarrow> if t \<noteq> 0 then t else created | None \<Rightarrow> created)\<rparr>
                      in if falsy_str (storedReason p) then failed
                         else failed\<lparr>toolResult := JObj [(''error'', JStr (the (storedReason p)))]\<rparr>))"

definition new_tool_message :: "string \<Rightarrow> traced_message \<Rightarrow> nat \<Rightarrow> tool_call \<Rightarrow> reducer_message" where
  "new_tool_message mid msg contentIndex tool =
     \<lparr>messageId = mid, realId = Some (tracedId msg), messageSeq = normalizeTranscriptSeq (tracedSeq msg),
      blockIndex = Some (transcriptBlockIndexFromContentIndex contentIndex),
      messageLocalId = tracedLocalId msg, messageCreatedAt = tracedCreatedAt msg, messageRole = AgentRole,
      messageBody = None, messageThinking = False, messageEvent = None, messageTool = Some tool,
      messageMeta = tracedMeta msg\<rparr>"

definition create_tool_message ::
  "(nat \<Rightarrow> string) \<Rightarrow> (string \<Rightarrow> string \<Rightarrow> rat) \<Rightarrow> traced_message \<Rightarrow> nat \<Rightarrow> string \<Rightarrow> string \<Rightarrow> jsval \<Rightarrow> string option \<Rightarrow>
   reducer_state \<Rightarrow> reducer_state" where
  "create_tool_message alloc lc msg contentIndex cid name input description st =
     (let permission = map_of (permissions st) cid;
          tool = new_tool (tracedCreatedAt msg) cid name input description permission;
          st1 = (if permission = None \<and> isPermissionRequestToolCall cid input
                 then st\<lparr>permissions := AList.update cid
                        \<lparr>storedTool = name, storedArguments = input, storedCreatedAt = tracedCreatedAt msg,
                         storedCompletedAt = None, storedStatus = Pending, storedReason = None, storedMode = None,
                         storedAllowedTools = None, storedSuggestions = None, storedDecision = None\<rparr> (permissions st)\<rparr>
                 else st);
          mid = alloc (allocated st1);
          st2 = put_message mid (new_tool_message mid msg contentIndex tool) (st1\<lparr>allocated := Suc (allocated st1)\<rparr>);
          st3 = mark_changed mid (st2\<lparr>messageIds := AList.update (tracedId msg) mid (messageIds st2),
                                       thinkingMergeCursor := None,
                                       toolIdToMessageId := AList.update cid mid (toolIdToMessageId st2)\<rparr>);
          st4 = drainAndApplyOrphanToolResultsToMessage lc cid mid st3
      in case map_of (messages st4) mid of
           None \<Rightarrow> st4
         | Some m \<Rightarrow> (case messageTool m of None \<Rightarrow> st4 | Some tool' \<Rightarrow> track_todos tool' st4))"

definition tool_call_content ::
  "(nat \<Rightarrow> string) \<Rightarrow> (string \<Rightarrow> string \<Rightarrow> rat) \<Rightarrow> traced_message \<Rightarrow> reducer_state \<Rightarrow> nat \<times> message_content \<Rightarrow> reducer_state" where
  "tool_call_content alloc lc msg st ic =
     (case snd ic of
        ToolCallContent cid name input description \<Rightarrow>
          (case map_of (toolIdToMessageId st) cid of
             Some mid \<Rightarrow> update_tool_message msg (fst ic) mid cid name input description st
           | None \<Rightarrow> create_tool_message alloc lc msg (fst ic) cid name input description st)
      | _ \<Rightarrow> st)"

definition runToolCallsPhase ::
  "(nat \<Rightarrow> string) \<Rightarrow> (string \<Rightarrow> string \<Rightarrow> rat) \<Rightarrow> traced_message list \<Rightarrow> reducer_state \<Rightarrow> reducer_state" where
  "runToolCallsPhase alloc lc msgs st =
     foldl (\<lambda>s msg. foldl (tool_call_content alloc lc msg) s (agent_content msg)) st msgs"

section \<open>Tool results\<close>

definition tool_result_content :: "rat \<Rightarrow> traced_message \<Rightarrow> reducer_state \<Rightarrow> nat \<times> message_content \<Rightarrow> reducer_state" where
  "tool_result_content now msg st ic =
     (case snd ic of
        ToolResultContent upd \<Rightarrow>
          (let mid = map_of (toolIdToMessageId st) (resultToolId upd)
           in if falsy_str mid
              then st\<lparr>orphanToolResults := bufferOrphanToolResult now (resultToolId upd)
                       \<lparr>bufferKey = tracedId msg @ '':'' @ string_of_nat (fst ic), bufferedAt = tracedCreatedAt msg,
                        payload = (tracedMeta msg, upd)\<rparr> (orphanToolResults st)\<rparr>
              else applyToolResultUpdateToReducerMessage (the mid) upd (tracedCreatedAt msg) (tracedMeta msg) st)
      | _ \<Rightarrow> st)"

definition runToolResultsPhase :: "rat \<Rightarrow> traced_message list \<Rightarrow> reducer_state \<Rightarrow> reducer_state" where
  "runToolResultsPhase now msgs st =
     foldl (\<lambda>s msg. foldl (tool_result_content now msg) s (agent_content msg)) st msgs"

section \<open>Calls whose turn has ended\<close>

definition isSubAgentTranscriptToolName :: "string \<Rightarrow> bool" where
  "isSubAgentTranscriptToolName name \<longleftrightarrow> name \<in> {''SubAgentRun'', ''SubAgent'', ''Task'', ''Agent''}"

definition collectSubagentSidechainIds :: "string \<Rightarrow> tool_call \<Rightarrow> string list" where
  "collectSubagentSidechainIds mid tool =
     oset_of (concat (map (\<lambda>v. case v of None \<Rightarrow> [] | Some s \<Rightarrow> if trim s = [] then [] else [trim s])
       [toolId tool, Some mid,
        firstString (prop_get (toolInput tool) ''sidechainId''), firstString (prop_get (toolInput tool) ''callId''),
        firstString (prop_get (toolResult tool) ''sidechainId''), firstString (prop_get (toolResult tool) ''callId'')]))"

definition hasLinkedSubagentSidechainActivity :: "(string \<Rightarrow> nat) \<Rightarrow> string \<Rightarrow> tool_call \<Rightarrow> bool" where
  "hasLinkedSubagentSidechainActivity lengths mid tool \<longleftrightarrow>
     isSubAgentTranscriptToolName (toolName tool) \<and> list_ex (\<lambda>i. 0 < lengths i) (collectSubagentSidechainIds mid tool)"

definition ends_with_turn :: "(string \<Rightarrow> nat) \<Rightarrow> int \<Rightarrow> string \<Rightarrow> tool_call \<Rightarrow> bool" where
  "ends_with_turn lengths completedAt mid tool \<longleftrightarrow>
     toolState tool = Running \<and> toolStartedAt tool \<noteq> None \<and> \<not> of_int completedAt < toolCreatedAt tool
     \<and> \<not> hasLinkedSubagentSidechainActivity lengths mid tool"

definition unavailable_message :: "(string \<Rightarrow> nat) \<Rightarrow> int \<Rightarrow> string \<times> reducer_message \<Rightarrow> (string \<times> reducer_message) option" where
  "unavailable_message lengths completedAt im =
     (case messageTool (snd im) of
        None \<Rightarrow> None
      | Some tool \<Rightarrow>
          if ends_with_turn lengths completedAt (fst im) tool
          then Some (fst im, (snd im)\<lparr>messageTool := Some (tool\<lparr>toolState := Unavailable, toolCompletedAt := Some (of_int completedAt)\<rparr>)\<rparr>)
          else None)"

definition markRunningToolsUnavailable :: "jsnum \<Rightarrow> reducer_state \<Rightarrow> reducer_state" where
  "markRunningToolsUnavailable completed st =
     (case normalizeTranscriptSeq (Some completed) of
        None \<Rightarrow> st
      | Some completedAt \<Rightarrow>
          let mark = unavailable_message (sidechainLengths st) completedAt
          in st\<lparr>messages := map (\<lambda>im. some_or im (mark im)) (messages st),
                changed := oset_adds (changed st) (map fst (filter (\<lambda>im. mark im \<noteq> None) (messages st)))\<rparr>)"

section \<open>What the operations leave alone\<close>

named_theorems tool_frame \<open>fields that an operation does not touch\<close>

text \<open>What the invariant says of the sidechains: the chains and the index of their tools.\<close>

definition side :: "reducer_state \<Rightarrow> (string \<times> string list) list \<times> (string \<times> string) list" where
  "side st = (sidechains st, sidechainToolIdToMessageId st)"

lemma side_updates [simp]:
  "side (st\<lparr>toolIdToMessageId := a\<rparr>) = side st" "side (st\<lparr>permissions := b\<rparr>) = side st"
  "side (st\<lparr>orphanToolResults := c\<rparr>) = side st" "side (st\<lparr>localIds := d\<rparr>) = side st"
  "side (st\<lparr>messageIds := d\<rparr>) = side st" "side (st\<lparr>messages := e\<rparr>) = side st"
  "side (st\<lparr>sidechainThinkingMergeCursors := f\<rparr>) = side st" "side (st\<lparr>tracerState := g\<rparr>) = side st"
  "side (st\<lparr>latestTodos := h\<rparr>) = side st" "side (st\<lparr>latestUsage := j\<rparr>) = side st"
  "side (st\<lparr>streamMergeCursor := k\<rparr>) = side st" "side (st\<lparr>thinkingMergeCursor := l\<rparr>) = side st"
  "side (st\<lparr>thinkingSegments := n\<rparr>) = side st" "side (st\<lparr>allocated := o'\<rparr>) = side st" "side (st\<lparr>changed := p\<rparr>) = side st"
  by (simp_all add: side_def)

lemma side_lengths: "side st' = side st \<Longrightarrow> sidechainLengths st' = sidechainLengths st"
  by (simp add: side_def sidechainLengths_def chain_of_def fun_eq_iff)

lemma put_message_frame [tool_frame]:
  "toolIdToMessageId (put_message i m st) = toolIdToMessageId st" "permissions (put_message i m st) = permissions st"
  "orphanToolResults (put_message i m st) = orphanToolResults st" "allocated (put_message i m st) = allocated st"
  "localIds (put_message i m st) = localIds st"
  "side (put_message i m st) = side st" "latestTodos (put_message i m st) = latestTodos st"
  "map_of (messages (put_message i m st)) = (map_of (messages st))(i \<mapsto> m)"
  by (simp_all add: put_message_def update_conv')

lemma mark_changed_frame [tool_frame]:
  "toolIdToMessageId (mark_changed i st) = toolIdToMessageId st" "permissions (mark_changed i st) = permissions st"
  "orphanToolResults (mark_changed i st) = orphanToolResults st" "allocated (mark_changed i st) = allocated st"
  "localIds (mark_changed i st) = localIds st"
  "side (mark_changed i st) = side st" "latestTodos (mark_changed i st) = latestTodos st"
  "messages (mark_changed i st) = messages st"
  by (simp_all add: mark_changed_def)

lemma track_todos_frame [tool_frame]:
  "toolIdToMessageId (track_todos t st) = toolIdToMessageId st" "permissions (track_todos t st) = permissions st"
  "orphanToolResults (track_todos t st) = orphanToolResults st" "allocated (track_todos t st) = allocated st"
  "messages (track_todos t st) = messages st" "localIds (track_todos t st) = localIds st" "side (track_todos t st) = side st"
  by (simp_all add: track_todos_def)

text \<open>The message after a result, whether the tool takes it or not.\<close>

definition result_message :: "tool_result_update \<Rightarrow> rat \<Rightarrow> (string \<times> jsval) list option \<Rightarrow> reducer_message \<Rightarrow> reducer_message" where
  "result_message upd at_time meta m =
     (case messageTool m of
        None \<Rightarrow> m
      | Some tool \<Rightarrow>
          (case apply_result_to_tool upd at_time tool of
             None \<Rightarrow> merge_meta meta m
           | Some tool' \<Rightarrow> (merge_meta meta m)\<lparr>messageTool := Some tool'\<rparr>))"

lemma apply_result_frame [tool_frame]:
  "toolIdToMessageId (applyToolResultUpdateToReducerMessage i u t meta st) = toolIdToMessageId st"
  "permissions (applyToolResultUpdateToReducerMessage i u t meta st) = permissions st"
  "orphanToolResults (applyToolResultUpdateToReducerMessage i u t meta st) = orphanToolResults st"
  "allocated (applyToolResultUpdateToReducerMessage i u t meta st) = allocated st"
  "latestTodos (applyToolResultUpdateToReducerMessage i u t meta st) = latestTodos st"
  "localIds (applyToolResultUpdateToReducerMessage i u t meta st) = localIds st"
  "side (applyToolResultUpdateToReducerMessage i u t meta st) = side st"
  by (simp_all add: applyToolResultUpdateToReducerMessage_def Let_def tool_frame split: option.splits)

lemma apply_result_messages [tool_frame]:
  "map_of (messages (applyToolResultUpdateToReducerMessage i u t meta st))
     = (map_of (messages st))(i := map_option (result_message u t meta) (map_of (messages st) i))"
  by (auto simp: applyToolResultUpdateToReducerMessage_def result_message_def Let_def tool_frame fun_eq_iff split: option.splits)

definition buffered_message :: "buffered_result buffered list \<Rightarrow> reducer_message \<Rightarrow> reducer_message" where
  "buffered_message rs m = foldl (\<lambda>m r. result_message (snd (payload r)) (bufferedAt r) (fst (payload r)) m) m rs"

definition apply_buffered :: "string \<Rightarrow> buffered_result buffered list \<Rightarrow> reducer_state \<Rightarrow> reducer_state" where
  "apply_buffered i rs st =
     foldl (\<lambda>s r. applyToolResultUpdateToReducerMessage i (snd (payload r)) (bufferedAt r) (fst (payload r)) s) st rs"

lemma apply_buffered_frame [tool_frame]:
  "toolIdToMessageId (apply_buffered i rs st) = toolIdToMessageId st"
  "permissions (apply_buffered i rs st) = permissions st"
  "orphanToolResults (apply_buffered i rs st) = orphanToolResults st"
  "allocated (apply_buffered i rs st) = allocated st"
  "latestTodos (apply_buffered i rs st) = latestTodos st"
  "localIds (apply_buffered i rs st) = localIds st"
  "side (apply_buffered i rs st) = side st"
  by (induction rs arbitrary: st) (simp_all add: apply_buffered_def tool_frame)

lemma apply_buffered_messages [tool_frame]:
  "map_of (messages (apply_buffered i rs st))
     = (map_of (messages st))(i := map_option (buffered_message rs) (map_of (messages st) i))"
proof (induction rs arbitrary: st)
  case Nil
  then show ?case by (auto simp: apply_buffered_def buffered_message_def option.map_ident)
next
  case (Cons r rs)
  have "map_of (messages (apply_buffered i (r # rs) st))
      = map_of (messages (apply_buffered i rs
          (applyToolResultUpdateToReducerMessage i (snd (payload r)) (bufferedAt r) (fst (payload r)) st)))"
    by (simp add: apply_buffered_def)
  also have "\<dots> = (map_of (messages st))(i := map_option (buffered_message (r # rs)) (map_of (messages st) i))"
    unfolding Cons.IH by (simp add: tool_frame option.map_comp comp_def buffered_message_def [of "r # rs", abs_def] buffered_message_def [of rs, abs_def])
  finally show ?case .
qed

lemma drain_alt:
  "drainAndApplyOrphanToolResultsToMessage lc k i st =
     apply_buffered i (some_or [] (snd (drainOrphanToolResults lc k (orphanToolResults st))))
       (st\<lparr>orphanToolResults := AList.delete k (orphanToolResults st)\<rparr>)"
proof (cases "map_of (orphanToolResults st) k")
  case None
  then have "AList.delete k (orphanToolResults st) = orphanToolResults st"
    by (intro delete_not_key) (simp add: map_of_eq_None_iff)
  then show ?thesis using None
    by (simp add: drainAndApplyOrphanToolResultsToMessage_def drainOrphanToolResults_def apply_buffered_def)
qed (simp add: drainAndApplyOrphanToolResultsToMessage_def drainOrphanToolResults_def apply_buffered_def)

section \<open>Identity of tools and messages\<close>

lemma clear_synthetic_tool:
  "toolId (clearSyntheticInterruptionPermission t) = toolId t"
  "toolCreatedAt (clearSyntheticInterruptionPermission t) = toolCreatedAt t"
  by (simp_all add: clearSyntheticInterruptionPermission_def split: option.splits)

lemma apply_result_tool:
  "apply_result_to_tool u t tool = Some tool' \<Longrightarrow> toolId tool' = toolId tool \<and> toolCreatedAt tool' = toolCreatedAt tool"
  by (auto simp: apply_result_to_tool_def Let_def reopen_def finish_tool_def clear_synthetic_tool split: if_splits option.splits)

text \<open>
  What a message keeps: its identity and creation data, and its place once it has one. A text that is
  streamed may move on to a later number; a tool stays where it is.
\<close>

definition seq_grows :: "int option \<Rightarrow> int option \<Rightarrow> bool" where
  "seq_grows a b \<longleftrightarrow> (case a of None \<Rightarrow> True | Some s \<Rightarrow> (case b of None \<Rightarrow> False | Some t \<Rightarrow> s \<le> t))"

definition same_tool :: "reducer_message \<Rightarrow> reducer_message \<Rightarrow> bool" where
  "same_tool m m' \<longleftrightarrow>
     map_option toolCreatedAt (messageTool m') = map_option toolCreatedAt (messageTool m)
     \<and> (messageTool m \<noteq> None \<longrightarrow> messageBody m' = messageBody m \<and> (messageSeq m = None \<or> messageSeq m' = messageSeq m))"

definition same_creation :: "reducer_message \<Rightarrow> reducer_message \<Rightarrow> bool" where
  "same_creation m m' \<longleftrightarrow>
     messageId m' = messageId m \<and> messageLocalId m' = messageLocalId m \<and> messageCreatedAt m' = messageCreatedAt m
     \<and> messageRole m' = messageRole m \<and> messageThinking m' = messageThinking m \<and> messageEvent m' = messageEvent m
     \<and> seq_grows (messageSeq m) (messageSeq m')
     \<and> (blockIndex m = None \<or> blockIndex m' = blockIndex m)
     \<and> same_tool m m'"

lemma seq_grows_refl [simp]: "seq_grows a a"
  by (simp add: seq_grows_def split: option.splits)

lemma seq_grows_trans: "seq_grows a b \<Longrightarrow> seq_grows b c \<Longrightarrow> seq_grows a c"
  by (auto simp: seq_grows_def split: option.splits)

definition tool_id_of :: "reducer_message \<Rightarrow> string option" where
  "tool_id_of m = (case messageTool m of None \<Rightarrow> None | Some t \<Rightarrow> toolId t)"

lemma same_creation_refl [simp]: "same_creation m m"
  by (simp add: same_creation_def same_tool_def)

lemma same_creation_trans: "same_creation a b \<Longrightarrow> same_creation b c \<Longrightarrow> same_creation a c"
  unfolding same_creation_def same_tool_def by (auto intro: seq_grows_trans)

lemma merge_meta_fields [simp]:
  "messageTool (merge_meta meta m) = messageTool m" "same_creation m (merge_meta meta m)"
  by (simp_all add: merge_meta_def same_creation_def same_tool_def split: option.splits)

lemma result_message_keeps:
  "same_creation m (result_message u t meta m) \<and> tool_id_of (result_message u t meta m) = tool_id_of m"
  using apply_result_tool [of u t]
  by (fastforce simp: result_message_def tool_id_of_def same_creation_def same_tool_def merge_meta_def split: option.splits)

lemma buffered_message_keeps:
  "same_creation m (buffered_message rs m) \<and> tool_id_of (buffered_message rs m) = tool_id_of m"
  by (induction rs rule: rev_induct)
     (auto simp: buffered_message_def result_message_keeps intro: same_creation_trans [OF _ result_message_keeps [THEN conjunct1]])

section \<open>The invariant\<close>

definition id_supply :: "(nat \<Rightarrow> string) \<Rightarrow> bool" where
  "id_supply alloc \<longleftrightarrow> inj alloc \<and> (\<forall>n. alloc n \<noteq> [])"

definition tools_ok :: "reducer_state \<Rightarrow> bool" where
  "tools_ok st \<longleftrightarrow> (\<forall>k i. map_of (toolIdToMessageId st) k = Some i \<longrightarrow>
     (\<exists>m. map_of (messages st) i = Some m \<and> tool_id_of m = Some k))"

definition pending_ok :: "reducer_state \<Rightarrow> bool" where
  "pending_ok st \<longleftrightarrow> (\<forall>k p. map_of (permissions st) k = Some p \<longrightarrow> storedStatus p = Pending \<longrightarrow>
     map_of (toolIdToMessageId st) k \<noteq> None)"

definition waiting_ok :: "reducer_state \<Rightarrow> bool" where
  "waiting_ok st \<longleftrightarrow> (\<forall>k. map_of (toolIdToMessageId st) k \<noteq> None \<longrightarrow> map_of (orphanToolResults st) k = None)"

definition ids_ok :: "(nat \<Rightarrow> string) \<Rightarrow> reducer_state \<Rightarrow> bool" where
  "ids_ok alloc st \<longleftrightarrow> (\<forall>i m. map_of (messages st) i = Some m \<longrightarrow> messageId m = i \<and> (\<exists>n<allocated st. i = alloc n))"

text \<open>A message shows a tool or a text; the local ids of streamed segments lead to texts.\<close>

definition texts_ok :: "reducer_state \<Rightarrow> bool" where
  "texts_ok st \<longleftrightarrow>
     (\<forall>i m. map_of (messages st) i = Some m \<longrightarrow> messageTool m = None \<or> messageBody m = None)
     \<and> (\<forall>k i. map_of (localIds st) k = Some i \<longrightarrow> (\<exists>m. map_of (messages st) i = Some m \<and> messageTool m = None))"

text \<open>
  The messages of the sidechains: each is in one place of one chain, none is reached by the index of the
  main transcript, and the index of the sidechains leads to messages of chains that show its tool.
\<close>

definition children_of :: "(string \<times> string list) list \<Rightarrow> string list" where
  "children_of cs = concat (map snd cs)"

definition chains_inv ::
  "(string \<times> string list) list \<times> (string \<times> string) list \<Rightarrow> (string \<Rightarrow> reducer_message option) \<Rightarrow> (string \<Rightarrow> string option) \<Rightarrow> bool" where
  "chains_inv s msgs index \<longleftrightarrow>
     obj_wf (fst s) \<and> distinct (children_of (fst s))
     \<and> (\<forall>i. i \<in> set (children_of (fst s)) \<longrightarrow> msgs i \<noteq> None)
     \<and> (\<forall>k i. index k = Some i \<longrightarrow> i \<notin> set (children_of (fst s)))
     \<and> (\<forall>k i. map_of (snd s) k = Some i \<longrightarrow> i \<in> set (children_of (fst s)) \<and> map_option tool_id_of (msgs i) = Some (Some k))"

definition chains_ok :: "reducer_state \<Rightarrow> bool" where
  "chains_ok st \<longleftrightarrow> chains_inv (side st) (map_of (messages st)) (map_of (toolIdToMessageId st))"

lemma chains_inv_rewrite:
  assumes "chains_inv s msgs index" and "\<And>i m. msgs i = Some m \<Longrightarrow> tool_id_of (f i m) = tool_id_of m"
  shows "chains_inv s (\<lambda>i. map_option (f i) (msgs i)) index"
proof -
  have "map_option tool_id_of (map_option (f i) (msgs i)) = map_option tool_id_of (msgs i)" for i
    using assms(2) by (cases "msgs i") simp_all
  then show ?thesis using assms(1) by (simp add: chains_inv_def del: option.map_comp)
qed

lemma chains_inv_fresh: "chains_inv s msgs index \<Longrightarrow> msgs i = None \<Longrightarrow> i \<notin> set (children_of (fst s))"
  unfolding chains_inv_def by auto

lemma chains_inv_create:
  assumes "chains_inv s msgs index" and "msgs i = None" and "\<And>k j. index' k = Some j \<Longrightarrow> j = i \<or> index k = Some j"
  shows "chains_inv s (msgs(i \<mapsto> m)) index'"
proof -
  have fresh: "i \<notin> set (children_of (fst s))" using assms(1,2) by (rule chains_inv_fresh)
  have "k \<notin> set (children_of (fst s))" if "index' j = Some k" for j k
    using assms(1) assms(3) [OF that] fresh unfolding chains_inv_def by blast
  moreover have "(msgs(i \<mapsto> m)) k = msgs k" if "k \<in> set (children_of (fst s))" for k
    using that fresh by auto
  ultimately show ?thesis using assms(1) by (simp add: chains_inv_def del: fun_upd_apply)
qed

lemma chains_inv_add: "chains_inv s msgs index \<Longrightarrow> msgs i = None \<Longrightarrow> chains_inv s (msgs(i \<mapsto> m)) index"
  by (erule chains_inv_create) simp_all

definition state_ok :: "(nat \<Rightarrow> string) \<Rightarrow> reducer_state \<Rightarrow> bool" where
  "state_ok alloc st \<longleftrightarrow>
     tools_ok st \<and> pending_ok st \<and> waiting_ok st \<and> ids_ok alloc st \<and> texts_ok st \<and> orphans_ok (orphanToolResults st)
     \<and> chains_ok st"

definition keeps :: "reducer_state \<Rightarrow> reducer_state \<Rightarrow> bool" where
  "keeps st st' \<longleftrightarrow> (\<forall>i m. map_of (messages st) i = Some m \<longrightarrow>
     (\<exists>m'. map_of (messages st') i = Some m' \<and> same_creation m m'))"

lemma keeps_refl: "keeps st st"
  by (simp add: keeps_def)

lemma keeps_trans: "keeps a b \<Longrightarrow> keeps b c \<Longrightarrow> keeps a c"
  unfolding keeps_def by (meson same_creation_trans)

text \<open>
  The contract of the reducer's phases: each step keeps an invariant and relates the old state to the
  new one; so does every sequence of steps.
\<close>

locale keeping =
  fixes step :: "'s \<Rightarrow> 'e \<Rightarrow> 's" and inv :: "'s \<Rightarrow> bool" and rel :: "'s \<Rightarrow> 's \<Rightarrow> bool"
  assumes step_keeps: "inv s \<Longrightarrow> inv (step s e) \<and> rel s (step s e)"
    and rel_refl: "rel s s"
    and rel_trans: "rel a b \<Longrightarrow> rel b c \<Longrightarrow> rel a c"
begin

lemma run_keeps: "inv s \<Longrightarrow> inv (foldl step s es) \<and> rel s (foldl step s es)"
proof (induction es arbitrary: s)
  case (Cons e es)
  then show ?case using step_keeps [of s e] rel_trans by (metis foldl_Cons)
qed (simp add: rel_refl)

end

lemma keeping_messages:
  "(\<And>s e. state_ok alloc s \<Longrightarrow> state_ok alloc (step s e) \<and> keeps s (step s e)) \<Longrightarrow> keeping step (state_ok alloc) keeps"
  by unfold_locales (auto intro: keeps_refl keeps_trans)

text \<open>A step that rewrites messages in place.\<close>

lemma state_ok_rewrite:
  assumes "state_ok alloc st"
    and "toolIdToMessageId st' = toolIdToMessageId st" "permissions st' = permissions st"
    and "orphanToolResults st' = orphanToolResults st" "allocated st' = allocated st" "localIds st' = localIds st"
    "side st' = side st"
    and "map_of (messages st') = (\<lambda>i. map_option (f i) (map_of (messages st) i))"
    and "\<And>i m. map_of (messages st) i = Some m \<Longrightarrow> same_creation m (f i m) \<and> tool_id_of (f i m) = tool_id_of m"
  shows "state_ok alloc st' \<and> keeps st st'"
proof -
  have "tools_ok st'"
    using assms(1,9) by (fastforce simp: state_ok_def tools_ok_def assms(2,8))
  moreover have "ids_ok alloc st'"
    using assms(1,9) by (fastforce simp: state_ok_def ids_ok_def assms(5,8) same_creation_def)
  moreover have "texts_ok st'"
  proof -
    have texts: "texts_ok st" using assms(1) by (simp add: state_ok_def)
    have "messageTool m' = None \<or> messageBody m' = None" if h: "map_of (messages st') i = Some m'" for i m'
    proof -
      obtain m where m: "map_of (messages st) i = Some m" "m' = f i m" using h by (auto simp: assms(8))
      moreover have "messageTool m = None \<or> messageBody m = None" using texts m(1) by (simp add: texts_ok_def)
      ultimately show ?thesis using assms(9) [OF m(1)] by (auto simp: same_creation_def same_tool_def)
    qed
    moreover have "\<exists>m'. map_of (messages st') i = Some m' \<and> messageTool m' = None" if l: "map_of (localIds st) k = Some i" for k i
    proof -
      obtain m where m: "map_of (messages st) i = Some m" "messageTool m = None" using texts l unfolding texts_ok_def by blast
      then show ?thesis using assms(9) [OF m(1)] by (simp add: assms(8) same_creation_def same_tool_def)
    qed
    ultimately show ?thesis by (simp add: texts_ok_def assms(6))
  qed
  moreover have "pending_ok st'" "waiting_ok st'" "orphans_ok (orphanToolResults st')"
    using assms(1) by (simp_all add: state_ok_def pending_ok_def waiting_ok_def assms(2-4))
  moreover have "keeps st st'" using assms(9) by (simp add: keeps_def assms(8))
  moreover have "chains_ok st'"
    using assms(1) chains_inv_rewrite [of "side st" "map_of (messages st)" "map_of (toolIdToMessageId st)" f] assms(9)
    by (simp add: state_ok_def chains_ok_def assms(2,7,8))
  ultimately show ?thesis by (simp add: state_ok_def)
qed

lemma state_ok_rewrite_one:
  assumes "state_ok alloc st"
    and "toolIdToMessageId st' = toolIdToMessageId st" "permissions st' = permissions st"
    and "orphanToolResults st' = orphanToolResults st" "allocated st' = allocated st" "localIds st' = localIds st"
    "side st' = side st"
    and "map_of (messages st') = (map_of (messages st))(i := map_option f (map_of (messages st) i))"
    and "\<And>m. map_of (messages st) i = Some m \<Longrightarrow> same_creation m (f m) \<and> tool_id_of (f m) = tool_id_of m"
  shows "state_ok alloc st' \<and> keeps st st'"
proof (rule state_ok_rewrite [OF assms(1-7), where f = "\<lambda>j. if j = i then f else id"])
  show "map_of (messages st') = (\<lambda>j. map_option (if j = i then f else id) (map_of (messages st) j))"
    by (auto simp: assms(8) fun_eq_iff option.map_id)
  show "\<And>j m. map_of (messages st) j = Some m \<Longrightarrow>
      same_creation m ((if j = i then f else id) m) \<and> tool_id_of ((if j = i then f else id) m) = tool_id_of m"
    using assms(9) by auto
qed

lemma unused_id:
  assumes "state_ok alloc st" and "id_supply alloc"
  shows "map_of (messages st) (alloc (allocated st)) = None"
proof (rule ccontr)
  assume "map_of (messages st) (alloc (allocated st)) \<noteq> None"
  then obtain n where "n < allocated st" "alloc (allocated st) = alloc n" using assms(1) by (auto simp: state_ok_def ids_ok_def)
  then show False using assms(2) by (auto simp: id_supply_def inj_def)
qed

text \<open>A step that adds a message outside the index of the main transcript.\<close>

lemma state_ok_new:
  assumes ok: "state_ok alloc st" and alloc: "id_supply alloc"
    and mid: "i = alloc (allocated st)" and m: "messageId m = i" "messageTool m = None \<or> messageBody m = None"
    and st': "toolIdToMessageId st' = toolIdToMessageId st" "permissions st' = permissions st"
      "orphanToolResults st' = orphanToolResults st" "allocated st' = Suc (allocated st)"
      "map_of (messages st') = (map_of (messages st))(i \<mapsto> m)" "side st' = side st"
      "\<And>k j. map_of (localIds st') k = Some j \<Longrightarrow> (j = i \<and> messageTool m = None) \<or> map_of (localIds st) k = Some j"
  shows "state_ok alloc st' \<and> keeps st st'"
proof -
  have fresh: "map_of (messages st) i = None" using unused_id [OF ok alloc] mid by simp
  then have "map_of (toolIdToMessageId st) j \<noteq> Some i" for j
    using ok unfolding state_ok_def tools_ok_def by (metis option.distinct(1))
  then have "tools_ok st'"
    using ok by (auto simp: tools_ok_def state_ok_def st')
  moreover have "ids_ok alloc st'"
    using ok m(1) mid by (auto simp: state_ok_def ids_ok_def st' less_Suc_eq)
  moreover have "texts_ok st'"
  proof -
    have texts: "texts_ok st" using ok by (simp add: state_ok_def)
    have "\<exists>m'. map_of (messages st') j = Some m' \<and> messageTool m' = None" if h: "map_of (localIds st') k = Some j" for k j
    proof (cases "j = i \<and> messageTool m = None")
      case False
      then have "map_of (localIds st) k = Some j" using st'(7) [OF h] by blast
      then obtain m' where "map_of (messages st) j = Some m'" "messageTool m' = None"
        using texts unfolding texts_ok_def by blast
      then show ?thesis using fresh by (auto simp: st'(5))
    qed (simp add: st'(5))
    moreover have "messageTool m' = None \<or> messageBody m' = None" if "map_of (messages st') j = Some m'" for j m'
      using texts that m(2) by (auto simp: texts_ok_def st'(5) split: if_splits)
    ultimately show ?thesis by (simp add: texts_ok_def)
  qed
  moreover have "pending_ok st'" "waiting_ok st'" "orphans_ok (orphanToolResults st')"
    using ok by (simp_all add: state_ok_def pending_ok_def waiting_ok_def st')
  moreover have "chains_ok st'"
    using ok chains_inv_add [where msgs = "map_of (messages st)" and i = i] fresh by (simp add: state_ok_def chains_ok_def st')
  moreover have "keeps st st'" using fresh by (auto simp: keeps_def st')
  ultimately show ?thesis by (simp add: state_ok_def)
qed

lemma state_ok_add:
  assumes "state_ok alloc st" and "id_supply alloc"
    and "i = alloc (allocated st)" and "messageId m = i" "messageTool m = None"
    and "toolIdToMessageId st' = toolIdToMessageId st" "permissions st' = permissions st"
      "orphanToolResults st' = orphanToolResults st" "allocated st' = Suc (allocated st)"
      "map_of (messages st') = (map_of (messages st))(i \<mapsto> m)" "side st' = side st"
      "\<And>k j. map_of (localIds st') k = Some j \<Longrightarrow> j = i \<or> map_of (localIds st) k = Some j"
  shows "state_ok alloc st' \<and> keeps st st'"
  by (rule state_ok_new [where i = i and m = m]) (use assms in auto)

text \<open>A step that adds a message for a new tool, with the results that wait for it.\<close>

lemma state_ok_create:
  assumes ok: "state_ok alloc st" and alloc: "id_supply alloc" and new: "map_of (toolIdToMessageId st) k = None"
    and mid: "i = alloc (allocated st)" and m: "messageId m = i" "tool_id_of m = Some k" "messageBody m = None"
    and st3: "toolIdToMessageId st3 = AList.update k i (toolIdToMessageId st)"
      "\<And>j. j \<noteq> k \<Longrightarrow> map_of (permissions st3) j = map_of (permissions st) j"
      "orphanToolResults st3 = orphanToolResults st" "allocated st3 = Suc (allocated st)"
      "map_of (messages st3) = (map_of (messages st))(i \<mapsto> m)" "localIds st3 = localIds st" "side st3 = side st"
  shows "state_ok alloc (drainAndApplyOrphanToolResultsToMessage lc k i st3)
    \<and> keeps st (drainAndApplyOrphanToolResultsToMessage lc k i st3)"
proof -
  let ?st = "drainAndApplyOrphanToolResultsToMessage lc k i st3"
  obtain rs where st: "?st = apply_buffered i rs (st3\<lparr>orphanToolResults := AList.delete k (orphanToolResults st)\<rparr>)"
    by (simp add: drain_alt st3(3))
  have fields: "toolIdToMessageId ?st = AList.update k i (toolIdToMessageId st)" "allocated ?st = Suc (allocated st)"
      "permissions ?st = permissions st3" "orphanToolResults ?st = AList.delete k (orphanToolResults st)"
      "localIds ?st = localIds st" "side ?st = side st"
    by (simp_all add: st tool_frame st3)
  have fresh: "map_of (messages st) i = None" using unused_id [OF ok alloc] mid by simp
  have msgs: "map_of (messages ?st) = (map_of (messages st))(i \<mapsto> buffered_message rs m)"
    by (simp add: st tool_frame st3(5))
  have created: "messageId (buffered_message rs m) = i" "tool_id_of (buffered_message rs m) = Some k"
      "messageBody (buffered_message rs m) = None"
    using buffered_message_keeps [of m rs] m
    by (auto simp: same_creation_def same_tool_def tool_id_of_def split: option.splits)
  have "map_of (toolIdToMessageId st) j \<noteq> Some i" for j
    using ok fresh unfolding state_ok_def tools_ok_def by (metis option.distinct(1))
  then have "tools_ok ?st"
    using ok created by (auto simp: tools_ok_def state_ok_def fields msgs update_conv' split: if_splits)
  moreover have "ids_ok alloc ?st"
    unfolding ids_ok_def fields
  proof (intro allI impI)
    fix j m'
    assume "map_of (messages ?st) j = Some m'"
    then have "(j = i \<and> m' = buffered_message rs m) \<or> map_of (messages st) j = Some m'"
      by (auto simp: msgs split: if_splits)
    moreover have "messageId m' = j \<and> (\<exists>n<allocated st. j = alloc n)" if "map_of (messages st) j = Some m'"
      using ok that by (simp add: state_ok_def ids_ok_def)
    ultimately show "messageId m' = j \<and> (\<exists>n<Suc (allocated st). j = alloc n)"
      using created(1) mid less_SucI by blast
  qed
  moreover have "texts_ok ?st"
  proof -
    have "map_of (localIds st) j \<noteq> Some i" for j
      using ok fresh unfolding state_ok_def texts_ok_def by (metis option.distinct(1))
    then show ?thesis
      using ok created(3) by (auto simp: texts_ok_def state_ok_def fields msgs split: if_splits)
  qed
  moreover have "pending_ok ?st"
    using ok st3(2) by (fastforce simp: pending_ok_def state_ok_def fields update_conv')
  moreover have "waiting_ok ?st"
    using ok by (auto simp: waiting_ok_def state_ok_def fields update_conv' delete_conv')
  moreover have "orphans_ok (orphanToolResults ?st)"
    using ok buckets_ok_delete [of "orphanToolResults st" k] buffered_total_delete_le [of k "orphanToolResults st"]
    by (simp add: fields state_ok_def orphans_ok_def)
  moreover have "chains_ok ?st"
    using ok fresh by (auto simp: state_ok_def chains_ok_def fields msgs update_conv' intro: chains_inv_create split: if_splits)
  moreover have "keeps st ?st" using fresh by (auto simp: keeps_def msgs)
  ultimately show ?thesis by (simp add: state_ok_def)
qed

text \<open>A step that touches none of the fields the invariant is about.\<close>

lemma state_ok_frame:
  assumes "state_ok alloc st"
    and "toolIdToMessageId st' = toolIdToMessageId st" "permissions st' = permissions st"
    and "orphanToolResults st' = orphanToolResults st" "allocated st' = allocated st" "localIds st' = localIds st"
    "side st' = side st"
    and "map_of (messages st') = map_of (messages st)"
  shows "state_ok alloc st' \<and> keeps st st'"
  by (rule state_ok_rewrite [OF assms(1-7), where f = "\<lambda>_ m. m"]) (simp_all add: assms(8) option.map_ident)

lemma apply_result_ok:
  "state_ok alloc st \<Longrightarrow> state_ok alloc (applyToolResultUpdateToReducerMessage i u t meta st)
     \<and> keeps st (applyToolResultUpdateToReducerMessage i u t meta st)"
  by (rule state_ok_rewrite_one [where i = i and f = "result_message u t meta"])
     (simp_all add: tool_frame result_message_keeps)

lemma result_content_ok:
  assumes "state_ok alloc st" and "id_supply alloc"
  shows "state_ok alloc (tool_result_content now msg st ic) \<and> keeps st (tool_result_content now msg st ic)"
proof (cases "snd ic")
  case (ToolResultContent upd)
  let ?mid = "map_of (toolIdToMessageId st) (resultToolId upd)"
  show ?thesis
  proof (cases "falsy_str ?mid")
    case False
    then show ?thesis
      using apply_result_ok [OF assms(1)] by (simp add: tool_result_content_def ToolResultContent Let_def)
  next
    case True
    have "?mid \<noteq> Some []"
    proof
      assume "?mid = Some []"
      then obtain m where "map_of (messages st) [] = Some m"
        using assms(1) unfolding state_ok_def tools_ok_def by meson
      then obtain n where "[] = alloc n" using assms(1) unfolding state_ok_def ids_ok_def by meson
      then show False using assms(2) by (metis id_supply_def)
    qed
    then have unknown: "?mid = None" using True by (simp add: falsy_str_def)
    let ?m = "bufferOrphanToolResult now (resultToolId upd)
        \<lparr>bufferKey = tracedId msg @ '':'' @ string_of_nat (fst ic), bufferedAt = tracedCreatedAt msg,
         payload = (tracedMeta msg, upd)\<rparr> (orphanToolResults st)"
    have "orphans_ok ?m" using assms(1) by (simp add: buffer_ok state_ok_def)
    moreover have "tool_result_content now msg st ic = st\<lparr>orphanToolResults := ?m\<rparr>"
      using True by (simp add: tool_result_content_def ToolResultContent Let_def)
    moreover have "waiting_ok (st\<lparr>orphanToolResults := ?m\<rparr>)"
    proof -
      have "map_of ?m j = None" if "map_of (toolIdToMessageId st) j \<noteq> None" for j
      proof (rule buffer_other)
        show "map_of (orphanToolResults st) j = None"
          using assms(1) that by (simp add: state_ok_def waiting_ok_def)
        show "j \<noteq> resultToolId upd" using that unknown by auto
      qed
      then show ?thesis by (simp add: waiting_ok_def)
    qed
    ultimately show ?thesis
      using assms(1) by (simp add: state_ok_def tools_ok_def pending_ok_def ids_ok_def texts_ok_def chains_ok_def keeps_def)
  qed
qed (simp_all add: tool_result_content_def assms keeps_refl)

lemma update_tool_keeps:
  "toolCreatedAt (update_tool c cid n inp d tool) = toolCreatedAt tool"
  "toolId (update_tool c cid n inp d tool) = (if falsy_str (toolId tool) then Some cid else toolId tool)"
proof -
  have "toolCreatedAt (rename_tool cid n d t) = toolCreatedAt t" "toolCreatedAt (take_input n inp t) = toolCreatedAt t"
    "toolCreatedAt (start_tool c cid t) = toolCreatedAt t" "toolCreatedAt (restart_approved t) = toolCreatedAt t"
    "toolId (take_input n inp t) = toolId t" "toolId (start_tool c cid t) = toolId t" "toolId (restart_approved t) = toolId t" for t
    by (simp_all add: restart_approved_def start_tool_def take_input_def rename_tool_def Let_def)
  then show "toolCreatedAt (update_tool c cid n inp d tool) = toolCreatedAt tool"
    "toolId (update_tool c cid n inp d tool) = (if falsy_str (toolId tool) then Some cid else toolId tool)"
    by (simp_all add: update_tool_def) (simp add: rename_tool_def)
qed

lemma update_tool_message_ok:
  assumes "state_ok alloc st" and "map_of (toolIdToMessageId st) cid = Some mid"
  shows "state_ok alloc (update_tool_message msg ci mid cid name input description st)
    \<and> keeps st (update_tool_message msg ci mid cid name input description st)"
proof -
  obtain m where m: "map_of (messages st) mid = Some m" "tool_id_of m = Some cid"
    using assms by (auto simp: state_ok_def tools_ok_def)
  then obtain tool where tool: "messageTool m = Some tool" "toolId tool = Some cid"
    by (auto simp: tool_id_of_def split: option.splits)
  define m' where "m' = m\<lparr>realId := Some (tracedId msg),
      messageSeq := (case messageSeq m of None \<Rightarrow> normalizeTranscriptSeq (tracedSeq msg) | Some s \<Rightarrow> Some s),
      blockIndex := (case blockIndex m of None \<Rightarrow> Some (transcriptBlockIndexFromContentIndex ci) | Some b \<Rightarrow> Some b),
      messageTool := Some (update_tool (tracedCreatedAt msg) cid name input description tool)\<rparr>"
  have "same_creation m m' \<and> tool_id_of m' = tool_id_of m"
    using tool by (auto simp: same_creation_def same_tool_def seq_grows_def m'_def tool_id_of_def update_tool_keeps split: option.splits)
  then show ?thesis
    by (intro state_ok_rewrite_one [OF assms(1), where i = mid and f = "\<lambda>_. m'"])
       (use m tool in \<open>simp_all add: update_tool_message_def Let_def tool_frame m'_def\<close>)
qed

lemma new_tool_id: "toolId (new_tool c cid n inp d p) = Some cid"
  by (simp add: new_tool_def Let_def split: option.splits)

lemma create_tool_message_ok:
  assumes "state_ok alloc st" and "id_supply alloc" and "map_of (toolIdToMessageId st) cid = None"
  shows "state_ok alloc (create_tool_message alloc lc msg ci cid name input description st)
    \<and> keeps st (create_tool_message alloc lc msg ci cid name input description st)"
proof -
  define m where "m = new_tool_message (alloc (allocated st)) msg ci
      (new_tool (tracedCreatedAt msg) cid name input description (map_of (permissions st) cid))"
  have track: "state_ok alloc (case map_of (messages s) i of None \<Rightarrow> s
        | Some m \<Rightarrow> (case messageTool m of None \<Rightarrow> s | Some tool' \<Rightarrow> track_todos tool' s))
      \<and> keeps st (case map_of (messages s) i of None \<Rightarrow> s
        | Some m \<Rightarrow> (case messageTool m of None \<Rightarrow> s | Some tool' \<Rightarrow> track_todos tool' s))"
    if "state_ok alloc s \<and> keeps st s" for s i
    using that by (auto simp: state_ok_def tools_ok_def pending_ok_def waiting_ok_def ids_ok_def texts_ok_def chains_ok_def keeps_def tool_frame split: option.splits)
  show ?thesis
    unfolding create_tool_message_def Let_def
    by (rule track, rule state_ok_create [OF assms(1,2,3), where m = m])
       (auto simp: m_def new_tool_message_def tool_id_of_def new_tool_id tool_frame update_conv')
qed

lemma call_content_ok:
  "state_ok alloc st \<Longrightarrow> id_supply alloc \<Longrightarrow>
   state_ok alloc (tool_call_content alloc lc msg st ic) \<and> keeps st (tool_call_content alloc lc msg st ic)"
  using update_tool_message_ok create_tool_message_ok
  by (auto simp: tool_call_content_def keeps_refl split: message_content.splits option.splits)

definition sound :: "(nat \<Rightarrow> string) \<Rightarrow> reducer_state \<Rightarrow> bool" where
  "sound alloc st \<longleftrightarrow> state_ok alloc st \<and> id_supply alloc"

interpretation call_contents: keeping "tool_call_content alloc lc msg" "sound alloc" keeps for alloc lc msg
  using call_content_ok by unfold_locales (auto simp: sound_def intro: keeps_refl keeps_trans)

interpretation result_contents: keeping "tool_result_content now msg" "sound alloc" keeps for now msg alloc
  using result_content_ok by unfold_locales (auto simp: sound_def intro: keeps_refl keeps_trans)

interpretation call_messages: keeping
  "\<lambda>s msg. foldl (tool_call_content alloc lc msg) s (agent_content msg)" "sound alloc" keeps
  for alloc lc
  using call_contents.run_keeps by unfold_locales (auto intro: keeps_refl keeps_trans)

interpretation result_messages: keeping
  "\<lambda>s msg. foldl (tool_result_content now msg) s (agent_content msg)" "sound alloc" keeps
  for now alloc
  using result_contents.run_keeps by unfold_locales (auto intro: keeps_refl keeps_trans)

lemma calls_phase_ok:
  "sound alloc st \<Longrightarrow> sound alloc (runToolCallsPhase alloc lc msgs st) \<and> keeps st (runToolCallsPhase alloc lc msgs st)"
  unfolding runToolCallsPhase_def by (rule call_messages.run_keeps)

lemma results_phase_ok:
  "sound alloc st \<Longrightarrow> sound alloc (runToolResultsPhase now msgs st) \<and> keeps st (runToolResultsPhase now msgs st)"
  unfolding runToolResultsPhase_def by (rule result_messages.run_keeps)

section \<open>The end of a turn\<close>

definition ended_tool :: "(string \<Rightarrow> nat) \<Rightarrow> int \<Rightarrow> string \<Rightarrow> tool_call \<Rightarrow> tool_call" where
  "ended_tool lengths completedAt i tool =
     (if ends_with_turn lengths completedAt i tool
      then tool\<lparr>toolState := Unavailable, toolCompletedAt := Some (of_int completedAt)\<rparr> else tool)"

definition ended_message :: "(string \<Rightarrow> nat) \<Rightarrow> int \<Rightarrow> string \<Rightarrow> reducer_message \<Rightarrow> reducer_message" where
  "ended_message lengths completedAt i m = m\<lparr>messageTool := map_option (ended_tool lengths completedAt i) (messageTool m)\<rparr>"

lemma marked_message: "some_or im (unavailable_message lengths c im) = (fst im, ended_message lengths c (fst im) (snd im))"
  by (cases im) (auto simp: unavailable_message_def ended_message_def ended_tool_def split: option.splits)

lemma marked_messages:
  "normalizeTranscriptSeq (Some t) = Some c \<Longrightarrow>
   messages (markRunningToolsUnavailable t st) = map (\<lambda>(i, m). (i, ended_message (sidechainLengths st) c i m)) (messages st)"
  by (simp add: markRunningToolsUnavailable_def marked_message case_prod_beta)

lemma mark_frame [tool_frame]:
  "toolIdToMessageId (markRunningToolsUnavailable t st) = toolIdToMessageId st"
  "permissions (markRunningToolsUnavailable t st) = permissions st"
  "orphanToolResults (markRunningToolsUnavailable t st) = orphanToolResults st"
  "allocated (markRunningToolsUnavailable t st) = allocated st"
  "side (markRunningToolsUnavailable t st) = side st"
  "localIds (markRunningToolsUnavailable t st) = localIds st"
  by (simp_all add: markRunningToolsUnavailable_def Let_def split: option.splits)

lemma map_of_map_pair: "map_of (map (\<lambda>(i, m). (i, f i m)) xs) = (\<lambda>i. map_option (f i) (map_of xs i))"
  by (induction xs) (auto simp: fun_eq_iff)

lemma ended_message_keeps:
  "same_creation m (ended_message l c i m) \<and> tool_id_of (ended_message l c i m) = tool_id_of m"
  by (cases "messageTool m") (simp_all add: same_creation_def same_tool_def ended_message_def tool_id_of_def ended_tool_def)

lemma mark_ok:
  assumes "sound alloc st"
  shows "sound alloc (markRunningToolsUnavailable t st) \<and> keeps st (markRunningToolsUnavailable t st)"
proof (cases "normalizeTranscriptSeq (Some t)")
  case None
  then show ?thesis using assms by (simp add: markRunningToolsUnavailable_def keeps_refl)
next
  case (Some c)
  have "state_ok alloc (markRunningToolsUnavailable t st) \<and> keeps st (markRunningToolsUnavailable t st)"
    by (rule state_ok_rewrite [where f = "ended_message (sidechainLengths st) c"])
       (use assms in \<open>simp_all add: sound_def tool_frame marked_messages [OF Some] map_of_map_pair ended_message_keeps\<close>)
  with assms show ?thesis by (simp add: sound_def)
qed

text \<open>When the turn ends, every call that still runs, was started by then and has no linked
  subagent activity becomes unavailable at that time; every other message stays as it was; and a
  result that comes later still completes such a call.\<close>

theorem turn_end_stops_running_calls:
  fixes st :: reducer_state and t :: int
  defines "st' \<equiv> markRunningToolsUnavailable (Fin (of_int t)) st"
  shows "messages st' = map (\<lambda>(i, m). (i, m\<lparr>messageTool := map_option (\<lambda>tool.
             if toolState tool = Running \<and> toolStartedAt tool \<noteq> None \<and> toolCreatedAt tool \<le> of_int t
                \<and> \<not> hasLinkedSubagentSidechainActivity (sidechainLengths st) i tool
             then tool\<lparr>toolState := Unavailable, toolCompletedAt := Some (of_int t)\<rparr> else tool) (messageTool m)\<rparr>)) (messages st)
    \<and> (case apply_result_to_tool upd at_time (tool\<lparr>toolState := Unavailable\<rparr>) of
         None \<Rightarrow> False
       | Some done' \<Rightarrow> coerceStreamingToolResultChunk (resultContent upd) = None
           \<longleftrightarrow> toolState done' = (if resultIsError upd then Errored else Completed))"
proof
  have "normalizeTranscriptSeq (Some (Fin (of_int t))) = Some t" by (simp add: normalizeTranscriptSeq_def)
  then show "messages st' = map (\<lambda>(i, m). (i, m\<lparr>messageTool := map_option (\<lambda>tool.
             if toolState tool = Running \<and> toolStartedAt tool \<noteq> None \<and> toolCreatedAt tool \<le> of_int t
                \<and> \<not> hasLinkedSubagentSidechainActivity (sidechainLengths st) i tool
             then tool\<lparr>toolState := Unavailable, toolCompletedAt := Some (of_int t)\<rparr> else tool) (messageTool m)\<rparr>)) (messages st)"
    unfolding st'_def
    by (simp add: marked_messages ended_message_def ended_tool_def [abs_def] ends_with_turn_def not_less)
next
  have "reopen (tool\<lparr>toolState := Unavailable\<rparr>) = tool\<lparr>toolState := Running, toolCompletedAt := None\<rparr>"
    by (simp add: reopen_def isApprovedPlaceholder_def isLegacyRequestInterruptedPlaceholder_def Let_def)
  then show "case apply_result_to_tool upd at_time (tool\<lparr>toolState := Unavailable\<rparr>) of
         None \<Rightarrow> False
       | Some done' \<Rightarrow> coerceStreamingToolResultChunk (resultContent upd) = None
           \<longleftrightarrow> toolState done' = (if resultIsError upd then Errored else Completed)"
    by (simp add: apply_result_to_tool_def accepts_result_def finish_tool_def Let_def split: option.splits)
qed

section \<open>Finished calls and late calls\<close>

definition shows_tool :: "string \<Rightarrow> tool_call \<Rightarrow> reducer_state \<Rightarrow> bool" where
  "shows_tool i tool st \<longleftrightarrow> (\<exists>m. map_of (messages st) i = Some m \<and> messageTool m = Some tool)"

lemma shows_tool_result:
  "\<not> accepts_result tool \<Longrightarrow> shows_tool i tool st \<Longrightarrow> shows_tool i tool (tool_result_content now msg st ic)"
  by (auto simp: shows_tool_def tool_result_content_def Let_def tool_frame result_message_def apply_result_to_tool_def
      split: message_content.splits)

lemma shows_tool_phase:
  assumes "\<not> accepts_result tool" and "shows_tool i tool st"
  shows "shows_tool i tool (runToolResultsPhase now msgs st)"
proof -
  have inner: "reducer (tool_result_content now msg) (shows_tool i tool)" for msg
    using assms(1) by unfold_locales (rule shows_tool_result)
  have "reducer (\<lambda>s msg. foldl (tool_result_content now msg) s (agent_content msg)) (shows_tool i tool)"
    using reducer.run_inv [OF inner] by unfold_locales auto
  then show ?thesis unfolding runToolResultsPhase_def using assms(2) by (rule reducer.run_inv)
qed

text \<open>C28: A call that completed or failed is final: whatever results arrive afterwards, for this call or
  others, its state, result, completion time and permission stay as they are, unless what it shows is
  one of the two placeholders (an approval without a result, an interruption without one).\<close>

theorem finished_call_is_final:
  assumes "map_of (messages st) i = Some m" and "messageTool m = Some tool"
    and "toolState tool = Completed \<or> toolState tool = Errored"
    and "toolResult tool \<noteq> JStr ''Approved''" and "prop_get (toolResult tool) ''error'' \<noteq> JStr ''Request interrupted''"
    and "map_option permReason (toolPermission tool) \<noteq> Some (Some ''Request interrupted'')"
  shows "map_option messageTool (map_of (messages (runToolResultsPhase now msgs st)) i) = Some (Some tool)"
proof -
  have "\<not> accepts_result tool"
    using assms(3-6) by (auto simp: accepts_result_def isApprovedPlaceholder_def isLegacyRequestInterruptedPlaceholder_def
        REQUEST_INTERRUPTED_REASON_def split: option.splits)
  then have "shows_tool i tool (runToolResultsPhase now msgs st)"
    using assms(1,2) by (intro shows_tool_phase) (simp_all add: shows_tool_def)
  then show ?thesis by (auto simp: shows_tool_def)
qed

section \<open>Concrete runs\<close>

definition idle_state :: reducer_state where
  "idle_state = \<lparr>toolIdToMessageId = [], permissions = [], orphanToolResults = [], localIds = [], messageIds = [], messages = [],
     sidechains = [], sidechainToolIdToMessageId = [], sidechainThinkingMergeCursors = [], tracerState = createTracer, latestTodos = None, latestUsage = None, streamMergeCursor = None, thinkingMergeCursor = None,
     thinkingSegments = [], allocated = 0, changed = []\<rparr>"

definition agent_message :: "string \<Rightarrow> rat \<Rightarrow> message_content \<Rightarrow> traced_message" where
  "agent_message i created c = \<lparr>tracedId = i, tracedSeq = None, tracedLocalId = None, tracedCreatedAt = created,
     tracedPayload = FromAgent [c], tracedMeta = None, tracedUsage = None,
     tracedUuid = None, tracedParentUuid = None, tracedIsSidechain = False, tracedSidechainId = None\<rparr>"

definition numbered_id :: "nat \<Rightarrow> string" where
  "numbered_id n = replicate (Suc n) CHR ''m''"

lemma idle_state_ok: "state_ok alloc idle_state"
  by (simp add: state_ok_def tools_ok_def pending_ok_def waiting_ok_def ids_ok_def orphans_ok_def buckets_ok_def texts_ok_def chains_ok_def chains_inv_def
      children_of_def side_def obj_wf_def idle_state_def)

lemma numbered_id_supply: "id_supply numbered_id"
  by (auto simp: id_supply_def numbered_id_def inj_def replicate_eq_replicate)

definition approval :: result_permissions where
  "approval = \<lparr>rpDate = 7, rpApproved = True, rpMode = None, rpAllowedTools = None, rpDecision = None\<rparr>"

definition result_of :: "string \<Rightarrow> jsval \<Rightarrow> tool_result_update" where
  "result_of k c = \<lparr>resultToolId = k, resultContent = c, resultIsError = False, resultPermissions = Some approval\<rparr>"

definition finished_state :: reducer_state where
  "finished_state = runToolResultsPhase 9 [agent_message ''b'' 2 (ToolResultContent (result_of ''t'' (JStr ''ok'')))]
     (runToolCallsPhase numbered_id code_unit_compare [agent_message ''a'' 1 (ToolCallContent ''t'' ''Bash'' JNull None)] idle_state)"

definition shown_tool :: "reducer_state \<Rightarrow> tool_call option" where
  "shown_tool st = (case map_of (messages st) ''m'' of None \<Rightarrow> None | Some m \<Rightarrow> messageTool m)"

text \<open>
  A later update of a call that an approved result has completed (another message for the same tool, as
  agents send them to add a title) sets it running again and drops the result.
\<close>

lemma repeated_call_discards_the_result:
  "map_option (\<lambda>t. (toolState t, toolResult t, toolCompletedAt t)) (shown_tool finished_state) = Some (Completed, JStr ''ok'', Some 2)
   \<and> map_option (\<lambda>t. (toolState t, toolResult t, toolCompletedAt t))
       (shown_tool (runToolCallsPhase numbered_id code_unit_compare
          [agent_message ''c'' 3 (ToolCallContent ''t'' ''Bash'' JNull (Some ''title''))] finished_state))
     = Some (Running, JUndef, None)"
  by code_simp

theorem finished_call_is_final_witness:
  "\<exists>tool. toolResult tool = JStr ''ok'' \<and>
     map_option messageTool (map_of (messages (runToolResultsPhase 9
       [agent_message ''d'' 5 (ToolResultContent (result_of ''t'' (JStr ''again'')))] finished_state)) ''m'') = Some (Some tool)"
proof -
  have run: "map_option toolState (shown_tool finished_state) = Some Completed"
      "map_option toolResult (shown_tool finished_state) = Some (JStr ''ok'')"
      "map_option (\<lambda>t. map_option permReason (toolPermission t)) (shown_tool finished_state) = Some (Some None)"
    by code_simp+
  obtain m tool where tool: "map_of (messages finished_state) ''m'' = Some m" "messageTool m = Some tool"
    using run(1) by (auto simp: shown_tool_def split: option.splits)
  then have "toolState tool = Completed" "toolResult tool = JStr ''ok''" "map_option permReason (toolPermission tool) = Some None"
    using run by (auto simp: shown_tool_def)
  then show ?thesis
    using finished_call_is_final [OF tool, of 9 "[agent_message ''d'' 5 (ToolResultContent (result_of ''t'' (JStr ''again'')))]"]
    by auto
qed

end
