(* ===== verification/PermissionPhase.thy ===== *)
theory PermissionPhase
  imports
    ToolLifecycle
begin

text \<open>
  How the permission requests of the agent state become tool messages:
  \<open>apps/ui/sources/sync/reducer/phases/agentStatePermissions.ts\<close>, with
  \<open>sync/domains/session/pending/requestInterruptedPlaceholder.ts\<close> and \<open>reducer/helpers/arrays.ts\<close>.
\<close>

section \<open>The agent state\<close>

text \<open>A field that may be \<open>null\<close> or missing, where the code tells the two apart.\<close>

datatype 'a nullable = Undefined | Null | Value 'a

fun to_option :: "'a nullable \<Rightarrow> 'a option" where
  "to_option (Value x) = Some x"
| "to_option _ = None"

text \<open>\<open>x !== y\<close> for a field \<open>x\<close> that is a value or \<open>undefined\<close>.\<close>

fun differs :: "'a option \<Rightarrow> 'a nullable \<Rightarrow> bool" where
  "differs None Undefined = False"
| "differs (Some x) (Value y) = (x \<noteq> y)"
| "differs _ _ = True"

record permission_request =
  requestTool :: string
  requestKind :: "string option"
  requestArguments :: jsval
  requestCreatedAt :: "rat option"
  requestSuggestions :: "nat option"

datatype request_outcome = WasCanceled | WasDenied | WasApproved

record completed_request =
  completedTool :: string
  completedKind :: "string option"
  completedArguments :: jsval
  completedCreatedAt :: "rat option"
  completedCompletedAt :: "rat option"
  completedOutcome :: request_outcome
  completedReason :: "string nullable"
  completedMode :: "string nullable"
  completedAllowedTools :: "string list option"
  completedAllowTools :: "string list option"
  completedUpdatedPermissions :: jsval
  completedDecision :: "permission_decision nullable"

fun status_of :: "request_outcome \<Rightarrow> permission_status" where
  "status_of WasCanceled = Canceled"
| "status_of WasDenied = Denied"
| "status_of WasApproved = Approved"

definition completedStatus :: "completed_request \<Rightarrow> permission_status" where
  "completedStatus c = status_of (completedOutcome c)"

record agent_state =
  requests :: "(string \<times> permission_request) list"
  completedRequests :: "(string \<times> completed_request) list"

text \<open>\<open>t || Date.now()\<close>, \<open>t || undefined\<close>, \<open>s || undefined\<close>.\<close>

definition or_now :: "rat \<Rightarrow> rat option \<Rightarrow> rat" where
  "or_now now t = (case t of None \<Rightarrow> now | Some v \<Rightarrow> if v \<noteq> 0 then v else now)"

definition nonzero :: "rat option \<Rightarrow> rat option" where
  "nonzero t = (if t = Some 0 then None else t)"

definition nonempty :: "string nullable \<Rightarrow> string option" where
  "nonempty s = (if to_option s = Some [] then None else to_option s)"

section \<open>Helpers\<close>

definition equalOptionalStringArrays :: "string list option \<Rightarrow> string list option \<Rightarrow> bool" where
  "equalOptionalStringArrays a b =
     (if a = None \<or> a = Some [] then b = None \<or> b = Some []
      else if b = None \<or> b = Some [] then a = None \<or> a = Some []
      else a = b)"

definition rule_tools :: "jsval \<Rightarrow> string list" where
  "rule_tools rule =
     (if \<not> is_record rule then []
      else case prop_get rule ''toolName'' of
             JStr toolName' \<Rightarrow>
               (if toolName' = [] then []
                else case prop_get rule ''ruleContent'' of
                       JStr c \<Rightarrow> if c \<noteq> [] then [toolName' @ ''('' @ c @ '')''] else [toolName']
                     | _ \<Rightarrow> [toolName'])
           | _ \<Rightarrow> [])"

definition update_tools :: "jsval \<Rightarrow> string list" where
  "update_tools upd =
     (if \<not> is_record upd \<or> prop_get upd ''type'' \<noteq> JStr ''addRules'' \<or> prop_get upd ''behavior'' \<noteq> JStr ''allow'' then []
      else case prop_get upd ''rules'' of JArr rules \<Rightarrow> concat (map rule_tools rules) | _ \<Rightarrow> [])"

definition getCompletedAllowedTools :: "completed_request \<Rightarrow> string list option" where
  "getCompletedAllowedTools c =
     (case first_some [completedAllowedTools c, completedAllowTools c] of
        Some list \<Rightarrow> Some list
      | None \<Rightarrow>
          (case completedUpdatedPermissions c of
             JArr updates \<Rightarrow> let derived = oset_of (concat (map update_tools updates)) in if derived = [] then None else Some derived
           | _ \<Rightarrow> None))"

definition keep_field :: "string \<Rightarrow> (string \<times> jsval) list \<Rightarrow> (string \<times> jsval) list \<Rightarrow> (string \<times> jsval) list \<Rightarrow> (string \<times> jsval) list" where
  "keep_field key existing incoming merged =
     (if key \<notin> set (obj_keys incoming) \<and> key \<in> set (obj_keys existing)
      then AList.update key (fields_get existing key) merged else merged)"

definition mergePermissionRequestArgumentsPreservingExecpolicy :: "jsval \<Rightarrow> jsval \<Rightarrow> jsval" where
  "mergePermissionRequestArgumentsPreservingExecpolicy existing incoming =
     (case (existing, incoming) of
        (JObj e, JObj i) \<Rightarrow>
          JObj (keep_field ''proposedExecpolicyAmendment'' e i (keep_field ''proposed_execpolicy_amendment'' e i i))
      | _ \<Rightarrow> incoming)"

definition isRequestInterruptedPlaceholder :: "tool_permission \<Rightarrow> jsval \<Rightarrow> bool" where
  "isRequestInterruptedPlaceholder permission result \<longleftrightarrow>
     permStatus permission = Canceled
     \<and> (permReason permission = Some REQUEST_INTERRUPTED_REASON \<or> prop_get result ''error'' = JStr REQUEST_INTERRUPTED_REASON)"

definition hasRequestInterruptedPlaceholderText :: "tool_call \<Rightarrow> bool" where
  "hasRequestInterruptedPlaceholderText tool \<longleftrightarrow>
     (case toolPermission tool of None \<Rightarrow> False | Some p \<Rightarrow> permReason p = Some REQUEST_INTERRUPTED_REASON)
     \<or> prop_get (toolResult tool) ''error'' = JStr REQUEST_INTERRUPTED_REASON"

definition shouldRestorePendingPermissionFromAgentState :: "tool_call \<Rightarrow> rat option \<Rightarrow> bool" where
  "shouldRestorePendingPermissionFromAgentState tool requestCreated =
     (case toolPermission tool of
        None \<Rightarrow> False
      | Some p \<Rightarrow>
          if permStatus p = Pending then False
          else if isRequestInterruptedPlaceholder p (toolResult tool) then True
          else if permDecision p \<noteq> Some DecidedAbort \<or> \<not> hasRequestInterruptedPlaceholderText tool then False
          else (case (requestCreated, toolCompletedAt tool) of (Some r, Some c) \<Rightarrow> c < r | _ \<Rightarrow> False))"

section \<open>Pending requests\<close>

text \<open>The tool of a known message after a pending request; each step also says whether it changed it.\<close>

definition refresh_arguments :: "permission_request \<Rightarrow> tool_call \<Rightarrow> tool_call \<times> bool" where
  "refresh_arguments request tool =
     (if compareToolCalls (requestTool request, toolInput tool) (requestTool request, requestArguments request) then (tool, False)
      else let merged = mergePermissionRequestArgumentsPreservingExecpolicy (toolInput tool) (requestArguments request)
           in if compareToolCalls (requestTool request, toolInput tool) (requestTool request, merged) then (tool, False)
              else (tool\<lparr>toolInput := merged\<rparr>, True))"

definition add_pending :: "string \<Rightarrow> permission_request \<Rightarrow> tool_call \<Rightarrow> tool_call \<times> bool" where
  "add_pending i request tool =
     (if toolPermission tool = None
      then (tool\<lparr>toolPermission := Some ((new_permission i Pending)\<lparr>permKind := requestKind request,
                    permSuggestions := requestSuggestions request\<rparr>)\<rparr>, True)
      else (tool, False))"

definition restore_pending :: "permission_request \<Rightarrow> tool_call \<Rightarrow> tool_call \<times> bool" where
  "restore_pending request tool =
     (case toolPermission tool of
        None \<Rightarrow> (tool, False)
      | Some p \<Rightarrow>
          if shouldRestorePendingPermissionFromAgentState tool (requestCreatedAt request)
          then (tool\<lparr>toolPermission := Some (p\<lparr>permStatus := Pending, permReason := None, permDecision := None,
                        permMode := None, permAllowedTools := None, permDate := None\<rparr>),
                     toolState := Running, toolCompletedAt := None, toolResult := JUndef\<rparr>, True)
          else (tool, False))"

definition refresh_kind :: "permission_request \<Rightarrow> tool_call \<Rightarrow> tool_call \<times> bool" where
  "refresh_kind request tool =
     (case toolPermission tool of
        None \<Rightarrow> (tool, False)
      | Some p \<Rightarrow>
          if requestKind request \<noteq> None \<and> permKind p \<noteq> requestKind request
          then (tool\<lparr>toolPermission := Some (p\<lparr>permKind := requestKind request\<rparr>)\<rparr>, True) else (tool, False))"

definition refresh_suggestions :: "permission_request \<Rightarrow> tool_call \<Rightarrow> tool_call \<times> bool" where
  "refresh_suggestions request tool =
     (case toolPermission tool of
        None \<Rightarrow> (tool, False)
      | Some p \<Rightarrow>
          if requestSuggestions request \<noteq> None \<and> permSuggestions p \<noteq> requestSuggestions request
          then (tool\<lparr>toolPermission := Some (p\<lparr>permSuggestions := requestSuggestions request\<rparr>)\<rparr>, True) else (tool, False))"

definition and_then :: "tool_call \<times> bool \<Rightarrow> (tool_call \<Rightarrow> tool_call \<times> bool) \<Rightarrow> tool_call \<times> bool" where
  "and_then tc f = (let (tool, c) = f (fst tc) in (tool, snd tc \<or> c))"

definition pending_tool :: "string \<Rightarrow> permission_request \<Rightarrow> tool_call \<Rightarrow> tool_call \<times> bool" where
  "pending_tool i request tool =
     and_then (and_then (and_then (and_then (and_then
       (if toolId tool \<noteq> Some i then (tool\<lparr>toolId := Some i\<rparr>, True) else (tool, False))
       (refresh_arguments request)) (add_pending i request)) (restore_pending request)) (refresh_kind request)) (refresh_suggestions request)"

definition placeholder_tool :: "string \<Rightarrow> string \<Rightarrow> jsval \<Rightarrow> rat \<Rightarrow> tool_call" where
  "placeholder_tool i name arguments created =
     \<lparr>toolId = Some i, toolName = name, toolState = Running, toolInput = arguments, toolCreatedAt = created,
      toolStartedAt = None, toolCompletedAt = None, toolDescription = None, toolResult = JUndef, toolPermission = None\<rparr>"

text \<open>A new message for a request, with the results that were waiting for it.\<close>

definition create_placeholder ::
  "(nat \<Rightarrow> string) \<Rightarrow> (string \<Rightarrow> string \<Rightarrow> rat) \<Rightarrow> string \<Rightarrow> rat \<Rightarrow> tool_call \<Rightarrow> reducer_state \<Rightarrow> reducer_state" where
  "create_placeholder alloc lc i created tool st =
     (let mid = alloc (allocated st);
          st1 = put_message mid
                  \<lparr>messageId = mid, realId = None, messageSeq = None, blockIndex = None, messageLocalId = None,
                   messageCreatedAt = created, messageRole = AgentRole, messageBody = None, messageThinking = False, messageEvent = None,
                   messageTool = Some tool, messageMeta = None\<rparr> (st\<lparr>allocated := Suc (allocated st)\<rparr>)
      in drainAndApplyOrphanToolResultsToMessage lc i mid
           (mark_changed mid (st1\<lparr>thinkingMergeCursor := None, toolIdToMessageId := AList.update i mid (toolIdToMessageId st1)\<rparr>)))"

definition store_permission :: "string \<Rightarrow> stored_permission \<Rightarrow> reducer_state \<Rightarrow> reducer_state" where
  "store_permission i p st = st\<lparr>permissions := AList.update i p (permissions st)\<rparr>"

definition stored_pending :: "rat \<Rightarrow> permission_request \<Rightarrow> stored_permission" where
  "stored_pending now request =
     \<lparr>storedTool = requestTool request, storedArguments = requestArguments request,
      storedCreatedAt = or_now now (requestCreatedAt request), storedCompletedAt = None, storedStatus = Pending,
      storedReason = None, storedMode = None, storedAllowedTools = None,
      storedSuggestions = requestSuggestions request, storedDecision = None\<rparr>"

text \<open>A request that is also completed is stale unless it was made after the completion.\<close>

definition reissued :: "permission_request \<Rightarrow> completed_request \<Rightarrow> bool" where
  "reissued request completed \<longleftrightarrow>
     some_or 0 (first_some [completedCompletedAt completed, completedCreatedAt completed]) < some_or 0 (requestCreatedAt request)"

definition pending_request ::
  "(nat \<Rightarrow> string) \<Rightarrow> (string \<Rightarrow> string \<Rightarrow> rat) \<Rightarrow> rat \<Rightarrow> agent_state \<Rightarrow> reducer_state \<times> string list \<Rightarrow>
   string \<times> permission_request \<Rightarrow> reducer_state \<times> string list" where
  "pending_request alloc lc now agent so ir =
     (let (st, overrides) = so; (i, request) = ir;
          existingCompleted = map_of (completedRequests agent) i
      in if (case existingCompleted of None \<Rightarrow> False | Some c \<Rightarrow> \<not> reissued request c) then so
         else let overrides' = (if existingCompleted = None then overrides else oset_add i overrides);
                  st' = (case map_of (toolIdToMessageId st) i of
                           Some mid \<Rightarrow>
                             (case map_of (messages st) mid of
                                None \<Rightarrow> st
                              | Some m \<Rightarrow>
                                  (case messageTool m of
                                     None \<Rightarrow> st
                                   | Some tool \<Rightarrow>
                                       let (tool', hasChanged) = pending_tool i request tool
                                       in if hasChanged then mark_changed mid (put_message mid (m\<lparr>messageTool := Some tool'\<rparr>) st) else st))
                         | None \<Rightarrow>
                             create_placeholder alloc lc i (or_now now (requestCreatedAt request))
                               ((placeholder_tool i (requestTool request) (requestArguments request) (or_now now (requestCreatedAt request)))
                                  \<lparr>toolPermission := Some ((new_permission i Pending)\<lparr>permKind := requestKind request,
                                     permSuggestions := requestSuggestions request\<rparr>)\<rparr>) st)
              in (store_permission i (stored_pending now request) st', overrides'))"

section \<open>Completed requests\<close>

definition needs_update :: "completed_request \<Rightarrow> tool_permission option \<Rightarrow> bool" where
  "needs_update c perm \<longleftrightarrow>
     (case perm of
        None \<Rightarrow> True
      | Some p \<Rightarrow>
          permStatus p \<noteq> completedStatus c
          \<or> (completedKind c \<noteq> None \<and> permKind p \<noteq> completedKind c)
          \<or> differs (permReason p) (completedReason c)
          \<or> differs (permMode p) (completedMode c)
          \<or> \<not> equalOptionalStringArrays (permAllowedTools p) (getCompletedAllowedTools c)
          \<or> differs (permDecision p) (completedDecision c))"

definition completed_permission :: "string \<Rightarrow> completed_request \<Rightarrow> tool_permission option \<Rightarrow> tool_permission" where
  "completed_permission i c perm =
     (case perm of
        None \<Rightarrow> (new_permission i (completedStatus c))
                 \<lparr>permKind := completedKind c, permMode := nonempty (completedMode c),
                  permAllowedTools := getCompletedAllowedTools c, permDecision := to_option (completedDecision c),
                  permReason := nonempty (completedReason c)\<rparr>
      | Some p \<Rightarrow>
          p\<lparr>permStatus := completedStatus c,
            permKind := (if completedKind c \<noteq> None then completedKind c else permKind p),
            permMode := nonempty (completedMode c), permAllowedTools := getCompletedAllowedTools c,
            permDecision := to_option (completedDecision c),
            permReason := (if nonempty (completedReason c) \<noteq> None then nonempty (completedReason c) else permReason p)\<rparr>)"

definition not_started :: "tool_call \<Rightarrow> bool" where
  "not_started tool \<longleftrightarrow> toolStartedAt tool = None \<or> toolStartedAt tool = Some 0"

text \<open>What the decision makes of the state of the tool.\<close>

definition completed_state :: "rat \<Rightarrow> completed_request \<Rightarrow> tool_call \<Rightarrow> tool_call" where
  "completed_state now c tool =
     (if completedStatus c = Approved then
        (if toolState tool \<in> {Completed, Errored, Unavailable} then tool
         else if not_started tool then
           tool\<lparr>toolState := Completed, toolCompletedAt := Some (or_now now (completedCompletedAt c)),
                toolResult := (if \<not> truthy (toolResult tool) then JStr ''Approved'' else toolResult tool)\<rparr>
         else if toolState tool \<noteq> Running then
           tool\<lparr>toolState := Running, toolCompletedAt := None,
                toolResult := (if toolResult tool = JStr ''Approved'' then JUndef else toolResult tool)\<rparr>
         else tool)
      else if toolState tool \<noteq> Errored \<and> toolState tool \<noteq> Completed then
        tool\<lparr>toolState := Errored, toolCompletedAt := Some (or_now now (completedCompletedAt c)),
             toolResult := (if \<not> truthy (toolResult tool) \<and> nonempty (completedReason c) \<noteq> None
                            then JObj [(''error'', JStr (the (nonempty (completedReason c))))] else toolResult tool)\<rparr>
      else tool)"

definition stored_completed :: "rat \<Rightarrow> completed_request \<Rightarrow> stored_permission" where
  "stored_completed now c =
     \<lparr>storedTool = completedTool c, storedArguments = completedArguments c,
      storedCreatedAt = or_now now (completedCreatedAt c), storedCompletedAt = nonzero (completedCompletedAt c),
      storedStatus = completedStatus c, storedReason = nonempty (completedReason c),
      storedMode = nonempty (completedMode c), storedAllowedTools = getCompletedAllowedTools c,
      storedSuggestions = None, storedDecision = to_option (completedDecision c)\<rparr>"

text \<open>An approved tool that runs, and a permission a tool result has written, are left alone.\<close>

definition settled_elsewhere :: "tool_call \<Rightarrow> bool" where
  "settled_elsewhere tool \<longleftrightarrow>
     (\<not> not_started tool \<and> (case toolPermission tool of None \<Rightarrow> False | Some p \<Rightarrow> permStatus p = Approved))
     \<or> (case toolPermission tool of None \<Rightarrow> False | Some p \<Rightarrow> nonzero (permDate p) \<noteq> None)"

definition completed_tool :: "string \<Rightarrow> rat \<Rightarrow> completed_request \<Rightarrow> tool_call \<Rightarrow> tool_call" where
  "completed_tool i now c tool =
     completed_state now c (tool\<lparr>toolPermission := Some (completed_permission i c (toolPermission tool))\<rparr>)"

definition completed_placeholder :: "string \<Rightarrow> rat \<Rightarrow> completed_request \<Rightarrow> tool_call" where
  "completed_placeholder i now c =
     (placeholder_tool i (completedTool c) (completedArguments c) (or_now now (completedCreatedAt c)))
       \<lparr>toolState := (if completedStatus c = Approved then Completed else Errored),
        toolCompletedAt := Some (or_now now (completedCompletedAt c)),
        toolResult := (if completedStatus c = Approved then JStr ''Approved''
                       else case nonempty (completedReason c) of None \<Rightarrow> JUndef | Some r \<Rightarrow> JObj [(''error'', JStr r)]),
        toolPermission := Some ((new_permission i (completedStatus c))
           \<lparr>permReason := nonempty (completedReason c), permMode := nonempty (completedMode c),
            permAllowedTools := getCompletedAllowedTools c, permDecision := to_option (completedDecision c)\<rparr>)\<rparr>"

definition completed_request_step ::
  "(nat \<Rightarrow> string) \<Rightarrow> (string \<Rightarrow> string \<Rightarrow> rat) \<Rightarrow> rat \<Rightarrow> agent_state \<Rightarrow> string list \<Rightarrow> string list \<Rightarrow>
   reducer_state \<Rightarrow> string \<times> completed_request \<Rightarrow> reducer_state" where
  "completed_request_step alloc lc now agent incomingToolIds overrides st ic =
     (let (i, c) = ic
      in if i \<in> set overrides then st
         else case map_of (toolIdToMessageId st) i of
                Some mid \<Rightarrow>
                  (case map_of (messages st) mid of
                     None \<Rightarrow> st
                   | Some m \<Rightarrow>
                       (case messageTool m of
                          None \<Rightarrow> st
                        | Some tool \<Rightarrow>
                            if settled_elsewhere tool \<or> \<not> needs_update c (toolPermission tool) then st
                            else mark_changed mid (store_permission i (stored_completed now c)
                                   (put_message mid (m\<lparr>messageTool := Some (completed_tool i now c tool)\<rparr>) st))))
              | None \<Rightarrow>
                  if i \<in> set incomingToolIds
                  then store_permission i ((stored_completed now c)\<lparr>storedMode := None, storedAllowedTools := None, storedDecision := None\<rparr>) st
                  else if i \<in> set (obj_keys (requests agent)) then st
                  else create_placeholder alloc lc i (or_now now (completedCreatedAt c)) (completed_placeholder i now c)
                         (store_permission i (stored_completed now c) st))"

definition runAgentStatePermissionsPhase ::
  "(nat \<Rightarrow> string) \<Rightarrow> (string \<Rightarrow> string \<Rightarrow> rat) \<Rightarrow> rat \<Rightarrow> agent_state option \<Rightarrow> string list \<Rightarrow> reducer_state \<Rightarrow> reducer_state" where
  "runAgentStatePermissionsPhase alloc lc now agentState incomingToolIds st =
     (case agentState of
        None \<Rightarrow> st
      | Some agent \<Rightarrow>
          let (st1, overrides) = foldl (pending_request alloc lc now agent) (st, []) (requests agent)
          in foldl (completed_request_step alloc lc now agent incomingToolIds overrides) st1 (completedRequests agent))"

section \<open>The invariant\<close>

lemma pending_tool_keeps:
  "toolId (fst (pending_tool i request tool)) = Some i"
  "toolCreatedAt (fst (pending_tool i request tool)) = toolCreatedAt tool"
proof -
  have keep: "toolId (fst (refresh_arguments r t)) = toolId t \<and> toolCreatedAt (fst (refresh_arguments r t)) = toolCreatedAt t"
    "toolId (fst (add_pending i r t)) = toolId t \<and> toolCreatedAt (fst (add_pending i r t)) = toolCreatedAt t"
    "toolId (fst (restore_pending r t)) = toolId t \<and> toolCreatedAt (fst (restore_pending r t)) = toolCreatedAt t"
    "toolId (fst (refresh_kind r t)) = toolId t \<and> toolCreatedAt (fst (refresh_kind r t)) = toolCreatedAt t"
    "toolId (fst (refresh_suggestions r t)) = toolId t \<and> toolCreatedAt (fst (refresh_suggestions r t)) = toolCreatedAt t" for r t
    by (simp_all add: refresh_arguments_def add_pending_def restore_pending_def refresh_kind_def refresh_suggestions_def
        Let_def split: option.splits)
  have chain: "fst (and_then tc f) = fst (f (fst tc))" for tc f by (simp add: and_then_def case_prod_beta)
  show "toolId (fst (pending_tool i request tool)) = Some i"
    "toolCreatedAt (fst (pending_tool i request tool)) = toolCreatedAt tool"
    unfolding pending_tool_def chain by (simp_all add: keep)
qed

lemma completed_tool_keeps:
  "toolId (completed_tool i now c tool) = toolId tool" "toolCreatedAt (completed_tool i now c tool) = toolCreatedAt tool"
  by (simp_all add: completed_tool_def completed_state_def)

lemma store_permission_frame [tool_frame]:
  "toolIdToMessageId (store_permission i p st) = toolIdToMessageId st" "messages (store_permission i p st) = messages st"
  "orphanToolResults (store_permission i p st) = orphanToolResults st" "localIds (store_permission i p st) = localIds st"
  "allocated (store_permission i p st) = allocated st" "side (store_permission i p st) = side st"
  "map_of (permissions (store_permission i p st)) = (map_of (permissions st))(i \<mapsto> p)"
  by (simp_all add: store_permission_def update_conv')

lemma stored_completed_status: "storedStatus (stored_completed now c) = completedStatus c"
  by (simp add: stored_completed_def)

lemma store_permission_ok:
  assumes "sound alloc st" and "storedStatus p \<noteq> Pending \<or> map_of (toolIdToMessageId st) i \<noteq> None"
  shows "sound alloc (store_permission i p st) \<and> keeps st (store_permission i p st)"
  using assms by (auto simp: sound_def state_ok_def tools_ok_def pending_ok_def waiting_ok_def ids_ok_def texts_ok_def chains_ok_def keeps_def tool_frame)

lemma put_tool_ok:
  assumes "sound alloc st" and "map_of (messages st) i = Some m" and "messageTool m = Some tool"
    and "toolId tool' = toolId tool" and "toolCreatedAt tool' = toolCreatedAt tool"
  shows "sound alloc (mark_changed i (put_message i (m\<lparr>messageTool := Some tool'\<rparr>) st))
    \<and> keeps st (mark_changed i (put_message i (m\<lparr>messageTool := Some tool'\<rparr>) st))"
proof -
  have "state_ok alloc (mark_changed i (put_message i (m\<lparr>messageTool := Some tool'\<rparr>) st))
      \<and> keeps st (mark_changed i (put_message i (m\<lparr>messageTool := Some tool'\<rparr>) st))"
    by (rule state_ok_rewrite_one [where i = i and f = "\<lambda>_. m\<lparr>messageTool := Some tool'\<rparr>"])
       (use assms in \<open>simp_all add: sound_def tool_frame same_creation_def same_tool_def tool_id_of_def\<close>)
  with assms(1) show ?thesis by (simp add: sound_def)
qed

lemma create_placeholder_ok:
  assumes "sound alloc st" and "map_of (toolIdToMessageId st) i = None" and "toolId tool = Some i"
  shows "sound alloc (create_placeholder alloc lc i created tool st) \<and> keeps st (create_placeholder alloc lc i created tool st)
    \<and> map_of (toolIdToMessageId (create_placeholder alloc lc i created tool st)) i \<noteq> None"
proof -
  let ?m = "\<lparr>messageId = alloc (allocated st), realId = None, messageSeq = None, blockIndex = None, messageLocalId = None,
      messageCreatedAt = created, messageRole = AgentRole, messageBody = None, messageThinking = False, messageEvent = None, messageTool = Some tool, messageMeta = None\<rparr>"
  have "state_ok alloc (create_placeholder alloc lc i created tool st) \<and> keeps st (create_placeholder alloc lc i created tool st)"
    unfolding create_placeholder_def Let_def
    by (rule state_ok_create [where m = ?m])
       (use assms in \<open>simp_all add: sound_def tool_id_of_def tool_frame\<close>)
  moreover have "map_of (toolIdToMessageId (create_placeholder alloc lc i created tool st)) i \<noteq> None"
    by (simp add: create_placeholder_def Let_def drain_alt tool_frame update_conv')
  ultimately show ?thesis using assms(1) by (simp add: sound_def)
qed

lemma pending_request_ok:
  assumes "sound alloc (fst so)"
  shows "sound alloc (fst (pending_request alloc lc now agent so ir)) \<and> keeps (fst so) (fst (pending_request alloc lc now agent so ir))"
proof -
  obtain st overrides i request where [simp]: "so = (st, overrides)" "ir = (i, request)" by (cases so; cases ir)
  have ok: "sound alloc st" using assms by simp
  let ?skip = "case map_of (completedRequests agent) i of None \<Rightarrow> False | Some c \<Rightarrow> \<not> reissued request c"
  show ?thesis
  proof (cases "map_of (toolIdToMessageId st) i")
    case None
    define s where "s = create_placeholder alloc lc i (or_now now (requestCreatedAt request))
        ((placeholder_tool i (requestTool request) (requestArguments request) (or_now now (requestCreatedAt request)))
           \<lparr>toolPermission := Some ((new_permission i Pending)\<lparr>permKind := requestKind request, permSuggestions := requestSuggestions request\<rparr>)\<rparr>) st"
    have s: "sound alloc s" "keeps st s" "map_of (toolIdToMessageId s) i \<noteq> None"
      using create_placeholder_ok [OF ok None] by (simp_all add: s_def placeholder_tool_def)
    have "sound alloc (store_permission i (stored_pending now request) s) \<and> keeps st (store_permission i (stored_pending now request) s)"
      using store_permission_ok [OF s(1)] s(2,3) keeps_trans by blast
    moreover have "fst (pending_request alloc lc now agent so ir) = (if ?skip then st else store_permission i (stored_pending now request) s)"
      using None by (simp add: pending_request_def Let_def s_def)
    ultimately show ?thesis using ok by (simp add: keeps_refl)
  next
    case (Some mid)
    then obtain m tool where m: "map_of (messages st) mid = Some m" "messageTool m = Some tool" "toolId tool = Some i"
      using ok by (fastforce simp: sound_def state_ok_def tools_ok_def tool_id_of_def split: option.splits)
    define s where "s = (if snd (pending_tool i request tool)
        then mark_changed mid (put_message mid (m\<lparr>messageTool := Some (fst (pending_tool i request tool))\<rparr>) st) else st)"
    have s: "sound alloc s" "keeps st s" "toolIdToMessageId s = toolIdToMessageId st"
      using put_tool_ok [OF ok m(1,2), of "fst (pending_tool i request tool)"] m(3) ok
      by (simp_all add: s_def pending_tool_keeps keeps_refl tool_frame)
    have "sound alloc (store_permission i (stored_pending now request) s) \<and> keeps st (store_permission i (stored_pending now request) s)"
      using store_permission_ok [OF s(1)] s(2,3) Some keeps_trans by (metis option.distinct(1))
    moreover have "fst (pending_request alloc lc now agent so ir) = (if ?skip then st else store_permission i (stored_pending now request) s)"
      using Some m by (simp add: pending_request_def Let_def s_def case_prod_beta)
    ultimately show ?thesis using ok by (simp add: keeps_refl)
  qed
qed

lemma completed_not_pending: "completedStatus c \<noteq> Pending"
  by (cases "completedOutcome c") (simp_all add: completedStatus_def)

lemma completed_request_step_ok:
  assumes ok: "sound alloc st"
  shows "sound alloc (completed_request_step alloc lc now agent incoming overrides st ic)
    \<and> keeps st (completed_request_step alloc lc now agent incoming overrides st ic)"
proof -
  obtain i c where ic [simp]: "ic = (i, c)" by (cases ic)
  show ?thesis
  proof (cases "i \<in> set overrides")
    case True
    then show ?thesis using ok by (simp add: completed_request_step_def keeps_refl)
  next
    case free: False
    show ?thesis
    proof (cases "map_of (toolIdToMessageId st) i")
      case None
      let ?store = "store_permission i (stored_completed now c) st"
      have store: "sound alloc ?store \<and> keeps st ?store"
        by (rule store_permission_ok [OF ok]) (simp add: stored_completed_def completed_not_pending)
      have partial: "sound alloc (store_permission i (p\<lparr>storedMode := None, storedAllowedTools := None, storedDecision := None\<rparr>) st)
          \<and> keeps st (store_permission i (p\<lparr>storedMode := None, storedAllowedTools := None, storedDecision := None\<rparr>) st)"
        if "p = stored_completed now c" for p
        by (rule store_permission_ok [OF ok]) (simp add: that stored_completed_def completed_not_pending)
      have created: "sound alloc (create_placeholder alloc lc i t tool ?store) \<and> keeps ?store (create_placeholder alloc lc i t tool ?store)"
        if "toolId tool = Some i" for t tool
        using create_placeholder_ok [of alloc ?store i tool lc t] store None that by (simp add: tool_frame)
      have tool: "toolId (completed_placeholder i now c) = Some i"
        by (simp add: completed_placeholder_def placeholder_tool_def)
      show ?thesis
        using None free ok store partial [OF refl] created [OF tool, of "or_now now (completedCreatedAt c)"]
        by (auto simp: completed_request_step_def keeps_refl intro: keeps_trans)
    next
      case (Some mid)
      then obtain m tool where m: "map_of (messages st) mid = Some m" "messageTool m = Some tool"
        using ok by (fastforce simp: sound_def state_ok_def tools_ok_def tool_id_of_def split: option.splits)
      let ?s = "store_permission i (stored_completed now c) (put_message mid (m\<lparr>messageTool := Some (completed_tool i now c tool)\<rparr>) st)"
      have swap: "mark_changed mid ?s = store_permission i (stored_completed now c)
          (mark_changed mid (put_message mid (m\<lparr>messageTool := Some (completed_tool i now c tool)\<rparr>) st))"
        by (simp add: mark_changed_def store_permission_def put_message_def)
      have put: "sound alloc (mark_changed mid (put_message mid (m\<lparr>messageTool := Some (completed_tool i now c tool)\<rparr>) st))
          \<and> keeps st (mark_changed mid (put_message mid (m\<lparr>messageTool := Some (completed_tool i now c tool)\<rparr>) st))"
        by (rule put_tool_ok [OF ok m]) (simp_all add: completed_tool_keeps)
      have "sound alloc (mark_changed mid ?s) \<and> keeps st (mark_changed mid ?s)"
        unfolding swap using put store_permission_ok [of alloc _ "stored_completed now c" i] keeps_trans
        by (metis completed_not_pending stored_completed_status)
      then show ?thesis
        using Some m free ok by (simp add: completed_request_step_def keeps_refl)
    qed
  qed
qed

interpretation pending_requests: keeping "pending_request alloc lc now agent" "\<lambda>so. sound alloc (fst so)" "\<lambda>a b. keeps (fst a) (fst b)"
  for alloc lc now agent
  using pending_request_ok by unfold_locales (auto intro: keeps_refl keeps_trans)

interpretation completed_requests: keeping "completed_request_step alloc lc now agent incoming overrides" "sound alloc" keeps
  for alloc lc now agent incoming overrides
  using completed_request_step_ok by unfold_locales (auto intro: keeps_refl keeps_trans)

lemma permissions_phase_ok:
  assumes "sound alloc st"
  shows "sound alloc (runAgentStatePermissionsPhase alloc lc now agent incoming st)
    \<and> keeps st (runAgentStatePermissionsPhase alloc lc now agent incoming st)"
proof (cases agent)
  case None
  then show ?thesis using assms by (simp add: runAgentStatePermissionsPhase_def keeps_refl)
next
  case (Some a)
  obtain st1 overrides where run: "foldl (pending_request alloc lc now a) (st, []) (requests a) = (st1, overrides)"
    by fastforce
  have pending: "keeping (pending_request alloc lc now a) (\<lambda>so. sound alloc (fst so)) (\<lambda>x y. keeps (fst x) (fst y))"
    by (rule pending_requests.keeping_axioms)
  have completed: "keeping (completed_request_step alloc lc now a incoming overrides) (sound alloc) keeps"
    by (rule completed_requests.keeping_axioms)
  have "sound alloc st1 \<and> keeps st st1"
    using keeping.run_keeps [OF pending, of "(st, [])" "requests a"] assms by (simp add: run)
  moreover have "runAgentStatePermissionsPhase alloc lc now agent incoming st
      = foldl (completed_request_step alloc lc now a incoming overrides) st1 (completedRequests a)"
    by (simp add: runAgentStatePermissionsPhase_def Some run)
  ultimately show ?thesis
    using keeping.run_keeps [OF completed, of st1 "completedRequests a"] keeps_trans by metis
qed

end
