(* ===== verification/ThinkingText.thy ===== *)
theory ThinkingText
  imports
    JsBase
    "HOL-Library.Sublist"
begin

text \<open>
  The text of an agent's thinking as it is streamed: \<open>apps/ui/sources/sync/reducer/helpers/thinkingText.ts\<close>.
  A chunk is normalised and merged into the text so far. A string is a list of code units up to 255, so
  the typographic quotes and the ellipsis the code also lists do not occur.
\<close>

section \<open>Strings\<close>

definition nl :: char where
  "nl = CHR 10"

definition ends_with :: "string \<Rightarrow> string \<Rightarrow> bool" where
  "ends_with s suf = starts_with (rev s) (rev suf)"

fun contains :: "string \<Rightarrow> string \<Rightarrow> bool" where
  "contains [] p = (p = [])"
| "contains (c # s) p = (starts_with (c # s) p \<or> contains s p)"

definition trim_start :: "string \<Rightarrow> string" where
  "trim_start s = dropWhile js_ws s"

definition drop_end :: "(char \<Rightarrow> bool) \<Rightarrow> string \<Rightarrow> string" where
  "drop_end P s = rev (dropWhile P (rev s))"

definition last_char :: "string \<Rightarrow> string" where
  "last_char s = drop (length s - 1) s"

definition first_char :: "string \<Rightarrow> string" where
  "first_char s = take 1 s"

text \<open>The first operand that is not the empty string: \<open>a || b || c\<close>.\<close>

definition or_text :: "string \<Rightarrow> string \<Rightarrow> string" where
  "or_text a b = (if a \<noteq> [] then a else b)"

fun unify_newlines :: "string \<Rightarrow> string" where
  "unify_newlines [] = []"
| "unify_newlines [c] = [if c = CHR 13 then CHR 10 else c]"
| "unify_newlines (c # d # s) =
     (if c = CHR 13 then (if d = CHR 10 then CHR 10 # unify_newlines s else CHR 10 # unify_newlines (d # s))
      else c # unify_newlines (d # s))"

text \<open>Runs of newlines are cut to two; \<open>n\<close> is the length of the run so far.\<close>

fun limit_newlines :: "nat \<Rightarrow> string \<Rightarrow> string" where
  "limit_newlines n [] = []"
| "limit_newlines n (c # s) =
     (if c = CHR 10 then (if n < 2 then c # limit_newlines (Suc n) s else limit_newlines n s) else c # limit_newlines 0 s)"

fun split_lines :: "string \<Rightarrow> string list" where
  "split_lines [] = [[]]"
| "split_lines (c # s) =
     (if c = CHR 10 then [] # split_lines s
      else case split_lines s of [] \<Rightarrow> [[c]] | l # ls \<Rightarrow> (c # l) # ls)"

section \<open>Normalisation of a chunk\<close>

definition numbered_item :: "string \<Rightarrow> bool" where
  "numbered_item s =
     (takeWhile is_digit s \<noteq> []
      \<and> (case dropWhile is_digit s of c # d # _ \<Rightarrow> c = CHR ''.'' \<and> js_ws d | _ \<Rightarrow> False))"

definition fence_marker :: string where
  "fence_marker = ''```''"

definition isStructuredMarkdownLine :: "string \<Rightarrow> bool" where
  "isStructuredMarkdownLine line =
     (let trimmed = trim_start line
      in starts_with trimmed ''- '' \<or> starts_with trimmed ''* '' \<or> numbered_item trimmed
         \<or> starts_with trimmed ''>'' \<or> starts_with trimmed fence_marker)"

definition isDelimiterToken :: "string \<Rightarrow> bool" where
  "isDelimiterToken token = (token \<in> {''`'', ''**'', ''*'', ''_'', ''__'', ''~~''})"

definition isNoSpaceBeforeToken :: "string \<Rightarrow> bool" where
  "isNoSpaceBeforeToken token =
     (token \<in> {'','', ''.'', '';'', '':'', ''!'', ''?'', '')'', '']'', ''}'', ''%''}
      \<or> list_ex (starts_with token) [''.,'', ''..'', ''...'', ''!'', ''?'', '','', ''.'', '';'', '':'', '')'', '']'', ''}''])"

definition isNoSpaceAfterChar :: "string \<Rightarrow> bool" where
  "isNoSpaceAfterChar ch = (ch \<in> {''('', ''['', ''{'', ''<'', ''`'', ''*'', ''_'', ''~''})"

definition word_line :: "string \<Rightarrow> bool" where
  "word_line line =
     (let trimmed = trim line
      in trimmed = line \<and> \<not> list_ex (\<lambda>c. c \<in> set ''=;{}[]()<>'') trimmed
         \<and> length trimmed \<le> 40 \<and> \<not> list_ex js_ws trimmed)"

text \<open>
  One line of the reassembly. \<open>hasLaterNonEmpty\<close> looks the index of the buffer up in all \<open>lines\<close>
  of the chunk, as the code does.
\<close>

definition collapse_step :: "string list \<Rightarrow> nat \<Rightarrow> string \<times> string option \<Rightarrow> nat \<times> string \<Rightarrow> string \<times> string option" where
  "collapse_step lines len acc line =
     (let (out, prevToken) = acc; (i, rawLine) = line; token = trim rawLine; isLast = (Suc i = len)
      in if token = [] then
           (if out \<noteq> [] \<and> \<not> ends_with out [nl] \<and> \<not> ends_with out '' '' \<and> \<not> ends_with out [nl, nl] \<and> isLast then out @ '' ''
            else if out \<noteq> [] \<and> \<not> ends_with out [nl, nl] \<and> list_ex (\<lambda>l. trim l \<noteq> []) (drop (Suc i) lines)
              then (if ends_with out '' '' then butlast out else out) @ [nl, nl]
            else if out \<noteq> [] \<and> isLast \<and> \<not> ends_with out '' '' \<and> \<not> ends_with out [nl] then out @ '' ''
            else out, None)
         else if out = [] \<or> ends_with out [nl, nl] then (out @ token, Some token)
         else let lastChar = last_char out;
                  shouldAttachToPrev = (isNoSpaceBeforeToken token \<or> isDelimiterToken token
                    \<or> (case prevToken of None \<Rightarrow> False | Some p \<Rightarrow> isDelimiterToken p)
                    \<or> (lastChar \<noteq> [] \<and> isNoSpaceAfterChar lastChar))
              in (out @ (if shouldAttachToPrev then [] else '' '') @ token, Some token))"

definition collapseWordPerLine :: "string list \<Rightarrow> string list \<Rightarrow> string" where
  "collapseWordPerLine lines tokenLines =
     (let nonEmptyLines = filter (\<lambda>l. trim l \<noteq> []) tokenLines;
          isWordPerLine = (\<not> list_ex isStructuredMarkdownLine tokenLines \<and> 1 \<le> length nonEmptyLines \<and> list_all word_line nonEmptyLines)
      in if \<not> isWordPerLine then join [nl] tokenLines
         else fst (foldl (collapse_step lines (length tokenLines)) ([], None) (enumerate 0 tokenLines)))"

definition append_line :: "string \<Rightarrow> string \<Rightarrow> string" where
  "append_line out line = (if out = [] then line else if ends_with out [nl] then out @ line else out @ [nl] @ line)"

definition flushBuffer :: "string list \<Rightarrow> string \<Rightarrow> string list \<Rightarrow> string" where
  "flushBuffer lines out buffer = (if buffer = [] then out else append_line out (collapseWordPerLine lines buffer))"

definition fence_step :: "string list \<Rightarrow> string \<times> string list \<times> bool \<Rightarrow> string \<Rightarrow> string \<times> string list \<times> bool" where
  "fence_step lines acc line =
     (let (out, buffer, inFence) = acc
      in if starts_with (trim_start line) fence_marker then (append_line (flushBuffer lines out buffer) line, [], \<not> inFence)
         else if inFence then (append_line out line, buffer, inFence)
         else (out, buffer @ [line], inFence))"

definition normalizeThinkingChunk :: "string \<Rightarrow> string" where
  "normalizeThinkingChunk chunk =
     (let lines = split_lines (limit_newlines 0 (unify_newlines chunk));
          (out, buffer, inFence) = foldl (fence_step lines) ([], [], False) lines
      in flushBuffer lines out buffer)"

section \<open>Merging\<close>

definition legacy_prefix :: string where
  "legacy_prefix = ''*Thinking...*'' @ [nl, nl] @ ''*''"

definition unwrapThinkingText :: "string \<Rightarrow> string" where
  "unwrapThinkingText t =
     (if starts_with t legacy_prefix \<and> ends_with (drop (length legacy_prefix) t) ''*''
      then butlast (drop (length legacy_prefix) t) else t)"

text \<open>The loop counts \<open>size\<close> down.\<close>

primrec overlap_from :: "nat \<Rightarrow> string \<Rightarrow> string \<Rightarrow> nat" where
  "overlap_from 0 left right = 0"
| "overlap_from (Suc len) left right =
     (if ends_with left (take (Suc len) right) then Suc len else overlap_from len left right)"

definition findMaxOverlapSuffixPrefix :: "string \<Rightarrow> string \<Rightarrow> nat \<Rightarrow> nat" where
  "findMaxOverlapSuffixPrefix left right maxProbe = overlap_from (min maxProbe (min (length left) (length right))) left right"

text \<open>\<open>s.replace(/\\s+/g, ' ').trim()\<close> is the words of \<open>s\<close> with a space between them.\<close>

definition normalizeForCumulative :: "string \<Rightarrow> string" where
  "normalizeForCumulative s = trim (join '' '' (split_ws (unify_newlines s)))"

definition resends :: "string \<Rightarrow> string \<Rightarrow> bool" where
  "resends prev nxt =
     (length prev < length nxt
      \<and> (let prevNorm = normalizeForCumulative prev; nextNorm = normalizeForCumulative nxt; nextHead = take 800 nextNorm
         in (40 \<le> length prevNorm \<and> contains nextNorm prevNorm)
            \<or> list_ex (\<lambda>start. let probe = trim (take 160 (drop start prevNorm)) in 40 \<le> length probe \<and> contains nextHead probe)
                [0, 80, 160, 240]))"

definition needs_space :: "string \<Rightarrow> string \<Rightarrow> bool" where
  "needs_space prev nxt =
     (let prevLast = last_char prev;
          prevTrimmedEnd = drop_end js_ws prev;
          closing = (\<lambda>c. c \<in> set '')]'' \<or> c = CHR 34 \<or> c = CHR 39);
          prevLastSignificant = or_text (or_text (last_char (drop_end closing prevTrimmedEnd)) (last_char prevTrimmedEnd)) prevLast;
          nextFirst = first_char nxt;
          one_of = (\<lambda>chars s. list_ex (\<lambda>c. c \<in> set chars) s);
          boundaryHasNoWhitespace = (0 < length prevLast \<and> 0 < length nextFirst \<and> \<not> list_ex js_ws prevLast \<and> \<not> list_ex js_ws nextFirst)
      in boundaryHasNoWhitespace
         \<and> (one_of ''.!?:;'' prevLastSignificant \<or> list_ex (\<lambda>c. CHR ''A'' \<le> c \<and> c \<le> CHR ''Z'') nextFirst)
         \<and> \<not> one_of ''.,;:!?)}]%'' nextFirst
         \<and> \<not> one_of ''([{<`*_~'' prevLast)"

definition mergeThinkingText :: "string \<Rightarrow> string \<Rightarrow> string" where
  "mergeThinkingText prevText nextChunk =
     (let prev = unwrapThinkingText prevText; nxt = nextChunk
      in if nxt = [] then prev
         else if prev = [] then nxt
         else if starts_with nxt prev then nxt
         else if ends_with prev nxt then prev
         else if resends prev nxt then nxt
         else let overlap = findMaxOverlapSuffixPrefix prev nxt 4000
              in if 0 < overlap then prev @ drop overlap nxt
                 else if needs_space prev nxt then prev @ '' '' @ nxt
                 else prev @ nxt)"

section \<open>What a merge keeps\<close>

lemma ends_with_suffix: "ends_with s t \<longleftrightarrow> suffix t s"
  by (auto simp: ends_with_def starts_with_iff suffix_def) (metis rev_append rev_rev_ident)

lemma starts_with_prefix: "starts_with s t \<longleftrightarrow> prefix t s"
  by (simp add: starts_with_iff prefix_def)

lemma overlap_from_suffix: "suffix (take (overlap_from n left right) right) left"
  by (induction n) (auto simp: ends_with_suffix)

lemma overlap_join: "suffix nxt (prev @ drop (findMaxOverlapSuffixPrefix prev nxt n) nxt)"
proof -
  let ?k = "findMaxOverlapSuffixPrefix prev nxt n"
  obtain p where "prev = p @ take ?k nxt"
    using overlap_from_suffix unfolding findMaxOverlapSuffixPrefix_def suffix_def by blast
  then have "prev @ drop ?k nxt = p @ nxt" by (metis append.assoc append_take_drop_id)
  then show ?thesis by (simp add: suffix_def)
qed

lemma merge_ends_with_chunk: "suffix nxt (mergeThinkingText prev nxt)"
  using overlap_join [of nxt "unwrapThinkingText prev" 4000]
  by (auto simp: mergeThinkingText_def Let_def ends_with_suffix suffix_append suffix_ConsI)

lemma merge_extends: "mergeThinkingText prev nxt = nxt \<or> prefix (unwrapThinkingText prev) (mergeThinkingText prev nxt)"
  by (auto simp: mergeThinkingText_def Let_def)

text \<open>The longest beginning of the chunk that the text already ends with.\<close>

definition longest_overlap :: "string \<Rightarrow> string \<Rightarrow> nat" where
  "longest_overlap text chunk = Max (set (filter (\<lambda>k. suffix (take k chunk) text) [0..<Suc (length chunk)]))"

lemma longest_overlap_eq:
  assumes "suffix (take k chunk) text" and "k \<le> length chunk"
    and "\<And>j. j \<le> length chunk \<Longrightarrow> suffix (take j chunk) text \<Longrightarrow> j \<le> k"
  shows "longest_overlap text chunk = k"
  unfolding longest_overlap_def by (rule Max_eqI) (use assms in \<open>auto simp del: upt_Suc\<close>)

lemma overlap_from_max:
  "k \<le> n \<Longrightarrow> suffix (take k right) left \<Longrightarrow> k \<le> overlap_from n left right"
  by (induction n) (auto simp: ends_with_suffix le_Suc_eq)

lemma overlap_from_le: "overlap_from n left right \<le> n"
  by (induction n) auto

lemma overlap_length: "suffix (take k chunk) text \<Longrightarrow> k \<le> length chunk \<Longrightarrow> k \<le> length text"
  by (auto dest: suffix_length_le)

lemma longest_overlap_found:
  assumes "length text \<le> n \<or> length chunk \<le> n"
  shows "findMaxOverlapSuffixPrefix text chunk n = longest_overlap text chunk"
proof -
  let ?m = "min n (min (length text) (length chunk))"
  have "longest_overlap text chunk = overlap_from ?m text chunk"
  proof (rule longest_overlap_eq)
    show "suffix (take (overlap_from ?m text chunk) chunk) text" by (rule overlap_from_suffix)
    show "overlap_from ?m text chunk \<le> length chunk" using overlap_from_le [of "?m" "text" chunk] by simp
    show "k \<le> overlap_from ?m text chunk" if "k \<le> length chunk" "suffix (take k chunk) text" for k
      using that overlap_length [OF that(2,1)] assms by (intro overlap_from_max) auto
  qed
  then show ?thesis by (simp add: findMaxOverlapSuffixPrefix_def)
qed

lemma longest_overlap_prefix: "prefix text chunk \<Longrightarrow> longest_overlap text chunk = length text"
  by (rule longest_overlap_eq) (auto dest: overlap_length prefix_length_le simp: prefix_def)

lemma longest_overlap_suffix: "suffix chunk text \<Longrightarrow> longest_overlap text chunk = length chunk"
  by (rule longest_overlap_eq) auto

lemma no_space_at_the_ends: "\<not> needs_space [] chunk" "\<not> needs_space text []"
  by (simp_all add: needs_space_def Let_def last_char_def first_char_def)

lemma merge_cuts_the_overlap:
  assumes "length (unwrapThinkingText prev) \<le> 4000 \<or> length chunk \<le> 4000"
  defines "p \<equiv> unwrapThinkingText prev"
  shows "mergeThinkingText prev chunk =
    (if resends p chunk \<and> p \<noteq> [] then chunk
     else p @ (if longest_overlap p chunk = 0 \<and> needs_space p chunk then '' '' else []) @ drop (longest_overlap p chunk) chunk)"
proof -
  note run = mergeThinkingText_def Let_def ends_with_suffix starts_with_prefix p_def [symmetric]
  have found: "findMaxOverlapSuffixPrefix p chunk 4000 = longest_overlap p chunk"
    unfolding p_def by (rule longest_overlap_found [OF assms(1)])
  have short: "\<not> resends p chunk" if "suffix chunk p"
    using suffix_length_le [OF that] by (simp add: resends_def)
  consider "chunk = []" | "chunk \<noteq> []" "p = []" | "chunk \<noteq> []" "p \<noteq> []" "prefix p chunk"
    | "chunk \<noteq> []" "p \<noteq> []" "\<not> prefix p chunk" "suffix chunk p"
    | "chunk \<noteq> []" "p \<noteq> []" "\<not> prefix p chunk" "\<not> suffix chunk p" by blast
  then show ?thesis
  proof cases
    case 1
    then show ?thesis using short by (simp add: run no_space_at_the_ends)
  next
    case 2
    then show ?thesis by (simp add: run no_space_at_the_ends longest_overlap_prefix)
  next
    case 3
    then show ?thesis by (auto simp: run longest_overlap_prefix prefix_def)
  next
    case 4
    then show ?thesis using short by (simp add: run longest_overlap_suffix)
  next
    case 5
    then show ?thesis by (simp add: run found)
  qed
qed

text \<open>C38: A chunk of thinking adds what the text does not already end with. Unless the chunk is recognised as
  the whole text sent again, which then replaces it, the merged text is the text so far (out of its old wrapper), followed by the
  chunk without the longest beginning the text ends with, after a space only if nothing overlaps and a space
  is missing; this holds when the text or the chunk has at most 4000 characters, as far as the code looks for an
  overlap. The merged text always ends with the chunk, and unless it is itself a text in the old wrapper,
  the same chunk again changes nothing.\<close>

theorem thinking_merge_cuts_the_overlap:
  fixes prev chunk :: string
  defines "p \<equiv> unwrapThinkingText prev" and "r \<equiv> mergeThinkingText prev chunk"
  shows "(length p \<le> 4000 \<or> length chunk \<le> 4000 \<longrightarrow> r =
      (if resends p chunk \<and> p \<noteq> [] then chunk
       else p @ (if longest_overlap p chunk = 0 \<and> needs_space p chunk then '' '' else []) @ drop (longest_overlap p chunk) chunk))
    \<and> suffix chunk r \<and> (unwrapThinkingText r = r \<longrightarrow> mergeThinkingText r chunk = r)"
proof (intro conjI impI)
  show suf: "suffix chunk r" unfolding r_def by (rule merge_ends_with_chunk)
  show "mergeThinkingText r chunk = r" if unwrapped: "unwrapThinkingText r = r"
  proof (cases "chunk = []")
    case False
    then have "r \<noteq> []" using suf by auto
    moreover have "chunk = r" if "starts_with chunk r"
      using that suf by (metis starts_with_prefix prefix_length_le suffix_length_le suffix_order.eq_iff le_antisym
          suffix_def append_eq_append_conv append_Nil)
    ultimately show ?thesis
      using unwrapped suf False by (subst mergeThinkingText_def) (auto simp: Let_def ends_with_suffix)
  qed (use unwrapped in \<open>subst mergeThinkingText_def, simp\<close>)
qed (unfold p_def r_def, rule merge_cuts_the_overlap)

theorem thinking_merge_cuts_the_overlap_witness:
  "mergeThinkingText ''Let me look at'' ''at it.'' = ''Let me look at'' @ drop (longest_overlap ''Let me look at'' ''at it.'') ''at it.''
   \<and> mergeThinkingText (mergeThinkingText ''Let me look.'' ''Next'') ''Next'' = ''Let me look. Next''"
proof
  have un: "unwrapThinkingText ''Let me look at'' = ''Let me look at''" by code_simp
  have "\<not> resends ''Let me look at'' ''at it.''" by (simp add: resends_def)
  moreover have "longest_overlap ''Let me look at'' ''at it.'' = 2" by code_simp
  ultimately show "mergeThinkingText ''Let me look at'' ''at it.'' = ''Let me look at'' @ drop (longest_overlap ''Let me look at'' ''at it.'') ''at it.''"
    using thinking_merge_cuts_the_overlap [of "''Let me look at''" "''at it.''"] by (simp add: un)
  have run: "mergeThinkingText ''Let me look.'' ''Next'' = ''Let me look. Next''" by code_simp
  have "unwrapThinkingText (mergeThinkingText ''Let me look.'' ''Next'') = mergeThinkingText ''Let me look.'' ''Next''"
    by code_simp
  from thinking_merge_cuts_the_overlap [of "''Let me look.''" "''Next''", THEN conjunct2, THEN conjunct2, THEN mp, OF this]
  show "mergeThinkingText (mergeThinkingText ''Let me look.'' ''Next'') ''Next'' = ''Let me look. Next''"
    by (simp add: run)
qed

text \<open>
  An overlap of a single character counts, so a chunk that starts with the character the text ends with
  loses it; and a chunk that repeats the last one is dropped, which a stream of increments may well do.
\<close>

lemma merge_swallows_a_letter:
  "mergeThinkingText ''the book'' ''keeper'' = ''the bookeeper'' \<and> mergeThinkingText ''ha'' ''ha'' = ''ha''"
  by code_simp

text \<open>The lines of a fenced block are not kept verbatim: a blank line inside it is lost.\<close>

lemma blank_line_in_fence_is_lost:
  "normalizeThinkingChunk (''```'' @ [nl] @ ''a;'' @ [nl, nl] @ ''b;'' @ [nl] @ ''```'')
     = ''```'' @ [nl] @ ''a;'' @ [nl] @ ''b;'' @ [nl] @ ''```''"
  by code_simp

lemma words_are_joined:
  "normalizeThinkingChunk (''I'' @ [nl] @ ''see'' @ [nl] @ ''**'' @ [nl] @ ''it'' @ [nl] @ ''**'' @ [nl] @ '','' @ [nl] @ ''now'')
     = ''I see**it**, now''"
  by code_simp

end
