(* ===== verification/TextPhase.thy ===== *)
theory TextPhase
  imports
    ToolLifecycle
    ThinkingText
begin

text \<open>
  Texts, thinking and the first sight of a tool call in the message reducer:
  \<open>apps/ui/sources/sync/reducer/phases/userAndText.ts\<close>, with \<open>helpers/streamSegmentMeta.ts\<close>,
  \<open>helpers/upsertStreamSegmentSnapshotMessage.ts\<close>, \<open>helpers/mergeCursors.ts\<close>,
  \<open>sync/domains/messages/syntheticNoResponseMessageMeta.ts\<close> and the usage totals of \<open>reducer.ts\<close>.
\<close>

section \<open>Metadata of a message\<close>

type_synonym meta = "(string \<times> jsval) list option"

definition meta_get :: "meta \<Rightarrow> string \<Rightarrow> jsval" where
  "meta_get meta key = (case meta of None \<Rightarrow> JUndef | Some m \<Rightarrow> fields_get m key)"

definition hasSyntheticNoResponseMeta :: "meta \<Rightarrow> bool" where
  "hasSyntheticNoResponseMeta meta = (meta_get meta ''happierSyntheticNoResponseV1'' = JBool True)"

datatype segment_kind = AssistantSegment | ThinkingSegment

datatype segment_state = Streaming | Complete | Interrupted

record stream_segment =
  segmentKind :: segment_kind
  segmentLocalId :: "string option"
  segmentState :: "segment_state option"
  segmentUpdatedAt :: "rat option"

fun segment_kind_of :: "jsval \<Rightarrow> segment_kind option" where
  "segment_kind_of (JStr s) =
     (if s = ''assistant'' then Some AssistantSegment else if s = ''thinking'' then Some ThinkingSegment else None)"
| "segment_kind_of _ = None"

fun segment_state_of :: "jsval \<Rightarrow> segment_state option" where
  "segment_state_of (JStr s) =
     (if s = ''streaming'' then Some Streaming else if s = ''complete'' then Some Complete
      else if s = ''interrupted'' then Some Interrupted else None)"
| "segment_state_of _ = None"

fun finite_value :: "jsval \<Rightarrow> rat option" where
  "finite_value (JNum (Fin r)) = Some r"
| "finite_value _ = None"

definition readStreamSegmentMetaV1 :: "meta \<Rightarrow> stream_segment option" where
  "readStreamSegmentMetaV1 meta =
     (let segment = meta_get meta ''happierStreamSegmentV1''
      in if \<not> is_record segment \<or> prop_get segment ''v'' \<noteq> JNum (Fin 1) then None
         else case segment_kind_of (prop_get segment ''segmentKind'') of
                None \<Rightarrow> None
              | Some kind \<Rightarrow>
                  Some \<lparr>segmentKind = kind,
                    segmentLocalId = (case str_of (prop_get segment ''segmentLocalId'') of
                       Some s \<Rightarrow> if s \<noteq> [] then Some s else None | None \<Rightarrow> None),
                    segmentState = segment_state_of (prop_get segment ''segmentState''),
                    segmentUpdatedAt = finite_value (prop_get segment ''updatedAtMs'')\<rparr>)"

section \<open>Usage\<close>

text \<open>\<open>Math.trunc\<close> of a finite number that is not negative.\<close>

definition readContextUsageTelemetryNumber :: "jsval \<Rightarrow> rat option" where
  "readContextUsageTelemetryNumber v =
     (case finite_value v of None \<Rightarrow> None | Some r \<Rightarrow> if 0 \<le> r then Some (of_int (math_trunc r)) else None)"

definition processUsageData :: "usage_data \<Rightarrow> rat \<Rightarrow> reducer_state \<Rightarrow> reducer_state" where
  "processUsageData usage timestamp st =
     (if (case latestUsage st of None \<Rightarrow> True | Some u \<Rightarrow> usedAt u < timestamp) then
        let reported = readContextUsageTelemetryNumber (contextWindowTokens usage);
            window = (case reported of Some w \<Rightarrow> Some w | None \<Rightarrow> (case latestUsage st of None \<Rightarrow> None | Some u \<Rightarrow> usedWindow u));
            derived = some_or 0 (cacheCreationTokens usage) + some_or 0 (cacheReadTokens usage) + inputTokens usage;
            context = (case readContextUsageTelemetryNumber (contextUsedTokens usage) of
                         Some c \<Rightarrow> c
                       | None \<Rightarrow> if reported \<noteq> None then (case latestUsage st of None \<Rightarrow> 0 | Some u \<Rightarrow> usedContext u) else derived)
        in st\<lparr>latestUsage := Some \<lparr>usedInput = inputTokens usage, usedOutput = outputTokens usage,
             usedCacheCreation = some_or 0 (cacheCreationTokens usage), usedCacheRead = some_or 0 (cacheReadTokens usage),
             usedContext = context, usedWindow = window, usedAt = timestamp\<rparr>\<rparr>
      else st)"

section \<open>Snapshots of a streamed segment\<close>

text \<open>The number a streamed text moves on to.\<close>

definition advance_seq :: "int option \<Rightarrow> int option \<Rightarrow> int option" where
  "advance_seq prev nxt =
     (case nxt of None \<Rightarrow> prev
      | Some n \<Rightarrow> (case prev of None \<Rightarrow> nxt | Some p \<Rightarrow> if p < n then nxt else prev))"

definition shouldApplyStreamSegmentSnapshotUpdate :: "reducer_message \<Rightarrow> meta \<Rightarrow> int option \<Rightarrow> bool" where
  "shouldApplyStreamSegmentSnapshotUpdate prev nextMeta nextSeq =
     (let updated = (\<lambda>meta. case readStreamSegmentMetaV1 meta of None \<Rightarrow> None | Some s \<Rightarrow> segmentUpdatedAt s)
      in if (case (messageSeq prev, nextSeq) of (Some p, Some n) \<Rightarrow> n < p | _ \<Rightarrow> False) then False
         else if (case (updated (messageMeta prev), updated nextMeta) of (Some p, Some n) \<Rightarrow> n < p | _ \<Rightarrow> False) then False
         else True)"

record upsert_result =
  upsertId :: "string option"
  didCreate :: bool
  accepted :: bool

text \<open>
  Every message carries a metadata object of its own, so two of them are the same value only when both
  are missing. \<open>markChanged\<close> is the callback of the caller.
\<close>

definition upsertStreamSegmentSnapshotMessage ::
  "(nat \<Rightarrow> string) \<Rightarrow> (string \<Rightarrow> reducer_state \<Rightarrow> reducer_state) \<Rightarrow> string \<Rightarrow> traced_message \<Rightarrow> jsnum option \<Rightarrow> bool \<Rightarrow>
   string \<Rightarrow> reducer_state \<Rightarrow> reducer_state \<times> upsert_result" where
  "upsertStreamSegmentSnapshotMessage alloc markChanged localId msg block isThinking nextText st =
     (let nextSeq = normalizeTranscriptSeq (tracedSeq msg);
          nextBlockIndex = normalizeTranscriptBlockIndex block
      in case (if falsy_str (map_of (localIds st) localId) then None else map_of (localIds st) localId) of
           Some existingId \<Rightarrow>
             (case map_of (messages st) existingId of
                None \<Rightarrow> (st, \<lparr>upsertId = None, didCreate = False, accepted = False\<rparr>)
              | Some prev \<Rightarrow>
                  if messageRole prev \<noteq> AgentRole \<or> messageThinking prev \<noteq> isThinking
                  then (st, \<lparr>upsertId = None, didCreate = False, accepted = False\<rparr>)
                  else if \<not> shouldApplyStreamSegmentSnapshotUpdate prev (tracedMeta msg) nextSeq
                  then (st, \<lparr>upsertId = Some existingId, didCreate = False, accepted = False\<rparr>)
                  else let hasChanges = (messageBody prev \<noteq> Some nextText \<or> messageMeta prev \<noteq> None \<or> tracedMeta msg \<noteq> None);
                           shouldApplyBlockIndex = (blockIndex prev = None \<and> nextBlockIndex \<noteq> None);
                           prev' = prev\<lparr>messageBody := Some nextText, messageSeq := advance_seq (messageSeq prev) nextSeq,
                                     blockIndex := (if shouldApplyBlockIndex then nextBlockIndex else blockIndex prev),
                                     messageMeta := tracedMeta msg\<rparr>
                       in (if hasChanges \<or> shouldApplyBlockIndex then markChanged existingId (put_message existingId prev' st) else st,
                           \<lparr>upsertId = Some existingId, didCreate = False, accepted = True\<rparr>))
         | None \<Rightarrow>
             let mid = alloc (allocated st);
                 message = \<lparr>messageId = mid, realId = Some (tracedId msg), messageSeq = nextSeq, blockIndex = nextBlockIndex,
                   messageLocalId = Some localId, messageCreatedAt = tracedCreatedAt msg, messageRole = AgentRole,
                   messageBody = Some nextText, messageThinking = isThinking, messageEvent = None, messageTool = None,
                   messageMeta = tracedMeta msg\<rparr>
             in (markChanged mid (put_message mid message
                   (st\<lparr>allocated := Suc (allocated st), localIds := AList.update localId mid (localIds st)\<rparr>)),
                 \<lparr>upsertId = Some mid, didCreate = True, accepted = True\<rparr>))"

section \<open>The phase\<close>

text \<open>
  The state with the variables of the loops. The stream cursor of the phase is the one of the state,
  which it is seeded from; the thinking cursor may start as the last message of the transcript.
\<close>

record text_run =
  runState :: reducer_state
  lastThinking :: "string option"
  thinkingRunIndex :: nat
  isThinkingRunOpen :: bool

definition on_state :: "(reducer_state \<Rightarrow> reducer_state) \<Rightarrow> text_run \<Rightarrow> text_run" where
  "on_state f r = r\<lparr>runState := f (runState r)\<rparr>"

definition setThinkingCursor :: "string option \<Rightarrow> text_run \<Rightarrow> text_run" where
  "setThinkingCursor nxt r = (on_state (\<lambda>st. st\<lparr>thinkingMergeCursor := nxt\<rparr>) r)\<lparr>lastThinking := nxt\<rparr>"

definition setStreamCursor :: "(string \<times> string) option \<Rightarrow> text_run \<Rightarrow> text_run" where
  "setStreamCursor nxt r = on_state (\<lambda>st. st\<lparr>streamMergeCursor := nxt\<rparr>) r"

definition clearAllCursors :: "text_run \<Rightarrow> text_run" where
  "clearAllCursors r = setStreamCursor None (setThinkingCursor None r)"

definition visible :: "string \<Rightarrow> bool" where
  "visible s = (trim s \<noteq> [])"

text \<open>A new message for a text or a thought.\<close>

definition add_text_message ::
  "(nat \<Rightarrow> string) \<Rightarrow> traced_message \<Rightarrow> int \<Rightarrow> bool \<Rightarrow> string \<Rightarrow> reducer_state \<Rightarrow> reducer_state" where
  "add_text_message alloc msg block isThinking body st =
     (let mid = alloc (allocated st)
      in mark_changed mid (put_message mid
           \<lparr>messageId = mid, realId = Some (tracedId msg), messageSeq = normalizeTranscriptSeq (tracedSeq msg),
            blockIndex = Some block, messageLocalId = tracedLocalId msg, messageCreatedAt = tracedCreatedAt msg,
            messageRole = AgentRole, messageBody = Some body, messageThinking = isThinking, messageEvent = None,
            messageTool = None, messageMeta = tracedMeta msg\<rparr> (st\<lparr>allocated := Suc (allocated st)\<rparr>)))"

definition is_agent_text :: "bool \<Rightarrow> reducer_message \<Rightarrow> bool" where
  "is_agent_text thinking m \<longleftrightarrow> messageRole m = AgentRole \<and> messageThinking m = thinking \<and> messageBody m \<noteq> None"

text \<open>The message a cursor leads to, if it can take more text.\<close>

definition appendable :: "bool \<Rightarrow> string option \<Rightarrow> reducer_state \<Rightarrow> (string \<times> reducer_message) option" where
  "appendable thinking cursor st =
     (case cursor of None \<Rightarrow> None
      | Some i \<Rightarrow>
          if i = [] then None
          else case map_of (messages st) i of None \<Rightarrow> None | Some m \<Rightarrow> if is_agent_text thinking m then Some (i, m) else None)"

definition extend_text :: "(string \<Rightarrow> string) \<Rightarrow> traced_message \<Rightarrow> string \<times> reducer_message \<Rightarrow> reducer_state \<Rightarrow> reducer_state" where
  "extend_text f msg im st =
     mark_changed (fst im) (put_message (fst im)
       ((snd im)\<lparr>messageBody := map_option f (messageBody (snd im)),
                 messageSeq := advance_seq (messageSeq (snd im)) (normalizeTranscriptSeq (tracedSeq msg))\<rparr>) st)"

definition segment_local_id :: "traced_message \<Rightarrow> string option" where
  "segment_local_id msg =
     (case readStreamSegmentMetaV1 (tracedMeta msg) of
        None \<Rightarrow> tracedLocalId msg
      | Some s \<Rightarrow> (case segmentLocalId s of Some l \<Rightarrow> Some l | None \<Rightarrow> tracedLocalId msg))"

text \<open>The local id of a snapshot of the given kind of segment, if the message is one.\<close>

definition snapshot_of :: "segment_kind \<Rightarrow> traced_message \<Rightarrow> string option" where
  "snapshot_of kind msg =
     (case readStreamSegmentMetaV1 (tracedMeta msg) of
        None \<Rightarrow> None
      | Some s \<Rightarrow> if segmentKind s = kind \<and> \<not> falsy_str (segment_local_id msg) then segment_local_id msg else None)"

definition stream_key :: "nat \<Rightarrow> traced_message \<Rightarrow> string option" where
  "stream_key contents msg =
     (let fromMeta = str_of (meta_get (tracedMeta msg) ''happierStreamKey'');
          shouldUseIdFallback = (falsy_str fromMeta \<and> contents = 1 \<and> tracedId msg \<noteq> [])
      in case fromMeta of Some k \<Rightarrow> Some k | None \<Rightarrow> if shouldUseIdFallback then Some (''id:'' @ tracedId msg) else None)"

definition text_content :: "(nat \<Rightarrow> string) \<Rightarrow> traced_message \<Rightarrow> nat \<Rightarrow> int \<Rightarrow> string \<Rightarrow> text_run \<Rightarrow> text_run" where
  "text_content alloc msg contents block body r =
     (if hasSyntheticNoResponseMeta (tracedMeta msg) then
        clearAllCursors (on_state (markRunningToolsUnavailable (Fin (tracedCreatedAt msg))) r)
      else case snapshot_of AssistantSegment msg of
        Some localId \<Rightarrow>
          (let (st, upsert) = upsertStreamSegmentSnapshotMessage alloc mark_changed localId msg (Some (Fin (of_int block))) False body (runState r);
               r' = r\<lparr>runState := st\<rparr>
           in if accepted upsert \<and> visible body then setThinkingCursor None r' else r')
      | None \<Rightarrow>
          (let streamKey = stream_key contents msg;
               target = (if falsy_str streamKey then None
                         else case streamMergeCursor (runState r) of None \<Rightarrow> None
                              | Some (i, key) \<Rightarrow> if Some key = streamKey then appendable False (Some i) (runState r) else None)
           in case target of
                Some im \<Rightarrow>
                  (let r' = setStreamCursor (Some (fst im, the streamKey)) (on_state (extend_text (\<lambda>t. t @ body) msg im) r)
                   in if visible body then setThinkingCursor None r' else r')
              | None \<Rightarrow>
                  (let mid = alloc (allocated (runState r));
                       r1 = on_state (add_text_message alloc msg block False body) r;
                       r2 = (if visible body then setThinkingCursor None r1 else r1)
                   in setStreamCursor (if falsy_str streamKey then None else Some (mid, the streamKey)) r2)))"

text \<open>The key of a run of thoughts, and the message it leads to.\<close>

definition thinking_key :: "string option \<Rightarrow> nat \<Rightarrow> string option" where
  "thinking_key uuid run =
     (case uuid of None \<Rightarrow> None
      | Some u \<Rightarrow> (case trim_or_none u of None \<Rightarrow> None | Some t \<Rightarrow> Some (t @ ''#'' @ string_of_nat run)))"

definition remember_segment :: "string option \<Rightarrow> string \<Rightarrow> text_run \<Rightarrow> text_run" where
  "remember_segment key i r =
     (case key of None \<Rightarrow> r | Some k \<Rightarrow> on_state (\<lambda>st. st\<lparr>thinkingSegments := AList.update k i (thinkingSegments st)\<rparr>) r)"

definition forget_segment :: "string option \<Rightarrow> text_run \<Rightarrow> text_run" where
  "forget_segment key r =
     (case key of None \<Rightarrow> r | Some k \<Rightarrow> on_state (\<lambda>st. st\<lparr>thinkingSegments := AList.delete k (thinkingSegments st)\<rparr>) r)"

text \<open>A thought with no message of its own key goes to the last thought or starts a new one.\<close>

definition append_thought ::
  "(nat \<Rightarrow> string) \<Rightarrow> traced_message \<Rightarrow> int \<Rightarrow> string \<Rightarrow> string option \<Rightarrow> text_run \<Rightarrow> text_run" where
  "append_thought alloc msg block chunk segmentKey r =
     (case appendable True (lastThinking r) (runState r) of
        Some im \<Rightarrow> remember_segment segmentKey (fst im) (setThinkingCursor (Some (fst im))
                     (on_state (extend_text (\<lambda>t. mergeThinkingText t chunk) msg im) r))
      | None \<Rightarrow>
          (let mid = alloc (allocated (runState r))
           in remember_segment segmentKey mid (setThinkingCursor (Some mid) (on_state (add_text_message alloc msg block True chunk) r))))"

definition thinking_content ::
  "(nat \<Rightarrow> string) \<Rightarrow> traced_message \<Rightarrow> int \<Rightarrow> string \<Rightarrow> string option \<Rightarrow> text_run \<Rightarrow> text_run" where
  "thinking_content alloc msg block raw uuid r =
     (let chunk = normalizeThinkingChunk raw
      in case snapshot_of ThinkingSegment msg of
           Some localId \<Rightarrow>
             (let (st, upsert) = upsertStreamSegmentSnapshotMessage alloc mark_changed localId msg (Some (Fin (of_int block))) True chunk (runState r);
                  r1 = r\<lparr>runState := st\<rparr>;
                  r2 = (if didCreate upsert \<and> \<not> falsy_str (upsertId upsert) then setThinkingCursor (upsertId upsert) r1 else r1)
              in if accepted upsert \<and> visible chunk then setStreamCursor None r2 else r2)
         | None \<Rightarrow>
             if \<not> visible chunk \<and> \<not> contains chunk [nl, nl] then r
             else let r0 = r\<lparr>isThinkingRunOpen := True\<rparr>;
                      segmentKey = thinking_key uuid (thinkingRunIndex r);
                      mappedId = (case segmentKey of None \<Rightarrow> None | Some k \<Rightarrow> map_of (thinkingSegments (runState r)) k)
                  in case appendable True mappedId (runState r0) of
                       Some im \<Rightarrow> setThinkingCursor mappedId (on_state (extend_text (\<lambda>t. mergeThinkingText t chunk) msg im) r0)
                     | None \<Rightarrow> append_thought alloc msg block chunk segmentKey (if falsy_str mappedId then r0 else forget_segment segmentKey r0))"

text \<open>
  A tool call that is not known yet gets its message here, to keep the order within the message; unlike
  the later phase, this one leaves the suggestions of a stored permission out.
\<close>

definition early_tool :: "rat \<Rightarrow> string \<Rightarrow> string \<Rightarrow> jsval \<Rightarrow> string option \<Rightarrow> stored_permission option \<Rightarrow> tool_call" where
  "early_tool created cid name input description permission =
     (let tool = new_tool created cid name input description permission
      in tool\<lparr>toolPermission := map_option (\<lambda>p. p\<lparr>permSuggestions := None\<rparr>) (toolPermission tool)\<rparr>)"

definition materialize_tool ::
  "(nat \<Rightarrow> string) \<Rightarrow> (string \<Rightarrow> string \<Rightarrow> rat) \<Rightarrow> traced_message \<Rightarrow> nat \<Rightarrow> string \<Rightarrow> string \<Rightarrow> jsval \<Rightarrow> string option \<Rightarrow>
   reducer_state \<Rightarrow> reducer_state" where
  "materialize_tool alloc lc msg contentIndex cid name input description st =
     (let permission = map_of (permissions st) cid;
          tool = early_tool (tracedCreatedAt msg) cid name input description permission;
          st1 = (if permission = None \<and> isPermissionRequestToolCall cid input
                 then st\<lparr>permissions := AList.update cid
                        \<lparr>storedTool = name, storedArguments = input, storedCreatedAt = tracedCreatedAt msg,
                         storedCompletedAt = None, storedStatus = Pending, storedReason = None, storedMode = None,
                         storedAllowedTools = None, storedSuggestions = None, storedDecision = None\<rparr> (permissions st)\<rparr>
                 else st);
          mid = alloc (allocated st1);
          st2 = put_message mid (new_tool_message mid msg contentIndex tool) (st1\<lparr>allocated := Suc (allocated st1)\<rparr>)
      in drainAndApplyOrphanToolResultsToMessage lc cid mid
           (mark_changed mid (st2\<lparr>toolIdToMessageId := AList.update cid mid (toolIdToMessageId st2)\<rparr>)))"

definition tool_content ::
  "(nat \<Rightarrow> string) \<Rightarrow> (string \<Rightarrow> string \<Rightarrow> rat) \<Rightarrow> traced_message \<Rightarrow> nat \<Rightarrow> string \<Rightarrow> string \<Rightarrow> jsval \<Rightarrow> string option \<Rightarrow>
   text_run \<Rightarrow> text_run" where
  "tool_content alloc lc msg contentIndex cid name input description r =
     (let r1 = clearAllCursors r
      in if map_of (toolIdToMessageId (runState r1)) cid \<noteq> None then r1
         else on_state (materialize_tool alloc lc msg contentIndex cid name input description) r1)"

definition close_run :: "message_content \<Rightarrow> text_run \<Rightarrow> text_run" where
  "close_run c r =
     (if (case c of ThinkingContent _ _ \<Rightarrow> False | _ \<Rightarrow> True) \<and> isThinkingRunOpen r
      then r\<lparr>thinkingRunIndex := Suc (thinkingRunIndex r), isThinkingRunOpen := False\<rparr> else r)"

definition content_step ::
  "(nat \<Rightarrow> string) \<Rightarrow> (string \<Rightarrow> string \<Rightarrow> rat) \<Rightarrow> traced_message \<Rightarrow> text_run \<Rightarrow> nat \<times> message_content \<Rightarrow> text_run" where
  "content_step alloc lc msg r ic =
     (let block = transcriptBlockIndexFromContentIndex (fst ic); r' = close_run (snd ic) r
      in case snd ic of
           TextContent body \<Rightarrow> text_content alloc msg (length (agent_content msg)) block body r'
         | ThinkingContent raw uuid \<Rightarrow> thinking_content alloc msg block raw uuid r'
         | ToolCallContent cid name input description \<Rightarrow> tool_content alloc lc msg (fst ic) cid name input description r'
         | _ \<Rightarrow> r')"

definition user_message :: "(nat \<Rightarrow> string) \<Rightarrow> traced_message \<Rightarrow> string \<Rightarrow> text_run \<Rightarrow> text_run" where
  "user_message alloc msg body r =
     (let st = runState r
      in if (\<not> falsy_str (tracedLocalId msg) \<and> map_of (localIds st) (the (tracedLocalId msg)) \<noteq> None)
            \<or> map_of (messageIds st) (tracedId msg) \<noteq> None then r
         else let mid = alloc (allocated st);
                  ids = (if falsy_str (tracedLocalId msg) then localIds st
                         else AList.update (the (tracedLocalId msg)) mid (localIds st));
                  st1 = mark_changed mid (put_message mid
                    \<lparr>messageId = mid, realId = Some (tracedId msg), messageSeq = normalizeTranscriptSeq (tracedSeq msg),
                     blockIndex = None, messageLocalId = tracedLocalId msg, messageCreatedAt = tracedCreatedAt msg,
                     messageRole = UserRole, messageBody = Some body, messageThinking = False, messageEvent = None,
                     messageTool = None, messageMeta = tracedMeta msg\<rparr>
                    (st\<lparr>allocated := Suc (allocated st), localIds := ids\<rparr>))
              in clearAllCursors (r\<lparr>runState := st1\<lparr>messageIds := AList.update (tracedId msg) mid (messageIds st1)\<rparr>\<rparr>))"

definition message_step ::
  "(nat \<Rightarrow> string) \<Rightarrow> (string \<Rightarrow> string \<Rightarrow> rat) \<Rightarrow> text_run \<Rightarrow> traced_message \<Rightarrow> text_run" where
  "message_step alloc lc r msg =
     (case tracedPayload msg of
        FromUser body \<Rightarrow> user_message alloc msg body r
      | FromAgent _ \<Rightarrow>
          foldl (content_step alloc lc msg)
            ((case tracedUsage msg of None \<Rightarrow> r | Some u \<Rightarrow> on_state (processUsageData u (tracedCreatedAt msg)) r)
               \<lparr>thinkingRunIndex := 0, isThinkingRunOpen := False\<rparr>) (agent_content msg)
      | FromEvent _ \<Rightarrow> r)"

definition runUserAndTextPhase ::
  "(nat \<Rightarrow> string) \<Rightarrow> (string \<Rightarrow> string \<Rightarrow> rat) \<Rightarrow> string option \<Rightarrow> traced_message list \<Rightarrow> reducer_state \<Rightarrow> reducer_state" where
  "runUserAndTextPhase alloc lc lastMainThinkingMessageId msgs st =
     runState (foldl (message_step alloc lc)
       \<lparr>runState = st, lastThinking = lastMainThinkingMessageId, thinkingRunIndex = 0, isThinkingRunOpen = False\<rparr> msgs)"

section \<open>The invariant\<close>

lemma advance_seq_grows [simp]: "seq_grows s (advance_seq s n)"
  by (simp add: seq_grows_def advance_seq_def split: option.splits)

lemma cursors_ok:
  assumes "sound alloc st"
  shows "sound alloc (st\<lparr>thinkingMergeCursor := c\<rparr>) \<and> keeps st (st\<lparr>thinkingMergeCursor := c\<rparr>)"
    and "sound alloc (st\<lparr>streamMergeCursor := k\<rparr>) \<and> keeps st (st\<lparr>streamMergeCursor := k\<rparr>)"
    and "sound alloc (st\<lparr>thinkingSegments := q\<rparr>) \<and> keeps st (st\<lparr>thinkingSegments := q\<rparr>)"
    and "sound alloc (st\<lparr>latestUsage := u\<rparr>) \<and> keeps st (st\<lparr>latestUsage := u\<rparr>)"
    and "sound alloc (st\<lparr>messageIds := ids\<rparr>) \<and> keeps st (st\<lparr>messageIds := ids\<rparr>)"
  using assms state_ok_frame [of alloc st "st\<lparr>thinkingMergeCursor := c\<rparr>"] state_ok_frame [of alloc st "st\<lparr>streamMergeCursor := k\<rparr>"]
    state_ok_frame [of alloc st "st\<lparr>thinkingSegments := q\<rparr>"] state_ok_frame [of alloc st "st\<lparr>latestUsage := u\<rparr>"]
    state_ok_frame [of alloc st "st\<lparr>messageIds := ids\<rparr>"]
  by (simp_all add: sound_def)

lemma usage_ok: "sound alloc st \<Longrightarrow> sound alloc (processUsageData u t st) \<and> keeps st (processUsageData u t st)"
  using cursors_ok(4) [of alloc st] by (simp add: processUsageData_def Let_def keeps_refl)

lemma sound_texts:
  assumes "sound alloc st"
  shows "map_of (messages st) i = Some m \<Longrightarrow> messageTool m = None \<or> messageBody m = None"
    and "map_of (localIds st) k = Some i \<Longrightarrow> \<exists>m. map_of (messages st) i = Some m \<and> messageTool m = None"
  using assms by (simp_all add: sound_def state_ok_def texts_ok_def)

text \<open>Rewriting the text of a message that has one.\<close>

lemma put_text_ok:
  assumes "sound alloc st" and "map_of (messages st) i = Some m" and "messageTool m = None" and "same_creation m m'"
  shows "sound alloc (mark_changed i (put_message i m' st)) \<and> keeps st (mark_changed i (put_message i m' st))"
proof -
  have "messageTool m' = None" using assms(3,4) by (simp add: same_creation_def same_tool_def)
  then have "state_ok alloc (mark_changed i (put_message i m' st)) \<and> keeps st (mark_changed i (put_message i m' st))"
    by (intro state_ok_rewrite_one [where i = i and f = "\<lambda>_. m'"])
       (use assms in \<open>simp_all add: sound_def tool_frame tool_id_of_def\<close>)
  with assms(1) show ?thesis by (simp add: sound_def)
qed

lemma extend_text_ok:
  assumes "sound alloc st" and "appendable thinking cursor st = Some im"
  shows "sound alloc (extend_text f msg im st) \<and> keeps st (extend_text f msg im st)"
proof -
  have m: "map_of (messages st) (fst im) = Some (snd im)" "messageBody (snd im) \<noteq> None"
    using assms(2) by (auto simp: appendable_def is_agent_text_def split: option.splits if_splits)
  then have "messageTool (snd im) = None" using sound_texts(1) [OF assms(1) m(1)] by auto
  then show ?thesis
    unfolding extend_text_def
    by (intro put_text_ok [OF assms(1) m(1)]) (simp_all add: same_creation_def same_tool_def)
qed

lemma add_message_ok:
  assumes "sound alloc st" and "i = alloc (allocated st)" and "messageId m = i" and "messageTool m = None"
    and "\<And>k j. map_of ids k = Some j \<Longrightarrow> j = i \<or> map_of (localIds st) k = Some j"
  shows "sound alloc (mark_changed i (put_message i m (st\<lparr>allocated := Suc (allocated st), localIds := ids\<rparr>)))
    \<and> keeps st (mark_changed i (put_message i m (st\<lparr>allocated := Suc (allocated st), localIds := ids\<rparr>)))"
proof -
  have "state_ok alloc (mark_changed i (put_message i m (st\<lparr>allocated := Suc (allocated st), localIds := ids\<rparr>)))
      \<and> keeps st (mark_changed i (put_message i m (st\<lparr>allocated := Suc (allocated st), localIds := ids\<rparr>)))"
    by (rule state_ok_add [where i = i and m = m]) (use assms in \<open>simp_all add: sound_def tool_frame\<close>)
  with assms(1) show ?thesis by (simp add: sound_def)
qed

lemma add_text_ok:
  assumes "sound alloc st"
  shows "sound alloc (add_text_message alloc msg b t body st) \<and> keeps st (add_text_message alloc msg b t body st)"
proof -
  let ?m = "\<lparr>messageId = alloc (allocated st), realId = Some (tracedId msg), messageSeq = normalizeTranscriptSeq (tracedSeq msg),
      blockIndex = Some b, messageLocalId = tracedLocalId msg, messageCreatedAt = tracedCreatedAt msg, messageRole = AgentRole,
      messageBody = Some body, messageThinking = t, messageEvent = None, messageTool = None, messageMeta = tracedMeta msg\<rparr>"
  have "st\<lparr>allocated := Suc (allocated st), localIds := localIds st\<rparr> = st\<lparr>allocated := Suc (allocated st)\<rparr>" by simp
  then show ?thesis
    using add_message_ok [OF assms refl, where m = ?m and ids = "localIds st"] by (simp add: add_text_message_def Let_def)
qed

lemma upsert_ok:
  assumes "sound alloc st"
  shows "sound alloc (fst (upsertStreamSegmentSnapshotMessage alloc mark_changed l msg b t body st))
    \<and> keeps st (fst (upsertStreamSegmentSnapshotMessage alloc mark_changed l msg b t body st))"
proof (cases "if falsy_str (map_of (localIds st) l) then None else map_of (localIds st) l")
  case None
  have ids: "map_of (AList.update l (alloc (allocated st)) (localIds st)) k = Some j
      \<Longrightarrow> j = alloc (allocated st) \<or> map_of (localIds st) k = Some j" for k j
    by (simp add: update_conv' split: if_splits)
  show ?thesis
    unfolding upsertStreamSegmentSnapshotMessage_def Let_def None option.case fst_conv
    by (rule add_message_ok [OF assms refl _ _ ids]) simp_all
next
  case (Some i)
  then have l: "map_of (localIds st) l = Some i" by (simp split: if_splits)
  then obtain m where m: "map_of (messages st) i = Some m" "messageTool m = None"
    using sound_texts(2) [OF assms] by blast
  have "sound alloc (mark_changed i (put_message i (m\<lparr>messageBody := Some body,
        messageSeq := advance_seq (messageSeq m) s, blockIndex := (if blockIndex m = None \<and> n \<noteq> None then n else blockIndex m),
        messageMeta := tracedMeta msg\<rparr>) st))
      \<and> keeps st (mark_changed i (put_message i (m\<lparr>messageBody := Some body,
        messageSeq := advance_seq (messageSeq m) s, blockIndex := (if blockIndex m = None \<and> n \<noteq> None then n else blockIndex m),
        messageMeta := tracedMeta msg\<rparr>) st))" for s n
    by (rule put_text_ok [OF assms m]) (use m(2) in \<open>simp add: same_creation_def same_tool_def\<close>)
  then show ?thesis
    using Some m(1) assms by (simp add: upsertStreamSegmentSnapshotMessage_def Let_def keeps_refl del: if_cancel)
qed

lemma materialize_ok:
  assumes "sound alloc st" and "map_of (toolIdToMessageId st) cid = None"
  shows "sound alloc (materialize_tool alloc lc msg ci cid name input description st)
    \<and> keeps st (materialize_tool alloc lc msg ci cid name input description st)"
proof -
  define m where "m = new_tool_message (alloc (allocated st)) msg ci
      (early_tool (tracedCreatedAt msg) cid name input description (map_of (permissions st) cid))"
  have "state_ok alloc (materialize_tool alloc lc msg ci cid name input description st)
      \<and> keeps st (materialize_tool alloc lc msg ci cid name input description st)"
    unfolding materialize_tool_def Let_def
    by (rule state_ok_create [where m = m])
       (use assms in \<open>auto simp: sound_def m_def new_tool_message_def early_tool_def tool_id_of_def new_tool_id tool_frame update_conv' Let_def\<close>)
  with assms(1) show ?thesis by (simp add: sound_def)
qed

text \<open>The steps of the phase.\<close>

definition run_ok :: "(nat \<Rightarrow> string) \<Rightarrow> reducer_state \<Rightarrow> text_run \<Rightarrow> bool" where
  "run_ok alloc st r \<longleftrightarrow> sound alloc (runState r) \<and> keeps st (runState r)"

lemma run_ok_on_state:
  "run_ok alloc st r \<Longrightarrow> sound alloc (f (runState r)) \<and> keeps (runState r) (f (runState r)) \<Longrightarrow> run_ok alloc st (on_state f r)"
  by (auto simp: run_ok_def on_state_def intro: keeps_trans)

lemma run_ok_vars [simp]:
  "run_ok alloc st (r\<lparr>lastThinking := x\<rparr>) = run_ok alloc st r"
  "run_ok alloc st (r\<lparr>thinkingRunIndex := n\<rparr>) = run_ok alloc st r"
  "run_ok alloc st (r\<lparr>isThinkingRunOpen := b\<rparr>) = run_ok alloc st r"
  by (simp_all add: run_ok_def)

lemma run_ok_cursors [intro]:
  "run_ok alloc st r \<Longrightarrow> run_ok alloc st (setThinkingCursor c r)"
  "run_ok alloc st r \<Longrightarrow> run_ok alloc st (setStreamCursor k r)"
  "run_ok alloc st r \<Longrightarrow> run_ok alloc st (clearAllCursors r)"
  "run_ok alloc st r \<Longrightarrow> run_ok alloc st (on_state (\<lambda>s. s\<lparr>thinkingSegments := f s\<rparr>) r)"
proof -
  show think: "run_ok alloc st (setThinkingCursor c r)" if "run_ok alloc st r" for c r
    unfolding setThinkingCursor_def run_ok_vars
    using that cursors_ok(1) by (intro run_ok_on_state) (auto simp: run_ok_def)
  show stream: "run_ok alloc st (setStreamCursor k r)" if "run_ok alloc st r" for k r
    unfolding setStreamCursor_def using that cursors_ok(2) by (intro run_ok_on_state) (auto simp: run_ok_def)
  show "run_ok alloc st r \<Longrightarrow> run_ok alloc st (clearAllCursors r)"
    unfolding clearAllCursors_def by (intro think stream)
  show "run_ok alloc st r \<Longrightarrow> run_ok alloc st (on_state (\<lambda>s. s\<lparr>thinkingSegments := f s\<rparr>) r)"
    using cursors_ok(3) by (intro run_ok_on_state) (auto simp: run_ok_def)
qed

lemma run_ok_upsert:
  "run_ok alloc st r \<Longrightarrow>
   run_ok alloc st (r\<lparr>runState := fst (upsertStreamSegmentSnapshotMessage alloc mark_changed l msg b t body (runState r))\<rparr>)"
  using upsert_ok [of alloc "runState r" l msg b t body] by (auto simp: run_ok_def intro: keeps_trans)

lemma run_ok_extend:
  "run_ok alloc st r \<Longrightarrow> appendable t c (runState r) = Some im \<Longrightarrow> run_ok alloc st (on_state (extend_text f msg im) r)"
  using extend_text_ok [of alloc "runState r" t c im f msg] by (intro run_ok_on_state) (auto simp: run_ok_def)

lemma run_ok_add: "run_ok alloc st r \<Longrightarrow> run_ok alloc st (on_state (add_text_message alloc msg b t body) r)"
  using add_text_ok by (intro run_ok_on_state) (auto simp: run_ok_def)

lemma run_ok_usage: "run_ok alloc st r \<Longrightarrow> run_ok alloc st (on_state (processUsageData u t) r)"
  using usage_ok [of alloc "runState r" u t] by (intro run_ok_on_state) (simp_all add: run_ok_def)

lemma text_content_ok:
  assumes "run_ok alloc st r"
  shows "run_ok alloc st (text_content alloc msg n b body r)"
proof (cases "hasSyntheticNoResponseMeta (tracedMeta msg)")
  case True
  then show ?thesis
    using assms mark_ok [of alloc "runState r"]
    by (auto simp: text_content_def run_ok_def [of _ _ r] intro!: run_ok_cursors run_ok_on_state)
next
  case plain: False
  show ?thesis
  proof (cases "snapshot_of AssistantSegment msg")
    case (Some l)
    then show ?thesis
      using plain run_ok_upsert [OF assms] by (auto simp: text_content_def Let_def case_prod_beta intro!: run_ok_cursors)
  next
    case None
    let ?key = "stream_key n msg"
    define target where "target = (if falsy_str ?key then None
        else case streamMergeCursor (runState r) of None \<Rightarrow> None
             | Some (i, key) \<Rightarrow> if Some key = ?key then appendable False (Some i) (runState r) else None)"
    show ?thesis
    proof (cases target)
      case fresh: None
      then show ?thesis
        using plain None run_ok_add [OF assms] unfolding text_content_def Let_def target_def [symmetric]
        by (auto intro!: run_ok_cursors)
    next
      case (Some im)
      then obtain i where app: "appendable False (Some i) (runState r) = Some im"
        by (auto simp: target_def split: if_splits option.splits)
      then show ?thesis
        using plain None Some run_ok_extend [OF assms app] unfolding text_content_def Let_def target_def [symmetric]
        by (auto intro!: run_ok_cursors)
    qed
  qed
qed

lemma append_thought_ok:
  assumes "run_ok alloc st r"
  shows "run_ok alloc st (append_thought alloc msg b chunk key r)"
proof (cases "appendable True (lastThinking r) (runState r)")
  case None
  then show ?thesis
    using run_ok_add [OF assms]
    by (auto simp: append_thought_def Let_def remember_segment_def intro!: run_ok_cursors split: option.splits)
next
  case (Some im)
  then show ?thesis
    using run_ok_extend [OF assms Some]
    by (auto simp: append_thought_def remember_segment_def intro!: run_ok_cursors split: option.splits)
qed

lemma thinking_content_ok:
  assumes "run_ok alloc st r"
  shows "run_ok alloc st (thinking_content alloc msg b raw uuid r)"
proof (cases "snapshot_of ThinkingSegment msg")
  case (Some l)
  then show ?thesis
    using run_ok_upsert [OF assms] by (auto simp: thinking_content_def Let_def case_prod_beta intro!: run_ok_cursors)
next
  case None
  let ?r0 = "r\<lparr>isThinkingRunOpen := True\<rparr>"
  let ?key = "thinking_key uuid (thinkingRunIndex r)"
  define mapped where "mapped = (case ?key of None \<Rightarrow> None | Some k \<Rightarrow> map_of (thinkingSegments (runState r)) k)"
  have r0: "run_ok alloc st ?r0" using assms by simp
  then have "run_ok alloc st (if falsy_str mapped then ?r0 else forget_segment ?key ?r0)"
    by (auto simp: forget_segment_def simp del: run_ok_vars intro!: run_ok_cursors split: option.splits)
  then have append: "run_ok alloc st (append_thought alloc msg b chunk ?key (if falsy_str mapped then ?r0 else forget_segment ?key ?r0))"
    for chunk by (rule append_thought_ok)
  show ?thesis
  proof (cases "appendable True mapped (runState ?r0)")
    case fresh: None
    then show ?thesis
      using assms append unfolding thinking_content_def Let_def mapped_def [symmetric] None by auto
  next
    case (Some im)
    then show ?thesis
      using assms run_ok_extend [OF r0 Some] unfolding thinking_content_def Let_def mapped_def [symmetric] None
      by (auto intro!: run_ok_cursors)
  qed
qed

lemma tool_content_ok:
  assumes "run_ok alloc st r"
  shows "run_ok alloc st (tool_content alloc lc msg ci cid name input description r)"
proof -
  have clear: "run_ok alloc st (clearAllCursors r)" using assms by auto
  moreover have "run_ok alloc st (on_state (materialize_tool alloc lc msg ci cid name input description) (clearAllCursors r))"
    if "map_of (toolIdToMessageId (runState (clearAllCursors r))) cid = None"
    using materialize_ok [OF _ that] clear by (intro run_ok_on_state [OF clear]) (simp add: run_ok_def)
  ultimately show ?thesis by (simp add: tool_content_def Let_def)
qed

lemma content_step_ok:
  assumes "run_ok alloc st r"
  shows "run_ok alloc st (content_step alloc lc msg r ic)"
proof -
  have "run_ok alloc st (close_run (snd ic) r)" using assms by (simp add: close_run_def)
  then show ?thesis
    by (auto simp: content_step_def Let_def text_content_ok thinking_content_ok tool_content_ok split: message_content.splits)
qed

lemma user_message_ok:
  assumes "run_ok alloc st r"
  shows "run_ok alloc st (user_message alloc msg body r)"
proof -
  define s where "s = runState r"
  define mid where "mid = alloc (allocated s)"
  define m where "m = \<lparr>messageId = mid, realId = Some (tracedId msg), messageSeq = normalizeTranscriptSeq (tracedSeq msg),
      blockIndex = None, messageLocalId = tracedLocalId msg, messageCreatedAt = tracedCreatedAt msg,
      messageRole = UserRole, messageBody = Some body, messageThinking = False, messageEvent = None,
      messageTool = None, messageMeta = tracedMeta msg\<rparr>"
  define ids where "ids = (if falsy_str (tracedLocalId msg) then localIds s
      else AList.update (the (tracedLocalId msg)) mid (localIds s))"
  define seen :: "reducer_state \<Rightarrow> reducer_state" where "seen = (\<lambda>q. q\<lparr>messageIds := AList.update (tracedId msg) mid (messageIds q)\<rparr>)"
  let ?added = "mark_changed mid (put_message mid m (s\<lparr>allocated := Suc (allocated s), localIds := ids\<rparr>))"
  have ok: "sound alloc s" "keeps st s" using assms by (simp_all add: run_ok_def s_def)
  have "sound alloc ?added \<and> keeps s ?added"
    by (rule add_message_ok [OF ok(1) mid_def]) (simp_all add: m_def ids_def update_conv' split: if_splits)
  then have "run_ok alloc st (r\<lparr>runState := seen ?added\<rparr>)"
    using cursors_ok(5) ok(2) keeps_trans by (fastforce simp: run_ok_def seen_def)
  moreover have "user_message alloc msg body r = r \<or> user_message alloc msg body r = clearAllCursors (r\<lparr>runState := seen ?added\<rparr>)"
    by (simp add: user_message_def Let_def s_def [symmetric] mid_def m_def ids_def seen_def)
  ultimately show ?thesis using assms by auto
qed

interpretation text_contents: reducer "content_step alloc lc msg" "run_ok alloc st" for alloc lc msg st
  by unfold_locales (rule content_step_ok)

lemma message_step_ok:
  assumes "run_ok alloc st r"
  shows "run_ok alloc st (message_step alloc lc r msg)"
proof -
  have "run_ok alloc st ((case tracedUsage msg of None \<Rightarrow> r | Some u \<Rightarrow> on_state (processUsageData u (tracedCreatedAt msg)) r)
      \<lparr>thinkingRunIndex := 0, isThinkingRunOpen := False\<rparr>)"
    using assms run_ok_usage [OF assms] by (simp split: option.splits)
  then show ?thesis
    using assms by (auto simp: message_step_def user_message_ok text_contents.run_inv split: traced_payload.splits)
qed

interpretation text_messages: reducer "message_step alloc lc" "run_ok alloc st" for alloc lc st
  by unfold_locales (rule message_step_ok)

lemma text_phase_ok:
  assumes "sound alloc st"
  shows "sound alloc (runUserAndTextPhase alloc lc t msgs st) \<and> keeps st (runUserAndTextPhase alloc lc t msgs st)"
  using text_messages.run_inv [of alloc st "\<lparr>runState = st, lastThinking = t, thinkingRunIndex = 0, isThinkingRunOpen = False\<rparr>"] assms
  by (simp add: runUserAndTextPhase_def run_ok_def keeps_refl)

section \<open>Every call has its message\<close>

definition knows :: "string \<Rightarrow> text_run \<Rightarrow> bool" where
  "knows cid r \<longleftrightarrow> map_of (toolIdToMessageId (runState r)) cid \<noteq> None"

lemma knows_frame [simp]:
  "knows c (setThinkingCursor k r) = knows c r" "knows c (setStreamCursor s r) = knows c r" "knows c (clearAllCursors r) = knows c r"
  "knows c (on_state (\<lambda>st. st\<lparr>thinkingSegments := f st\<rparr>) r) = knows c r"
  "knows c (r\<lparr>isThinkingRunOpen := o'\<rparr>) = knows c r" "knows c (r\<lparr>thinkingRunIndex := n\<rparr>) = knows c r"
  "knows c (on_state (extend_text g msg im) r) = knows c r" "knows c (on_state (add_text_message alloc msg b t body) r) = knows c r"
  "knows c (on_state (processUsageData u d) r) = knows c r" "knows c (on_state (markRunningToolsUnavailable d') r) = knows c r"
  by (simp_all add: knows_def setThinkingCursor_def setStreamCursor_def clearAllCursors_def on_state_def extend_text_def
      add_text_message_def processUsageData_def Let_def tool_frame)

lemma upsert_tools: "toolIdToMessageId (fst (upsertStreamSegmentSnapshotMessage alloc mark_changed l msg b t body st)) = toolIdToMessageId st"
  by (simp add: upsertStreamSegmentSnapshotMessage_def Let_def tool_frame split: option.splits)

lemma knows_upsert [simp]:
  "knows c (r\<lparr>runState := fst (upsertStreamSegmentSnapshotMessage alloc mark_changed l msg b t body (runState r))\<rparr>) = knows c r"
  by (simp add: knows_def upsert_tools)

lemma materialize_tools:
  "toolIdToMessageId (materialize_tool alloc lc msg ci cid name input description st) =
     AList.update cid (alloc (allocated st)) (toolIdToMessageId st)"
  by (simp add: materialize_tool_def Let_def drain_alt tool_frame)

lemma knows_append [simp]: "knows c (append_thought alloc msg b chunk key r) = knows c r"
  by (simp add: append_thought_def remember_segment_def Let_def split: option.splits)

lemma knows_text [simp]: "knows c (text_content alloc msg n b body r) = knows c r"
  by (simp add: text_content_def Let_def case_prod_beta split: option.splits)

lemma knows_thinking [simp]: "knows c (thinking_content alloc msg b raw uuid r) = knows c r"
  by (simp add: thinking_content_def forget_segment_def Let_def case_prod_beta split: option.splits)

lemma knows_tool: "knows c (tool_content alloc lc msg ci cid name input description r) \<longleftrightarrow> knows c r \<or> c = cid"
proof -
  have "knows c (on_state (materialize_tool alloc lc msg ci cid name input description) q) \<longleftrightarrow> knows c q \<or> c = cid" for q
    by (simp add: knows_def on_state_def materialize_tools update_conv')
  moreover have "map_of (toolIdToMessageId (runState (clearAllCursors r))) cid \<noteq> None \<longleftrightarrow> knows cid r"
    using knows_frame(3) [of cid r] unfolding knows_def .
  ultimately show ?thesis by (auto simp: tool_content_def Let_def)
qed

definition calls_of :: "(nat \<times> message_content) list \<Rightarrow> string list" where
  "calls_of cs = concat (map (\<lambda>ic. case snd ic of ToolCallContent cid _ _ _ \<Rightarrow> [cid] | _ \<Rightarrow> []) cs)"

lemma knows_content: "knows c (content_step alloc lc msg r ic) \<longleftrightarrow> knows c r \<or> c \<in> set (calls_of [ic])"
proof -
  have "knows c (close_run x r) = knows c r" for x by (simp add: close_run_def)
  then show ?thesis by (auto simp: content_step_def Let_def calls_of_def knows_tool split: message_content.splits)
qed

lemma knows_contents: "knows c (foldl (content_step alloc lc msg) r ics) \<longleftrightarrow> knows c r \<or> c \<in> set (calls_of ics)"
proof (induction ics arbitrary: r)
  case (Cons ic ics)
  have "set (calls_of (ic # ics)) = set (calls_of [ic]) \<union> set (calls_of ics)" by (simp add: calls_of_def)
  then show ?case by (auto simp: Cons.IH knows_content)
qed (simp add: calls_of_def)

lemma knows_user [simp]: "knows c (user_message alloc msg body r) = knows c r"
proof -
  have "knows c (r\<lparr>runState := (mark_changed i (put_message i m (s\<lparr>allocated := n, localIds := l\<rparr>)))\<lparr>messageIds := q\<rparr>\<rparr>)
      \<longleftrightarrow> map_of (toolIdToMessageId s) c \<noteq> None" for i m s n l q by (simp add: knows_def tool_frame)
  then show ?thesis by (simp add: user_message_def Let_def) (simp add: knows_def)
qed

lemma knows_message: "knows c (message_step alloc lc r msg) \<longleftrightarrow> knows c r \<or> c \<in> set (calls_of (agent_content msg))"
proof (cases "tracedPayload msg")
  case (FromAgent cs)
  have "knows c ((case tracedUsage msg of None \<Rightarrow> r | Some u \<Rightarrow> on_state (processUsageData u (tracedCreatedAt msg)) r)
      \<lparr>thinkingRunIndex := 0, isThinkingRunOpen := False\<rparr>) = knows c r"
    by (simp split: option.splits)
  then show ?thesis by (simp add: message_step_def FromAgent knows_contents)
qed (simp_all add: message_step_def agent_content_def calls_of_def)

lemma knows_messages:
  "knows c (foldl (message_step alloc lc) r msgs) \<longleftrightarrow> knows c r \<or> (\<exists>msg \<in> set msgs. c \<in> set (calls_of (agent_content msg)))"
  by (induction msgs arbitrary: r) (auto simp: knows_message)

lemma text_phase_knows:
  "msg \<in> set msgs \<Longrightarrow> c \<in> set (calls_of (agent_content msg)) \<Longrightarrow>
   map_of (toolIdToMessageId (runUserAndTextPhase alloc lc t msgs st)) c \<noteq> None"
  using knows_messages [of c alloc lc "\<lparr>runState = st, lastThinking = t, thinkingRunIndex = 0, isThinkingRunOpen = False\<rparr>" msgs]
  by (auto simp: runUserAndTextPhase_def knows_def)

lemma update_only:
  assumes "set (calls_of ics) \<subseteq> {c. map_of (toolIdToMessageId st) c \<noteq> None}"
  shows "allocated (foldl (tool_call_content alloc lc msg) st ics) = allocated st
    \<and> toolIdToMessageId (foldl (tool_call_content alloc lc msg) st ics) = toolIdToMessageId st"
  using assms
proof (induction ics arbitrary: st)
  case (Cons ic ics)
  have frame: "allocated (update_tool_message msg i mid cid name input description s) = allocated s
      \<and> toolIdToMessageId (update_tool_message msg i mid cid name input description s) = toolIdToMessageId s"
    for i mid cid name input description s
    by (simp add: update_tool_message_def Let_def tool_frame track_todos_def put_message_def mark_changed_def split: option.splits)
  have split: "set (calls_of (ic # ics)) = set (calls_of [ic]) \<union> set (calls_of ics)" by (simp add: calls_of_def)
  have "allocated (tool_call_content alloc lc msg st ic) = allocated st
      \<and> toolIdToMessageId (tool_call_content alloc lc msg st ic) = toolIdToMessageId st"
    using Cons.prems frame by (auto simp: split tool_call_content_def calls_of_def split: message_content.splits)
  then show ?case using Cons.IH [of "tool_call_content alloc lc msg st ic"] Cons.prems by (simp add: split)
qed simp

text \<open>C37: When the phase for tool calls runs, the phase for texts has given every call of the batch its
  message: no new message is made any more, the calls are only updated.\<close>

theorem calls_are_only_updated:
  "allocated (runToolCallsPhase alloc lc msgs (runUserAndTextPhase alloc lc t msgs st))
     = allocated (runUserAndTextPhase alloc lc t msgs st)
   \<and> toolIdToMessageId (runToolCallsPhase alloc lc msgs (runUserAndTextPhase alloc lc t msgs st))
     = toolIdToMessageId (runUserAndTextPhase alloc lc t msgs st)"
proof -
  define st1 where "st1 = runUserAndTextPhase alloc lc t msgs st"
  have known: "set (calls_of (agent_content msg)) \<subseteq> {c. map_of (toolIdToMessageId st1) c \<noteq> None}" if "msg \<in> set msgs" for msg
    using text_phase_knows [OF that] by (auto simp: st1_def)
  have "allocated (foldl (\<lambda>s msg. foldl (tool_call_content alloc lc msg) s (agent_content msg)) s ms) = allocated s
      \<and> toolIdToMessageId (foldl (\<lambda>s msg. foldl (tool_call_content alloc lc msg) s (agent_content msg)) s ms) = toolIdToMessageId s"
    if "set ms \<subseteq> set msgs" "toolIdToMessageId s = toolIdToMessageId st1" for s ms
    using that
  proof (induction ms arbitrary: s)
    case (Cons m ms)
    have "set (calls_of (agent_content m)) \<subseteq> {c. map_of (toolIdToMessageId s) c \<noteq> None}"
      using known Cons.prems by simp
    then show ?case
      using update_only [of "agent_content m" s alloc lc m] Cons by simp
  qed simp
  from this [of msgs st1] show ?thesis unfolding runToolCallsPhase_def st1_def by simp
qed

end
