(* ===== verification/SidechainPhase.thy ===== *)
theory SidechainPhase
  imports
    TextPhase
    "HOL-Library.Multiset"
    "HOL-Library.Sublist"
begin

text \<open>
  The phase of the message reducer for sidechains, the messages of subagents:
  \<open>apps/ui/sources/sync/reducer/phases/sidechains.ts\<close>, with \<open>helpers/subagentSyntheticInterruption.ts\<close> and
  the cursors of \<open>helpers/mergeCursors.ts\<close>. A chain is entered in the map at once, where the code does so
  at the end of a message; nothing looks at it in between.
\<close>

section \<open>Chains\<close>

definition children :: "reducer_state \<Rightarrow> string list" where
  "children st = children_of (sidechains st)"

definition set_chain :: "string \<Rightarrow> string list \<Rightarrow> reducer_state \<Rightarrow> reducer_state" where
  "set_chain sid c st = st\<lparr>sidechains := AList.update sid c (sidechains st)\<rparr>"

definition push_child :: "string \<Rightarrow> string \<Rightarrow> reducer_state \<Rightarrow> reducer_state" where
  "push_child sid i st = set_chain sid (chain_of st sid @ [i]) st"

definition last_child :: "string \<Rightarrow> reducer_state \<Rightarrow> (string \<times> reducer_message) option" where
  "last_child sid st =
     (case chain_of st sid of [] \<Rightarrow> None
      | c \<Rightarrow> (case map_of (messages st) (last c) of None \<Rightarrow> None | Some m \<Rightarrow> Some (last c, m)))"

definition setSidechainThinkingMergeCursor :: "string \<Rightarrow> string option \<Rightarrow> reducer_state \<Rightarrow> reducer_state" where
  "setSidechainThinkingMergeCursor sid nxt st =
     (if map_of (sidechainThinkingMergeCursors st) sid = nxt then st
      else st\<lparr>sidechainThinkingMergeCursors :=
             (case nxt of None \<Rightarrow> AList.delete sid (sidechainThinkingMergeCursors st)
              | Some i \<Rightarrow> AList.update sid i (sidechainThinkingMergeCursors st))\<rparr>)"

definition child_message ::
  "traced_message \<Rightarrow> message_role \<Rightarrow> string option \<Rightarrow> bool \<Rightarrow> tool_call option \<Rightarrow> string \<Rightarrow> reducer_message" where
  "child_message msg role body isThinking tool mid =
     \<lparr>messageId = mid, realId = Some (tracedId msg), messageSeq = normalizeTranscriptSeq (tracedSeq msg), blockIndex = None,
      messageLocalId = tracedLocalId msg, messageCreatedAt = tracedCreatedAt msg, messageRole = role, messageBody = body,
      messageThinking = isThinking, messageEvent = None, messageTool = tool, messageMeta = tracedMeta msg\<rparr>"

definition add_child :: "(nat \<Rightarrow> string) \<Rightarrow> string \<Rightarrow> (string \<Rightarrow> reducer_message) \<Rightarrow> reducer_state \<Rightarrow> reducer_state" where
  "add_child alloc sid new st =
     (let mid = alloc (allocated st) in push_child sid mid (put_message mid (new mid) (st\<lparr>allocated := Suc (allocated st)\<rparr>)))"

section \<open>The contents of a message\<close>

text \<open>A snapshot of a streamed segment: it tells nobody of a change, and a new message joins the chain.\<close>

definition upsert_child ::
  "(nat \<Rightarrow> string) \<Rightarrow> string \<Rightarrow> string \<Rightarrow> traced_message \<Rightarrow> bool \<Rightarrow> string \<Rightarrow> reducer_state \<Rightarrow> reducer_state \<times> upsert_result" where
  "upsert_child alloc sid localId msg isThinking body st =
     (let (st1, upsert) = upsertStreamSegmentSnapshotMessage alloc (\<lambda>_ s. s) localId msg None isThinking body st
      in (case upsertId upsert of None \<Rightarrow> st1 | Some i \<Rightarrow> if didCreate upsert then push_child sid i st1 else st1, upsert))"

definition put_body :: "(string \<Rightarrow> string) \<Rightarrow> string \<times> reducer_message \<Rightarrow> reducer_state \<Rightarrow> reducer_state" where
  "put_body f im st = put_message (fst im) ((snd im)\<lparr>messageBody := map_option f (messageBody (snd im))\<rparr>) st"

definition side_stream_key :: "meta \<Rightarrow> string option" where
  "side_stream_key meta = str_of (meta_get meta ''happierSidechainStreamKey'')"

definition side_text :: "(nat \<Rightarrow> string) \<Rightarrow> string \<Rightarrow> traced_message \<Rightarrow> string \<Rightarrow> reducer_state \<Rightarrow> reducer_state" where
  "side_text alloc sid msg body st =
     (case snapshot_of AssistantSegment msg of
        Some localId \<Rightarrow>
          (let (st1, upsert) = upsert_child alloc sid localId msg False body st
           in if accepted upsert \<and> visible body then setSidechainThinkingMergeCursor sid None st1 else st1)
      | None \<Rightarrow>
          (let streamKey = side_stream_key (tracedMeta msg);
               canMerge = (\<lambda>m. is_agent_text False m \<and> side_stream_key (messageMeta m) = streamKey);
               fresh = add_child alloc sid (child_message msg AgentRole (Some body) False None) st;
               st1 = (if falsy_str streamKey then fresh
                      else case last_child sid st of
                             None \<Rightarrow> fresh
                           | Some im \<Rightarrow> if canMerge (snd im) then put_body (\<lambda>t. t @ body) im st else fresh)
           in if visible body then setSidechainThinkingMergeCursor sid None st1 else st1))"

definition side_thought_target :: "string \<Rightarrow> reducer_state \<Rightarrow> (string \<times> reducer_message) option" where
  "side_thought_target sid st =
     (let thinking = (\<lambda>im. case im of None \<Rightarrow> None | Some x \<Rightarrow> if is_agent_text True (snd x) then Some x else None);
          cursor = (case map_of (sidechainThinkingMergeCursors st) sid of None \<Rightarrow> None
                    | Some i \<Rightarrow> (case map_of (messages st) i of None \<Rightarrow> None | Some m \<Rightarrow> Some (i, m)))
      in case thinking cursor of Some x \<Rightarrow> Some x | None \<Rightarrow> thinking (last_child sid st))"

definition side_thinking :: "(nat \<Rightarrow> string) \<Rightarrow> string \<Rightarrow> traced_message \<Rightarrow> string \<Rightarrow> reducer_state \<Rightarrow> reducer_state" where
  "side_thinking alloc sid msg raw st =
     (let chunk = normalizeThinkingChunk raw
      in case snapshot_of ThinkingSegment msg of
           Some localId \<Rightarrow>
             (let (st1, upsert) = upsert_child alloc sid localId msg True chunk st
              in if accepted upsert \<and> visible chunk then setSidechainThinkingMergeCursor sid (upsertId upsert) st1 else st1)
         | None \<Rightarrow>
             if \<not> visible chunk \<and> \<not> contains chunk [nl, nl] then st
             else case side_thought_target sid st of
                    Some im \<Rightarrow> setSidechainThinkingMergeCursor sid (Some (fst im)) (put_body (\<lambda>t. unwrapThinkingText t @ chunk) im st)
                  | None \<Rightarrow>
                      setSidechainThinkingMergeCursor sid (Some (alloc (allocated st)))
                        (add_child alloc sid (child_message msg AgentRole (Some chunk) True None) st))"

text \<open>The permission of the call, if the main transcript has one, is copied and shown as running there.\<close>

definition side_tool :: "rat \<Rightarrow> string \<Rightarrow> string \<Rightarrow> jsval \<Rightarrow> string option \<Rightarrow> tool_permission option \<Rightarrow> tool_call" where
  "side_tool created cid name input description permission =
     \<lparr>toolId = Some cid, toolName = name, toolState = Running, toolInput = input, toolCreatedAt = created, toolStartedAt = None,
      toolCompletedAt = None, toolDescription = description, toolResult = JUndef, toolPermission = permission\<rparr>"

definition main_tool :: "string \<Rightarrow> reducer_state \<Rightarrow> (string \<times> reducer_message \<times> tool_call) option" where
  "main_tool cid st =
     (case map_of (toolIdToMessageId st) cid of
        None \<Rightarrow> None
      | Some mid \<Rightarrow>
          (case map_of (messages st) mid of
             None \<Rightarrow> None
           | Some m \<Rightarrow> (case messageTool m of None \<Rightarrow> None | Some tool \<Rightarrow> Some (mid, m, tool))))"

definition show_running :: "rat \<Rightarrow> string option \<Rightarrow> string \<times> reducer_message \<times> tool_call \<Rightarrow> reducer_state \<Rightarrow> reducer_state" where
  "show_running created description imt st =
     (let (mid, m, tool) = imt
      in if toolPermission tool = None \<or> toolState tool = Completed \<or> toolState tool = Errored then st
         else mark_changed mid (put_message mid
                (m\<lparr>messageTool := Some (tool\<lparr>toolState := Running, toolStartedAt := Some created, toolDescription := description\<rparr>)\<rparr>) st))"

definition side_call ::
  "(nat \<Rightarrow> string) \<Rightarrow> string \<Rightarrow> traced_message \<Rightarrow> string \<Rightarrow> string \<Rightarrow> jsval \<Rightarrow> string option \<Rightarrow> reducer_state \<Rightarrow> reducer_state" where
  "side_call alloc sid msg cid name input description st =
     (let st1 = setSidechainThinkingMergeCursor sid None st;
          mid = alloc (allocated st1);
          permission = (case main_tool cid st1 of None \<Rightarrow> None | Some (_, _, tool) \<Rightarrow> toolPermission tool);
          st2 = (case main_tool cid st1 of None \<Rightarrow> st1 | Some imt \<Rightarrow> show_running (tracedCreatedAt msg) description imt st1);
          st3 = add_child alloc sid
                  (child_message msg AgentRole None False
                     (Some (side_tool (tracedCreatedAt msg) cid name input description permission))) st2
      in st3\<lparr>sidechainToolIdToMessageId := AList.update cid mid (sidechainToolIdToMessageId st3)\<rparr>)"

definition side_result :: "traced_message \<Rightarrow> tool_result_update \<Rightarrow> reducer_state \<Rightarrow> reducer_state" where
  "side_result msg upd st =
     (let apply = (\<lambda>mid s. case mid of None \<Rightarrow> s
                           | Some i \<Rightarrow> applyToolResultUpdateToReducerMessage i upd (tracedCreatedAt msg) (tracedMeta msg) s);
          st1 = apply (map_of (sidechainToolIdToMessageId st) (resultToolId upd)) st
      in apply (map_of (toolIdToMessageId st1) (resultToolId upd)) st1)"

definition side_content :: "(nat \<Rightarrow> string) \<Rightarrow> string \<Rightarrow> traced_message \<Rightarrow> reducer_state \<Rightarrow> message_content \<Rightarrow> reducer_state" where
  "side_content alloc sid msg st c =
     (case c of
        TextContent body \<Rightarrow> side_text alloc sid msg body st
      | ThinkingContent raw _ \<Rightarrow> side_thinking alloc sid msg raw st
      | ToolCallContent cid name input description \<Rightarrow> side_call alloc sid msg cid name input description st
      | ToolResultContent upd \<Rightarrow> side_result msg upd st
      | _ \<Rightarrow> st)"

text \<open>The root of a sidechain is shown as what the user said; other roles than the agent's have nothing to show.\<close>

definition side_contents :: "(nat \<Rightarrow> string) \<Rightarrow> string \<Rightarrow> traced_message \<Rightarrow> reducer_state \<Rightarrow> reducer_state" where
  "side_contents alloc sid msg st =
     (case tracedPayload msg of
        FromAgent (SidechainContent prompt # _) \<Rightarrow>
          setSidechainThinkingMergeCursor sid None (add_child alloc sid (child_message msg UserRole (Some prompt) False None) st)
      | FromAgent cs \<Rightarrow> foldl (side_content alloc sid msg) st cs
      | _ \<Rightarrow> st)"

section \<open>A subagent whose call was closed too early\<close>

definition isSyntheticRequestInterruptedToolResult :: "tool_call \<Rightarrow> bool" where
  "isSyntheticRequestInterruptedToolResult tool \<longleftrightarrow> prop_get (toolResult tool) ''error'' = JStr REQUEST_INTERRUPTED_REASON"

definition isRestorableSubagentClosure :: "tool_call \<Rightarrow> bool" where
  "isRestorableSubagentClosure tool \<longleftrightarrow>
     toolState tool = Unavailable \<or> (toolState tool = Errored \<and> isSyntheticRequestInterruptedToolResult tool)"

definition hasLinkedActivity :: "string \<Rightarrow> string \<Rightarrow> tool_call \<Rightarrow> reducer_state \<Rightarrow> bool" where
  "hasLinkedActivity sid mid tool st \<longleftrightarrow>
     isSubAgentTranscriptToolName (toolName tool)
     \<and> list_ex (\<lambda>i. 0 < sidechainLengths st i)
         ((if trim sid = [] then [] else [trim sid]) @ collectSubagentSidechainIds mid tool)"

definition restored_permission :: "tool_call \<Rightarrow> tool_permission \<Rightarrow> tool_permission" where
  "restored_permission tool p =
     (if permStatus p = Canceled \<and> permReason p = Some REQUEST_INTERRUPTED_REASON
      then p\<lparr>permStatus := (if toolStartedAt tool = None then Pending else Approved), permReason := None,
             permDecision := (if permDecision p = Some DecidedAbort then None else permDecision p)\<rparr>
      else p)"

definition restored_tool :: "tool_call \<Rightarrow> tool_call" where
  "restored_tool tool =
     tool\<lparr>toolState := Running, toolCompletedAt := None,
          toolResult := (if isSyntheticRequestInterruptedToolResult tool then JUndef else toolResult tool),
          toolPermission := map_option (restored_permission tool) (toolPermission tool)\<rparr>"

definition restoreSubagentToolFromSyntheticInterruption :: "string \<Rightarrow> string \<Rightarrow> reducer_state \<Rightarrow> reducer_state" where
  "restoreSubagentToolFromSyntheticInterruption mid sid st =
     (case map_of (messages st) mid of
        None \<Rightarrow> st
      | Some m \<Rightarrow>
          (case messageTool m of
             None \<Rightarrow> st
           | Some tool \<Rightarrow>
               if isRestorableSubagentClosure tool \<and> hasLinkedActivity sid mid tool st
               then put_message mid (m\<lparr>messageTool := Some (restored_tool tool)\<rparr>) st else st))"

section \<open>The phase\<close>

definition is_stream_segment :: "traced_message \<Rightarrow> bool" where
  "is_stream_segment msg \<longleftrightarrow> readStreamSegmentMetaV1 (tracedMeta msg) \<noteq> None \<and> \<not> falsy_str (segment_local_id msg)"

definition side_skips :: "traced_message \<Rightarrow> reducer_state \<Rightarrow> bool" where
  "side_skips msg st \<longleftrightarrow>
     falsy_str (tracedSidechainId msg) \<or> (\<not> is_stream_segment msg \<and> map_of (messageIds st) (tracedId msg) \<noteq> None)"

text \<open>The owner of the chain, if its call is known, is running again and shown again.\<close>

definition refresh_owner :: "string \<Rightarrow> string option \<Rightarrow> reducer_state \<Rightarrow> reducer_state" where
  "refresh_owner sid parent st =
     (case parent of None \<Rightarrow> st | Some p \<Rightarrow> mark_changed p (restoreSubagentToolFromSyntheticInterruption p sid st))"

definition side_message :: "(nat \<Rightarrow> string) \<Rightarrow> reducer_state \<Rightarrow> traced_message \<Rightarrow> reducer_state" where
  "side_message alloc st msg =
     (if side_skips msg st then st
      else let sid = the (tracedSidechainId msg);
               st1 = st\<lparr>messageIds := AList.update (tracedId msg) (tracedId msg) (messageIds st)\<rparr>;
               st2 = set_chain sid (chain_of st1 sid) st1
           in refresh_owner sid (map_of (toolIdToMessageId st1) sid) (side_contents alloc sid msg st2))"

text \<open>The phase, and whether it changed the state.\<close>

definition runSidechainsPhase :: "(nat \<Rightarrow> string) \<Rightarrow> traced_message list \<Rightarrow> reducer_state \<Rightarrow> reducer_state \<times> bool" where
  "runSidechainsPhase alloc msgs st =
     foldl (\<lambda>sb msg. (side_message alloc (fst sb) msg, snd sb \<or> \<not> side_skips msg (fst sb))) (st, False) msgs"

section \<open>The phase keeps to its chains\<close>

text \<open>The rows of the main transcript, in their order of creation: the messages that are no children.\<close>

definition main_ids :: "reducer_state \<Rightarrow> string list" where
  "main_ids st = filter (\<lambda>i. i \<notin> set (children st)) (map fst (messages st))"

text \<open>
  The contract of the steps: no row or index entry of the main transcript more or less, and chains that
  only grow at their end.
\<close>

definition chains_grow :: "reducer_state \<Rightarrow> reducer_state \<Rightarrow> bool" where
  "chains_grow st st' \<longleftrightarrow> (\<forall>k. prefix (chain_of st k) (chain_of st' k))"

lemma chains_grow_same: "side st' = side st \<Longrightarrow> chains_grow st st'"
  by (simp add: chains_grow_def side_def chain_of_def)

lemma chains_grow_trans: "chains_grow a b \<Longrightarrow> chains_grow b c \<Longrightarrow> chains_grow a c"
  using prefix_order.trans by (fastforce simp: chains_grow_def)

lemma chains_grow_set: "prefix (chain_of st k) c \<Longrightarrow> chains_grow st (set_chain k c st)"
  by (simp add: chains_grow_def set_chain_def chain_of_def update_conv')

definition quiet :: "reducer_state \<Rightarrow> reducer_state \<Rightarrow> bool" where
  "quiet st st' \<longleftrightarrow> keeps st st' \<and> main_ids st' = main_ids st \<and> toolIdToMessageId st' = toolIdToMessageId st \<and> chains_grow st st'"

lemma quiet_refl: "quiet st st"
  by (simp add: quiet_def keeps_refl chains_grow_same)

lemma quiet_trans: "quiet a b \<Longrightarrow> quiet b c \<Longrightarrow> quiet a c"
  by (auto simp: quiet_def intro: keeps_trans chains_grow_trans)

definition side_ok :: "(nat \<Rightarrow> string) \<Rightarrow> reducer_state \<Rightarrow> reducer_state \<Rightarrow> bool" where
  "side_ok alloc st st' \<longleftrightarrow> sound alloc st' \<and> quiet st st'"

lemma side_ok_refl: "sound alloc st \<Longrightarrow> side_ok alloc st st"
  by (simp add: side_ok_def quiet_refl)

lemma side_ok_then: "side_ok alloc st a \<Longrightarrow> (sound alloc a \<Longrightarrow> side_ok alloc a b) \<Longrightarrow> side_ok alloc st b"
  by (auto simp: side_ok_def intro: quiet_trans)

lemma side_ok_trans: "side_ok alloc st a \<Longrightarrow> side_ok alloc a b \<Longrightarrow> side_ok alloc st b"
  by (auto simp: side_ok_def intro: quiet_trans)

lemma main_ids_keys: "map fst (messages st') = map fst (messages st) \<Longrightarrow> side st' = side st \<Longrightarrow> main_ids st' = main_ids st"
  by (simp add: main_ids_def children_def side_def)

lemma side_ok_frame:
  assumes "sound alloc st"
    and "toolIdToMessageId st' = toolIdToMessageId st" "permissions st' = permissions st"
    and "orphanToolResults st' = orphanToolResults st" "allocated st' = allocated st" "localIds st' = localIds st"
    and "side st' = side st" "messages st' = messages st"
  shows "side_ok alloc st st'"
  using state_ok_frame [of alloc st st'] main_ids_keys [of st' st] assms by (simp add: side_ok_def quiet_def sound_def chains_grow_same)

lemma side_ok_mark: "sound alloc st \<Longrightarrow> side_ok alloc st (mark_changed i st)"
  by (rule side_ok_frame) (simp_all add: tool_frame)

lemma side_ok_cursor: "sound alloc st \<Longrightarrow> side_ok alloc st (setSidechainThinkingMergeCursor sid nxt st)"
  by (rule side_ok_frame) (simp_all add: setSidechainThinkingMergeCursor_def)

lemma put_keys: "map_of (messages st) i = Some m \<Longrightarrow> obj_keys (messages (put_message i m' st)) = obj_keys (messages st)"
  using map_of_SomeD [of "messages st" i m] by (force simp: put_message_def update_keys)

lemma side_ok_put:
  assumes "sound alloc st" and "map_of (messages st) i = Some m" and "same_creation m m'" and "tool_id_of m' = tool_id_of m"
  shows "side_ok alloc st (put_message i m' st)"
proof -
  have "state_ok alloc (put_message i m' st) \<and> keeps st (put_message i m' st)"
    by (rule state_ok_rewrite_one [where i = i and f = "\<lambda>_. m'"]) (use assms in \<open>simp_all add: sound_def tool_frame\<close>)
  moreover have "main_ids (put_message i m' st) = main_ids st"
    by (intro main_ids_keys) (simp_all add: put_keys [OF assms(2)] tool_frame)
  ultimately show ?thesis using assms(1) by (simp add: side_ok_def quiet_def sound_def tool_frame chains_grow_same)
qed

lemma side_ok_result:
  assumes "sound alloc st"
  shows "side_ok alloc st (applyToolResultUpdateToReducerMessage i u t meta st)"
proof -
  have "map fst (messages (applyToolResultUpdateToReducerMessage i u t meta st)) = map fst (messages st)"
    by (simp add: applyToolResultUpdateToReducerMessage_def put_keys tool_frame Let_def split: option.splits)
  then have "main_ids (applyToolResultUpdateToReducerMessage i u t meta st) = main_ids st"
    by (intro main_ids_keys) (simp_all add: tool_frame)
  then show ?thesis
    using apply_result_ok [of alloc st i u t meta] assms by (simp add: side_ok_def quiet_def sound_def tool_frame chains_grow_same)
qed

text \<open>Chains as multisets: a chain that is set replaces the one that was there.\<close>

lemma children_of_update:
  "obj_wf cs \<Longrightarrow> mset (children_of (AList.update k c cs)) + mset (some_or [] (map_of cs k)) = mset (children_of cs) + mset c"
proof (induction cs)
  case (Cons kc cs)
  obtain k' c' where kc: "kc = (k', c')" by (cases kc)
  have tail: "map_of cs k' = None" if "k' = k"
    using Cons.prems that kc by (simp add: obj_wf_def map_of_eq_None_iff)
  show ?case
  proof (cases "k' = k")
    case True
    then show ?thesis by (simp add: kc children_of_def)
  next
    case False
    have "obj_wf cs" using Cons.prems by (simp add: obj_wf_def)
    then have "mset (children_of (AList.update k c cs)) + mset (some_or [] (map_of cs k)) = mset (children_of cs) + mset c"
      by (rule Cons.IH)
    then show ?thesis using False by (simp add: kc children_of_def ac_simps)
  qed
qed (simp add: children_of_def)

lemma chains_inv_set:
  assumes inv: "chains_inv (cs, ix) msgs index"
    and more: "mset c = mset (some_or [] (map_of cs k)) + mset new"
    and new: "distinct new" "\<And>i. i \<in> set new \<Longrightarrow> i \<notin> set (children_of cs) \<and> msgs i \<noteq> None \<and> (\<forall>j. index j \<noteq> Some i)"
  shows "chains_inv (AList.update k c cs, ix) msgs index"
    and "set (children_of (AList.update k c cs)) = set (children_of cs) \<union> set new"
proof -
  have wf: "obj_wf cs" "distinct (children_of cs)" using inv by (simp_all add: chains_inv_def)
  have same: "mset (children_of (AList.update k c cs)) = mset (children_of cs @ new)"
    using children_of_update [OF wf(1), of k c] more by simp
  have set': "set (children_of (AList.update k c cs)) = set (children_of cs) \<union> set new"
    using mset_eq_setD [OF same] by simp
  have "distinct (children_of cs @ new)" using wf(2) new by auto
  then have "distinct (children_of (AList.update k c cs))"
    using mset_eq_imp_distinct_iff [OF same] by simp
  moreover have "obj_wf (AList.update k c cs)" using wf(1) by (simp add: obj_wf_def distinct_update)
  ultimately show "chains_inv (AList.update k c cs, ix) msgs index"
    using inv new(2) unfolding chains_inv_def fst_conv snd_conv set' by blast
  show "set (children_of (AList.update k c cs)) = set (children_of cs) \<union> set new" by (rule set')
qed

lemma chain_fields [simp]:
  "toolIdToMessageId (set_chain k c st) = toolIdToMessageId st" "messages (set_chain k c st) = messages st"
  "permissions (set_chain k c st) = permissions st" "orphanToolResults (set_chain k c st) = orphanToolResults st"
  "allocated (set_chain k c st) = allocated st" "localIds (set_chain k c st) = localIds st"
  "side (set_chain k c st) = (AList.update k c (sidechains st), sidechainToolIdToMessageId st)"
  "children (set_chain k c st) = children_of (AList.update k c (sidechains st))"
  by (simp_all add: set_chain_def side_def children_def)

lemma set_chain_ok:
  assumes ok: "sound alloc st" and more: "mset c = mset (chain_of st k) + mset new"
    and new: "distinct new" "\<And>i. i \<in> set new \<Longrightarrow>
      i \<notin> set (children st) \<and> map_of (messages st) i \<noteq> None \<and> (\<forall>j. map_of (toolIdToMessageId st) j \<noteq> Some i)"
  shows "sound alloc (set_chain k c st)" and "keeps st (set_chain k c st)"
    and "set (children (set_chain k c st)) = set (children st) \<union> set new"
proof -
  have inv: "chains_inv (sidechains st, sidechainToolIdToMessageId st) (map_of (messages st)) (map_of (toolIdToMessageId st))"
    using ok by (simp add: sound_def state_ok_def chains_ok_def side_def)
  note chains = chains_inv_set [OF inv more [unfolded chain_of_def] new(1) new(2) [unfolded children_def]]
  have "chains_ok (set_chain k c st)" using chains(1) by (simp add: chains_ok_def)
  then show "sound alloc (set_chain k c st)"
    using ok by (simp add: sound_def state_ok_def tools_ok_def pending_ok_def waiting_ok_def ids_ok_def texts_ok_def)
  show "keeps st (set_chain k c st)" by (simp add: keeps_def)
  show "set (children (set_chain k c st)) = set (children st) \<union> set new" using chains(2) by (simp add: children_def [of st])
qed

lemma side_ok_open: "sound alloc st \<Longrightarrow> side_ok alloc st (set_chain sid (chain_of st sid) st)"
  using set_chain_ok [of alloc st "chain_of st sid" sid "[]"] by (simp add: side_ok_def quiet_def main_ids_def chains_grow_set)

text \<open>A new message that joins a chain: no row of the main transcript.\<close>

lemma side_ok_child:
  assumes ok: "sound alloc st" and mid: "mid = alloc (allocated st)" and m: "messageId m = mid" "messageTool m = None \<or> messageBody m = None"
    and ids: "\<And>k j. map_of ids k = Some j \<Longrightarrow> (j = mid \<and> messageTool m = None) \<or> map_of (localIds st) k = Some j"
  defines "st1 \<equiv> put_message mid m (st\<lparr>allocated := Suc (allocated st), localIds := ids\<rparr>)"
  shows "side_ok alloc st (push_child sid mid st1)" and "mid \<in> set (children (push_child sid mid st1))"
proof -
  have state: "state_ok alloc st" "id_supply alloc" using ok by (simp_all add: sound_def)
  have fresh: "map_of (messages st) mid = None" using unused_id [OF state] mid by simp
  have "state_ok alloc st1 \<and> keeps st st1"
    by (rule state_ok_new [OF state mid m]) (use ids in \<open>simp_all add: st1_def tool_frame\<close>)
  then have st1: "sound alloc st1" "keeps st st1" using state(2) by (simp_all add: sound_def)
  have side: "side st1 = side st" "children st1 = children st" "toolIdToMessageId st1 = toolIdToMessageId st"
    by (simp_all add: st1_def tool_frame children_def put_message_def)
  have notin: "mid \<notin> set (children st)"
    using chains_inv_fresh [of "side st" "map_of (messages st)" "map_of (toolIdToMessageId st)" mid] state(1) fresh
    by (simp add: state_ok_def chains_ok_def children_def side_def)
  have unindexed: "map_of (toolIdToMessageId st) j \<noteq> Some mid" for j
    using state(1) fresh unfolding state_ok_def tools_ok_def by (metis option.distinct(1))
  have new: "i \<notin> set (children st1) \<and> map_of (messages st1) i \<noteq> None \<and> (\<forall>j. map_of (toolIdToMessageId st1) j \<noteq> Some i)"
    if "i \<in> set [mid]" for i
    using that notin unindexed side by (simp add: st1_def tool_frame)
  have pushed: "sound alloc (push_child sid mid st1)" "keeps st1 (push_child sid mid st1)"
    "set (children (push_child sid mid st1)) = insert mid (set (children st))"
    using set_chain_ok [OF st1(1) _ _ new, where c = "chain_of st1 sid @ [mid]" and k = sid] side(2) by (simp_all add: push_child_def)
  have "mid \<notin> set (obj_keys (messages st))" using fresh by (simp add: map_of_eq_None_iff)
  moreover have "obj_keys (messages (push_child sid mid st1)) = obj_keys (messages st) @ [mid]"
    using calculation by (simp add: push_child_def st1_def put_message_def update_keys)
  ultimately have "main_ids (push_child sid mid st1) = main_ids st"
    unfolding main_ids_def pushed(3) by (auto intro!: filter_cong)
  moreover have "toolIdToMessageId (push_child sid mid st1) = toolIdToMessageId st" by (simp add: push_child_def side(3))
  moreover have "chains_grow st (push_child sid mid st1)"
    using chains_grow_trans [OF chains_grow_same [OF side(1)] chains_grow_set] by (simp add: push_child_def)
  ultimately show "side_ok alloc st (push_child sid mid st1)"
    using pushed(1) keeps_trans [OF st1(2) pushed(2)] by (simp add: side_ok_def quiet_def)
  show "mid \<in> set (children (push_child sid mid st1))" using pushed(3) by simp
qed

lemma side_ok_add_child:
  assumes "sound alloc st" and "\<And>i. messageId (new i) = i" "\<And>i. messageTool (new i) = None \<or> messageBody (new i) = None"
  shows "side_ok alloc st (add_child alloc sid new st)"
    and "alloc (allocated st) \<in> set (children (add_child alloc sid new st))"
proof -
  have same: "st\<lparr>allocated := Suc (allocated st), localIds := localIds st\<rparr> = st\<lparr>allocated := Suc (allocated st)\<rparr>" by simp
  show "side_ok alloc st (add_child alloc sid new st)" "alloc (allocated st) \<in> set (children (add_child alloc sid new st))"
    using side_ok_child [OF assms(1) refl assms(2,3), where ids = "localIds st"] unfolding same by (simp_all add: add_child_def Let_def)
qed

lemma side_ok_index:
  assumes "sound alloc st" and "i \<in> set (children st)" and "map_option tool_id_of (map_of (messages st) i) = Some (Some k)"
  shows "side_ok alloc st (st\<lparr>sidechainToolIdToMessageId := AList.update k i (sidechainToolIdToMessageId st)\<rparr>)"
  using assms
  by (auto simp: side_ok_def quiet_def sound_def state_ok_def tools_ok_def pending_ok_def waiting_ok_def ids_ok_def texts_ok_def
      chains_ok_def chains_inv_def side_def children_def main_ids_def keeps_def update_conv' chains_grow_def chain_of_def)

section \<open>The steps of the phase\<close>

lemma side_ok_cursor_then: "side_ok alloc st a \<Longrightarrow> side_ok alloc st (setSidechainThinkingMergeCursor sid nxt a)"
  by (erule side_ok_then) (rule side_ok_cursor)

lemma upsert_child_ok:
  assumes ok: "sound alloc st"
  shows "side_ok alloc st (fst (upsert_child alloc sid l msg t body st))"
proof (cases "if falsy_str (map_of (localIds st) l) then None else map_of (localIds st) l")
  case None
  have ids: "map_of (AList.update l (alloc (allocated st)) (localIds st)) k = Some j
      \<Longrightarrow> (j = alloc (allocated st) \<and> messageTool m = None) \<or> map_of (localIds st) k = Some j" if "messageTool m = None" for k j m
    using that by (simp add: update_conv' split: if_splits)
  show ?thesis
    unfolding upsert_child_def upsertStreamSegmentSnapshotMessage_def Let_def None option.case fst_conv prod.case upsert_result.simps if_True
    by (rule side_ok_child(1) [OF ok refl _ _ ids]) simp_all
next
  case (Some i)
  then have "map_of (localIds st) l = Some i" by (simp split: if_splits)
  then obtain m where m: "map_of (messages st) i = Some m" "messageTool m = None"
    using sound_texts(2) [OF ok] by blast
  have "side_ok alloc st (put_message i (m\<lparr>messageBody := Some body, messageSeq := advance_seq (messageSeq m) s,
        blockIndex := (if blockIndex m = None \<and> n \<noteq> None then n else blockIndex m), messageMeta := tracedMeta msg\<rparr>) st)" for s n
    by (rule side_ok_put [OF ok m(1)]) (use m(2) in \<open>simp_all add: same_creation_def same_tool_def tool_id_of_def\<close>)
  then show ?thesis
    using Some m(1) ok by (simp add: upsert_child_def upsertStreamSegmentSnapshotMessage_def Let_def side_ok_refl del: if_cancel)
qed

lemma put_body_ok:
  assumes "sound alloc st" and "map_of (messages st) (fst im) = Some (snd im)" and "is_agent_text t (snd im)"
  shows "side_ok alloc st (put_body f im st)"
proof -
  have "messageTool (snd im) = None"
    using sound_texts(1) [OF assms(1,2)] assms(3) by (auto simp: is_agent_text_def)
  then show ?thesis
    unfolding put_body_def
    by (intro side_ok_put [OF assms(1,2)]) (simp_all add: same_creation_def same_tool_def tool_id_of_def)
qed

lemma last_child_message: "last_child sid st = Some im \<Longrightarrow> map_of (messages st) (fst im) = Some (snd im)"
  by (auto simp: last_child_def split: list.splits option.splits)

lemma thought_target: "side_thought_target sid st = Some im \<Longrightarrow>
  map_of (messages st) (fst im) = Some (snd im) \<and> is_agent_text True (snd im)"
  using last_child_message by (fastforce simp: side_thought_target_def Let_def split: option.splits if_splits)

lemma child_fields [simp]:
  "messageId (child_message msg r b t tool i) = i" "messageTool (child_message msg r b t tool i) = tool"
  "messageBody (child_message msg r b t tool i) = b"
  by (simp_all add: child_message_def)

lemma side_text_ok:
  assumes ok: "sound alloc st"
  shows "side_ok alloc st (side_text alloc sid msg body st)"
proof -
  have add: "side_ok alloc st (add_child alloc sid (child_message msg AgentRole (Some body) False None) st)"
    by (rule side_ok_add_child(1) [OF ok]) simp_all
  have merge: "side_ok alloc st (put_body f im st)" if "last_child sid st = Some im" "is_agent_text False (snd im)" for f im
    using put_body_ok [OF ok last_child_message] that by blast
  show ?thesis
    using add merge upsert_child_ok [OF ok]
    by (auto simp: side_text_def Let_def case_prod_beta split: option.splits intro!: side_ok_cursor_then)
qed

lemma side_thinking_ok:
  assumes ok: "sound alloc st"
  shows "side_ok alloc st (side_thinking alloc sid msg raw st)"
proof -
  have "side_ok alloc st (add_child alloc sid (child_message msg AgentRole (Some chunk) True None) st)" for chunk
    by (rule side_ok_add_child(1) [OF ok]) simp_all
  moreover have "side_ok alloc st (put_body f im st)" if "side_thought_target sid st = Some im" for f im
    using put_body_ok [OF ok] thought_target [OF that] by blast
  ultimately show ?thesis
    using upsert_child_ok [OF ok] ok
    by (auto simp: side_thinking_def Let_def case_prod_beta side_ok_refl split: option.splits intro!: side_ok_cursor_then)
qed

lemma main_tool_message:
  "main_tool cid st = Some (i, m, tool) \<Longrightarrow> map_of (messages st) i = Some m \<and> messageTool m = Some tool"
  by (auto simp: main_tool_def split: option.splits)

lemma put_tool_side_ok:
  assumes "sound alloc st" and "map_of (messages st) i = Some m" and "messageTool m = Some tool"
    and "toolId tool' = toolId tool" and "toolCreatedAt tool' = toolCreatedAt tool"
  shows "side_ok alloc st (put_message i (m\<lparr>messageTool := Some tool'\<rparr>) st)"
  by (rule side_ok_put [OF assms(1,2)]) (use assms(3-5) in \<open>simp_all add: same_creation_def same_tool_def tool_id_of_def\<close>)

lemma show_running_ok:
  assumes "sound alloc st" and "main_tool cid st = Some imt"
  shows "side_ok alloc st (show_running created description imt st)"
proof -
  obtain i m tool where imt: "imt = (i, m, tool)" by (cases imt)
  then have "side_ok alloc st (put_message i (m\<lparr>messageTool := Some (tool\<lparr>toolState := Running, toolStartedAt := Some created,
      toolDescription := description\<rparr>)\<rparr>) st)"
    using main_tool_message assms by (intro put_tool_side_ok [where tool = tool]) auto
  then have "side_ok alloc st (mark_changed i (put_message i (m\<lparr>messageTool := Some (tool\<lparr>toolState := Running, toolStartedAt := Some created,
      toolDescription := description\<rparr>)\<rparr>) st))"
    by (rule side_ok_then) (rule side_ok_mark)
  then show ?thesis using assms(1) by (simp add: show_running_def imt side_ok_refl)
qed

lemma side_frame [simp]:
  "allocated (setSidechainThinkingMergeCursor sid nxt st) = allocated st"
  "allocated (show_running created description imt st) = allocated st"
  by (simp_all add: setSidechainThinkingMergeCursor_def show_running_def case_prod_beta tool_frame)

lemma side_call_ok:
  assumes ok: "sound alloc st"
  shows "side_ok alloc st (side_call alloc sid msg cid name input description st)"
proof -
  let ?st1 = "setSidechainThinkingMergeCursor sid None st"
  define permission where "permission = (case main_tool cid ?st1 of None \<Rightarrow> None | Some (_, _, tool) \<Rightarrow> toolPermission tool)"
  define st2 where "st2 = (case main_tool cid ?st1 of None \<Rightarrow> ?st1 | Some imt \<Rightarrow> show_running (tracedCreatedAt msg) description imt ?st1)"
  define new where "new = child_message msg AgentRole None False
      (Some (side_tool (tracedCreatedAt msg) cid name input description permission))"
  let ?st3 = "add_child alloc sid new st2"
  have st1: "side_ok alloc st ?st1" using ok by (rule side_ok_cursor)
  have st2: "side_ok alloc st st2" "allocated st2 = allocated st"
    using st1 by (auto simp: st2_def split: option.splits intro: side_ok_then show_running_ok)
  have "sound alloc st2" using st2(1) by (simp add: side_ok_def)
  then have add: "side_ok alloc st2 ?st3" "alloc (allocated st) \<in> set (children ?st3)"
    using side_ok_add_child [of alloc st2 new sid] st2(2) by (simp_all add: new_def)
  have "map_of (messages ?st3) (alloc (allocated st)) = Some (new (alloc (allocated st)))"
    by (simp add: add_child_def push_child_def Let_def st2(2) tool_frame)
  then have tool: "map_option tool_id_of (map_of (messages ?st3) (alloc (allocated st))) = Some (Some cid)"
    by (simp add: new_def tool_id_of_def side_tool_def)
  have "sound alloc ?st3" using add(1) by (simp add: side_ok_def)
  then have index: "side_ok alloc ?st3 (?st3\<lparr>sidechainToolIdToMessageId :=
      AList.update cid (alloc (allocated st)) (sidechainToolIdToMessageId ?st3)\<rparr>)"
    by (rule side_ok_index [OF _ add(2) tool])
  have "side_ok alloc st (?st3\<lparr>sidechainToolIdToMessageId :=
      AList.update cid (alloc (allocated st)) (sidechainToolIdToMessageId ?st3)\<rparr>)"
    by (rule side_ok_trans [OF side_ok_trans [OF st2(1) add(1)] index])
  then show ?thesis
    by (simp add: side_call_def Let_def st2_def [symmetric] permission_def [symmetric] new_def [symmetric])
qed

lemma side_result_ok:
  assumes ok: "sound alloc st"
  shows "side_ok alloc st (side_result msg upd st)"
proof -
  define deliver where "deliver = (\<lambda>mid s. case mid of None \<Rightarrow> s
      | Some i \<Rightarrow> applyToolResultUpdateToReducerMessage i upd (tracedCreatedAt msg) (tracedMeta msg) s)"
  have "side_ok alloc s (deliver mid s)" if "sound alloc s" for mid s
    using that by (simp add: deliver_def side_ok_result side_ok_refl split: option.splits)
  then have "side_ok alloc st (deliver mid (deliver mid' st))" for mid mid'
    using ok side_ok_then by metis
  then show ?thesis by (simp add: side_result_def deliver_def [symmetric] Let_def)
qed

interpretation side_contents: keeping "side_content alloc sid msg" "sound alloc" quiet for alloc sid msg
proof
  fix st c
  assume ok: "sound alloc st"
  then have "side_ok alloc st (side_content alloc sid msg st c)"
    by (auto simp: side_content_def side_text_ok side_thinking_ok side_call_ok side_result_ok side_ok_refl split: message_content.splits)
  then show "sound alloc (side_content alloc sid msg st c) \<and> quiet st (side_content alloc sid msg st c)" by (simp add: side_ok_def)
qed (auto intro: quiet_refl quiet_trans)

lemma side_contents_ok:
  assumes ok: "sound alloc st"
  shows "side_ok alloc st (side_contents alloc sid msg st)"
proof -
  have run: "side_ok alloc st (foldl (side_content alloc sid msg) st cs)" for cs
    using side_contents.run_keeps [OF ok] by (simp add: side_ok_def)
  have "side_ok alloc st (add_child alloc sid (child_message msg UserRole (Some p) False None) st)" for p
    by (rule side_ok_add_child(1) [OF ok]) simp_all
  then show ?thesis
    using run ok
    by (auto simp: side_contents_def side_ok_refl simp del: foldl.simps split: traced_payload.splits list.splits message_content.splits intro!: side_ok_cursor_then)
qed

lemma restored_fields [simp]: "toolId (restored_tool tool) = toolId tool" "toolCreatedAt (restored_tool tool) = toolCreatedAt tool"
  by (simp_all add: restored_tool_def)

lemma refresh_owner_ok:
  assumes ok: "sound alloc st"
  shows "side_ok alloc st (refresh_owner sid parent st)"
proof -
  have "side_ok alloc st (restoreSubagentToolFromSyntheticInterruption p sid st)" for p
    using ok put_tool_side_ok [OF ok]
    by (auto simp: restoreSubagentToolFromSyntheticInterruption_def side_ok_refl split: option.splits)
  then have "side_ok alloc st (mark_changed p (restoreSubagentToolFromSyntheticInterruption p sid st))" for p
    by (rule side_ok_then) (rule side_ok_mark)
  then show ?thesis using ok by (simp add: refresh_owner_def side_ok_refl split: option.splits)
qed

lemma side_message_ok:
  assumes ok: "sound alloc st"
  shows "side_ok alloc st (side_message alloc st msg)"
proof (cases "side_skips msg st")
  case False
  let ?sid = "the (tracedSidechainId msg)"
  let ?st1 = "st\<lparr>messageIds := AList.update (tracedId msg) (tracedId msg) (messageIds st)\<rparr>"
  have "side_ok alloc st ?st1" by (rule side_ok_frame [OF ok]) simp_all
  then have "side_ok alloc st (set_chain ?sid (chain_of ?st1 ?sid) ?st1)" by (rule side_ok_then) (rule side_ok_open)
  then have "side_ok alloc st (side_contents alloc ?sid msg (set_chain ?sid (chain_of ?st1 ?sid) ?st1))"
    by (rule side_ok_then) (rule side_contents_ok)
  then have "side_ok alloc st (refresh_owner ?sid parent (side_contents alloc ?sid msg (set_chain ?sid (chain_of ?st1 ?sid) ?st1)))" for parent
    by (rule side_ok_then) (rule refresh_owner_ok)
  with False show ?thesis by (simp add: side_message_def Let_def)
qed (simp add: side_message_def side_ok_refl [OF ok])

interpretation side_messages: keeping "side_message alloc" "sound alloc" quiet for alloc
  using side_message_ok by unfold_locales (auto simp: side_ok_def intro: quiet_refl quiet_trans)

lemma phase_state: "fst (runSidechainsPhase alloc msgs st) = foldl (side_message alloc) st msgs"
proof -
  have "fst (foldl (\<lambda>sb msg. (side_message alloc (fst sb) msg, snd sb \<or> \<not> side_skips msg (fst sb))) sb msgs)
      = foldl (side_message alloc) (fst sb) msgs" for sb
    by (induction msgs arbitrary: sb) simp_all
  then show ?thesis by (simp add: runSidechainsPhase_def)
qed

lemma sidechains_phase_ok:
  "sound alloc st \<Longrightarrow> sound alloc (fst (runSidechainsPhase alloc msgs st)) \<and> quiet st (fst (runSidechainsPhase alloc msgs st))"
  unfolding phase_state by (rule side_messages.run_keeps)

text \<open>C27: The messages of sidechains stay out of the main transcript. From a well formed state (\<open>sound\<close>: the
  invariant of the reducer and a supply of fresh ids), and whatever the messages are, the phase neither
  adds, removes nor reorders a row of the main transcript, nor changes an entry of its tool index; chains
  only grow at their end; and every message it creates is a child of a chain.\<close>

theorem sidechains_stay_out_of_the_transcript:
  fixes msgs :: "traced_message list"
  assumes "sound alloc st"
  defines "st' \<equiv> fst (runSidechainsPhase alloc msgs st)"
  shows "main_ids st' = main_ids st \<and> toolIdToMessageId st' = toolIdToMessageId st
    \<and> (\<forall>k. prefix (chain_of st k) (chain_of st' k))
    \<and> (\<forall>i. map_of (messages st) i = None \<and> map_of (messages st') i \<noteq> None \<longrightarrow> i \<in> set (children st'))"
proof -
  have quiet: "main_ids st' = main_ids st" "toolIdToMessageId st' = toolIdToMessageId st" "\<forall>k. prefix (chain_of st k) (chain_of st' k)"
    using sidechains_phase_ok [OF assms(1)] by (simp_all add: st'_def quiet_def chains_grow_def)
  have "i \<in> set (children st')" if "map_of (messages st) i = None" "map_of (messages st') i \<noteq> None" for i
  proof (rule ccontr)
    assume "i \<notin> set (children st')"
    moreover have "i \<in> set (obj_keys (messages st'))" using that(2) by (simp add: map_of_eq_None_iff)
    ultimately have "i \<in> set (main_ids st')" by (simp add: main_ids_def)
    then have "i \<in> set (main_ids st)" by (simp only: quiet(1))
    then have "i \<in> set (obj_keys (messages st))" by (simp add: main_ids_def)
    then show False using that(1) by (simp add: map_of_eq_None_iff)
  qed
  with quiet show ?thesis by simp
qed

lemma restored_messages:
  "map_of (messages (restoreSubagentToolFromSyntheticInterruption p sid st)) p = Some m \<Longrightarrow> messageTool m = Some tool \<Longrightarrow>
   toolState tool = Running \<or> \<not> isRestorableSubagentClosure tool \<or> \<not> hasLinkedActivity sid p tool st"
  by (auto simp: restoreSubagentToolFromSyntheticInterruption_def restored_tool_def tool_frame split: option.splits if_splits)

lemma restore_side: "side (restoreSubagentToolFromSyntheticInterruption p sid st) = side st"
  by (simp add: restoreSubagentToolFromSyntheticInterruption_def tool_frame split: option.splits)

lemma linked_by_tool_id:
  assumes "isSubAgentTranscriptToolName (toolName tool)" and "toolId tool = Some sid" and "trim sid \<noteq> []" and "lengths (trim sid) \<noteq> 0"
  shows "hasLinkedSubagentSidechainActivity lengths mid tool"
proof -
  have "trim sid \<in> set (collectSubagentSidechainIds mid tool)"
    using assms(2,3) by (simp add: collectSubagentSidechainIds_def)
  then show ?thesis using assms(1,4) by (auto simp: hasLinkedSubagentSidechainActivity_def list_ex_iff)
qed

text \<open>A subagent that is active is shown as such: after a message of its sidechain that the phase takes in,
  the call of a subagent tool that owns the chain, if the chain has messages and its id is not blank, is
  not shown as unavailable or interrupted and is shown again, and the end of the turn leaves it alone.\<close>

theorem active_subagent_stays_open:
  fixes alloc :: "nat \<Rightarrow> string"
  assumes "\<not> side_skips msg st" and "tracedSidechainId msg = Some sid" and "map_of (toolIdToMessageId st) sid = Some p"
  defines "st' \<equiv> side_message alloc st msg"
  assumes "map_of (messages st') p = Some m" and "messageTool m = Some tool" and "toolId tool = Some sid"
    and "isSubAgentTranscriptToolName (toolName tool)" and "trim sid \<noteq> []" and "chain_of st' (trim sid) \<noteq> []"
  shows "toolState tool \<noteq> Unavailable \<and> p \<in> set (changed st')
    \<and> \<not> (toolState tool = Errored \<and> prop_get (toolResult tool) ''error'' = JStr ''Request interrupted'')
    \<and> map_of (messages (markRunningToolsUnavailable t st')) p = Some m"
proof -
  let ?st1 = "st\<lparr>messageIds := AList.update (tracedId msg) (tracedId msg) (messageIds st)\<rparr>"
  define q where "q = side_contents alloc sid msg (set_chain sid (chain_of ?st1 sid) ?st1)"
  have st': "st' = mark_changed p (restoreSubagentToolFromSyntheticInterruption p sid q)"
    using assms(1-3) by (simp add: st'_def side_message_def Let_def refresh_owner_def q_def)
  have lengths: "sidechainLengths st' = sidechainLengths q"
    by (intro side_lengths) (simp add: st' tool_frame restore_side)
  have "0 < sidechainLengths q (trim sid)" unfolding lengths [symmetric] using assms(10) by (simp add: sidechainLengths_def)
  then have "hasLinkedActivity sid p tool q" using assms(8,9) by (simp add: hasLinkedActivity_def)
  then have closure: "toolState tool = Running \<or> \<not> isRestorableSubagentClosure tool"
    using restored_messages [of p sid q m tool] assms(5,6) by (simp add: st' tool_frame)
  have linked: "hasLinkedSubagentSidechainActivity (sidechainLengths st') p tool"
    by (rule linked_by_tool_id [OF assms(8,7,9)]) (use assms(10) in \<open>simp add: sidechainLengths_def\<close>)
  have "map_of (messages (markRunningToolsUnavailable t st')) p = Some m"
  proof (cases "normalizeTranscriptSeq (Some t)")
    case None
    then show ?thesis using assms(5) by (simp add: markRunningToolsUnavailable_def)
  next
    case (Some c)
    have "ended_message (sidechainLengths st') c p m = m"
      using linked assms(6) by (simp add: ended_message_def ended_tool_def ends_with_turn_def)
    then show ?thesis by (simp add: marked_messages [OF Some] map_of_map_pair assms(5))
  qed
  moreover have "p \<in> set (changed st')" by (simp add: st' mark_changed_def)
  ultimately show ?thesis
    using closure by (auto simp: isRestorableSubagentClosure_def isSyntheticRequestInterruptedToolResult_def REQUEST_INTERRUPTED_REASON_def)
qed

section \<open>Concrete runs\<close>

definition side_row :: "string \<Rightarrow> rat \<Rightarrow> message_content \<Rightarrow> traced_message" where
  "side_row i created c = (agent_message i created c)\<lparr>tracedIsSidechain := True, tracedSidechainId := Some ''t''\<rparr>"

definition task_state :: reducer_state where
  "task_state = runToolCallsPhase numbered_id code_unit_compare [agent_message ''a'' 1 (ToolCallContent ''t'' ''Task'' JNull None)] idle_state"

lemma task_state_sound: "sound numbered_id task_state"
  using calls_phase_ok [of numbered_id idle_state] idle_state_ok numbered_id_supply by (simp add: task_state_def sound_def)

theorem sidechains_stay_out_of_the_transcript_witness:
  "main_ids (fst (runSidechainsPhase numbered_id [side_row ''b'' 2 (TextContent ''hello'')] task_state)) = [''m'']
   \<and> children (fst (runSidechainsPhase numbered_id [side_row ''b'' 2 (TextContent ''hello'')] task_state)) = [''mm'']"
proof -
  have "main_ids task_state = [''m'']"
    "children (fst (runSidechainsPhase numbered_id [side_row ''b'' 2 (TextContent ''hello'')] task_state)) = [''mm'']"
    by code_simp+
  then show ?thesis
    using sidechains_stay_out_of_the_transcript [OF task_state_sound, of "[side_row ''b'' 2 (TextContent ''hello'')]"] by simp
qed

text \<open>The turn ends while the subagent still works; its next message opens the call again.\<close>

definition ended_task :: reducer_state where
  "ended_task = markRunningToolsUnavailable (Fin 5) task_state"

definition reopened_task :: reducer_state where
  "reopened_task = side_message numbered_id ended_task (side_row ''b'' 6 (TextContent ''hello''))"

lemma late_activity:
  "map_option toolState (shown_tool ended_task) = Some Unavailable \<and> map_option toolState (shown_tool reopened_task) = Some Running
   \<and> map_option toolState (shown_tool (markRunningToolsUnavailable (Fin 7) reopened_task)) = Some Running"
  by code_simp

theorem active_subagent_stays_open_witness:
  "map_option toolState (shown_tool reopened_task) \<noteq> Some Unavailable
   \<and> map_of (messages (markRunningToolsUnavailable (Fin 7) reopened_task)) ''m'' = map_of (messages reopened_task) ''m''"
proof -
  let ?msg = "side_row ''b'' 6 (TextContent ''hello'')"
  have run: "\<not> side_skips ?msg ended_task" "map_of (toolIdToMessageId ended_task) ''t'' = Some ''m''"
    "map_option toolId (shown_tool reopened_task) = Some (Some ''t'')" "map_option toolName (shown_tool reopened_task) = Some ''Task''"
    "chain_of reopened_task (trim ''t'') \<noteq> []" "trim ''t'' \<noteq> []"
    by code_simp+
  obtain m tool where m: "map_of (messages reopened_task) ''m'' = Some m" "messageTool m = Some tool"
    using run(3) by (auto simp: shown_tool_def split: option.splits)
  then have tool: "toolId tool = Some ''t''" "isSubAgentTranscriptToolName (toolName tool)"
    using run(3,4) by (auto simp: shown_tool_def isSubAgentTranscriptToolName_def)
  have "tracedSidechainId ?msg = Some ''t''" by (simp add: side_row_def)
  then show ?thesis
    using active_subagent_stays_open [OF run(1) _ run(2) m [unfolded reopened_task_def] tool run(6) run(5) [unfolded reopened_task_def], of "Fin 7"] m
    by (simp add: reopened_task_def [symmetric] shown_tool_def)
qed

end
