(* ===== verification/SidechainTracer.thy ===== *)
theory SidechainTracer
  imports
    TextPhase
begin

text \<open>
  The tracer of the message reducer, which finds the owner of every message of a sidechain:
  \<open>apps/ui/sources/sync/reducer/reducerTracer.ts\<close>. Its counters and logs are left out. The clock is read
  once per batch; the recursion of \<open>processOrphans\<close> is written with the rows still to visit as a list, in
  the order in which the recursion visits them.
\<close>

section \<open>Keys\<close>

definition ORPHAN_TTL_MS :: rat where
  "ORPHAN_TTL_MS = 10 * 60000"

definition MAX_ORPHANS_PER_PARENT :: nat where
  "MAX_ORPHANS_PER_PARENT = 50"

definition MAX_TOTAL_ORPHANS :: nat where
  "MAX_TOTAL_ORPHANS = 500"

definition normalizePromptKey :: "string \<Rightarrow> string" where
  "normalizePromptKey prompt = trim prompt"

definition promptOrphanKey :: "string \<Rightarrow> string" where
  "promptOrphanKey k = ''__prompt__:'' @ k"

definition isGenericSubAgentToolName :: "string \<Rightarrow> bool" where
  "isGenericSubAgentToolName name \<longleftrightarrow> name \<in> {''SubAgent'', ''Task'', ''Agent''}"

definition first_content :: "traced_message \<Rightarrow> message_content option" where
  "first_content msg = (case tracedPayload msg of FromAgent (c # _) \<Rightarrow> Some c | _ \<Rightarrow> None)"

definition non_empty :: "string option \<Rightarrow> string option" where
  "non_empty s = (if falsy_str s then None else s)"

definition getMessageUuid :: "traced_message \<Rightarrow> string option" where
  "getMessageUuid msg = (if first_content msg = None then None else non_empty (tracedUuid msg))"

definition getParentUuid :: "traced_message \<Rightarrow> string option" where
  "getParentUuid msg = (if first_content msg = None then None else tracedParentUuid msg)"

fun content_type :: "message_content \<Rightarrow> string" where
  "content_type (ToolCallContent _ _ _ _) = ''tool-call''"
| "content_type (ToolResultContent _) = ''tool-result''"
| "content_type (TextContent _) = ''text''"
| "content_type (ThinkingContent _ _) = ''thinking''"
| "content_type (SidechainContent _) = ''sidechain''"
| "content_type OtherContent = ''summary''"

definition hashStringFNV1a32 :: "string \<Rightarrow> 32 word" where
  "hashStringFNV1a32 value = foldl (\<lambda>hash c. Bit_Operations.xor hash (of_nat (of_char c)) * 16777619) 2166136261 value"

definition stream_fingerprint_of :: "traced_message \<Rightarrow> stream_fingerprint" where
  "stream_fingerprint_of msg =
     (case (case readStreamSegmentMetaV1 (tracedMeta msg) of None \<Rightarrow> None | Some s \<Rightarrow> segmentUpdatedAt s) of
        Some t \<Rightarrow> SegmentAt t
      | None \<Rightarrow>
          (case first_content msg of
             Some (TextContent body) \<Rightarrow> TextHash (hashStringFNV1a32 body) (length body)
           | Some (ThinkingContent raw _) \<Rightarrow> ThinkingHash (hashStringFNV1a32 raw) (length raw)
           | _ \<Rightarrow> NoStream))"

definition getProcessedKey :: "traced_message \<Rightarrow> processed_key" where
  "getProcessedKey msg =
     (case tracedPayload msg of
        FromAgent _ \<Rightarrow>
          AgentKey (tracedId msg) (case first_content msg of None \<Rightarrow> ''unknown'' | Some c \<Rightarrow> content_type c)
            (case getMessageUuid msg of None \<Rightarrow> None | Some u \<Rightarrow> trim_or_none u) (stream_fingerprint_of msg)
      | _ \<Rightarrow> IdKey (tracedId msg))"

section \<open>Messages that wait for their parent\<close>

definition orphan_total :: "(string \<times> orphan_bucket) list \<Rightarrow> nat" where
  "orphan_total m = sum_list (map (\<lambda>kb. length (orphanRows (snd kb))) m)"

fun drop_old_orphans :: "nat \<Rightarrow> (string \<times> orphan_bucket) list \<Rightarrow> (string \<times> orphan_bucket) list \<Rightarrow> (string \<times> orphan_bucket) list" where
  "drop_old_orphans remaining [] m = m"
| "drop_old_orphans remaining (kb # kbs) m =
     (if remaining \<le> MAX_TOTAL_ORPHANS then m
      else drop_old_orphans (remaining - length (orphanRows (snd kb))) kbs (AList.delete (fst kb) m))"

definition pruneOrphans :: "rat \<Rightarrow> tracer_state \<Rightarrow> tracer_state" where
  "pruneOrphans now ts =
     (let m = filter (\<lambda>kb. \<not> now - orphansAt (snd kb) > ORPHAN_TTL_MS) (orphanMessages ts)
      in ts\<lparr>orphanMessages := drop_old_orphans (orphan_total m) (js_sort (\<lambda>a b. orphansAt (snd a) - orphansAt (snd b)) m) m\<rparr>)"

definition addOrphan :: "rat \<Rightarrow> string \<Rightarrow> traced_message \<Rightarrow> tracer_state \<Rightarrow> tracer_state" where
  "addOrphan now parentUuid msg ts =
     (let ts1 = pruneOrphans now ts;
          rows = (case map_of (orphanMessages ts1) parentUuid of None \<Rightarrow> [] | Some b \<Rightarrow> orphanRows b) @ [msg];
          bucket = \<lparr>orphansAt = now, orphanRows = drop (length rows - MAX_ORPHANS_PER_PARENT) rows\<rparr>
      in pruneOrphans now (ts1\<lparr>orphanMessages := AList.update parentUuid bucket (orphanMessages ts1)\<rparr>))"

definition take_bucket :: "string \<Rightarrow> tracer_state \<Rightarrow> traced_message list \<times> tracer_state" where
  "take_bucket key ts =
     (case map_of (orphanMessages ts) key of
        None \<Rightarrow> ([], ts)
      | Some b \<Rightarrow> (orphanRows b, ts\<lparr>orphanMessages := AList.delete key (orphanMessages ts)\<rparr>))"

definition mark_traced :: "traced_message \<Rightarrow> tracer_state \<Rightarrow> tracer_state" where
  "mark_traced msg ts = ts\<lparr>processedIds := oset_add (getProcessedKey msg) (processedIds ts)\<rparr>"

definition mark_linked :: "string \<Rightarrow> traced_message \<Rightarrow> tracer_state \<Rightarrow> tracer_state" where
  "mark_linked sid msg ts =
     (let ts1 = mark_traced msg ts
      in case getMessageUuid msg of None \<Rightarrow> ts1
         | Some u \<Rightarrow> ts1\<lparr>uuidToSidechainId := AList.update u sid (uuidToSidechainId ts1)\<rparr>)"

lemma orphan_total_delete: "orphan_total (AList.delete k m) + (case map_of m k of None \<Rightarrow> 0 | Some b \<Rightarrow> length (orphanRows b)) \<le> orphan_total m"
proof (induction m)
  case (Cons kb m)
  have "orphan_total (AList.delete k m) \<le> orphan_total m" using Cons.IH by simp
  then show ?case using Cons.IH by (auto simp: orphan_total_def)
qed (simp add: orphan_total_def)

lemma take_bucket_total: "take_bucket k ts = (rows, ts') \<Longrightarrow> length rows + orphan_total (orphanMessages ts') \<le> orphan_total (orphanMessages ts)"
  using orphan_total_delete [of k "orphanMessages ts"] by (auto simp: take_bucket_def split: option.splits)

lemma mark_linked_orphans [simp]: "orphanMessages (mark_linked sid msg ts) = orphanMessages ts"
  by (simp add: mark_linked_def mark_traced_def Let_def split: option.splits)

text \<open>A message joins the sidechain, and then everything that waits for it.\<close>

definition visit :: "string \<Rightarrow> traced_message \<Rightarrow> tracer_state \<Rightarrow> traced_message list \<times> tracer_state" where
  "visit sid msg ts =
     (case getMessageUuid msg of None \<Rightarrow> ([], mark_linked sid msg ts) | Some u \<Rightarrow> take_bucket u (mark_linked sid msg ts))"

function flush_rows :: "string \<Rightarrow> traced_message list \<Rightarrow> tracer_state \<Rightarrow> traced_message list \<times> tracer_state" where
  "flush_rows sid [] ts = ([], ts)"
| "flush_rows sid (msg # rows) ts =
     (let (rest, ts1) = flush_rows sid (fst (visit sid msg ts) @ rows) (snd (visit sid msg ts))
      in (msg\<lparr>tracedSidechainId := Some sid\<rparr> # rest, ts1))"
  by pat_completeness auto

termination
proof (relation "measure (\<lambda>(_, rows, ts). length rows + orphan_total (orphanMessages ts))", goal_cases)
  case (2 sid msg rows ts)
  have "length (fst (visit sid msg ts)) + orphan_total (orphanMessages (snd (visit sid msg ts))) \<le> orphan_total (orphanMessages ts)"
    using take_bucket_total [of _ "mark_linked sid msg ts", OF surjective_pairing] by (simp add: visit_def split: option.splits)
  then show ?case by simp
qed simp

definition processOrphans :: "string \<Rightarrow> string \<Rightarrow> tracer_state \<Rightarrow> traced_message list \<times> tracer_state" where
  "processOrphans key sid ts = (let (rows, ts1) = take_bucket key ts in flush_rows sid rows ts1)"

section \<open>The tracer\<close>

text \<open>The call id and the prompt of a call that starts a subagent.\<close>

definition task_of :: "traced_message \<Rightarrow> message_content \<Rightarrow> (string \<times> string) option" where
  "task_of msg c =
     (case c of
        ToolCallContent cid name input _ \<Rightarrow>
          (let toolCallId = (if cid \<noteq> [] then cid else tracedId msg)
           in if \<not> isGenericSubAgentToolName name \<or> toolCallId = [] then None
              else case firstString (prop_get input ''prompt'') of None \<Rightarrow> None | Some prompt \<Rightarrow> Some (toolCallId, prompt))
      | _ \<Rightarrow> None)"

definition index_task :: "traced_message \<Rightarrow> traced_message list \<times> tracer_state \<Rightarrow> message_content \<Rightarrow> traced_message list \<times> tracer_state" where
  "index_task msg acc c =
     (case task_of msg c of
        None \<Rightarrow> acc
      | Some (toolCallId, promptKey) \<Rightarrow>
          (let (flushed, ts) = processOrphans (promptOrphanKey promptKey) toolCallId
                 ((snd acc)\<lparr>promptToTaskId := AList.update promptKey toolCallId (promptToTaskId (snd acc))\<rparr>)
           in (fst acc @ flushed, ts)))"

definition agent_contents :: "traced_message \<Rightarrow> message_content list" where
  "agent_contents msg = (case tracedPayload msg of FromAgent cs \<Rightarrow> cs | _ \<Rightarrow> [])"

fun bool_of :: "jsval \<Rightarrow> bool option" where
  "bool_of (JBool b) = Some b"
| "bool_of _ = None"

definition explicitSidechainId :: "traced_message \<Rightarrow> string option" where
  "explicitSidechainId msg =
     first_some [(case tracedSidechainId msg of None \<Rightarrow> None | Some s \<Rightarrow> trim_or_none s),
       firstString (meta_get (tracedMeta msg) ''sidechainId''), firstString (meta_get (tracedMeta msg) ''sidechain_id'')]"

definition shouldTreatAsSidechain :: "traced_message \<Rightarrow> bool" where
  "shouldTreatAsSidechain msg \<longleftrightarrow>
     tracedIsSidechain msg
     \<or> first_some [bool_of (meta_get (tracedMeta msg) ''isSidechain''), bool_of (meta_get (tracedMeta msg) ''is_sidechain'')] = Some True
     \<or> explicitSidechainId msg \<noteq> None"

text \<open>The owner of a root, or the last prompt whose call is not known yet.\<close>

fun find_root :: "tracer_state \<Rightarrow> string option \<Rightarrow> message_content list \<Rightarrow> string option \<times> string option" where
  "find_root ts pending [] = (None, pending)"
| "find_root ts pending (c # cs) =
     (case c of
        SidechainContent prompt \<Rightarrow>
          (let promptKey = normalizePromptKey prompt
           in if promptKey = [] then find_root ts pending cs
              else case non_empty (map_of (promptToTaskId ts) promptKey) of
                     Some taskId \<Rightarrow> (Some taskId, pending)
                   | None \<Rightarrow> find_root ts (Some promptKey) cs)
      | _ \<Rightarrow> find_root ts pending cs)"

definition link_sidechain :: "rat \<Rightarrow> traced_message \<Rightarrow> tracer_state \<Rightarrow> traced_message list \<times> tracer_state" where
  "link_sidechain now msg ts =
     (let explicit = explicitSidechainId msg;
          (root, pending) = (if explicit = None then find_root ts None (agent_contents msg) else (None, None))
      in case (if explicit \<noteq> None then explicit else root) of
           Some sid \<Rightarrow> flush_rows sid [msg] ts
         | None \<Rightarrow>
             (case non_empty (getParentUuid msg) of
                Some parent \<Rightarrow>
                  (case non_empty (map_of (uuidToSidechainId ts) parent) of
                     Some sid \<Rightarrow> flush_rows sid [msg] ts
                   | None \<Rightarrow> ([], addOrphan now parent msg ts))
              | None \<Rightarrow>
                  (case pending of
                     Some promptKey \<Rightarrow> ([], addOrphan now (promptOrphanKey promptKey) msg ts)
                   | None \<Rightarrow> ([], mark_traced msg ts))))"

definition trace_message :: "rat \<Rightarrow> traced_message list \<times> tracer_state \<Rightarrow> traced_message \<Rightarrow> traced_message list \<times> tracer_state" where
  "trace_message now acc msg =
     (if getProcessedKey msg \<in> set (processedIds (snd acc)) then acc
      else let (flushed, ts) = foldl (index_task msg) ([], snd acc) (agent_contents msg);
               (rows, ts1) = (if shouldTreatAsSidechain msg then link_sidechain now msg ts else ([msg], mark_traced msg ts))
           in (fst acc @ flushed @ rows, ts1))"

definition traceMessages :: "rat \<Rightarrow> traced_message list \<Rightarrow> tracer_state \<Rightarrow> traced_message list \<times> tracer_state" where
  "traceMessages now msgs ts = foldl (trace_message now) ([], pruneOrphans now ts) msgs"

text \<open>What the reducer takes for a message of the main transcript.\<close>

definition is_main :: "traced_message \<Rightarrow> bool" where
  "is_main msg \<longleftrightarrow> falsy_str (tracedSidechainId msg) \<and> \<not> tracedIsSidechain msg"

section \<open>The main transcript\<close>

text \<open>The keys the tracer has seen, processed or waiting.\<close>

definition waiting :: "tracer_state \<Rightarrow> traced_message set" where
  "waiting ts = (\<Union>kb\<in>set (orphanMessages ts). set (orphanRows (snd kb)))"

definition known_keys :: "tracer_state \<Rightarrow> processed_key set" where
  "known_keys ts = set (processedIds ts) \<union> getProcessedKey ` waiting ts"

lemma flush_rows_sid: "row \<in> set (fst (flush_rows sid rows ts)) \<Longrightarrow> tracedSidechainId row = Some sid"
  by (induction sid rows ts rule: flush_rows.induct) (auto simp: case_prod_beta Let_def)

lemma set_orphan_delete: "set (AList.delete k m) \<subseteq> set m"
  by (auto simp: AList.delete_eq)

lemma waiting_take: "set (fst (take_bucket k ts)) \<union> waiting (snd (take_bucket k ts)) \<subseteq> waiting ts"
proof (cases "map_of (orphanMessages ts) k")
  case (Some b)
  have "set (orphanRows b) \<subseteq> waiting ts" using map_of_SomeD [OF Some] by (force simp: waiting_def)
  moreover have "waiting (ts\<lparr>orphanMessages := AList.delete k (orphanMessages ts)\<rparr>) \<subseteq> waiting ts"
    using set_orphan_delete [of k "orphanMessages ts"] by (auto simp: waiting_def)
  ultimately show ?thesis using Some by (simp add: take_bucket_def)
qed (simp add: take_bucket_def)

lemma take_bucket_ids [simp]: "processedIds (snd (take_bucket k ts)) = processedIds ts"
  "uuidToSidechainId (snd (take_bucket k ts)) = uuidToSidechainId ts"
  by (simp_all add: take_bucket_def split: option.splits)

lemma mark_linked_keys: "set (processedIds (mark_linked sid msg ts)) = insert (getProcessedKey msg) (set (processedIds ts))"
  by (simp add: mark_linked_def mark_traced_def Let_def split: option.splits)

lemma waiting_mark [simp]: "waiting (mark_linked sid msg ts) = waiting ts"
  by (simp add: waiting_def)

lemma visit_waiting: "set (fst (visit sid msg ts)) \<union> waiting (snd (visit sid msg ts)) \<subseteq> waiting ts"
  using waiting_take [of _ "mark_linked sid msg ts"] by (simp add: visit_def split: option.splits)

lemma visit_ids:
  "processedIds (snd (visit sid msg ts)) = processedIds (mark_linked sid msg ts)"
  "uuidToSidechainId (snd (visit sid msg ts)) = uuidToSidechainId (mark_linked sid msg ts)"
  by (simp_all add: visit_def split: option.splits)

lemma visit_keys:
  "known_keys (snd (visit sid msg ts)) \<union> getProcessedKey ` set (fst (visit sid msg ts)) \<subseteq> insert (getProcessedKey msg) (known_keys ts)"
  using visit_waiting [of sid msg ts] by (auto simp: known_keys_def visit_ids mark_linked_keys)

lemma flush_rows_keys: "known_keys (snd (flush_rows sid rows ts)) \<subseteq> known_keys ts \<union> getProcessedKey ` set rows"
proof (induction sid rows ts rule: flush_rows.induct)
  case (2 sid msg rows ts)
  then have "known_keys (snd (flush_rows sid (msg # rows) ts)) \<subseteq> known_keys (snd (visit sid msg ts))
      \<union> (getProcessedKey ` set (fst (visit sid msg ts)) \<union> getProcessedKey ` set rows)"
    by (simp add: case_prod_beta Let_def image_Un)
  then show ?case using visit_keys [of sid msg ts] unfolding list.set image_insert by blast
qed simp

lemma process_orphans_keys: "known_keys (snd (processOrphans k sid ts)) \<subseteq> known_keys ts"
proof -
  have "known_keys (snd (take_bucket k ts)) \<union> getProcessedKey ` set (fst (take_bucket k ts)) \<subseteq> known_keys ts"
    using waiting_take [of k ts] by (auto simp: known_keys_def)
  then show ?thesis
    using flush_rows_keys [of sid "fst (take_bucket k ts)" "snd (take_bucket k ts)"] by (auto simp: processOrphans_def case_prod_beta)
qed

lemma set_drop_old: "set (drop_old_orphans n kbs m) \<subseteq> set m"
proof (induction n kbs m rule: drop_old_orphans.induct)
  case (2 n kb kbs m)
  then show ?case using set_orphan_delete [of "fst kb" m] by auto
qed simp

lemma prune_keys: "waiting (pruneOrphans now ts) \<subseteq> waiting ts" "processedIds (pruneOrphans now ts) = processedIds ts"
  "uuidToSidechainId (pruneOrphans now ts) = uuidToSidechainId ts"
  using set_drop_old by (fastforce simp: pruneOrphans_def waiting_def Let_def)+

lemma set_orphan_update: "set (AList.update k b m) \<subseteq> insert (k, b) (set m)"
  by (induction m) auto

lemma add_orphan_keys: "known_keys (addOrphan now k msg ts) \<subseteq> insert (getProcessedKey msg) (known_keys ts)"
proof -
  let ?ts1 = "pruneOrphans now ts"
  let ?rows = "(case map_of (orphanMessages ?ts1) k of None \<Rightarrow> [] | Some b \<Rightarrow> orphanRows b) @ [msg]"
  let ?bucket = "\<lparr>orphansAt = now, orphanRows = drop (length ?rows - MAX_ORPHANS_PER_PARENT) ?rows\<rparr>"
  let ?ts2 = "?ts1\<lparr>orphanMessages := AList.update k ?bucket (orphanMessages ?ts1)\<rparr>"
  have "set (orphanRows ?bucket) \<subseteq> insert msg (waiting ?ts1)"
    using set_drop_subset by (fastforce simp: waiting_def dest: map_of_SomeD split: option.splits)
  moreover have "set (AList.update k ?bucket (orphanMessages ?ts1)) \<subseteq> insert (k, ?bucket) (set (orphanMessages ?ts1))"
    by (rule set_orphan_update)
  ultimately have "waiting ?ts2 \<subseteq> insert msg (waiting ?ts1)" by (fastforce simp: waiting_def)
  then have "waiting (addOrphan now k msg ts) \<subseteq> insert msg (waiting ts)"
    using prune_keys(1) [of now ?ts2] prune_keys(1) [of now ts] by (auto simp: addOrphan_def Let_def)
  moreover have "processedIds (addOrphan now k msg ts) = processedIds ts" by (simp add: addOrphan_def prune_keys Let_def)
  ultimately show ?thesis by (auto simp: known_keys_def)
qed

lemma index_tasks_ok:
  "\<forall>row\<in>set (fst acc). \<not> is_main row \<Longrightarrow>
   (\<forall>row\<in>set (fst (foldl (index_task msg) acc cs)). \<not> is_main row)
   \<and> known_keys (snd (foldl (index_task msg) acc cs)) \<subseteq> known_keys (snd acc)"
proof (induction cs arbitrary: acc)
  case (Cons c cs)
  have step: "(\<forall>row\<in>set (fst (index_task msg acc c)). \<not> is_main row) \<and> known_keys (snd (index_task msg acc c)) \<subseteq> known_keys (snd acc)"
  proof (cases "task_of msg c")
    case (Some tp)
    obtain tid prompt where tp: "tp = (tid, prompt)" by (cases tp)
    then have "tid \<noteq> []" using Some by (auto simp: task_of_def Let_def split: message_content.splits if_splits option.splits)
    then have "\<not> is_main row" if "row \<in> set (fst (processOrphans k tid ts))" for row k ts
      using that flush_rows_sid by (fastforce simp: processOrphans_def case_prod_beta is_main_def falsy_str_def)
    moreover have "known_keys (snd (processOrphans k tid (snd acc\<lparr>promptToTaskId := q\<rparr>))) \<subseteq> known_keys (snd acc)" for k q
      using process_orphans_keys [of k tid "snd acc\<lparr>promptToTaskId := q\<rparr>"] by (simp add: known_keys_def waiting_def)
    ultimately show ?thesis using Cons.prems Some tp by (auto simp: index_task_def case_prod_beta Let_def)
  qed (use Cons.prems in \<open>simp add: index_task_def\<close>)
  then show ?case using Cons.IH [of "index_task msg acc c"] by auto
qed simp

lemma first_some_member: "first_some xs = Some x \<Longrightarrow> Some x \<in> set xs"
  by (induction xs rule: first_some.induct) auto

lemma explicit_not_empty: "explicitSidechainId msg \<noteq> Some []"
proof -
  have "trim_or_none s \<noteq> Some []" for s by (simp add: trim_or_none_def)
  then have "firstString v \<noteq> Some []" "(case o' of None \<Rightarrow> None | Some s \<Rightarrow> trim_or_none s) \<noteq> Some []" for v o'
    by (auto simp: firstString_def split: option.splits)
  then show ?thesis unfolding explicitSidechainId_def using first_some_member by fastforce
qed

lemma find_root_not_empty: "fst (find_root ts pending cs) \<noteq> Some []"
  by (induction ts pending cs rule: find_root.induct)
     (auto simp: Let_def non_empty_def falsy_str_def split: message_content.splits option.splits if_splits)

lemma link_ok:
  "(\<forall>row\<in>set (fst (link_sidechain now msg ts)). \<not> is_main row)
   \<and> known_keys (snd (link_sidechain now msg ts)) \<subseteq> insert (getProcessedKey msg) (known_keys ts)"
proof -
  have flush: "(\<forall>row\<in>set (fst (flush_rows sid [msg] ts)). \<not> is_main row)
      \<and> known_keys (snd (flush_rows sid [msg] ts)) \<subseteq> insert (getProcessedKey msg) (known_keys ts)" if "sid \<noteq> []" for sid
  proof
    show "\<forall>row\<in>set (fst (flush_rows sid [msg] ts)). \<not> is_main row"
      using that flush_rows_sid [of _ sid "[msg]" ts] by (fastforce simp: is_main_def falsy_str_def)
    show "known_keys (snd (flush_rows sid [msg] ts)) \<subseteq> insert (getProcessedKey msg) (known_keys ts)"
      using flush_rows_keys [of sid "[msg]" ts] by auto
  qed
  have mark: "known_keys (mark_traced msg ts) \<subseteq> insert (getProcessedKey msg) (known_keys ts)"
    by (auto simp: known_keys_def mark_traced_def waiting_def)
  obtain root pending where roots: "(if explicitSidechainId msg = None then find_root ts None (agent_contents msg) else (None, None)) = (root, pending)"
    by fastforce
  have root: "root \<noteq> Some []" using roots find_root_not_empty by (metis fst_conv option.distinct(1))
  show ?thesis
  proof (cases "if explicitSidechainId msg \<noteq> None then explicitSidechainId msg else root")
    case (Some sid)
    then have "sid \<noteq> []" using explicit_not_empty root by (auto split: if_splits)
    then show ?thesis using flush [of sid] Some by (simp add: link_sidechain_def roots)
  next
    case None
    show ?thesis
    proof (cases "non_empty (getParentUuid msg)")
      case parent: (Some p)
      show ?thesis
      proof (cases "non_empty (map_of (uuidToSidechainId ts) p)")
        case (Some sid)
        then have "sid \<noteq> []" by (auto simp: non_empty_def falsy_str_def split: if_splits)
        then show ?thesis using flush [of sid] parent Some None by (simp add: link_sidechain_def roots)
      qed (use None parent add_orphan_keys in \<open>simp add: link_sidechain_def roots\<close>)
    qed (use None mark add_orphan_keys in \<open>simp add: link_sidechain_def roots split: option.splits\<close>)
  qed
qed

lemma trace_step_main:
  assumes "getProcessedKey msg \<notin> known_keys (snd acc)"
  shows "filter is_main (fst (trace_message now acc msg))
      = filter is_main (fst acc) @ (if shouldTreatAsSidechain msg \<or> \<not> is_main msg then [] else [msg])"
    and "known_keys (snd (trace_message now acc msg)) \<subseteq> insert (getProcessedKey msg) (known_keys (snd acc))"
proof -
  obtain flushed ts where index: "foldl (index_task msg) ([], snd acc) (agent_contents msg) = (flushed, ts)" by fastforce
  have flushed: "filter is_main flushed = []" "known_keys ts \<subseteq> known_keys (snd acc)"
    using index_tasks_ok [of "([], snd acc)" msg "agent_contents msg"] by (simp_all add: index filter_empty_conv)
  have new: "getProcessedKey msg \<notin> set (processedIds (snd acc))" using assms by (simp add: known_keys_def)
  have link: "filter is_main (fst (link_sidechain now msg ts)) = []"
    using link_ok [of now msg ts] by (simp add: filter_empty_conv)
  show "filter is_main (fst (trace_message now acc msg))
      = filter is_main (fst acc) @ (if shouldTreatAsSidechain msg \<or> \<not> is_main msg then [] else [msg])"
    using new flushed(1) link by (simp add: trace_message_def index case_prod_beta)
  have "known_keys (mark_traced msg ts) \<subseteq> insert (getProcessedKey msg) (known_keys ts)"
    by (auto simp: known_keys_def mark_traced_def waiting_def)
  then show "known_keys (snd (trace_message now acc msg)) \<subseteq> insert (getProcessedKey msg) (known_keys (snd acc))"
    using new flushed(2) link_ok [of now msg ts] by (auto simp: trace_message_def index case_prod_beta)
qed

text \<open>C19: Tracing leaves the main transcript as it is. Of a batch of messages with processing keys that are distinct and
  that the tracer has neither processed nor is holding back, exactly those that nothing marks as part of
  a sidechain (the flag and the ids of the message and of its metadata) come out as messages of the main
  transcript, unchanged and in their order; nothing of a sidechain leaks into it, whether its owner is
  known, unknown or never comes. This holds in every state of the tracer.\<close>

theorem tracing_keeps_the_main_transcript:
  assumes "distinct (map getProcessedKey msgs)" and "\<forall>msg\<in>set msgs. getProcessedKey msg \<notin> known_keys ts"
  shows "filter is_main (fst (traceMessages now msgs ts))
    = filter (\<lambda>msg. \<not> shouldTreatAsSidechain msg \<and> falsy_str (tracedSidechainId msg)) msgs"
proof -
  have same: "(\<not> shouldTreatAsSidechain msg \<and> falsy_str (tracedSidechainId msg)) = (\<not> (shouldTreatAsSidechain msg \<or> \<not> is_main msg))" for msg
    by (auto simp: shouldTreatAsSidechain_def is_main_def)
  have "filter is_main (fst (foldl (trace_message now) acc msgs))
      = filter is_main (fst acc) @ filter (\<lambda>msg. \<not> (shouldTreatAsSidechain msg \<or> \<not> is_main msg)) msgs"
    if "\<forall>msg\<in>set msgs. getProcessedKey msg \<notin> known_keys (snd acc)" for acc
    using that assms(1)
  proof (induction msgs arbitrary: acc)
    case (Cons msg msgs)
    have "getProcessedKey msg \<notin> known_keys (snd acc)" using Cons.prems(1) by simp
    note step = trace_step_main [OF this, of now]
    have "getProcessedKey m \<noteq> getProcessedKey msg" if "m \<in> set msgs" for m
      using Cons.prems(2) that by (metis distinct.simps(2) image_eqI image_set list.simps(9))
    then have "\<forall>m\<in>set msgs. getProcessedKey m \<notin> known_keys (snd (trace_message now acc msg))"
      using step(2) Cons.prems(1) by (meson insertE list.set_intros(2) subsetD)
    then show ?case using Cons.IH step(1) Cons.prems(2) by simp
  qed simp
  from this [of "([], pruneOrphans now ts)"]
  have "filter is_main (fst (traceMessages now msgs ts)) = filter (\<lambda>msg. \<not> (shouldTreatAsSidechain msg \<or> \<not> is_main msg)) msgs"
    if "\<forall>msg\<in>set msgs. getProcessedKey msg \<notin> known_keys (pruneOrphans now ts)"
    using that by (simp add: traceMessages_def)
  moreover have "known_keys (pruneOrphans now ts) \<subseteq> known_keys ts" using prune_keys [of now ts] by (auto simp: known_keys_def)
  then have "\<forall>msg\<in>set msgs. getProcessedKey msg \<notin> known_keys (pruneOrphans now ts)" using assms(2) by blast
  ultimately show ?thesis unfolding same by blast
qed

section \<open>Owners\<close>

text \<open>
  What the tracer has to find: the owner a message names, or that of its parent. The messages considered
  carry a uuid each, name an owner or a parent, and contain neither roots nor calls of subagents.
\<close>

inductive owner :: "traced_message set \<Rightarrow> traced_message \<Rightarrow> string \<Rightarrow> bool" for P where
  named: "m \<in> P \<Longrightarrow> explicitSidechainId m = Some s \<Longrightarrow> owner P m s"
| inherited: "m \<in> P \<Longrightarrow> explicitSidechainId m = None \<Longrightarrow> m' \<in> P \<Longrightarrow> getParentUuid m = getMessageUuid m' \<Longrightarrow> owner P m' s \<Longrightarrow> owner P m s"

inductive_cases owner_cases: "owner P m s"

definition plain_sidechain :: "traced_message \<Rightarrow> bool" where
  "plain_sidechain m \<longleftrightarrow> shouldTreatAsSidechain m \<and> getMessageUuid m \<noteq> None
     \<and> (explicitSidechainId m \<noteq> None \<or> non_empty (getParentUuid m) \<noteq> None)
     \<and> list_all (\<lambda>c. task_of m c = None \<and> (\<forall>p. c \<noteq> SidechainContent p)) (agent_contents m)"

definition linked_row :: "traced_message \<Rightarrow> string \<Rightarrow> traced_message" where
  "linked_row m s = m\<lparr>tracedSidechainId := Some s\<rparr>"

text \<open>
  The invariant of the tracer on messages out of \<open>P\<close>, of which those of \<open>H\<close> have come: \<open>W\<close> are rows taken
  from a bucket and not yet visited, \<open>out\<close> the rows put out.
\<close>

definition linked_to :: "tracer_state \<Rightarrow> traced_message \<Rightarrow> string \<Rightarrow> bool" where
  "linked_to ts m s \<longleftrightarrow> (\<exists>u. getMessageUuid m = Some u \<and> map_of (uuidToSidechainId ts) u = Some s)"

record trace_view =
  universe :: "traced_message set"
  handled :: "traced_message set"
  pending_rows :: "traced_message set"
  rows_out :: "traced_message set"

definition links_sound :: "trace_view \<Rightarrow> tracer_state \<Rightarrow> bool" where
  "links_sound v ts \<longleftrightarrow>
     (\<forall>u s. map_of (uuidToSidechainId ts) u = Some s \<longrightarrow>
        (\<exists>m\<in>handled v. getMessageUuid m = Some u \<and> owner (universe v) m s))
     \<and> rows_out v = {linked_row m s | m s. m \<in> universe v \<and> linked_to ts m s}
     \<and> set (processedIds ts) \<subseteq> {getProcessedKey m | m s. m \<in> handled v \<and> linked_to ts m s}"

definition waits_sound :: "trace_view \<Rightarrow> tracer_state \<Rightarrow> bool" where
  "waits_sound v ts \<longleftrightarrow>
     (\<forall>k b m. map_of (orphanMessages ts) k = Some b \<longrightarrow> m \<in> set (orphanRows b) \<longrightarrow>
        m \<in> handled v \<and> explicitSidechainId m = None \<and> getParentUuid m = Some k \<and> map_of (uuidToSidechainId ts) k = None)
     \<and> (\<forall>m\<in>handled v. m \<in> pending_rows v \<or> (\<exists>s. linked_to ts m s)
          \<or> (\<exists>k b. map_of (orphanMessages ts) k = Some b \<and> m \<in> set (orphanRows b)))"

definition view_ok :: "trace_view \<Rightarrow> bool" where
  "view_ok v \<longleftrightarrow> handled v \<subseteq> universe v \<and> (\<forall>m\<in>universe v. plain_sidechain m) \<and> inj_on getMessageUuid (universe v)
     \<and> inj_on getProcessedKey (universe v)"

lemma owner_unique:
  assumes "inj_on getMessageUuid P" and "owner P m s" and "owner P m t"
  shows "s = t"
  using assms(2,3)
proof (induction arbitrary: t)
  case (named m s)
  then show ?case by (auto elim: owner_cases)
next
  case (inherited m m' s)
  from inherited.prems obtain m'' where m'': "m'' \<in> P" "getParentUuid m = getMessageUuid m''" "owner P m'' t"
    using inherited.hyps(2) by (auto elim: owner_cases)
  then have "m'' = m'" using inherited.hyps(3,4) assms(1) by (simp add: inj_on_def)
  then show ?case using inherited.IH m''(3) by simp
qed

lemma owner_universe: "owner P m s \<Longrightarrow> m \<in> P"
  by (auto elim: owner_cases)

lemma owner_not_empty: "owner P m s \<Longrightarrow> s \<noteq> []"
  by (induction rule: owner.induct) (use explicit_not_empty in auto)

lemma plain_uuid: "plain_sidechain m \<Longrightarrow> \<exists>u. getMessageUuid m = Some u"
  by (auto simp: plain_sidechain_def)

lemma mark_linked_uuids:
  "getMessageUuid m = Some u \<Longrightarrow> map_of (uuidToSidechainId (mark_linked s m ts)) = (map_of (uuidToSidechainId ts))(u \<mapsto> s)"
  by (simp add: mark_linked_def mark_traced_def Let_def update_conv')

lemma linked_to_visit:
  assumes "getMessageUuid m = Some u"
  shows "linked_to (snd (visit s m ts)) m' t \<longleftrightarrow> (if getMessageUuid m' = Some u then t = s else linked_to ts m' t)"
  by (auto simp: linked_to_def visit_ids mark_linked_uuids [OF assms])

lemma visit_waits:
  assumes "getMessageUuid m = Some u"
  shows "map_of (orphanMessages (snd (visit s m ts))) = (map_of (orphanMessages ts))(u := None)"
    and "set (fst (visit s m ts)) = (case map_of (orphanMessages ts) u of None \<Rightarrow> {} | Some b \<Rightarrow> set (orphanRows b))"
  by (auto simp: visit_def assms take_bucket_def delete_conv' fun_eq_iff split: option.splits)

text \<open>Visiting a message whose owner is known keeps the invariant.\<close>

lemma visit_links:
  assumes v: "view_ok v" and links: "links_sound v ts" and m: "m \<in> handled v" "owner (universe v) m s"
  shows "links_sound (v\<lparr>rows_out := insert (linked_row m s) (rows_out v), pending_rows := W\<rparr>) (snd (visit s m ts))"
proof -
  have mP: "m \<in> universe v" using v m(1) by (auto simp: view_ok_def)
  obtain u where u: "getMessageUuid m = Some u" using plain_uuid v mP unfolding view_ok_def by blast
  have inj: "m' = m" if "m' \<in> universe v" "getMessageUuid m' = Some u" for m'
    using v that mP u unfolding view_ok_def inj_on_def by metis
  have sub: "handled v \<subseteq> universe v" and unique: "inj_on getMessageUuid (universe v)" using v by (simp_all add: view_ok_def)
  have ids: "set (processedIds ts) \<subseteq> {getProcessedKey m' | m' t. m' \<in> handled v \<and> linked_to ts m' t}"
    and rows: "rows_out v = {linked_row m' t | m' t. m' \<in> universe v \<and> linked_to ts m' t}"
    and uuids: "\<And>w t. map_of (uuidToSidechainId ts) w = Some t \<Longrightarrow> \<exists>m'\<in>handled v. getMessageUuid m' = Some w \<and> owner (universe v) m' t"
    using links unfolding links_sound_def by blast+
  have before: "t = s" if known: "linked_to ts m t" for t
  proof -
    have "map_of (uuidToSidechainId ts) u = Some t" using known u by (simp add: linked_to_def)
    then obtain m' where m': "m' \<in> handled v" "getMessageUuid m' = Some u" "owner (universe v) m' t" using uuids by blast
    then have "m' = m" using inj sub by blast
    then show "t = s" using m'(3) m(2) owner_unique [OF unique] by blast
  qed
  have linked: "linked_to (snd (visit s m ts)) m' t \<longleftrightarrow> (m' = m \<and> t = s) \<or> linked_to ts m' t" if U: "m' \<in> universe v" for m' t
  proof (cases "m' = m")
    case True
    then show ?thesis using linked_to_visit [OF u, of s ts m' t] u before by auto
  next
    case False
    then have "getMessageUuid m' \<noteq> Some u" using inj [OF U] by blast
    then show ?thesis using linked_to_visit [OF u, of s ts m' t] False by simp
  qed
  have "\<exists>m'\<in>handled v. getMessageUuid m' = Some w \<and> owner (universe v) m' t"
    if known: "map_of (uuidToSidechainId (snd (visit s m ts))) w = Some t" for w t
  proof (cases "w = u")
    case True
    then show ?thesis using known m u by (auto simp: visit_ids mark_linked_uuids [OF u])
  next
    case False
    then show ?thesis using known uuids by (simp add: visit_ids mark_linked_uuids [OF u])
  qed
  moreover have "insert (linked_row m s) (rows_out v) = {linked_row m' t | m' t. m' \<in> universe v \<and> linked_to (snd (visit s m ts)) m' t}"
  proof -
    have "(\<exists>m' t. x = linked_row m' t \<and> m' \<in> universe v \<and> linked_to (snd (visit s m ts)) m' t)
        \<longleftrightarrow> x = linked_row m s \<or> (\<exists>m' t. x = linked_row m' t \<and> m' \<in> universe v \<and> linked_to ts m' t)" for x
      using linked mP by metis
    then show ?thesis unfolding rows by auto
  qed
  moreover have "set (processedIds (snd (visit s m ts)))
      \<subseteq> {getProcessedKey m' | m' t. m' \<in> handled v \<and> linked_to (snd (visit s m ts)) m' t}"
  proof
    fix x
    assume "x \<in> set (processedIds (snd (visit s m ts)))"
    then consider "x = getProcessedKey m" | "x \<in> set (processedIds ts)" by (auto simp: visit_ids mark_linked_keys)
    then show "x \<in> {getProcessedKey m' | m' t. m' \<in> handled v \<and> linked_to (snd (visit s m ts)) m' t}"
    proof cases
      case 1
      then show ?thesis using m(1) linked [OF mP, of s] by blast
    next
      case 2
      then obtain m' t where "x = getProcessedKey m'" "m' \<in> handled v" "linked_to ts m' t" using ids by blast
      moreover have "linked_to (snd (visit s m ts)) m' t" using calculation sub linked by blast
      ultimately show ?thesis by blast
    qed
  qed
  ultimately show ?thesis unfolding links_sound_def by simp
qed

lemma visit_waits_sound:
  assumes v: "view_ok v" and waits: "waits_sound v ts" and m: "m \<in> handled v"
    and W: "pending_rows v \<subseteq> insert m W"
  shows "waits_sound (v\<lparr>rows_out := R, pending_rows := set (fst (visit s m ts)) \<union> W\<rparr>) (snd (visit s m ts))"
proof -
  have mP: "m \<in> universe v" using v m by (auto simp: view_ok_def)
  obtain u where u: "getMessageUuid m = Some u" using plain_uuid v mP unfolding view_ok_def by blast
  show ?thesis
    unfolding waits_sound_def
  proof (intro conjI allI impI ballI)
    fix k b m'
    assume "map_of (orphanMessages (snd (visit s m ts))) k = Some b" "m' \<in> set (orphanRows b)"
    then have "k \<noteq> u" "map_of (orphanMessages ts) k = Some b" "m' \<in> set (orphanRows b)"
      by (simp_all add: visit_waits(1) [OF u] split: if_splits)
    then show "m' \<in> handled (v\<lparr>rows_out := R, pending_rows := set (fst (visit s m ts)) \<union> W\<rparr>)" "explicitSidechainId m' = None"
      "getParentUuid m' = Some k" "map_of (uuidToSidechainId (snd (visit s m ts))) k = None"
      using waits by (auto simp: waits_sound_def visit_ids mark_linked_uuids [OF u])
  next
    fix m'
    assume "m' \<in> handled (v\<lparr>rows_out := R, pending_rows := set (fst (visit s m ts)) \<union> W\<rparr>)"
    then have "m' \<in> insert m W \<or> (\<exists>t. linked_to ts m' t) \<or> (\<exists>k b. map_of (orphanMessages ts) k = Some b \<and> m' \<in> set (orphanRows b))"
      using waits W by (auto simp: waits_sound_def)
    then consider "m' = m" | "m' \<in> W" | t where "linked_to ts m' t"
      | k b where "map_of (orphanMessages ts) k = Some b" "m' \<in> set (orphanRows b)" by blast
    then show "m' \<in> pending_rows (v\<lparr>rows_out := R, pending_rows := set (fst (visit s m ts)) \<union> W\<rparr>) \<or> (\<exists>t. linked_to (snd (visit s m ts)) m' t)
        \<or> (\<exists>k b. map_of (orphanMessages (snd (visit s m ts))) k = Some b \<and> m' \<in> set (orphanRows b))"
    proof cases
      case 1
      then show ?thesis using linked_to_visit [OF u] u by auto
    next
      case (3 t)
      then have "linked_to (snd (visit s m ts)) m' (if getMessageUuid m' = Some u then s else t)" by (simp add: linked_to_visit [OF u])
      then show ?thesis by blast
    next
      case (4 k b)
      show ?thesis
      proof (cases "k = u")
        case True
        then show ?thesis using 4 by (simp add: visit_waits(2) [OF u])
      next
        case False
        then have "map_of (orphanMessages (snd (visit s m ts))) k = Some b" using 4 by (simp add: visit_waits(1) [OF u])
        then show ?thesis using 4(2) by blast
      qed
    qed simp
  qed
qed

lemma flush_links:
  assumes "view_ok v" and "links_sound v ts" and "waits_sound v ts" and "pending_rows v = set rows"
    and "\<forall>m\<in>set rows. m \<in> handled v \<and> owner (universe v) m s"
  shows "links_sound (v\<lparr>rows_out := rows_out v \<union> set (fst (flush_rows s rows ts)), pending_rows := {}\<rparr>) (snd (flush_rows s rows ts))
    \<and> waits_sound (v\<lparr>rows_out := rows_out v \<union> set (fst (flush_rows s rows ts)), pending_rows := {}\<rparr>) (snd (flush_rows s rows ts))"
  using assms
proof (induction s rows ts arbitrary: v rule: flush_rows.induct)
  case (1 s ts)
  then show ?case by (simp add: links_sound_def waits_sound_def)
next
  case (2 s m rows ts)
  define v1 where "v1 = v\<lparr>rows_out := insert (linked_row m s) (rows_out v), pending_rows := set (fst (visit s m ts)) \<union> set rows\<rparr>"
  have m: "m \<in> handled v" "owner (universe v) m s" using "2.prems"(5) by simp_all
  obtain u where u: "getMessageUuid m = Some u" using "2.prems"(1) m plain_uuid unfolding view_ok_def by blast
  have ok: "view_ok v1" using "2.prems"(1) by (simp add: view_ok_def v1_def)
  have links: "links_sound v1 (snd (visit s m ts))" unfolding v1_def by (rule visit_links [OF "2.prems"(1,2) m])
  have waits: "waits_sound v1 (snd (visit s m ts))"
    unfolding v1_def by (rule visit_waits_sound [OF "2.prems"(1,3) m(1)]) (simp add: "2.prems"(4))
  have taken: "m' \<in> handled v \<and> owner (universe v) m' s" if "m' \<in> set (fst (visit s m ts))" for m'
  proof -
    have "m' \<in> (case map_of (orphanMessages ts) u of None \<Rightarrow> {} | Some b \<Rightarrow> set (orphanRows b))"
      using that unfolding visit_waits(2) [OF u] .
    then obtain b where "map_of (orphanMessages ts) u = Some b" "m' \<in> set (orphanRows b)"
      by (auto split: option.splits)
    then have m': "m' \<in> handled v" "explicitSidechainId m' = None" "getParentUuid m' = Some u"
      using "2.prems"(3) unfolding waits_sound_def by blast+
    then have "m' \<in> universe v" "m \<in> universe v" using "2.prems"(1) m(1) by (auto simp: view_ok_def)
    then have "owner (universe v) m' s" using owner.inherited [of m' "universe v" m s] m' m(2) u by simp
    with m'(1) show ?thesis by simp
  qed
  have "links_sound (v1\<lparr>rows_out := rows_out v1 \<union> set (fst (flush_rows s (fst (visit s m ts) @ rows) (snd (visit s m ts)))), pending_rows := {}\<rparr>)
        (snd (flush_rows s (fst (visit s m ts) @ rows) (snd (visit s m ts))))
      \<and> waits_sound (v1\<lparr>rows_out := rows_out v1 \<union> set (fst (flush_rows s (fst (visit s m ts) @ rows) (snd (visit s m ts)))), pending_rows := {}\<rparr>)
        (snd (flush_rows s (fst (visit s m ts) @ rows) (snd (visit s m ts))))"
    by (rule "2.IH" [OF ok links waits]) (use taken "2.prems"(5) in \<open>auto simp: v1_def\<close>)
  then show ?case by (simp add: v1_def case_prod_beta linked_row_def [symmetric])
qed

text \<open>The bounds of the buffer are not reached.\<close>

definition within_caps :: "rat \<Rightarrow> nat \<Rightarrow> tracer_state \<Rightarrow> bool" where
  "within_caps now n ts \<longleftrightarrow> orphan_total (orphanMessages ts) \<le> n \<and> (\<forall>kb\<in>set (orphanMessages ts). orphansAt (snd kb) = now)"

lemma prune_within: "within_caps now n ts \<Longrightarrow> n \<le> MAX_TOTAL_ORPHANS \<Longrightarrow> pruneOrphans now ts = ts"
proof -
  assume caps: "within_caps now n ts" "n \<le> MAX_TOTAL_ORPHANS"
  have "filter (\<lambda>kb. \<not> now - orphansAt (snd kb) > ORPHAN_TTL_MS) (orphanMessages ts) = orphanMessages ts"
    using caps(1) by (auto simp: within_caps_def ORPHAN_TTL_MS_def intro!: filter_True)
  moreover have "drop_old_orphans k kbs m = m" if "k \<le> MAX_TOTAL_ORPHANS" for k kbs m
    using that by (cases kbs) simp_all
  ultimately show "pruneOrphans now ts = ts" using caps by (simp add: pruneOrphans_def within_caps_def)
qed

lemma flush_within: "within_caps now n ts \<Longrightarrow> within_caps now n (snd (flush_rows s rows ts))"
proof (induction s rows ts rule: flush_rows.induct)
  case (2 s m rows ts)
  have "set (orphanMessages (snd (visit s m ts))) \<subseteq> set (orphanMessages ts)"
    using set_orphan_delete [of _ "orphanMessages ts"] by (auto simp: visit_def take_bucket_def split: option.splits)
  moreover have "orphan_total (orphanMessages (snd (visit s m ts))) \<le> orphan_total (orphanMessages ts)"
    using take_bucket_total [of _ "mark_linked s m ts", OF surjective_pairing] by (auto simp: visit_def dest: add_leD2 split: option.splits)
  ultimately have "within_caps now n (snd (visit s m ts))" using "2.prems" by (auto simp: within_caps_def)
  then show ?case using "2.IH" by (simp add: case_prod_beta)
qed simp

lemma orphan_total_update:
  "orphan_total (AList.update k b m) + (case map_of m k of None \<Rightarrow> 0 | Some b' \<Rightarrow> length (orphanRows b')) = orphan_total m + length (orphanRows b)"
  by (induction m) (auto simp: orphan_total_def)

lemma bucket_total: "map_of m k = Some b \<Longrightarrow> length (orphanRows b) \<le> orphan_total m"
  by (induction m) (auto simp: orphan_total_def split: if_splits)

definition bucket_rows :: "string \<Rightarrow> tracer_state \<Rightarrow> traced_message list" where
  "bucket_rows k ts = (case map_of (orphanMessages ts) k of None \<Rightarrow> [] | Some b \<Rightarrow> orphanRows b)"

lemma add_within:
  assumes caps: "within_caps now n ts" and n: "n < MAX_ORPHANS_PER_PARENT"
  shows "addOrphan now k m ts
      = ts\<lparr>orphanMessages := AList.update k \<lparr>orphansAt = now, orphanRows = bucket_rows k ts @ [m]\<rparr> (orphanMessages ts)\<rparr>"
    and "within_caps now (Suc n) (addOrphan now k m ts)"
proof -
  let ?rows = "bucket_rows k ts @ [m]"
  let ?ts = "ts\<lparr>orphanMessages := AList.update k \<lparr>orphansAt = now, orphanRows = ?rows\<rparr> (orphanMessages ts)\<rparr>"
  have "length (bucket_rows k ts) \<le> n"
    using bucket_total [of "orphanMessages ts" k] caps by (fastforce simp: bucket_rows_def within_caps_def split: option.splits)
  then have short: "length ?rows - MAX_ORPHANS_PER_PARENT = 0" using n by simp
  have "orphan_total (orphanMessages ?ts) = Suc (orphan_total (orphanMessages ts))"
    using orphan_total_update [of k "\<lparr>orphansAt = now, orphanRows = ?rows\<rparr>" "orphanMessages ts"]
    by (simp add: bucket_rows_def split: option.splits)
  moreover have "\<forall>kb\<in>set (orphanMessages ?ts). orphansAt (snd kb) = now"
    using caps set_orphan_update [of k "\<lparr>orphansAt = now, orphanRows = ?rows\<rparr>" "orphanMessages ts"] by (auto simp: within_caps_def)
  ultimately have within: "within_caps now (Suc n) ?ts" using caps by (simp add: within_caps_def)
  have "n \<le> MAX_TOTAL_ORPHANS" "Suc n \<le> MAX_TOTAL_ORPHANS" using n by (simp_all add: MAX_ORPHANS_PER_PARENT_def MAX_TOTAL_ORPHANS_def)
  then show eq: "addOrphan now k m ts = ?ts"
    using prune_within [OF caps] prune_within [OF within] short unfolding addOrphan_def Let_def bucket_rows_def [symmetric] by simp
  show "within_caps now (Suc n) (addOrphan now k m ts)" unfolding eq by (rule within)
qed

text \<open>A message that comes: it is linked with all that waits for it, or waits for its parent.\<close>

definition view :: "traced_message list \<Rightarrow> traced_message list \<Rightarrow> traced_message list \<Rightarrow> trace_view" where
  "view all seen out = \<lparr>universe = set all, handled = set seen, pending_rows = {}, rows_out = set out\<rparr>"

lemma index_plain: "list_all (\<lambda>c. task_of m c = None \<and> (\<forall>p. c \<noteq> SidechainContent p)) cs \<Longrightarrow> foldl (index_task m) acc cs = acc"
  by (induction cs) (simp_all add: index_task_def)

lemma root_plain: "list_all (\<lambda>c. task_of m c = None \<and> (\<forall>p. c \<noteq> SidechainContent p)) cs \<Longrightarrow> find_root ts pending cs = (None, pending)"
  by (induction cs) (auto split: message_content.splits)

lemma flush_new:
  assumes v: "view_ok (view all (seen @ [m]) out)" and links: "links_sound (view all seen out) ts" and waits: "waits_sound (view all seen out) ts"
    and owner: "owner (set all) m s"
  shows "links_sound (view all (seen @ [m]) (out @ fst (flush_rows s [m] ts))) (snd (flush_rows s [m] ts))
    \<and> waits_sound (view all (seen @ [m]) (out @ fst (flush_rows s [m] ts))) (snd (flush_rows s [m] ts))"
proof -
  define v1 where "v1 = (view all (seen @ [m]) out)\<lparr>pending_rows := {m}\<rparr>"
  have same: "universe v1 = set all" "handled v1 = insert m (set seen)" "pending_rows v1 = {m}" "rows_out v1 = set out"
    by (simp_all add: v1_def view_def)
  have "links_sound v1 ts"
    using links unfolding links_sound_def same by (fastforce simp: view_def)
  moreover have "waits_sound v1 ts" using waits by (auto simp: waits_sound_def same view_def)
  moreover have "view_ok v1" using v by (simp add: view_ok_def v1_def)
  ultimately have "links_sound (v1\<lparr>rows_out := rows_out v1 \<union> set (fst (flush_rows s [m] ts)), pending_rows := {}\<rparr>) (snd (flush_rows s [m] ts))
      \<and> waits_sound (v1\<lparr>rows_out := rows_out v1 \<union> set (fst (flush_rows s [m] ts)), pending_rows := {}\<rparr>) (snd (flush_rows s [m] ts))"
    using owner by (intro flush_links) (simp_all add: same)
  moreover have "v1\<lparr>rows_out := rows_out v1 \<union> set (fst (flush_rows s [m] ts)), pending_rows := {}\<rparr>
      = view all (seen @ [m]) (out @ fst (flush_rows s [m] ts))"
    by (simp add: v1_def view_def)
  ultimately show ?thesis by simp
qed

lemma wait_new:
  assumes links: "links_sound (view all seen out) ts" and waits: "waits_sound (view all seen out) ts"
    and m: "explicitSidechainId m = None" "getParentUuid m = Some k" "map_of (uuidToSidechainId ts) k = None"
    and ts': "ts' = ts\<lparr>orphanMessages := AList.update k \<lparr>orphansAt = now, orphanRows = bucket_rows k ts @ [m]\<rparr> (orphanMessages ts)\<rparr>"
  shows "links_sound (view all (seen @ [m]) out) ts' \<and> waits_sound (view all (seen @ [m]) out) ts'"
proof
  have linked: "linked_to ts' = linked_to ts" by (simp add: ts' linked_to_def fun_eq_iff)
  have "processedIds ts' = processedIds ts" "uuidToSidechainId ts' = uuidToSidechainId ts" by (simp_all add: ts')
  then show "links_sound (view all (seen @ [m]) out) ts'"
    using links unfolding links_sound_def linked by (fastforce simp: view_def)
  have rows: "set (bucket_rows k ts) = {x. \<exists>b. map_of (orphanMessages ts) k = Some b \<and> x \<in> set (orphanRows b)}"
    by (cases "map_of (orphanMessages ts) k") (simp_all add: bucket_rows_def)
  show "waits_sound (view all (seen @ [m]) out) ts'"
    unfolding waits_sound_def linked
  proof (intro conjI allI impI ballI)
    fix j b x
    assume h: "map_of (orphanMessages ts') j = Some b" "x \<in> set (orphanRows b)"
    have "x = m \<and> j = k \<or> (\<exists>b'. map_of (orphanMessages ts) j = Some b' \<and> x \<in> set (orphanRows b'))"
      using h rows by (auto simp: ts' update_conv' split: if_splits)
    then show "x \<in> handled (view all (seen @ [m]) out)" "explicitSidechainId x = None" "getParentUuid x = Some j"
      "map_of (uuidToSidechainId ts') j = None"
      using m waits by (auto simp: waits_sound_def view_def ts')
  next
    fix x
    assume "x \<in> handled (view all (seen @ [m]) out)"
    then consider "x = m" | t where "linked_to ts x t" | j b where "map_of (orphanMessages ts) j = Some b" "x \<in> set (orphanRows b)"
      using waits by (auto simp: waits_sound_def view_def)
    then show "x \<in> pending_rows (view all (seen @ [m]) out) \<or> (\<exists>t. linked_to ts x t)
        \<or> (\<exists>j b. map_of (orphanMessages ts') j = Some b \<and> x \<in> set (orphanRows b))"
    proof cases
      case (3 j b)
      show ?thesis
      proof (cases "j = k")
        case True
        then show ?thesis using 3 rows by (auto simp: ts' update_conv')
      next
        case False
        then have "map_of (orphanMessages ts') j = Some b" using 3(1) by (simp add: ts' update_conv')
        then show ?thesis using 3(2) by blast
      qed
    qed (auto simp: ts' update_conv')
  qed
qed

lemma trace_new:
  assumes v: "view_ok (view all (seen @ [m]) (fst acc))" and new: "m \<notin> set seen" and m: "m \<in> set all"
    and links: "links_sound (view all seen (fst acc)) (snd acc)" and waits: "waits_sound (view all seen (fst acc)) (snd acc)"
    and caps: "within_caps now n (snd acc)" "n < MAX_ORPHANS_PER_PARENT"
  defines "acc' \<equiv> trace_message now acc m"
  shows "links_sound (view all (seen @ [m]) (fst acc')) (snd acc') \<and> waits_sound (view all (seen @ [m]) (fst acc')) (snd acc')
    \<and> within_caps now (Suc n) (snd acc')"
proof -
  have plain: "plain_sidechain m" and keys: "inj_on getProcessedKey (set all)" and sub: "set seen \<subseteq> set all"
    using v m by (simp_all add: view_ok_def view_def)
  have contents: "list_all (\<lambda>c. task_of m c = None \<and> (\<forall>p. c \<noteq> SidechainContent p)) (agent_contents m)"
    using plain by (simp add: plain_sidechain_def)
  have "getProcessedKey m \<notin> set (processedIds (snd acc))"
  proof
    assume "getProcessedKey m \<in> set (processedIds (snd acc))"
    then obtain m' where "m' \<in> set seen" "getProcessedKey m = getProcessedKey m'"
      using links by (auto simp: links_sound_def view_def)
    then show False using keys sub m new by (auto simp: inj_on_def)
  qed
  then have acc': "acc' = (fst acc @ fst (link_sidechain now m (snd acc)), snd (link_sidechain now m (snd acc)))"
    using plain by (simp add: acc'_def trace_message_def index_plain [OF contents] plain_sidechain_def case_prod_beta)
  have flush: ?thesis if "link_sidechain now m (snd acc) = flush_rows s [m] (snd acc)" "owner (set all) m s" for s
  proof -
    have "within_caps now (Suc n) (snd (flush_rows s [m] (snd acc)))"
      using flush_within [OF caps(1), of s "[m]"] by (simp add: within_caps_def)
    then show ?thesis using flush_new [OF v links waits that(2)] by (simp add: acc' that(1))
  qed
  show ?thesis
  proof (cases "explicitSidechainId m")
    case (Some s)
    then show ?thesis using m by (intro flush [of s]) (auto simp: link_sidechain_def intro: owner.named)
  next
    case None
    then obtain p where parent: "non_empty (getParentUuid m) = Some p" using plain by (auto simp: plain_sidechain_def)
    then have p: "getParentUuid m = Some p" by (simp add: non_empty_def split: if_splits)
    have known: "\<exists>m'\<in>set all. getMessageUuid m' = Some p \<and> owner (set all) m' s"
      if "map_of (uuidToSidechainId (snd acc)) p = Some s" for s
      using that links sub unfolding links_sound_def by (fastforce simp: view_def)
    show ?thesis
    proof (cases "map_of (uuidToSidechainId (snd acc)) p")
      case (Some s)
      then obtain m' where m': "m' \<in> set all" "getMessageUuid m' = Some p" "owner (set all) m' s" using known by blast
      then have "s \<noteq> []" using owner_not_empty by blast
      then have "link_sidechain now m (snd acc) = flush_rows s [m] (snd acc)"
        using None parent Some by (simp add: link_sidechain_def root_plain [OF contents] non_empty_def falsy_str_def)
      moreover have "owner (set all) m s" using owner.inherited [OF m None m'(1) _ m'(3)] p m'(2) by simp
      ultimately show ?thesis by (rule flush)
    next
      case free: None
      then have "link_sidechain now m (snd acc) = ([], addOrphan now p m (snd acc))"
        using None parent by (simp add: link_sidechain_def root_plain [OF contents] non_empty_def falsy_str_def)
      then show ?thesis
        using wait_new [OF links waits None p free add_within(1) [OF caps]] add_within(2) [OF caps] by (simp add: acc')
    qed
  qed
qed

text \<open>The links of a sidechain do not depend on the order in which its messages arrive. For a batch of at most fifty
  messages of sidechains, each with a uuid and either an owner it names or a parent, none of them the call
  of a subagent or the root of a sidechain, with distinct uuids and processing keys, given to a new tracer: whatever the order, the rows that come out are those
  of the messages that name an owner or inherit one through their parents, with that owner.\<close>

theorem links_ignore_arrival:
  assumes "mset msgs = mset batch" and "\<forall>m\<in>set batch. plain_sidechain m" and "length batch \<le> 50"
    and "distinct (map getMessageUuid batch)" and "distinct (map getProcessedKey batch)"
  shows "set (fst (traceMessages now msgs createTracer)) = {m\<lparr>tracedSidechainId := Some s\<rparr> | m s. owner (set batch) m s}"
proof -
  have perm: "set msgs = set batch" "length msgs = length batch" "distinct msgs"
    using mset_eq_setD [OF assms(1)] mset_eq_length [OF assms(1)] mset_eq_imp_distinct_iff [OF assms(1)] assms(4)
    by (simp_all add: distinct_map)
  have ok: "view_ok (view batch seen out)" if "set seen \<subseteq> set batch" for seen out
    using that assms(2,4,5) by (simp add: view_ok_def view_def distinct_map)
  have "links_sound (view batch (seen @ rest) (fst (foldl (trace_message now) acc rest))) (snd (foldl (trace_message now) acc rest))
      \<and> waits_sound (view batch (seen @ rest) (fst (foldl (trace_message now) acc rest))) (snd (foldl (trace_message now) acc rest))"
    if "links_sound (view batch seen (fst acc)) (snd acc)" "waits_sound (view batch seen (fst acc)) (snd acc)"
      "within_caps now (length seen) (snd acc)" "msgs = seen @ rest" for seen rest acc
    using that
  proof (induction rest arbitrary: seen acc)
    case (Cons m rest)
    have m: "m \<in> set batch" "m \<notin> set seen" "set (seen @ [m]) \<subseteq> set batch" "length seen < MAX_ORPHANS_PER_PARENT"
      using Cons.prems(4) perm assms(3) by (auto simp: MAX_ORPHANS_PER_PARENT_def)
    note step = trace_new [OF ok [OF m(3)] m(2,1) Cons.prems(1-3) m(4)]
    show ?case using Cons.IH [of "seen @ [m]" "trace_message now acc m"] step Cons.prems(4) by simp
  qed simp
  from this [of "[]" "([], createTracer)" msgs]
  have final: "links_sound (view batch msgs (fst (traceMessages now msgs createTracer))) (snd (traceMessages now msgs createTracer))"
    "waits_sound (view batch msgs (fst (traceMessages now msgs createTracer))) (snd (traceMessages now msgs createTracer))"
    by (simp_all add: traceMessages_def links_sound_def waits_sound_def within_caps_def view_def createTracer_def linked_to_def
        pruneOrphans_def orphan_total_def Let_def)
  let ?ts = "snd (traceMessages now msgs createTracer)"
  have unique: "inj_on getMessageUuid (set batch)" using assms(4) by (simp add: distinct_map)
  have owned: "owner (set batch) m s" if m: "m \<in> set batch" "linked_to ?ts m s" for m s
  proof -
    obtain u where u: "getMessageUuid m = Some u" "map_of (uuidToSidechainId ?ts) u = Some s" using m(2) by (auto simp: linked_to_def)
    then obtain m' where "m' \<in> set batch" "getMessageUuid m' = Some u" "owner (set batch) m' s"
      using final(1) perm(1) unfolding links_sound_def by (fastforce simp: view_def)
    then show ?thesis using unique m(1) u(1) by (metis inj_onD)
  qed
  have linked: "linked_to ?ts m s" if "owner (set batch) m s" for m s
    using that
  proof induction
    case (named m s)
    then have "\<exists>t. linked_to ?ts m t" using final(2) perm(1) by (fastforce simp: waits_sound_def view_def)
    then show ?case using owned named owner.named owner_unique [OF unique] by metis
  next
    case (inherited m m' s)
    have "\<not> (\<exists>k b. map_of (orphanMessages ?ts) k = Some b \<and> m \<in> set (orphanRows b))"
    proof
      assume "\<exists>k b. map_of (orphanMessages ?ts) k = Some b \<and> m \<in> set (orphanRows b)"
      then obtain k where "getParentUuid m = Some k" "map_of (uuidToSidechainId ?ts) k = None"
        using final(2) unfolding waits_sound_def by blast
      then show False using inherited.IH inherited.hyps(4) by (auto simp: linked_to_def)
    qed
    then have "\<exists>t. linked_to ?ts m t" using final(2) perm(1) inherited.hyps(1) by (fastforce simp: waits_sound_def view_def)
    then show ?case using owned inherited.hyps owner.inherited owner_unique [OF unique] by metis
  qed
  have "set (fst (traceMessages now msgs createTracer)) = {linked_row m s | m s. m \<in> set batch \<and> linked_to ?ts m s}"
    using final(1) by (simp add: links_sound_def view_def)
  then show ?thesis using owned linked owner_universe unfolding linked_row_def by blast
qed

section \<open>Concrete runs\<close>

definition linked_text :: "string \<Rightarrow> string \<Rightarrow> string option \<Rightarrow> string option \<Rightarrow> traced_message" where
  "linked_text i uuid parent sid = (agent_message i 1 (TextContent i))
     \<lparr>tracedUuid := Some uuid, tracedParentUuid := parent, tracedIsSidechain := True, tracedSidechainId := sid\<rparr>"

definition family :: "traced_message list" where
  "family = [linked_text ''a'' ''u1'' None (Some ''t''), linked_text ''b'' ''u2'' (Some ''u1'') None, linked_text ''c'' ''u3'' (Some ''u2'') None]"

text \<open>Children before parents: nothing comes out until the root names the owner.\<close>

lemma family_backwards:
  "map (\<lambda>r. (tracedId r, tracedSidechainId r)) (fst (traceMessages 0 (rev family) createTracer))
     = [(''a'', Some ''t''), (''b'', Some ''t''), (''c'', Some ''t'')]
   \<and> fst (traceMessages 0 (tl family) createTracer) = []"
  by code_simp

text \<open>A root that only says the prompt waits for the call of the subagent.\<close>

definition prompted_root :: traced_message where
  "prompted_root = (agent_message ''r'' 1 (SidechainContent ''find it''))\<lparr>tracedUuid := Some ''u0'', tracedIsSidechain := True\<rparr>"

definition task_call :: traced_message where
  "task_call = agent_message ''k'' 2 (ToolCallContent ''t'' ''Task'' (JObj [(''prompt'', JStr '' find it'')]) None)"

lemma prompt_links:
  "map (\<lambda>r. (tracedId r, tracedSidechainId r)) (fst (traceMessages 0 [prompted_root, task_call] createTracer)) = [(''r'', Some ''t''), (''k'', None)]
   \<and> map (\<lambda>r. (tracedId r, tracedSidechainId r)) (fst (traceMessages 0 [task_call, prompted_root] createTracer)) = [(''k'', None), (''r'', Some ''t'')]"
  by code_simp

theorem links_ignore_arrival_witness:
  "set (fst (traceMessages 0 (rev family) createTracer)) = {m\<lparr>tracedSidechainId := Some s\<rparr> | m s. owner (set family) m s}"
proof (rule links_ignore_arrival)
  show "mset (rev family) = mset family" by simp
  have "list_all (\<lambda>m. shouldTreatAsSidechain m \<and> getMessageUuid m \<noteq> None
      \<and> (explicitSidechainId m \<noteq> None \<or> non_empty (getParentUuid m) \<noteq> None)) family" by code_simp
  moreover have "\<forall>m\<in>set family. list_all (\<lambda>c. task_of m c = None \<and> (\<forall>p. c \<noteq> SidechainContent p)) (agent_contents m)"
    by (simp add: family_def linked_text_def agent_message_def agent_contents_def task_of_def)
  ultimately show "\<forall>m\<in>set family. plain_sidechain m" by (simp add: plain_sidechain_def list_all_iff)
  show "length family \<le> 50" by (simp add: family_def)
  show "distinct (map getMessageUuid family)" "distinct (map getProcessedKey family)" by code_simp+
qed

definition plain_text :: traced_message where
  "plain_text = agent_message ''p'' 3 (TextContent ''hello'')"

theorem tracing_keeps_the_main_transcript_witness:
  "filter is_main (fst (traceMessages 0 (plain_text # rev family) createTracer)) = [plain_text]"
proof -
  have "distinct (map getProcessedKey (plain_text # rev family))" by code_simp
  moreover have "\<forall>msg\<in>set (plain_text # rev family). getProcessedKey msg \<notin> known_keys createTracer"
    by (simp add: known_keys_def waiting_def createTracer_def)
  ultimately have "filter is_main (fst (traceMessages 0 (plain_text # rev family) createTracer))
      = filter (\<lambda>msg. \<not> shouldTreatAsSidechain msg \<and> falsy_str (tracedSidechainId msg)) (plain_text # rev family)"
    by (rule tracing_keeps_the_main_transcript)
  also have "\<dots> = [plain_text]"
  proof -
    have "shouldTreatAsSidechain m" if "m \<in> set family" for m
      using that by (auto simp: family_def linked_text_def shouldTreatAsSidechain_def)
    then have "filter (\<lambda>msg. \<not> shouldTreatAsSidechain msg \<and> falsy_str (tracedSidechainId msg)) (rev family) = []"
      by (auto simp: filter_empty_conv)
    moreover have "\<not> shouldTreatAsSidechain plain_text \<and> falsy_str (tracedSidechainId plain_text)" by code_simp
    ultimately show ?thesis by simp
  qed
  finally show ?thesis .
qed

end
