(* ===== verification/MessageReducer.thy ===== *)
theory MessageReducer
  imports
    PermissionPhase
    SidechainPhase
    SidechainTracer
begin

text \<open>
  One call of the message reducer: \<open>apps/ui/sources/sync/reducer/reducer.ts\<close>, the phases for events
  (\<open>phases/messageToEventConversion.ts\<close>, \<open>phases/modeSwitchEvents.ts\<close>, \<open>messageToEvent.ts\<close>) and the order
  of the tracer and all phases.
\<close>

section \<open>Messages that become events\<close>

definition limit_prefix :: string where
  "limit_prefix = ''Claude AI usage limit reached|''"

definition limit_reached :: "string \<Rightarrow> int option" where
  "limit_reached body =
     (let digits = drop (length limit_prefix) body
      in if starts_with body limit_prefix \<and> digits \<noteq> [] \<and> list_all is_digit digits then Some (digits_value digits) else None)"

definition parseMessageAsEvent :: "traced_message \<Rightarrow> agent_event option" where
  "parseMessageAsEvent msg =
     first_some (map (\<lambda>ic. case snd ic of TextContent body \<Rightarrow> map_option LimitReached (limit_reached body) | _ \<Rightarrow> None)
       (agent_content msg))"

definition reset_usage :: "rat \<Rightarrow> reducer_state \<Rightarrow> reducer_state" where
  "reset_usage timestamp st =
     st\<lparr>latestUsage := Some \<lparr>usedInput = 0, usedOutput = 0, usedCacheCreation = 0, usedCacheRead = 0, usedContext = 0,
       usedWindow = (case latestUsage st of None \<Rightarrow> None | Some u \<Rightarrow> usedWindow u), usedAt = timestamp\<rparr>\<rparr>"

text \<open>A reset of the context empties the todos and the usage; a compaction only the usage.\<close>

definition context_event :: "traced_message \<Rightarrow> reducer_state \<Rightarrow> reducer_state" where
  "context_event msg st =
     (case tracedPayload msg of
        FromEvent e \<Rightarrow>
          (let st1 = (if e = TextEvent ''Context was reset''
                      then reset_usage (tracedCreatedAt msg) (st\<lparr>latestTodos := Some (JArr [], tracedCreatedAt msg)\<rparr>) else st)
           in if e = TextEvent ''Compaction completed'' \<or> e = CompactionEvent ''completed''
              then reset_usage (tracedCreatedAt msg) st1 else st1)
      | _ \<Rightarrow> st)"

record conversion =
  convState :: reducer_state
  messagesToProcess :: "traced_message list"
  convertedEvents :: "(traced_message \<times> agent_event) list"
  latestReadyEventSeq :: "int option"
  readyAt :: "rat option"

definition max_some :: "'a::linorder option \<Rightarrow> 'a \<Rightarrow> 'a option" where
  "max_some a b = (case a of None \<Rightarrow> Some b | Some x \<Rightarrow> Some (max x b))"

definition seen :: "traced_message \<Rightarrow> reducer_state \<Rightarrow> bool" where
  "seen msg st \<longleftrightarrow>
     (case tracedPayload msg of FromUser _ \<Rightarrow> \<not> falsy_str (tracedLocalId msg) \<and> map_of (localIds st) (the (tracedLocalId msg)) \<noteq> None
      | _ \<Rightarrow> False)
     \<or> map_of (messageIds st) (tracedId msg) \<noteq> None"

definition mark_processed :: "traced_message \<Rightarrow> reducer_state \<Rightarrow> reducer_state" where
  "mark_processed msg st = st\<lparr>messageIds := AList.update (tracedId msg) (tracedId msg) (messageIds st)\<rparr>"

definition convert_step :: "conversion \<Rightarrow> traced_message \<Rightarrow> conversion" where
  "convert_step c msg =
     (if seen msg (convState c) then c
      else if tracedPayload msg = FromEvent ReadyEvent then
        c\<lparr>convState := mark_processed msg (convState c),
          latestReadyEventSeq := (case normalizeTranscriptSeq (tracedSeq msg) of None \<Rightarrow> latestReadyEventSeq c
                                  | Some s \<Rightarrow> max_some (latestReadyEventSeq c) s),
          readyAt := max_some (readyAt c) (tracedCreatedAt msg)\<rparr>
      else let c1 = c\<lparr>convState := context_event msg (convState c)\<rparr>
           in case parseMessageAsEvent msg of
                Some e \<Rightarrow> c1\<lparr>convertedEvents := convertedEvents c1 @ [(msg, e)], convState := mark_processed msg (convState c1)\<rparr>
              | None \<Rightarrow> c1\<lparr>messagesToProcess := messagesToProcess c1 @ [msg]\<rparr>)"

definition add_event_message :: "(nat \<Rightarrow> string) \<Rightarrow> reducer_state \<Rightarrow> traced_message \<times> agent_event \<Rightarrow> reducer_state" where
  "add_event_message alloc st me =
     (let (msg, event) = me; mid = alloc (allocated st)
      in mark_changed mid ((put_message mid
           \<lparr>messageId = mid, realId = Some (tracedId msg), messageSeq = normalizeTranscriptSeq (tracedSeq msg), blockIndex = None,
            messageLocalId = tracedLocalId msg, messageCreatedAt = tracedCreatedAt msg, messageRole = AgentRole,
            messageBody = None, messageThinking = False, messageEvent = Some event, messageTool = None,
            messageMeta = tracedMeta msg\<rparr> (st\<lparr>allocated := Suc (allocated st)\<rparr>))\<lparr>thinkingMergeCursor := None\<rparr>))"

definition runMessageToEventConversion :: "(nat \<Rightarrow> string) \<Rightarrow> traced_message list \<Rightarrow> reducer_state \<Rightarrow> conversion" where
  "runMessageToEventConversion alloc msgs st =
     (let c = foldl convert_step \<lparr>convState = st, messagesToProcess = [], convertedEvents = [], latestReadyEventSeq = None,
                                  readyAt = None\<rparr> msgs
      in c\<lparr>convState := foldl (add_event_message alloc) (convState c) (convertedEvents c)\<rparr>)"

definition incoming_tool_ids :: "traced_message list \<Rightarrow> string list" where
  "incoming_tool_ids msgs = oset_of (concat (map (\<lambda>m. calls_of (agent_content m)) msgs))"

section \<open>Events that are shown, and the end of a turn\<close>

definition TERMINAL_TASK_LIFECYCLE_EVENTS :: "string set" where
  "TERMINAL_TASK_LIFECYCLE_EVENTS = {''task_complete'', ''turn_aborted'', ''turn_cancelled'', ''turn_failed''}"

definition event_step :: "(nat \<Rightarrow> string) \<Rightarrow> reducer_state \<Rightarrow> traced_message \<Rightarrow> reducer_state" where
  "event_step alloc st msg =
     (case tracedPayload msg of
        FromEvent e \<Rightarrow>
          if map_of (messageIds st) (tracedId msg) \<noteq> None then st
          else let st1 = mark_processed msg st
               in (case e of
                     LifecycleEvent l \<Rightarrow>
                       if l \<in> TERMINAL_TASK_LIFECYCLE_EVENTS then markRunningToolsUnavailable (Fin (tracedCreatedAt msg)) st1 else st1
                   | _ \<Rightarrow> add_event_message alloc st1 (msg, e))
      | _ \<Rightarrow> st)"

definition runModeSwitchEventsPhase :: "(nat \<Rightarrow> string) \<Rightarrow> traced_message list \<Rightarrow> reducer_state \<Rightarrow> reducer_state" where
  "runModeSwitchEventsPhase alloc msgs st = foldl (event_step alloc) st msgs"

section \<open>A call of the reducer\<close>

text \<open>The last message of the main transcript, by number where there is one; children are no such messages.\<close>

definition replaces_last :: "reducer_message \<Rightarrow> reducer_message \<Rightarrow> bool" where
  "replaces_last prev nxt =
     (case (messageSeq prev, messageSeq nxt) of
        (Some p, Some n) \<Rightarrow> if p < n then True else if n < p then False else messageCreatedAt prev \<le> messageCreatedAt nxt
      | (None, Some _) \<Rightarrow> True
      | (Some _, None) \<Rightarrow> False
      | (None, None) \<Rightarrow> messageCreatedAt prev \<le> messageCreatedAt nxt)"

definition lastMainMessage :: "reducer_state \<Rightarrow> (string \<times> reducer_message) option" where
  "lastMainMessage st =
     foldl (\<lambda>last im. case last of None \<Rightarrow> Some im | Some p \<Rightarrow> if replaces_last (snd p) (snd im) then Some im else last)
       None (filter (\<lambda>im. fst im \<notin> set (children st)) (messages st))"

definition lastMainThinkingMessageId :: "reducer_state \<Rightarrow> string option" where
  "lastMainThinkingMessageId st =
     (case (case thinkingMergeCursor st of None \<Rightarrow> None | Some i \<Rightarrow> map_of (messages st) i) of
        Some m \<Rightarrow> if is_agent_text True m then thinkingMergeCursor st
                  else (case lastMainMessage st of Some im \<Rightarrow> if is_agent_text True (snd im) then Some (fst im) else None | None \<Rightarrow> None)
      | None \<Rightarrow> (case lastMainMessage st of Some im \<Rightarrow> if is_agent_text True (snd im) then Some (fst im) else None | None \<Rightarrow> None))"

text \<open>A call: the clock, the agent state and the batch.\<close>

type_synonym reducer_input = "rat \<times> agent_state option \<times> traced_message list"

definition reduce_messages :: "(nat \<Rightarrow> string) \<Rightarrow> (string \<Rightarrow> string \<Rightarrow> rat) \<Rightarrow> reducer_state \<Rightarrow> reducer_input \<Rightarrow> reducer_state" where
  "reduce_messages alloc lc st call =
     (case call of (now, agentState, batch) \<Rightarrow>
        let ordered = orderedIncomingMessages tracedId tracedSeq (\<lambda>m. Some (Fin (tracedCreatedAt m))) batch;
            (traced, tracer) = traceMessages now ordered (tracerState st);
            sidechainMessages = filter (\<lambda>m. \<not> falsy_str (tracedSidechainId m)) traced;
            conversion = runMessageToEventConversion alloc (filter is_main traced) (st\<lparr>changed := [], tracerState := tracer\<rparr>);
            msgs = messagesToProcess conversion;
            st1 = runAgentStatePermissionsPhase alloc lc now agentState (incoming_tool_ids msgs) (convState conversion);
            st2 = runUserAndTextPhase alloc lc (lastMainThinkingMessageId st) msgs st1;
            st3 = runToolResultsPhase now msgs (runToolCallsPhase alloc lc msgs st2);
            st4 = runModeSwitchEventsPhase alloc msgs (fst (runSidechainsPhase alloc sidechainMessages st3))
        in case readyAt conversion of None \<Rightarrow> st4 | Some t \<Rightarrow> markRunningToolsUnavailable (Fin t) st4)"

definition createReducer :: reducer_state where
  "createReducer = \<lparr>toolIdToMessageId = [], permissions = [], orphanToolResults = [], localIds = [], messageIds = [], messages = [],
     sidechains = [], sidechainToolIdToMessageId = [], sidechainThinkingMergeCursors = [], tracerState = createTracer, latestTodos = None, latestUsage = None, streamMergeCursor = None, thinkingMergeCursor = None,
     thinkingSegments = [], allocated = 0, changed = []\<rparr>"

section \<open>The invariant of a call\<close>

lemma frames_ok:
  assumes "sound alloc st"
  shows "sound alloc (st\<lparr>changed := c, tracerState := ts\<rparr>) \<and> keeps st (st\<lparr>changed := c, tracerState := ts\<rparr>)"
    and "sound alloc (mark_processed msg st) \<and> keeps st (mark_processed msg st)"
    and "sound alloc (context_event msg st) \<and> keeps st (context_event msg st)"
proof -
  have frame: "sound alloc st' \<and> keeps st st'"
    if "toolIdToMessageId st' = toolIdToMessageId st" "permissions st' = permissions st" "orphanToolResults st' = orphanToolResults st"
      "allocated st' = allocated st" "localIds st' = localIds st" "messages st' = messages st" "side st' = side st" for st'
    using state_ok_frame [of alloc st st'] that assms by (simp add: sound_def)
  show "sound alloc (st\<lparr>changed := c, tracerState := ts\<rparr>) \<and> keeps st (st\<lparr>changed := c, tracerState := ts\<rparr>)" by (rule frame) simp_all
  show "sound alloc (mark_processed msg st) \<and> keeps st (mark_processed msg st)" by (rule frame) (simp_all add: mark_processed_def)
  show "sound alloc (context_event msg st) \<and> keeps st (context_event msg st)"
    by (rule frame) (simp_all add: context_event_def reset_usage_def Let_def split: traced_payload.splits)
qed

lemma convert_step_ok:
  assumes "sound alloc (convState c)"
  shows "sound alloc (convState (convert_step c msg)) \<and> keeps (convState c) (convState (convert_step c msg))"
proof -
  have "sound alloc (mark_processed msg (context_event msg (convState c)))
      \<and> keeps (convState c) (mark_processed msg (context_event msg (convState c)))"
    using frames_ok(3) [OF assms] frames_ok(2) keeps_trans by blast
  then show ?thesis
    using assms frames_ok [OF assms] by (auto simp: convert_step_def Let_def keeps_refl split: option.splits)
qed

lemma add_event_ok:
  assumes "sound alloc st"
  shows "sound alloc (add_event_message alloc st me) \<and> keeps st (add_event_message alloc st me)"
proof -
  obtain msg e where me: "me = (msg, e)" by (cases me)
  let ?m = "\<lparr>messageId = alloc (allocated st), realId = Some (tracedId msg), messageSeq = normalizeTranscriptSeq (tracedSeq msg),
      blockIndex = None, messageLocalId = tracedLocalId msg, messageCreatedAt = tracedCreatedAt msg, messageRole = AgentRole,
      messageBody = None, messageThinking = False, messageEvent = Some e, messageTool = None, messageMeta = tracedMeta msg\<rparr>"
  have "state_ok alloc (add_event_message alloc st me) \<and> keeps st (add_event_message alloc st me)"
    by (rule state_ok_add [where i = "alloc (allocated st)" and m = ?m])
       (use assms in \<open>simp_all add: sound_def me add_event_message_def Let_def tool_frame\<close>)
  with assms show ?thesis by (simp add: sound_def)
qed

interpretation converting: keeping convert_step "\<lambda>c. sound alloc (convState c)" "\<lambda>a b. keeps (convState a) (convState b)" for alloc
  using convert_step_ok by unfold_locales (auto intro: keeps_refl keeps_trans)

interpretation adding_events: keeping "add_event_message alloc" "sound alloc" keeps for alloc
  using add_event_ok by unfold_locales (auto intro: keeps_refl keeps_trans)

lemma event_step_ok:
  assumes "sound alloc st"
  shows "sound alloc (event_step alloc st msg) \<and> keeps st (event_step alloc st msg)"
proof -
  let ?st1 = "mark_processed msg st"
  have st1: "sound alloc ?st1 \<and> keeps st ?st1" by (rule frames_ok(2) [OF assms])
  then have "sound alloc (markRunningToolsUnavailable t ?st1) \<and> keeps st (markRunningToolsUnavailable t ?st1)"
    "sound alloc (add_event_message alloc ?st1 me) \<and> keeps st (add_event_message alloc ?st1 me)" for t me
    using mark_ok add_event_ok keeps_trans by blast+
  then show ?thesis
    using st1 assms by (auto simp: event_step_def Let_def keeps_refl split: traced_payload.splits agent_event.splits)
qed

interpretation event_steps: keeping "event_step alloc" "sound alloc" keeps for alloc
  using event_step_ok by unfold_locales (auto intro: keeps_refl keeps_trans)

lemma conversion_ok:
  assumes "sound alloc st"
  shows "sound alloc (convState (runMessageToEventConversion alloc msgs st))
    \<and> keeps st (convState (runMessageToEventConversion alloc msgs st))"
proof -
  define c where "c = foldl convert_step \<lparr>convState = st, messagesToProcess = [], convertedEvents = [], latestReadyEventSeq = None,
      readyAt = None\<rparr> msgs"
  have "sound alloc (convState c) \<and> keeps st (convState c)"
    using converting.run_keeps [of alloc "\<lparr>convState = st, messagesToProcess = [], convertedEvents = [], latestReadyEventSeq = None,
      readyAt = None\<rparr>" msgs] assms by (simp add: c_def)
  then have "sound alloc (foldl (add_event_message alloc) (convState c) (convertedEvents c))
      \<and> keeps st (foldl (add_event_message alloc) (convState c) (convertedEvents c))"
    using adding_events.run_keeps keeps_trans by blast
  then show ?thesis by (simp add: runMessageToEventConversion_def Let_def c_def [symmetric])
qed

lemma keeps_then:
  "sound alloc a \<and> keeps s a \<Longrightarrow> (sound alloc a \<Longrightarrow> sound alloc b \<and> keeps a b) \<Longrightarrow> sound alloc b \<and> keeps s b"
  using keeps_trans by blast

lemma reduce_ok:
  assumes "sound alloc st"
  shows "sound alloc (reduce_messages alloc lc st call) \<and> keeps st (reduce_messages alloc lc st call)"
proof -
  obtain now agent batch where call: "call = (now, agent, batch)" by (cases call)
  define traced tracer where "traced = fst (traceMessages now
        (orderedIncomingMessages tracedId tracedSeq (\<lambda>m. Some (Fin (tracedCreatedAt m))) batch) (tracerState st))"
    and "tracer = snd (traceMessages now
        (orderedIncomingMessages tracedId tracedSeq (\<lambda>m. Some (Fin (tracedCreatedAt m))) batch) (tracerState st))"
  define c where "c = runMessageToEventConversion alloc (filter is_main traced) (st\<lparr>changed := [], tracerState := tracer\<rparr>)"
  define ms where "ms = messagesToProcess c"
  define st1 where "st1 = runAgentStatePermissionsPhase alloc lc now agent (incoming_tool_ids ms) (convState c)"
  define st2 where "st2 = runUserAndTextPhase alloc lc (lastMainThinkingMessageId st) ms st1"
  define st3 where "st3 = runToolResultsPhase now ms (runToolCallsPhase alloc lc ms st2)"
  define side where "side = fst (runSidechainsPhase alloc (filter (\<lambda>m. \<not> falsy_str (tracedSidechainId m)) traced) st3)"
  define st4 where "st4 = runModeSwitchEventsPhase alloc ms side"
  have "sound alloc (convState c) \<and> keeps st (convState c)"
    unfolding c_def using frames_ok(1) [OF assms] by (rule keeps_then) (rule conversion_ok)
  then have "sound alloc st1 \<and> keeps st st1" unfolding st1_def by (rule keeps_then) (rule permissions_phase_ok)
  then have "sound alloc st2 \<and> keeps st st2" unfolding st2_def by (rule keeps_then) (rule text_phase_ok)
  then have "sound alloc (runToolCallsPhase alloc lc ms st2) \<and> keeps st (runToolCallsPhase alloc lc ms st2)"
    by (rule keeps_then) (rule calls_phase_ok)
  then have "sound alloc st3 \<and> keeps st st3" unfolding st3_def by (rule keeps_then) (rule results_phase_ok)
  then have "sound alloc side \<and> keeps st side"
    unfolding side_def by (rule keeps_then) (use sidechains_phase_ok in \<open>simp add: quiet_def\<close>)
  then have st4: "sound alloc st4 \<and> keeps st st4"
    unfolding st4_def runModeSwitchEventsPhase_def by (rule keeps_then) (rule event_steps.run_keeps)
  then have "sound alloc (markRunningToolsUnavailable t st4) \<and> keeps st (markRunningToolsUnavailable t st4)" for t
    by (rule keeps_then) (rule mark_ok)
  with st4 show ?thesis
    by (simp add: reduce_messages_def call Let_def case_prod_beta traced_def [symmetric] tracer_def [symmetric] c_def [symmetric] side_def [symmetric] ms_def [symmetric] st1_def [symmetric] st2_def [symmetric]
        st3_def [symmetric] st4_def [symmetric] split: option.splits)
qed

interpretation reducer_calls: keeping "reduce_messages alloc lc" "sound alloc" keeps for alloc lc
  using reduce_ok by unfold_locales (auto intro: keeps_refl keeps_trans)

lemma createReducer_sound: "id_supply alloc \<Longrightarrow> sound alloc createReducer"
  using idle_state_ok by (simp add: sound_def createReducer_def idle_state_def)

text \<open>C5: After any calls of a new reducer, whatever messages and agent states they were given, every tool
  id that is known leads to a message showing the tool with this id, every permission still pending has
  such a message, no result waits for a call that is there, messages carry the id they are filed under
  and show a tool or a text, and the buffer of waiting results is within its bounds.\<close>

theorem tool_index_is_consistent:
  fixes lc :: "string \<Rightarrow> string \<Rightarrow> rat" and calls :: "reducer_input list"
  assumes "id_supply alloc"
  defines "st \<equiv> foldl (reduce_messages alloc lc) createReducer calls"
  shows "(\<forall>k. case map_of (toolIdToMessageId st) k of
             None \<Rightarrow> \<not> (case map_of (permissions st) k of None \<Rightarrow> False | Some p \<Rightarrow> storedStatus p = Pending)
           | Some i \<Rightarrow> map_option tool_id_of (map_of (messages st) i) = Some (Some k) \<and> map_of (orphanToolResults st) k = None)
    \<and> (\<forall>i. case map_of (messages st) i of
             None \<Rightarrow> True | Some m \<Rightarrow> messageId m = i \<and> (messageTool m = None \<or> messageBody m = None))
    \<and> orphans_ok (orphanToolResults st)"
proof -
  have ok: "state_ok alloc st"
    using reducer_calls.run_keeps [OF createReducer_sound [OF assms(1)]] by (simp add: st_def sound_def)
  show ?thesis
  proof (intro conjI allI)
    fix k
    show "case map_of (toolIdToMessageId st) k of
             None \<Rightarrow> \<not> (case map_of (permissions st) k of None \<Rightarrow> False | Some p \<Rightarrow> storedStatus p = Pending)
           | Some i \<Rightarrow> map_option tool_id_of (map_of (messages st) i) = Some (Some k) \<and> map_of (orphanToolResults st) k = None"
      using ok by (fastforce simp: state_ok_def tools_ok_def pending_ok_def waiting_ok_def split: option.splits)
  next
    fix i
    show "case map_of (messages st) i of
        None \<Rightarrow> True | Some m \<Rightarrow> messageId m = i \<and> (messageTool m = None \<or> messageBody m = None)"
      using ok by (auto simp: state_ok_def ids_ok_def texts_ok_def split: option.splits)
  qed (use ok in \<open>simp add: state_ok_def\<close>)
qed

text \<open>C6: A message a reducer call shows keeps its identity in every later call: whatever messages and
  agent states follow, it stays, with its id, local id, role and time, its tool keeps its creation time;
  once it has a block in the transcript the block never changes, and its number never goes back and
  is final for a tool.\<close>

theorem creation_data_is_kept:
  assumes "id_supply alloc"
    and "map_of (messages (foldl (reduce_messages alloc lc) createReducer calls)) i = Some m"
  shows "\<exists>m'. map_of (messages (foldl (reduce_messages alloc lc) createReducer (calls @ later))) i = Some m'
    \<and> messageId m' = i \<and> messageLocalId m' = messageLocalId m \<and> messageCreatedAt m' = messageCreatedAt m
    \<and> messageRole m' = messageRole m
    \<and> map_option toolCreatedAt (messageTool m') = map_option toolCreatedAt (messageTool m)
    \<and> blockIndex m' = (if blockIndex m = None then blockIndex m' else blockIndex m)
    \<and> seq_grows (messageSeq m) (messageSeq m')
    \<and> messageSeq m' = (if messageTool m = None \<or> messageSeq m = None then messageSeq m' else messageSeq m)"
proof -
  let ?st = "foldl (reduce_messages alloc lc) createReducer calls"
  have sound: "sound alloc ?st" using reducer_calls.run_keeps [OF createReducer_sound [OF assms(1)]] by blast
  then have "messageId m = i" using assms(2) by (simp add: sound_def state_ok_def ids_ok_def)
  moreover obtain m' where "map_of (messages (foldl (reduce_messages alloc lc) ?st later)) i = Some m'" "same_creation m m'"
    using reducer_calls.run_keeps [OF sound, of lc later] assms(2) unfolding keeps_def by blast
  ultimately show ?thesis by (auto simp: same_creation_def same_tool_def)
qed

section \<open>Results that come before their call\<close>

text \<open>What a result makes of a running call commutes with an update of the call.\<close>

definition result_tool :: "tool_result_update \<Rightarrow> rat \<Rightarrow> tool_call \<Rightarrow> tool_call" where
  "result_tool upd at_time tool =
     (case coerceStreamingToolResultChunk (resultContent upd) of
        Some chunk \<Rightarrow> tool\<lparr>toolResult := mergeStreamingChunkIntoResult (toolResult tool) chunk\<rparr>
      | None \<Rightarrow> finish_tool upd at_time tool)"

lemma result_of_running: "toolState tool = Running \<Longrightarrow> apply_result_to_tool upd t tool = Some (result_tool upd t tool)"
  by (simp add: apply_result_to_tool_def accepts_result_def result_tool_def reopen_def isApprovedPlaceholder_def
      isLegacyRequestInterruptedPlaceholder_def Let_def split: option.splits)

lemma result_rename: "result_tool upd t (rename_tool cid name d tool) = rename_tool cid name d (result_tool upd t tool)"
  by (simp add: result_tool_def rename_tool_def finish_tool_def split: option.splits)

lemma result_take_input: "result_tool upd t (take_input name input tool) = take_input name input (result_tool upd t tool)"
  by (simp add: result_tool_def take_input_def finish_tool_def Let_def split: option.splits)

lemma result_start:
  assumes "resultToolId upd = cid"
  shows "result_tool upd t (start_tool created cid tool) = start_tool created cid (result_tool upd t tool)"
proof -
  have "result_permission upd (Some (new_permission cid Pending)) = (case result_permission upd None of
      None \<Rightarrow> Some (new_permission cid Pending) | Some p \<Rightarrow> Some p)"
    using assms by (simp add: result_permission_def Let_def split: option.splits)
  moreover have [simp]: "(result_permission upd (Some p) = None) = False" for p
    by (simp add: result_permission_def Let_def split: option.splits)
  ultimately have asked: "result_permission upd (Some (new_permission cid Pending)) = Some (some_or (new_permission cid Pending) (result_permission upd None))"
    by (cases "result_permission upd None") simp_all
  show ?thesis
  proof (cases "coerceStreamingToolResultChunk (resultContent upd)")
    case None
    show ?thesis
    proof (cases "toolPermission tool")
      case (Some p)
      then obtain q where "result_permission upd (Some p) = Some q" by (cases "result_permission upd (Some p)") auto
      then show ?thesis using None Some by (simp add: result_tool_def start_tool_def finish_tool_def)
    next
      case free: None
      then show ?thesis
        using None asked by (cases "result_permission upd None") (simp_all add: result_tool_def start_tool_def finish_tool_def)
    qed
  qed (simp add: result_tool_def start_tool_def)
qed

lemma start_state [simp]:
  "toolState (start_tool c cid tool) = toolState tool" "toolState (take_input n i tool) = toolState tool"
  "toolState (rename_tool cid n d tool) = toolState tool"
  by (simp_all add: start_tool_def take_input_def rename_tool_def Let_def)

lemma update_commutes:
  assumes "toolState tool = Running" and "resultToolId upd = cid"
    and "restart_approved (result_tool upd t (start_tool created cid (take_input name input (rename_tool cid name d tool))))
       = result_tool upd t (start_tool created cid (take_input name input (rename_tool cid name d tool)))"
  shows "result_tool upd t (update_tool created cid name input d tool) = update_tool created cid name input d (result_tool upd t tool)"
proof -
  have "update_tool created cid name input d tool = start_tool created cid (take_input name input (rename_tool cid name d tool))"
    using assms(1) by (simp add: update_tool_def restart_approved_def)
  then show ?thesis
    using assms(2,3) unfolding update_tool_def [of created cid name input d "result_tool upd t tool"]
    by (simp add: result_start result_take_input result_rename)
qed

text \<open>A result that approves nothing leaves a call without an approved permission.\<close>

lemma result_not_approved:
  assumes "\<not> approved_tool tool" and "case resultPermissions upd of None \<Rightarrow> True | Some rp \<Rightarrow> \<not> rpApproved rp"
  shows "\<not> approved_tool (result_tool upd t tool)"
  using assms by (auto simp: approved_tool_def result_tool_def finish_tool_def result_permission_def Let_def split: option.splits)

lemma start_not_approved: "\<not> approved_tool tool \<Longrightarrow> \<not> approved_tool (start_tool c cid (take_input n i (rename_tool cid n d tool)))"
  by (auto simp: approved_tool_def start_tool_def take_input_def rename_tool_def new_permission_def Let_def split: option.splits)

text \<open>The message of a call after an update.\<close>

definition updated_message ::
  "traced_message \<Rightarrow> nat \<Rightarrow> string \<Rightarrow> string \<Rightarrow> jsval \<Rightarrow> string option \<Rightarrow> reducer_message \<Rightarrow> reducer_message" where
  "updated_message msg ci cid name input description m =
     (case messageTool m of None \<Rightarrow> m
      | Some tool \<Rightarrow> m\<lparr>realId := Some (tracedId msg),
          messageSeq := (case messageSeq m of None \<Rightarrow> normalizeTranscriptSeq (tracedSeq msg) | Some s \<Rightarrow> Some s),
          blockIndex := (case blockIndex m of None \<Rightarrow> Some (transcriptBlockIndexFromContentIndex ci) | Some b \<Rightarrow> Some b),
          messageTool := Some (update_tool (tracedCreatedAt msg) cid name input description tool)\<rparr>)"

lemma update_message_messages:
  "map_of (messages (update_tool_message msg ci mid cid name input description st))
     = (map_of (messages st))(mid := map_option (updated_message msg ci cid name input description) (map_of (messages st) mid))"
  by (auto simp: update_tool_message_def updated_message_def Let_def tool_frame fun_eq_iff split: option.splits)

lemma update_tool_message_tools:
  "toolIdToMessageId (update_tool_message msg ci mid cid name input description st) = toolIdToMessageId st"
  by (simp add: update_tool_message_def Let_def tool_frame put_message_def mark_changed_def track_todos_def split: option.splits)

lemma message_commutes:
  assumes "messageTool m = Some tool" and "toolState tool = Running" and "\<not> approved_tool tool"
    and "case resultPermissions upd of None \<Rightarrow> True | Some rp \<Rightarrow> \<not> rpApproved rp" and "resultToolId upd = cid"
  shows "updated_message msg ci cid name input d (result_message upd t meta m)
    = result_message upd t meta (updated_message msg ci cid name input d m)"
proof -
  have "result_tool upd t (update_tool (tracedCreatedAt msg) cid name input d tool)
      = update_tool (tracedCreatedAt msg) cid name input d (result_tool upd t tool)"
    using update_commutes [OF assms(2,5)] result_not_approved [OF start_not_approved [OF assms(3)] assms(4)]
    by (simp add: restart_approved_def)
  moreover have "toolState (update_tool (tracedCreatedAt msg) cid name input d tool) = Running"
    using assms(2) by (simp add: update_tool_def restart_approved_def)
  ultimately show ?thesis
    using assms(1,2) by (simp add: updated_message_def result_message_def result_of_running merge_meta_def split: option.splits)
qed

lemma materialize_messages:
  "map_of (messages (materialize_tool alloc lc msg ci cid name input description st)) =
     (map_of (messages st))(alloc (allocated st) \<mapsto>
        buffered_message (some_or [] (snd (drainOrphanToolResults lc cid (orphanToolResults st))))
          (new_tool_message (alloc (allocated st)) msg ci
             (early_tool (tracedCreatedAt msg) cid name input description (map_of (permissions st) cid))))"
  by (simp add: materialize_tool_def Let_def drain_alt tool_frame)

text \<open>The text phase on a message that is a single unknown call.\<close>

lemma text_phase_single:
  assumes "tracedPayload call = FromAgent [ToolCallContent cid name input description]"
    and "map_of (toolIdToMessageId st) cid = None"
  shows "map_of (messages (runUserAndTextPhase alloc lc t [call] st)) = (map_of (messages st))(alloc (allocated st) \<mapsto>
      buffered_message (some_or [] (snd (drainOrphanToolResults lc cid (orphanToolResults st))))
        (new_tool_message (alloc (allocated st)) call 0
           (early_tool (tracedCreatedAt call) cid name input description (map_of (permissions st) cid))))"
    and "toolIdToMessageId (runUserAndTextPhase alloc lc t [call] st)
      = AList.update cid (alloc (allocated st)) (toolIdToMessageId st)"
    and "orphanToolResults (runUserAndTextPhase alloc lc t [call] st) = AList.delete cid (orphanToolResults st)"
proof -
  have usage: "toolIdToMessageId (processUsageData u d s) = toolIdToMessageId s" "messages (processUsageData u d s) = messages s"
    "permissions (processUsageData u d s) = permissions s" "orphanToolResults (processUsageData u d s) = orphanToolResults s"
    "allocated (processUsageData u d s) = allocated s" for u d s
    by (simp_all add: processUsageData_def Let_def)
  define r where "r = clearAllCursors (close_run (ToolCallContent cid name input description)
      ((case tracedUsage call of None \<Rightarrow> \<lparr>runState = st, lastThinking = t, thinkingRunIndex = 0, isThinkingRunOpen = False\<rparr>
        | Some u \<Rightarrow> on_state (processUsageData u (tracedCreatedAt call))
            \<lparr>runState = st, lastThinking = t, thinkingRunIndex = 0, isThinkingRunOpen = False\<rparr>)
       \<lparr>thinkingRunIndex := 0, isThinkingRunOpen := False\<rparr>))"
  have r: "toolIdToMessageId (runState r) = toolIdToMessageId st" "messages (runState r) = messages st"
    "permissions (runState r) = permissions st" "orphanToolResults (runState r) = orphanToolResults st"
    "allocated (runState r) = allocated st"
    by (simp_all add: r_def clearAllCursors_def setStreamCursor_def setThinkingCursor_def on_state_def close_run_def usage
        split: option.splits)
  have "runUserAndTextPhase alloc lc t [call] st = materialize_tool alloc lc call 0 cid name input description (runState r)"
    using r(1) assms by (simp add: runUserAndTextPhase_def message_step_def agent_content_def content_step_def tool_content_def
        r_def [symmetric] Let_def on_state_def)
  then show "map_of (messages (runUserAndTextPhase alloc lc t [call] st)) = (map_of (messages st))(alloc (allocated st) \<mapsto>
      buffered_message (some_or [] (snd (drainOrphanToolResults lc cid (orphanToolResults st))))
        (new_tool_message (alloc (allocated st)) call 0
           (early_tool (tracedCreatedAt call) cid name input description (map_of (permissions st) cid))))"
    "toolIdToMessageId (runUserAndTextPhase alloc lc t [call] st)
      = AList.update cid (alloc (allocated st)) (toolIdToMessageId st)"
    "orphanToolResults (runUserAndTextPhase alloc lc t [call] st) = AList.delete cid (orphanToolResults st)"
    by (simp_all add: materialize_messages materialize_tools r, simp add: materialize_tool_def Let_def drain_alt tool_frame r)
qed

text \<open>C26: A result may come before its call. For a call that is not known, has no stored permission and nothing
  buffered, while the buffer is well formed and holds fewer than a thousand results, and a result that
  carries no approval, each alone in its message: processing the result first and the call later, through the
  phases in their order, leaves the same messages as processing the call first.\<close>

theorem early_result_completes_its_call:
  assumes "map_of (toolIdToMessageId st) cid = None" and "map_of (orphanToolResults st) cid = None"
    and "map_of (permissions st) cid = None"
    and "orphans_ok (orphanToolResults st)" and "buffered_total (orphanToolResults st) < 1000"
    and "alloc (allocated st) \<noteq> []"
    and "tracedPayload call = FromAgent [ToolCallContent cid name input description]"
    and "tracedPayload result = FromAgent [ToolResultContent upd]" and "resultToolId upd = cid"
    and "case resultPermissions upd of None \<Rightarrow> True | Some rp \<Rightarrow> \<not> rpApproved rp"
  shows "map_of (messages (runToolCallsPhase alloc lc [call] (runUserAndTextPhase alloc lc t [call] (runToolResultsPhase now [result] st))))
       = map_of (messages (runToolResultsPhase now [result] (runToolCallsPhase alloc lc [call] (runUserAndTextPhase alloc lc t [call] st))))"
proof -
  let ?i = "alloc (allocated st)"
  let ?r = "\<lparr>bufferKey = tracedId result @ '':'' @ string_of_nat 0, bufferedAt = tracedCreatedAt result,
        payload = (tracedMeta result, upd)\<rparr>"
  let ?b = "bufferOrphanToolResult now cid ?r (orphanToolResults st)"
  let ?tool = "early_tool (tracedCreatedAt call) cid name input description None"
  let ?m = "new_tool_message ?i call 0 ?tool"
  let ?upd = "updated_message call 0 cid name input description"
  let ?res = "result_message upd (tracedCreatedAt result) (tracedMeta result)"
  have phases: "runToolCallsPhase alloc lc [call] s = tool_call_content alloc lc call s (0, ToolCallContent cid name input description)"
      "runToolResultsPhase now [result] s = tool_result_content now result s (0, ToolResultContent upd)" for s
    by (simp_all add: runToolCallsPhase_def runToolResultsPhase_def agent_content_def assms(7,8))
  have first: "runToolResultsPhase now [result] st = st\<lparr>orphanToolResults := ?b\<rparr>"
    using assms(1,9) by (simp add: phases tool_result_content_def falsy_str_def Let_def)
  have "fresh_bucket now (orphanToolResults st) cid = []" using assms(2) by (simp add: fresh_bucket_def)
  then have "map_of ?b cid = Some \<lparr>updatedAt = now, bucketResults = [?r]\<rparr>"
    using delivered_bucket [OF assms(4), of now cid ?r] assms(5)
    by (simp add: MAX_TOTAL_ORPHAN_TOOL_RESULTS_def MAX_ORPHAN_TOOL_RESULTS_PER_TOOL_def)
  then have "snd (drainOrphanToolResults lc cid ?b) = Some [?r]" by (simp add: drainOrphanToolResults_def)
  then have late: "map_of (messages (runToolCallsPhase alloc lc [call] (runUserAndTextPhase alloc lc t [call] (runToolResultsPhase now [result] st))))
      = (map_of (messages st))(?i \<mapsto> ?upd (?res ?m))"
    using text_phase_single [OF assms(7), of "st\<lparr>orphanToolResults := ?b\<rparr>" alloc lc t] assms(1,3)
    unfolding first by (simp add: phases tool_call_content_def update_message_messages update_conv' buffered_message_def)
  have "snd (drainOrphanToolResults lc cid (orphanToolResults st)) = None"
    using assms(2) by (simp add: drainOrphanToolResults_def)
  then have early: "map_of (messages (runToolResultsPhase now [result] (runToolCallsPhase alloc lc [call] (runUserAndTextPhase alloc lc t [call] st))))
      = (map_of (messages st))(?i \<mapsto> ?res (?upd ?m))"
    using text_phase_single [OF assms(7), of st alloc lc t] assms(1,3,6,9)
    by (simp add: phases tool_call_content_def tool_result_content_def update_message_messages update_conv' buffered_message_def
        falsy_str_def Let_def tool_frame update_tool_message_tools)
  have "toolState ?tool = Running" "\<not> approved_tool ?tool" "messageTool ?m = Some ?tool"
    by (simp_all add: early_tool_def new_tool_def new_tool_message_def approved_tool_def new_permission_def Let_def)
  then have "?upd (?res ?m) = ?res (?upd ?m)" using message_commutes assms(9,10) by blast
  then show ?thesis by (simp add: late early)
qed

section \<open>Concrete runs\<close>

definition bash_call :: traced_message where
  "bash_call = agent_message ''a'' 1 (ToolCallContent ''t'' ''Bash'' JNull None)"

definition bash_result :: "result_permissions option \<Rightarrow> traced_message" where
  "bash_result p = agent_message ''b'' 3 (ToolResultContent ((result_of ''t'' (JStr ''ok''))\<lparr>resultPermissions := p\<rparr>))"

definition bash_request :: permission_request where
  "bash_request = \<lparr>requestTool = ''Bash'', requestKind = None, requestArguments = JNull, requestCreatedAt = Some 1,
     requestSuggestions = Some 5\<rparr>"

definition approved_bash :: "string nullable \<Rightarrow> completed_request" where
  "approved_bash reason = \<lparr>completedTool = ''Bash'', completedKind = None, completedArguments = JNull,
     completedCreatedAt = Some 1, completedCompletedAt = Some 2, completedOutcome = WasApproved, completedReason = reason,
     completedMode = Undefined, completedAllowedTools = None, completedAllowTools = None,
     completedUpdatedPermissions = JUndef, completedDecision = Undefined\<rparr>"

definition asked :: reducer_input where
  "asked = (1, Some \<lparr>requests = [(''t'', bash_request)], completedRequests = []\<rparr>, [])"

definition approved :: "string nullable \<Rightarrow> reducer_input" where
  "approved reason = (2, Some \<lparr>requests = [], completedRequests = [(''t'', approved_bash reason)]\<rparr>, [])"

definition after_calls :: "reducer_input list \<Rightarrow> reducer_state" where
  "after_calls calls = foldl (reduce_messages numbered_id code_unit_compare) createReducer calls"

definition tool_shown :: "reducer_state \<Rightarrow> (tool_state \<times> jsval) option" where
  "tool_shown st = map_option (\<lambda>t. (toolState t, toolResult t)) (shown_tool st)"

text \<open>The life of a permission request: asked, approved, executed.\<close>

lemma request_life:
  "tool_shown (after_calls [asked]) = Some (Running, JUndef)
   \<and> tool_shown (after_calls [asked, approved Undefined]) = Some (Completed, JStr ''Approved'')
   \<and> tool_shown (after_calls [asked, approved Undefined, (3, None, [bash_call, bash_result (Some approval)])]) = Some (Completed, JStr ''ok'')"
  by code_simp

text \<open>
  A result that carries its approval and comes before its call is lost: the first phase completes the call
  with it, the next one takes the completed call for an approved placeholder and sets it running again.
\<close>

lemma early_approved_result_is_lost:
  "tool_shown (after_calls [(3, None, [bash_call]), (4, None, [bash_result (Some approval)])]) = Some (Completed, JStr ''ok'')
   \<and> tool_shown (after_calls [(3, None, [bash_result (Some approval)]), (4, None, [bash_call])]) = Some (Running, JUndef)
   \<and> tool_shown (after_calls [(3, None, [bash_result None]), (4, None, [bash_call])]) = Some (Completed, JStr ''ok'')"
  by code_simp

text \<open>
  A decision is reported as a change once, but one that arrives with \<open>reason: null\<close> is reported, and the
  message rendered again, at every call: \<open>undefined\<close> is compared with \<open>null\<close>.
\<close>

lemma null_reason_changes_at_every_call:
  "changed (after_calls [asked, approved Undefined, approved Undefined]) = []
   \<and> changed (after_calls [asked, approved Null, approved Null]) = [''m'']
   \<and> messages (after_calls [asked, approved Null, approved Null]) = messages (after_calls [asked, approved Null])"
  by code_simp

text \<open>
  A delta of a sidechain that comes under the id of an earlier one is new to the tracer, as its comment
  promises, but the phase for sidechains takes the id for one it has seen and drops the delta.
\<close>

definition delta :: "string \<Rightarrow> rat \<Rightarrow> string \<Rightarrow> traced_message" where
  "delta i created body = (side_row i created (TextContent body))
     \<lparr>tracedMeta := Some [(''happierSidechainStreamKey'', JStr ''k'')]\<rparr>"

definition chain_texts :: "reducer_state \<Rightarrow> string option list" where
  "chain_texts st = map (\<lambda>i. case map_of (messages st) i of None \<Rightarrow> None | Some m \<Rightarrow> messageBody m) (chain_of st ''t'')"

lemma delta_under_a_seen_id_is_dropped:
  "map (\<lambda>r. tracedPayload r) (fst (traceMessages 1 [delta ''b'' 2 ''one'', delta ''b'' 3 '' two''] createTracer))
     = [FromAgent [TextContent ''one''], FromAgent [TextContent '' two'']]
   \<and> chain_texts (after_calls [(1, None, [delta ''b'' 2 ''one'']), (2, None, [delta ''b'' 3 '' two''])]) = [Some ''one'']
   \<and> chain_texts (after_calls [(1, None, [delta ''b'' 2 ''one'']), (2, None, [delta ''c'' 3 '' two''])]) = [Some ''one two'']"
  by code_simp

theorem early_result_completes_its_call_witness:
  "map_of (messages (runToolCallsPhase numbered_id code_unit_compare [bash_call]
       (runUserAndTextPhase numbered_id code_unit_compare None [bash_call] (runToolResultsPhase 9 [bash_result None] idle_state))))
   = map_of (messages (runToolResultsPhase 9 [bash_result None] (runToolCallsPhase numbered_id code_unit_compare [bash_call]
       (runUserAndTextPhase numbered_id code_unit_compare None [bash_call] idle_state))))"
  by (rule early_result_completes_its_call [where cid = "''t''" and upd = "(result_of ''t'' (JStr ''ok''))\<lparr>resultPermissions := None\<rparr>"])
     (simp_all add: idle_state_def agent_message_def bash_call_def bash_result_def result_of_def numbered_id_def orphans_ok_def buckets_ok_def)

theorem tool_index_is_consistent_witness:
  "case map_of (toolIdToMessageId (after_calls [asked, (3, None, [bash_call])])) ''t'' of
     None \<Rightarrow> False
   | Some i \<Rightarrow> i = ''m'' \<and> map_option tool_id_of (map_of (messages (after_calls [asked, (3, None, [bash_call])])) i) = Some (Some ''t'')"
proof -
  let ?st = "after_calls [asked, (3, None, [bash_call])]"
  have "map_of (toolIdToMessageId ?st) ''t'' = Some ''m''" by code_simp
  moreover have "case map_of (toolIdToMessageId ?st) ''t'' of
      None \<Rightarrow> \<not> (case map_of (permissions ?st) ''t'' of None \<Rightarrow> False | Some p \<Rightarrow> storedStatus p = Pending)
    | Some i \<Rightarrow> map_option tool_id_of (map_of (messages ?st) i) = Some (Some ''t'') \<and> map_of (orphanToolResults ?st) ''t'' = None"
    using tool_index_is_consistent [OF numbered_id_supply, of code_unit_compare "[asked, (3, None, [bash_call])]"]
    unfolding after_calls_def by blast
  ultimately show ?thesis by simp
qed

theorem creation_data_is_kept_witness:
  "map_option (\<lambda>m. map_option toolCreatedAt (messageTool m)) (map_of (messages (after_calls [asked, (3, None, [bash_call])])) ''m'')
     = Some (Some 1)"
proof -
  have "map_option (\<lambda>m. map_option toolCreatedAt (messageTool m)) (map_of (messages (after_calls [asked])) ''m'') = Some (Some 1)"
    by code_simp
  then obtain m where m: "map_of (messages (foldl (reduce_messages numbered_id code_unit_compare) createReducer [asked])) ''m'' = Some m"
      "map_option toolCreatedAt (messageTool m) = Some 1"
    by (auto simp: after_calls_def)
  show ?thesis
    using creation_data_is_kept [OF numbered_id_supply m(1), of "[(3, None, [bash_call])]"] m(2)
    by (auto simp: after_calls_def)
qed

end
