(* ===== verification/Spec2Isabelle.thy ===== *)
theory Spec2Isabelle
  imports
    JsBase
    ManagedConnection
    ConnSupervisor
    EndpointSupervisor
    AuthGroup
    RecoveryPolicy
    ExecutionBudget
    ShellAllowlist
    ResearchRun
    AppPane
    ListSelection
    ChangesPlanner
    DeferredTranscript
    JumpSeq
    BottomFollow
    CursorDetector
    HypothesisTree
    TranscriptSegments
    GitStatus
    GitSnapshot
    ChangeSets
    WorkingTree
    TaskPool
    TranscriptOrder
    SessionIndex
    OrphanResults
    ToolComparison
    ToolLifecycle
    PermissionPhase
    ThinkingText
    TextPhase
    SidechainPhase
    SidechainTracer
    MessageReducer
begin

text \<open>
  Verification library of the DevPilot client: the state machines, reducers and decision procedures
  of its TypeScript code that keep connections, accounts, budgets, permissions, research runs and the
  user interface consistent. Each theory models one component as executable definitions that follow
  the source function by function, and proves what the component promises.

  \<^bold>\<open>Theories and sources.\<close>
  \<^item> \<open>JsBase\<close>: the prelude. JavaScript numbers, strings, dynamic values, sets and objects in insertion
    order, stable sorting by a comparator, and three interfaces as locales: \<open>comparator\<close> (a consistent
    comparison, interpreted by the comparison of code units), \<open>reducer\<close> (a step function that keeps an
    invariant) and \<open>monotone_reducer\<close> (which also never lowers a measure). The reducers of the components
    are interpretations of the last two, and their properties rest on them.
  \<^item> \<open>ManagedConnection\<close>: phases, reasons, policy and backoff of
    \<open>packages/connection-supervisor/src/\<close> (\<open>managedConnectionTypes.ts\<close>, \<open>managedConnectionEvents.ts\<close>,
    \<open>defaultManagedConnectionPolicy.ts\<close>, \<open>reconnectBackoff.ts\<close>).
  \<^item> \<open>ConnSupervisor\<close>: \<open>createManagedConnectionSupervisor.ts\<close>. The closure is a record, each public
    call, transport callback, timer and resumed \<open>await\<close> one event of a step function, so that every
    interleaving of probes, callbacks and calls is a list of events.
  \<^item> \<open>EndpointSupervisor\<close>: \<open>createManagedEndpointSupervisor.ts\<close>, with waiters and their timeouts; it
    refines an inductive graph of phases.
  \<^item> \<open>AuthGroup\<close>: \<open>selectConnectedServiceAuthGroupCandidate.ts\<close> of \<open>apps/cli/src/daemon/connectedServices/\<close>,
    the choice of an account and the reconciliation of its runtime state.
  \<^item> \<open>RecoveryPolicy\<close>: \<open>runtimeAuth/ConnectedServiceRecoveryPolicy.ts\<close> there, the decision after an
    authentication or quota failure.
  \<^item> \<open>ExecutionBudget\<close>: \<open>apps/cli/src/daemon/executionBudget/ExecutionBudgetRegistry.ts\<close>, a registry of
    tokens with two indexes and caps.
  \<^item> \<open>ShellAllowlist\<close>: \<open>apps/cli/src/agent/permissions/shellCommandAllowlist.ts\<close>, which shell commands
    run without asking.
  \<^item> \<open>ResearchRun\<close>: \<open>packages/devpilot-research/src/\<close>, events, their normalisation, the reducer of a run
    and its selectors.
  \<^item> \<open>HypothesisTree\<close>: \<open>selectHypothesisTree\<close> of the same package, on the states the reducer reaches.
  \<^item> \<open>AppPane\<close>: \<open>appPaneReducer.ts\<close> of \<open>apps/ui/sources/components/appShell/panes/model/\<close>: scopes, tabs,
    recently used scopes, focus mode.
  \<^item> \<open>ListSelection\<close>: \<open>apps/ui/sources/components/sessions/shell/selection/\<close>, the multiple selection
    of sessions and its versioned state.
  \<^item> \<open>ChangesPlanner\<close>: \<open>changesPlanner.ts\<close> and the checkpoint of \<open>changesApplier.ts\<close> in
    \<open>apps/ui/sources/sync/runtime/orchestration/\<close>.
  \<^item> \<open>CursorDetector\<close>: \<open>cursorMaterializationDetector.ts\<close> there, which rechecks an advanced cursor.
  \<^item> \<open>DeferredTranscript\<close>: \<open>deferredTranscriptState.ts\<close> of
    \<open>apps/ui/sources/sync/domains/session/realtime/\<close>.
  \<^item> \<open>JumpSeq\<close> and \<open>BottomFollow\<close>: \<open>transcriptJumpSeqIndexResolution.ts\<close> and
    \<open>scroll/transcriptBottomFollowMode.ts\<close> of \<open>apps/ui/sources/components/sessions/transcript/\<close>.
  \<^item> \<open>TranscriptSegments\<close>: \<open>segments/buildTranscriptHotColdSegments.ts\<close> there, the hot and cold rows.

  \<^item> \<open>GitStatus\<close> and \<open>GitSnapshot\<close>: \<open>statusParser.ts\<close>, \<open>worktreeListParser.ts\<close> and
    \<open>statusSnapshot.ts\<close> of \<open>apps/cli/src/scm/backends/git/\<close>. The output formats of git are printers
    there, which the parsers are proved to invert; the snapshot is built on the parsers.
  \<^item> \<open>ChangeSets\<close> and \<open>WorkingTree\<close>: \<open>mergeTurnChangeSets.ts\<close>, \<open>rollbacks.ts\<close> and
    \<open>reconcileWithScmSnapshot.ts\<close> of \<open>packages/protocol/src/sessionChanges/\<close>, what a session changed and
    which of it is still changed in the git snapshot.
  \<^item> \<open>TaskPool\<close>: \<open>runTasksWithLimit.ts\<close> beside the applier, with every interleaving of its tasks.
  \<^item> \<open>TranscriptOrder\<close> and \<open>SessionIndex\<close>: \<open>transcriptOrdering.ts\<close> of
    \<open>apps/ui/sources/sync/domains/messages/\<close>, the ordering of a batch in \<open>sync/reducer/reducer.ts\<close>, and the
    message index of a session in \<open>sync/store/domains/messages.ts\<close>.
  \<^item> \<open>MessageReducer\<close>: \<open>sync/reducer/reducer.ts\<close>, one call of the reducer that turns raw messages and the
    agent state into the transcript, with its phases for events. Its parts are \<open>SidechainTracer\<close>
    (\<open>reducerTracer.ts\<close>, which finds the owner of every message of a subagent or holds the message back),
    \<open>SidechainPhase\<close> (\<open>phases/sidechains.ts\<close>, the chains of the subagents), \<open>PermissionPhase\<close>
    (\<open>phases/agentStatePermissions.ts\<close>), \<open>TextPhase\<close> (\<open>phases/userAndText.ts\<close>, streamed segments, usage),
    \<open>ToolLifecycle\<close> (\<open>phases/toolCalls.ts\<close>, \<open>phases/toolResults.ts\<close> and the helpers they share),
    \<open>OrphanResults\<close> (\<open>helpers/orphanToolResults.ts\<close>, results that come before their call),
    \<open>ThinkingText\<close> (\<open>helpers/thinkingText.ts\<close>) and \<open>ToolComparison\<close> (\<open>sources/utils/tools/toolComparison.ts\<close>).
    The state is \<open>ReducerState\<close> as a record, its \<open>Map\<close>s association lists; each phase is a fold of one
    definition per message or content, and the locale \<open>keeping\<close> states what all of them keep.

  \<^bold>\<open>How the parts interact.\<close> The endpoint and connection supervisors share the policy, the reasons and
  the backoff. The daemon selects accounts with \<open>AuthGroup\<close> and hands the candidate to \<open>RecoveryPolicy\<close>;
  it takes a token of \<open>ExecutionBudget\<close> per run and asks \<open>ShellAllowlist\<close> before a command. After a
  reconnect the client plans and applies the missed changes (\<open>ChangesPlanner\<close>); hidden sessions note what
  they miss (\<open>DeferredTranscript\<close>), and the open transcript resolves jumps and follows its bottom. The
  applied plan composes planner, classification, refreshes and checkpoint, and its main property spans
  all four; its refreshes run in a \<open>TaskPool\<close>. The files a session changed (\<open>ChangeSets\<close>) are looked up in
  the entries of the git snapshot (\<open>GitStatus\<close>, \<open>GitSnapshot\<close>) by \<open>WorkingTree\<close>. The message reducer orders
  its batch by \<open>TranscriptOrder\<close> and traces it; the rows of the main transcript go through the phases, those
  of subagents into their chains, and what it returns goes into the index of \<open>SessionIndex\<close>.

  \<^bold>\<open>What the lemmas show.\<close> Invariants of the reducers over any list of events (supervisors, budget,
  research run, panes, selection, deferred state, message reducer); refinements of abstract graphs (endpoint phases,
  follow mode); the interleavings of a task pool (an inductive step relation); safety of decisions (stale answers leave the supervisor as it is, but for the answer
  that resumes the cleanup of a reconnect; an account that may be selected is usable; edited rows are
  fetched again); exact specifications (a plain shell command is allowed when all the commands in it are, as an
  independent reader finds them; the cursor stops at the first change that is not settled); agreement with a
  declarative specification (jumps, optimal selection, ranges, the cursor detector); what of a traced batch belongs
  to the main transcript; parsers that invert the
  printed output of git; bounds (backoff, caps, scopes in memory);
  termination of loops that follow data (best scoring path, with cyclic parents); and concrete runs in
  which the code departs from what it says or means (\<open>stale_reconnect_wedges_the_supervisor\<close>,
  \<open>run_cap_is_per_intent\<close>, \<open>quoted_commands_escape_the_allow_list\<close>, \<open>bulk_assignment_failure_is_passed\<close>,
  \<open>pending_hint_hides_missing_messages\<close>, \<open>cyclic_hypotheses_vanish\<close>,
  \<open>same_letter_conflicts_are_missed\<close>, \<open>share_root_loses_the_separator\<close>, \<open>summary_source_is_constant\<close>,
  \<open>transcript_order_is_cyclic\<close>, \<open>moved_thinking_stays_latest\<close>, \<open>early_approved_result_is_lost\<close>,
  \<open>repeated_call_discards_the_result\<close>, \<open>null_reason_changes_at_every_call\<close>, \<open>merge_swallows_a_letter\<close>,
  \<open>blank_line_in_fence_is_lost\<close>).

  \<^bold>\<open>Idealisations.\<close> Finite numbers are exact rationals and sequence numbers, counters and times
  integers, without rounding; \<open>NaN\<close> and the infinities are kept where the code tests for them. Strings are
  lists of 8-bit characters. Objects used as dictionaries hold their own keys only. Random draws, clocks,
  locale comparison, message ids, message resolvers and the outcome of network calls are parameters of the
  definitions. Recursion is structural or has a proved termination measure, but for the tree of hypotheses, whose
  fuel (one more than the number of hypotheses) is proved enough.

  \<^bold>\<open>Not modelled.\<close> Rendering, platform and network I/O, storage, encryption, the schemas of the protocol
  package, the adapters of third-party agents, installers, native bindings and the Python research
  program. Of the modelled packages the message adapter of the research package, the store around the list selection, and the refreshes that the change applier
  starts are left out. Of the git snapshot the remotes, the hosting provider and the pull request
  are left out. Of the message reducer the conversion to view messages and the logs are left out; the clock is read
  once per call, and suggestions of a permission are tokens compared by identity. A row without a usable
  sequence number can make the order of the transcript cyclic; the properties of the order and of the index
  assume or keep rows that hold no such circle (\<open>coherent\<close>). Candidates for extension: session ordering
  and the activity accumulator.
\<close>

end
